(* ===== verification/Xrtc_Prelude.thy ===== *)
theory Xrtc_Prelude
  imports Main "HOL-Library.Word" "HOL-Library.Monad_Syntax"
begin

text \<open>
  Shared material of the development: the names of the machine types the C++ code uses,
  the conversions the language performs silently (a 64-bit value stored into an
  \<open>int\<close>, a \<open>std::string\<close> read as bytes), big-endian encoding of
  \<open>rtc_base/byte_order.h\<close>, and generic lemmas on lists and options.

  An access to memory outside a buffer is undefined in C++.  Operations that index raw
  memory return an \<open>option\<close> and \<open>None\<close> stands for such an access, so that
  memory safety is the statement that a function returns \<open>Some\<close>.
\<close>

unbundle bit_operations_syntax

named_theorems codec_simps \<open>length and decode-after-encode equations of byte encodings\<close>
named_theorems frame_simps \<open>fields an operation leaves unchanged\<close>
named_theorems inv_intros \<open>preservation of component invariants\<close>

type_synonym byte = "8 word"
type_synonym u16 = "16 word"
type_synonym u32 = "32 word"
type_synonym u64 = "64 word"
type_synonym bytes = "8 word list"

subsection \<open>Conversions of the language\<close>

definition bytes_of_string :: "string \<Rightarrow> bytes" where
  "bytes_of_string s = map of_char s"

text \<open>An \<open>int64_t\<close> value stored into an \<open>int\<close> keeps its low 32 bits, as two's
  complement.\<close>

definition to_int32 :: "int \<Rightarrow> int" where
  "to_int32 x = (x + 2 ^ 31) mod 2 ^ 32 - 2 ^ 31"

lemma to_int32_id [simp]: "- (2 ^ 31) \<le> x \<Longrightarrow> x < 2 ^ 31 \<Longrightarrow> to_int32 x = x"
  by (simp add: to_int32_def)

lemma to_int32_bounds: "- (2 ^ 31) \<le> to_int32 x \<and> to_int32 x < 2 ^ 31"
proof -
  have "0 \<le> (x + 2 ^ 31) mod 2 ^ 32" "(x + 2 ^ 31) mod 2 ^ 32 < (2 ^ 32 :: int)"
    by (rule pos_mod_sign, simp) (rule pos_mod_bound, simp)
  then show ?thesis by (simp add: to_int32_def)
qed

lemma length_bytes_of_string [simp]: "length (bytes_of_string s) = length s"
  by (simp add: bytes_of_string_def)

lemma bytes_of_string_append [simp]:
  "bytes_of_string (s @ t) = bytes_of_string s @ bytes_of_string t"
  by (simp add: bytes_of_string_def)

subsection \<open>Big-endian encoding\<close>

definition be16 :: "u16 \<Rightarrow> bytes" where
  "be16 w = [ucast (drop_bit 8 w), ucast w]"

definition be32 :: "u32 \<Rightarrow> bytes" where
  "be32 w = [ucast (drop_bit 24 w), ucast (drop_bit 16 w), ucast (drop_bit 8 w), ucast w]"

definition be64 :: "u64 \<Rightarrow> bytes" where
  "be64 w = be32 (ucast (drop_bit 32 w)) @ be32 (ucast w)"

definition of_be :: "bytes \<Rightarrow> 'a::len word" where
  "of_be bs = foldl (\<lambda>acc b. push_bit 8 acc OR ucast b) 0 bs"

lemma length_be [codec_simps, simp]:
  "length (be16 v) = 2" "length (be32 w) = 4" "length (be64 x) = 8"
  by (simp_all add: be16_def be32_def be64_def)

lemma of_be_be16 [codec_simps, simp]: "of_be (be16 w) = w"
  by (rule bit_word_eqI) (auto simp: of_be_def be16_def bit_simps)

lemma bit_of_be_be32:
  "bit (of_be (be32 v) :: 'a::len word) n \<longleftrightarrow> n < LENGTH('a) \<and> n < 32 \<and> bit v n"
  by (cases "n < 8"; cases "n < 16"; cases "n < 24")
     (auto simp: of_be_def be32_def bit_simps)

lemma of_be_be32 [codec_simps, simp]: "of_be (be32 w) = w"
  by (rule bit_word_eqI) (simp add: bit_of_be_be32)

lemma of_be_snoc: "of_be (xs @ [b]) = push_bit 8 (of_be xs) OR ucast b"
  by (simp add: of_be_def)

lemma of_be_append:
  "(of_be (xs @ ys) :: 'a::len word) = push_bit (8 * length ys) (of_be xs) OR of_be ys"
proof (induction ys rule: rev_induct)
  case Nil
  then show ?case by (simp add: of_be_def)
next
  case (snoc y ys)
  have "of_be (xs @ ys @ [y]) = (push_bit 8 (of_be (xs @ ys)) OR ucast y :: 'a word)"
    by (metis append_assoc of_be_snoc)
  then show ?case
    by (simp add: snoc.IH of_be_snoc push_bit_or or.assoc algebra_simps)
qed

lemma of_be_be64 [codec_simps, simp]: "of_be (be64 w) = w"
proof (rule bit_word_eqI)
  fix n assume "n < LENGTH(64)"
  then show "bit (of_be (be64 w) :: u64) n = bit w n"
    by (cases "n < 32") (auto simp: be64_def of_be_append bit_or_iff bit_push_bit_iff
      bit_of_be_be32 bit_simps)
qed

subsection \<open>Raw memory: rtc\_base/byte\_order.h\<close>

definition GetBE16 :: "bytes \<Rightarrow> nat \<Rightarrow> u16 option" where
  "GetBE16 d i = (if i + 2 \<le> length d then Some (of_be (take 2 (drop i d))) else None)"

definition GetBE32 :: "bytes \<Rightarrow> nat \<Rightarrow> u32 option" where
  "GetBE32 d i = (if i + 4 \<le> length d then Some (of_be (take 4 (drop i d))) else None)"

definition SetBE16 :: "bytes \<Rightarrow> nat \<Rightarrow> u16 \<Rightarrow> bytes option" where
  "SetBE16 d i v =
     (if i + 2 \<le> length d then Some (take i d @ be16 v @ drop (i + 2) d) else None)"

text \<open>\<open>memcmp(p, q, n) == 0\<close> and \<open>memcpy\<close> from an offset.\<close>

definition mem_read :: "bytes \<Rightarrow> nat \<Rightarrow> nat \<Rightarrow> bytes option" where
  "mem_read d i n = (if i + n \<le> length d then Some (take n (drop i d)) else None)"

lemma GetBE16_at [codec_simps]:
  "i = length xs \<Longrightarrow> GetBE16 (xs @ be16 v @ ys) i = Some v"
  by (simp add: GetBE16_def)

lemma GetBE32_at [codec_simps]:
  "i = length xs \<Longrightarrow> GetBE32 (xs @ be32 v @ ys) i = Some v"
  by (simp add: GetBE32_def)

lemma mem_read_at [codec_simps]:
  "i = length xs \<Longrightarrow> n = length v \<Longrightarrow> mem_read (xs @ v @ ys) i n = Some v"
  by (simp add: mem_read_def)

lemma GetBE16_Some_iff [simp]: "(\<exists>v. GetBE16 d i = Some v) \<longleftrightarrow> i + 2 \<le> length d"
  by (simp add: GetBE16_def)

lemma GetBE32_Some_iff [simp]: "(\<exists>v. GetBE32 d i = Some v) \<longleftrightarrow> i + 4 \<le> length d"
  by (simp add: GetBE32_def)

lemma GetBE16_ok: "i + 2 \<le> length d \<Longrightarrow> \<exists>v. GetBE16 d i = Some v"
  by simp

lemma GetBE32_ok: "i + 4 \<le> length d \<Longrightarrow> \<exists>v. GetBE32 d i = Some v"
  by simp

subsection \<open>Lists and options\<close>

lemma take_drop_append_exact:
  "i = length xs \<Longrightarrow> n = length v \<Longrightarrow> take n (drop i (xs @ v @ ys)) = v"
  by simp

lemma find_Some_D: "find P xs = Some x \<Longrightarrow> P x \<and> x \<in> set xs"
  by (auto simp: find_Some_iff)

declare bind_eq_Some_conv [simp]

end
