(* ===== verification/Byte_Buffer.thy ===== *)
theory Byte_Buffer
  imports Xrtc_Prelude
begin

text \<open>
  \<open>rtc_base/byte_buffer.h\<close> and \<open>byte_buffer.cc\<close>: the network-order reader and
  writer every STUN message goes through.

  A \<open>ByteBufferReader\<close> is the record of its fields; a read that returns
  \<open>false\<close> is \<open>None\<close> and leaves the caller with the reader it had, as the code
  moves \<open>start_\<close> only on success.  A \<open>ByteBufferWriter\<close> is the bytes written so
  far.  The locale \<open>byte_codec\<close> states what a pair of write and read operations
  promises its clients, and is interpreted for every width.
\<close>

subsection \<open>The writer\<close>

type_synonym byte_buffer_writer = bytes

definition WriteBytes :: "byte_buffer_writer \<Rightarrow> bytes \<Rightarrow> byte_buffer_writer" where
  "WriteBytes b val = b @ val"

definition WriteUInt8 :: "byte_buffer_writer \<Rightarrow> byte \<Rightarrow> byte_buffer_writer" where
  "WriteUInt8 b val = WriteBytes b [val]"

definition WriteUInt16 :: "byte_buffer_writer \<Rightarrow> u16 \<Rightarrow> byte_buffer_writer" where
  "WriteUInt16 b val = WriteBytes b (be16 val)"

definition WriteUInt32 :: "byte_buffer_writer \<Rightarrow> u32 \<Rightarrow> byte_buffer_writer" where
  "WriteUInt32 b val = WriteBytes b (be32 val)"

definition WriteUInt64 :: "byte_buffer_writer \<Rightarrow> u64 \<Rightarrow> byte_buffer_writer" where
  "WriteUInt64 b val = WriteBytes b (be64 val)"

definition WriteString :: "byte_buffer_writer \<Rightarrow> bytes \<Rightarrow> byte_buffer_writer" where
  "WriteString b val = WriteBytes b val"

lemmas write_defs = WriteBytes_def WriteUInt8_def WriteUInt16_def WriteUInt32_def
  WriteUInt64_def WriteString_def

subsection \<open>The reader\<close>

record byte_buffer_reader =
  rd_bytes :: bytes
  rd_start :: nat
  rd_end :: nat

definition ByteBufferReader :: "bytes \<Rightarrow> byte_buffer_reader" where
  "ByteBufferReader d = \<lparr>rd_bytes = d, rd_start = 0, rd_end = length d\<rparr>"

definition Length :: "byte_buffer_reader \<Rightarrow> nat" where
  "Length r = rd_end r - rd_start r"

definition Data :: "byte_buffer_reader \<Rightarrow> bytes" where
  "Data r = drop (rd_start r) (rd_bytes r)"

definition ReadBytes :: "byte_buffer_reader \<Rightarrow> nat \<Rightarrow> (bytes \<times> byte_buffer_reader) option" where
  "ReadBytes r len =
     (if len > Length r then None
      else Some (take len (Data r), r\<lparr>rd_start := rd_start r + len\<rparr>))"

definition ReadUInt8 :: "byte_buffer_reader \<Rightarrow> (byte \<times> byte_buffer_reader) option" where
  "ReadUInt8 r = map_option (\<lambda>(v, r'). (of_be v, r')) (ReadBytes r 1)"

definition ReadUInt16 :: "byte_buffer_reader \<Rightarrow> (u16 \<times> byte_buffer_reader) option" where
  "ReadUInt16 r = map_option (\<lambda>(v, r'). (of_be v, r')) (ReadBytes r 2)"

definition ReadUInt32 :: "byte_buffer_reader \<Rightarrow> (u32 \<times> byte_buffer_reader) option" where
  "ReadUInt32 r = map_option (\<lambda>(v, r'). (of_be v, r')) (ReadBytes r 4)"

definition ReadUInt64 :: "byte_buffer_reader \<Rightarrow> (u64 \<times> byte_buffer_reader) option" where
  "ReadUInt64 r = map_option (\<lambda>(v, r'). (of_be v, r')) (ReadBytes r 8)"

text \<open>\<open>ReadString\<close> appends to its argument, which every caller passes empty.\<close>

definition ReadString ::
  "byte_buffer_reader \<Rightarrow> bytes \<Rightarrow> nat \<Rightarrow> (bytes \<times> byte_buffer_reader) option" where
  "ReadString r val len =
     (if len > Length r then None
      else Some (val @ take len (Data r), r\<lparr>rd_start := rd_start r + len\<rparr>))"

definition Consume :: "byte_buffer_reader \<Rightarrow> nat \<Rightarrow> byte_buffer_reader option" where
  "Consume r len =
     (if len > Length r then None else Some (r\<lparr>rd_start := rd_start r + len\<rparr>))"

lemmas read_defs = ReadBytes_def ReadUInt8_def ReadUInt16_def ReadUInt32_def ReadUInt64_def
  ReadString_def Consume_def Length_def Data_def

subsection \<open>Well-formed readers and the bytes they have left\<close>

definition reader_wf :: "byte_buffer_reader \<Rightarrow> bool" where
  "reader_wf r \<longleftrightarrow> rd_start r \<le> rd_end r \<and> rd_end r = length (rd_bytes r)"

lemma reader_wf_init [inv_intros, simp]: "reader_wf (ByteBufferReader d)"
  by (simp add: reader_wf_def ByteBufferReader_def)

lemma Data_init [simp]: "Data (ByteBufferReader d) = d"
  by (simp add: Data_def ByteBufferReader_def)

lemma Length_Data: "reader_wf r \<Longrightarrow> Length r = length (Data r)"
  by (simp add: reader_wf_def Length_def Data_def)

lemma ReadBytes_wf [inv_intros]:
  "ReadBytes r n = Some (v, r') \<Longrightarrow> reader_wf r \<Longrightarrow>
     reader_wf r' \<and> Data r = v @ Data r' \<and> length v = n"
  by (auto simp: read_defs reader_wf_def add.commute split: if_splits)
     (simp add: drop_drop [symmetric] del: drop_drop)

lemma Consume_wf [inv_intros]:
  "Consume r n = Some r' \<Longrightarrow> reader_wf r \<Longrightarrow>
     reader_wf r' \<and> Data r' = drop n (Data r) \<and> n \<le> length (Data r)"
  by (auto simp: read_defs reader_wf_def add.commute split: if_splits)

lemma ReadBytes_fails: "reader_wf r \<Longrightarrow> ReadBytes r n = None \<longleftrightarrow> length (Data r) < n"
  by (simp add: ReadBytes_def Length_Data)

lemma ReadBytes_next:
  assumes "reader_wf r" and "Data r = v @ rest" and "n = length v"
  shows "\<exists>r'. ReadBytes r n = Some (v, r') \<and> reader_wf r' \<and> Data r' = rest"
proof -
  from assms have "\<not> n > Length r" by (simp add: Length_Data)
  then obtain u r' where r': "ReadBytes r n = Some (u, r')"
    by (simp add: ReadBytes_def)
  with assms ReadBytes_wf [OF r'] show ?thesis by auto
qed

subsection \<open>What a write and a read promise: the codec interface\<close>

locale byte_codec =
  fixes put :: "byte_buffer_writer \<Rightarrow> 'a \<Rightarrow> byte_buffer_writer"
    and get :: "byte_buffer_reader \<Rightarrow> ('a \<times> byte_buffer_reader) option"
    and enc :: "'a \<Rightarrow> bytes"
  assumes put_enc: "put b x = b @ enc x"
    and get_enc: "reader_wf r \<Longrightarrow> Data r = enc x @ rest \<Longrightarrow>
      \<exists>r'. get r = Some (x, r') \<and> reader_wf r' \<and> Data r' = rest"
    and get_wf: "reader_wf r \<Longrightarrow> get r = Some (x, r') \<Longrightarrow>
      reader_wf r' \<and> (\<exists>v. Data r = v @ Data r' \<and> v \<noteq> [])"
begin

lemma get_put: "\<exists>r'. get (ByteBufferReader (put [] x)) = Some (x, r') \<and> Length r' = 0"
proof -
  have "Data (ByteBufferReader (put [] x)) = enc x @ []"
    by (simp add: put_enc)
  from get_enc [OF reader_wf_init this] show ?thesis
    by (auto simp: Length_Data)
qed

lemma get_shrinks: "reader_wf r \<Longrightarrow> get r = Some (x, r') \<Longrightarrow> Length r' < Length r"
  using get_wf by (fastforce simp: Length_Data)

end

lemma byte_codec_fixed:
  assumes "\<And>x. length (enc x) = n" and "0 < n" and "\<And>x. dec (enc x) = x"
  shows "byte_codec (\<lambda>b x. WriteBytes b (enc x))
    (\<lambda>r. map_option (\<lambda>(v, r'). (dec v, r')) (ReadBytes r n)) enc"
proof unfold_locales
  fix r x and rest :: bytes
  assume "reader_wf r" "Data r = enc x @ rest"
  from ReadBytes_next [OF this, of n] assms show
    "\<exists>r'. map_option (\<lambda>(v, r'). (dec v, r')) (ReadBytes r n) = Some (x, r')
       \<and> reader_wf r' \<and> Data r' = rest"
    by auto
next
  fix r r' x
  assume "reader_wf r" "map_option (\<lambda>(v, r'). (dec v, r')) (ReadBytes r n) = Some (x, r')"
  with \<open>0 < n\<close> show "reader_wf r' \<and> (\<exists>v. Data r = v @ Data r' \<and> v \<noteq> [])"
    by (fastforce dest: ReadBytes_wf)
qed (simp add: WriteBytes_def)

lemmas codec_unfolds = WriteUInt8_def [abs_def] ReadUInt8_def [abs_def]
  WriteUInt16_def [abs_def] ReadUInt16_def [abs_def] WriteUInt32_def [abs_def]
  ReadUInt32_def [abs_def] WriteUInt64_def [abs_def] ReadUInt64_def [abs_def]

interpretation u8: byte_codec WriteUInt8 ReadUInt8 "\<lambda>v. [v]"
  unfolding codec_unfolds by (rule byte_codec_fixed) (simp_all add: of_be_def)

interpretation u16: byte_codec WriteUInt16 ReadUInt16 be16
  unfolding codec_unfolds by (rule byte_codec_fixed) simp_all

interpretation u32: byte_codec WriteUInt32 ReadUInt32 be32
  unfolding codec_unfolds by (rule byte_codec_fixed) simp_all

interpretation u64: byte_codec WriteUInt64 ReadUInt64 be64
  unfolding codec_unfolds by (rule byte_codec_fixed) simp_all

end
