(* ===== verification/Crc32.thy ===== *)
theory Crc32
  imports Xrtc_Prelude
begin

text \<open>
  \<open>rtc_base/crc32.cc\<close>: the table-driven CRC-32 that protects STUN messages (the
  FINGERPRINT attribute) and chooses the worker of a stream.  The optimised routine is
  proved equal to the bit-serial definition of the checksum, it can be computed piecewise,
  and it tells apart any two messages of equal length that differ in one byte.
\<close>

definition kCrc32Polynomial :: u32 where
  "kCrc32Polynomial = 0xEDB88320"

text \<open>One round of the inner loop of \<open>LoadCrc32Table\<close>.\<close>

definition crc32_round :: "u32 \<Rightarrow> u32" where
  "crc32_round c = (if c AND 1 \<noteq> 0 then kCrc32Polynomial XOR drop_bit 1 c else drop_bit 1 c)"

definition LoadCrc32Table :: "u32 list" where
  "LoadCrc32Table = map (\<lambda>i. (crc32_round ^^ 8) (of_nat i)) [0..<256]"

definition crc32_byte :: "u32 \<Rightarrow> byte \<Rightarrow> u32" where
  "crc32_byte c b = LoadCrc32Table ! unat ((c XOR ucast b) AND 0xFF) XOR drop_bit 8 c"

definition UpdateCrc32 :: "u32 \<Rightarrow> bytes \<Rightarrow> u32" where
  "UpdateCrc32 start buf = foldl crc32_byte (start XOR 0xFFFFFFFF) buf XOR 0xFFFFFFFF"

definition ComputeCrc32 :: "bytes \<Rightarrow> u32" where
  "ComputeCrc32 buf = UpdateCrc32 0 buf"

definition ComputeCrc32_string :: "string \<Rightarrow> u32" where
  "ComputeCrc32_string s = ComputeCrc32 (bytes_of_string s)"

subsection \<open>The checksum by its definition: one shift per message bit\<close>

definition crc32_byte_serial :: "u32 \<Rightarrow> byte \<Rightarrow> u32" where
  "crc32_byte_serial c b = (crc32_round ^^ 8) (c XOR ucast b)"

definition crc32_serial :: "bytes \<Rightarrow> u32" where
  "crc32_serial buf = NOT (foldl crc32_byte_serial (NOT 0) buf)"

lemma bit_crc32_round:
  "bit (crc32_round c) n \<longleftrightarrow> bit c (Suc n) \<noteq> (bit c 0 \<and> bit kCrc32Polynomial n)"
proof -
  have "c AND 1 \<noteq> 0 \<longleftrightarrow> bit c 0"
    by (simp add: and_one_eq bit_0 odd_iff_mod_2_eq_one)
  then show ?thesis
    by (auto simp: crc32_round_def bit_xor_iff bit_drop_bit_eq)
qed

lemma crc32_round_xor: "crc32_round (x XOR y) = crc32_round x XOR crc32_round y"
  by (rule bit_word_eqI) (auto simp: bit_crc32_round bit_xor_iff)

lemma crc32_rounds_xor: "(crc32_round ^^ n) (x XOR y) = (crc32_round ^^ n) x XOR (crc32_round ^^ n) y"
  by (induction n) (simp_all add: crc32_round_xor)

lemma crc32_rounds_shift: "(\<And>i. i < n \<Longrightarrow> \<not> bit x i) \<Longrightarrow> (crc32_round ^^ n) x = drop_bit n x"
proof (induction n arbitrary: x)
  case 0
  then show ?case by simp
next
  case (Suc n)
  have "\<not> bit x 0" using Suc.prems by blast
  then have r: "crc32_round x = drop_bit 1 x"
    by (intro bit_word_eqI) (simp add: bit_crc32_round bit_drop_bit_eq)
  have "(crc32_round ^^ n) (drop_bit 1 x) = drop_bit n (drop_bit 1 x)"
    by (rule Suc.IH) (use Suc.prems in \<open>simp add: bit_drop_bit_eq\<close>)
  then show ?case by (simp add: r funpow_Suc_right del: funpow.simps)
qed

lemma crc32_table_nth:
  "LoadCrc32Table ! unat (x AND 0xFF) = (crc32_round ^^ 8) (x AND 0xFF)"
proof -
  have "x AND 0xFF \<le> (0xFF :: u32)" by (rule word_and_le1)
  then have "unat (x AND 0xFF) \<le> unat (0xFF :: u32)" by (simp only: word_le_nat_alt)
  then have "unat (x AND 0xFF) < 256" by simp
  then show ?thesis by (simp add: LoadCrc32Table_def)
qed

lemma low_byte_mask: "(0xFF :: u32) = mask 8"
  by (simp add: mask_eq_exp_minus_1)

lemma crc32_byte_eq_serial: "crc32_byte c b = crc32_byte_serial c b"
proof -
  let ?x = "c XOR ucast b :: u32"
  have x: "?x = (?x AND mask 8) XOR (?x AND NOT (mask 8))"
    by (rule bit_word_eqI) (auto simp: bit_simps)
  have "(crc32_round ^^ 8) (?x AND NOT (mask 8)) = drop_bit 8 (?x AND NOT (mask 8))"
    by (rule crc32_rounds_shift) (simp add: bit_and_iff bit_not_iff bit_mask_iff)
  also have "\<dots> = drop_bit 8 c"
  proof (rule bit_word_eqI)
    fix n assume "n < LENGTH(32)"
    have "\<not> bit b (8 + n)" using bit_imp_le_length [of b "8 + n"] by auto
    then show "bit (drop_bit 8 (?x AND NOT (mask 8))) n = bit (drop_bit 8 c) n"
      using bit_imp_le_length [of c "8 + n"]
      by (auto simp: bit_drop_bit_eq bit_and_iff bit_not_iff bit_mask_iff bit_xor_iff
        bit_unsigned_iff)
  qed
  finally have "(crc32_round ^^ 8) ?x = (crc32_round ^^ 8) (?x AND mask 8) XOR drop_bit 8 c"
    by (subst x) (simp only: crc32_rounds_xor)
  then show ?thesis
    by (simp only: crc32_byte_def crc32_byte_serial_def crc32_table_nth) (simp only: low_byte_mask)
qed

lemma crc32_fold_append:
  "UpdateCrc32 (UpdateCrc32 start a) b = UpdateCrc32 start (a @ b)"
  by (simp add: UpdateCrc32_def xor.assoc)

subsection \<open>Sensitivity to a change\<close>

lemma crc32_round_eq_0: "crc32_round x = 0 \<Longrightarrow> x = 0"
proof (rule bit_word_eqI)
  fix n assume z: "crc32_round x = 0" and n: "n < LENGTH(32)"
  have b: "bit x (Suc m) \<longleftrightarrow> bit x 0 \<and> bit kCrc32Polynomial m" for m
    using arg_cong [OF z, of "\<lambda>w. bit w m"] by (simp add: bit_crc32_round)
  have "bit kCrc32Polynomial 31" by (simp add: kCrc32Polynomial_def bit_simps)
  with b [of 31] have "\<not> bit x 0" using bit_imp_le_length [of x 32] by auto
  with b have "\<not> bit x n" by (cases n) auto
  then show "bit x n = bit (0 :: u32) n" by simp
qed

lemma xor_left_inj: "(c :: u32) XOR x = c XOR y \<Longrightarrow> x = y"
proof -
  assume "c XOR x = c XOR y"
  then have "c XOR (c XOR x) = c XOR (c XOR y)" by simp
  then show "x = y" by (simp add: xor.assoc [symmetric])
qed

lemma crc32_round_inj: "crc32_round x = crc32_round y \<Longrightarrow> x = y"
proof -
  assume "crc32_round x = crc32_round y"
  then have "crc32_round (x XOR y) = 0" by (simp add: crc32_round_xor)
  then have "x XOR y = 0" by (rule crc32_round_eq_0)
  then have "x XOR y = x XOR x" by simp
  then show "x = y" by (metis xor_left_inj)
qed

lemma crc32_rounds_inj: "(crc32_round ^^ n) x = (crc32_round ^^ n) y \<Longrightarrow> x = y"
  by (induction n) (auto dest: crc32_round_inj)

lemma crc32_byte_inj_state: "crc32_byte c b = crc32_byte c' b \<Longrightarrow> c = c'"
  by (auto simp: crc32_byte_eq_serial crc32_byte_serial_def xor.commute [of _ "ucast b"]
      dest!: crc32_rounds_inj xor_left_inj)

lemma ucast_byte_inj: "(ucast b :: u32) = ucast b' \<Longrightarrow> b = (b' :: byte)"
proof (rule bit_word_eqI)
  fix n assume e: "(ucast b :: u32) = ucast b'" and n: "n < LENGTH(8)"
  have "bit (ucast b :: u32) n = bit (ucast b' :: u32) n" by (simp only: e)
  with n show "bit b n = bit b' n" by (simp add: bit_simps)
qed

lemma crc32_byte_inj_byte: "crc32_byte c b = crc32_byte c b' \<Longrightarrow> b = b'"
  by (rule ucast_byte_inj)
     (auto simp: crc32_byte_eq_serial crc32_byte_serial_def dest!: crc32_rounds_inj xor_left_inj)

lemma crc32_fold_inj: "foldl crc32_byte c buf = foldl crc32_byte c' buf \<Longrightarrow> c = c'"
  by (induction buf arbitrary: c c') (auto dest: crc32_byte_inj_state)

lemma xor_ones: "(c :: u32) XOR 0xFFFFFFFF = NOT c"
proof -
  have "(0xFFFFFFFF :: u32) = mask 32" by (simp add: mask_eq_exp_minus_1)
  then show ?thesis
    by (intro bit_word_eqI) (simp only: bit_xor_iff bit_not_iff bit_mask_iff, auto)
qed

lemma xor_ones_inj: "(c :: u32) XOR 0xFFFFFFFF = d XOR 0xFFFFFFFF \<Longrightarrow> c = d"
  by (metis xor.commute xor_left_inj)

lemma UpdateCrc32_change:
  assumes "UpdateCrc32 s (pre @ b # post) = UpdateCrc32 s (pre @ b' # post)"
  shows "b = b'"
proof -
  let ?c = "foldl crc32_byte (s XOR 0xFFFFFFFF) pre"
  from assms have "foldl crc32_byte (crc32_byte ?c b) post = foldl crc32_byte (crc32_byte ?c b') post"
    by (simp add: UpdateCrc32_def xor_ones_inj)
  then have "crc32_byte ?c b = crc32_byte ?c b'" by (rule crc32_fold_inj)
  then show ?thesis by (rule crc32_byte_inj_byte)
qed

text \<open>The serial form evaluates without building the table.\<close>

lemma ComputeCrc32_code [code]: "ComputeCrc32 buf = crc32_serial buf"
  by (simp add: ComputeCrc32_def UpdateCrc32_def crc32_serial_def xor_ones
      crc32_byte_eq_serial [abs_def])

theorem ComputeCrc32_eq_serial: "ComputeCrc32 buf = crc32_serial buf"
  by (rule ComputeCrc32_code)

lemma ComputeCrc32_update:
  assumes "i < length buf" and "b \<noteq> buf ! i"
  shows "ComputeCrc32 (buf[i := b]) \<noteq> ComputeCrc32 buf"
proof
  assume "ComputeCrc32 (buf[i := b]) = ComputeCrc32 buf"
  moreover have "buf = take i buf @ buf ! i # drop (Suc i) buf"
    using assms(1) by (rule id_take_nth_drop)
  moreover have "buf[i := b] = take i buf @ b # drop (Suc i) buf"
    using assms(1) by (rule upd_conv_take_nth_drop)
  ultimately have "b = buf ! i" by (metis ComputeCrc32_def UpdateCrc32_change)
  with assms(2) show False by contradiction
qed

end
