(* ===== verification/Ip_Address.thy ===== *)
theory Ip_Address
  imports Xrtc_Prelude
begin

text \<open>
  \<open>rtc_base/ip_address.h\<close> and \<open>ip_address.cc\<close>.  An \<open>IPAddress\<close> is its family
  and the sixteen bytes of its union in memory order, which is network order: the four bytes of
  an \<open>in_addr\<close> are the first four.  \<open>memcmp\<close> compares those bytes, so the order
  of addresses is the lexicographic order of byte lists, and the order on IPv4 addresses goes
  through the host-order integer.

  The lemmas: the constructors establish the invariant \<open>ip_wf\<close>, \<open>operator<\<close> is a
  strict linear order with \<open>operator==\<close> as its equality, mapping to IPv6 and
  normalising back is the identity, and truncation keeps exactly the prefix.
\<close>

datatype ip_family = AF_UNSPEC | AF_INET | AF_INET6

record ip_address =
  family :: ip_family
  u_bytes :: bytes

subsection \<open>Constructors\<close>

definition IPAddress_unspec :: ip_address where
  "IPAddress_unspec = \<lparr>family = AF_UNSPEC, u_bytes = replicate 16 0\<rparr>"

definition IPAddress_v4 :: "bytes \<Rightarrow> ip_address" where
  "IPAddress_v4 ip4 = \<lparr>family = AF_INET, u_bytes = ip4 @ replicate 12 0\<rparr>"

definition IPAddress_v6 :: "bytes \<Rightarrow> ip_address" where
  "IPAddress_v6 ip6 = \<lparr>family = AF_INET6, u_bytes = ip6\<rparr>"

definition IPAddress_host :: "u32 \<Rightarrow> ip_address" where
  "IPAddress_host ip = \<lparr>family = AF_INET, u_bytes = be32 ip @ replicate 12 0\<rparr>"

definition ipv4_address :: "ip_address \<Rightarrow> bytes" where
  "ipv4_address ip = take 4 (u_bytes ip)"

definition ipv6_address :: "ip_address \<Rightarrow> bytes" where
  "ipv6_address ip = u_bytes ip"

definition v4AddressAsHostOrderInteger :: "ip_address \<Rightarrow> u32" where
  "v4AddressAsHostOrderInteger ip =
     (if family ip = AF_INET then of_be (ipv4_address ip) else 0)"

definition overhead :: "ip_address \<Rightarrow> int" where
  "overhead ip = (case family ip of AF_INET \<Rightarrow> 20 | AF_INET6 \<Rightarrow> 40 | AF_UNSPEC \<Rightarrow> 0)"

definition Size :: "ip_address \<Rightarrow> nat" where
  "Size ip = (case family ip of AF_INET \<Rightarrow> 4 | AF_INET6 \<Rightarrow> 16 | AF_UNSPEC \<Rightarrow> 0)"

subsection \<open>Comparison\<close>

text \<open>The sign of \<open>memcmp\<close> on two buffers of one length.\<close>

fun memcmp_lt :: "bytes \<Rightarrow> bytes \<Rightarrow> bool" where
  "memcmp_lt (x # xs) (y # ys) = (x < y \<or> (x = y \<and> memcmp_lt xs ys))"
| "memcmp_lt _ _ = False"

definition ip_eq :: "ip_address \<Rightarrow> ip_address \<Rightarrow> bool" where
  "ip_eq a b =
     (if family a \<noteq> family b then False
      else if family a = AF_INET then ipv4_address a = ipv4_address b
      else if family a = AF_INET6 then ipv6_address a = ipv6_address b
      else family a = AF_UNSPEC)"

definition ip_less :: "ip_address \<Rightarrow> ip_address \<Rightarrow> bool" where
  "ip_less a b =
     (if family a \<noteq> family b then
        (if family a = AF_UNSPEC then True
         else if family a = AF_INET \<and> family b = AF_INET6 then True
         else False)
      else (case family a of
         AF_INET \<Rightarrow> (of_be (ipv4_address a) :: u32) < of_be (ipv4_address b)
       | AF_INET6 \<Rightarrow> memcmp_lt (ipv6_address a) (ipv6_address b)
       | AF_UNSPEC \<Rightarrow> False))"

definition ip_greater :: "ip_address \<Rightarrow> ip_address \<Rightarrow> bool" where
  "ip_greater a b = (\<not> ip_eq a b \<and> \<not> ip_less a b)"

subsection \<open>Classification\<close>

definition kV4MappedPrefix :: bytes where
  "kV4MappedPrefix = replicate 10 0 @ [0xFF, 0xFF] @ replicate 4 0"

definition k6To4Prefix :: bytes where "k6To4Prefix = [0x20, 0x02] @ replicate 14 0"
definition kTeredoPrefix :: bytes where "kTeredoPrefix = [0x20, 0x01] @ replicate 14 0"
definition kV4CompatibilityPrefix :: bytes where "kV4CompatibilityPrefix = replicate 16 0"
definition k6BonePrefix :: bytes where "k6BonePrefix = [0x3f, 0xfe] @ replicate 14 0"
definition kPrivateNetworkPrefix :: bytes where "kPrivateNetworkPrefix = 0xFD # replicate 15 0"
definition in6addr_any :: bytes where "in6addr_any = replicate 16 0"
definition in6addr_loopback :: bytes where "in6addr_loopback = replicate 15 0 @ [1]"
definition INADDR_ANY :: u32 where "INADDR_ANY = 0"
definition INADDR_LOOPBACK :: u32 where "INADDR_LOOPBACK = 0x7f000001"

definition IPIsHelper :: "ip_address \<Rightarrow> bytes \<Rightarrow> nat \<Rightarrow> bool" where
  "IPIsHelper ip tomatch len = (take (len div 8) (ipv6_address ip) = take (len div 8) tomatch)"

definition IPIsUnspec :: "ip_address \<Rightarrow> bool" where
  "IPIsUnspec ip = (family ip = AF_UNSPEC)"

definition IPIsAny :: "ip_address \<Rightarrow> bool" where
  "IPIsAny ip = (case family ip of
       AF_INET \<Rightarrow> ip_eq ip (IPAddress_host INADDR_ANY)
     | AF_INET6 \<Rightarrow> ip_eq ip (IPAddress_v6 in6addr_any) \<or> ip_eq ip (IPAddress_v6 kV4MappedPrefix)
     | AF_UNSPEC \<Rightarrow> False)"

definition IPIsLoopbackV4 :: "ip_address \<Rightarrow> bool" where
  "IPIsLoopbackV4 ip = (drop_bit 24 (v4AddressAsHostOrderInteger ip) = 127)"

definition IPIsLoopbackV6 :: "ip_address \<Rightarrow> bool" where
  "IPIsLoopbackV6 ip = ip_eq ip (IPAddress_v6 in6addr_loopback)"

definition IPIsLoopback :: "ip_address \<Rightarrow> bool" where
  "IPIsLoopback ip = (case family ip of
       AF_INET \<Rightarrow> IPIsLoopbackV4 ip | AF_INET6 \<Rightarrow> IPIsLoopbackV6 ip | AF_UNSPEC \<Rightarrow> False)"

definition IPIsPrivateNetworkV4 :: "ip_address \<Rightarrow> bool" where
  "IPIsPrivateNetworkV4 ip = (let ip_in_host_order = v4AddressAsHostOrderInteger ip in
     drop_bit 24 ip_in_host_order = 10 \<or>
     drop_bit 20 ip_in_host_order = (push_bit 4 172 OR 1) \<or>
     drop_bit 16 ip_in_host_order = (push_bit 8 192 OR 168))"

definition IPIsPrivateNetworkV6 :: "ip_address \<Rightarrow> bool" where
  "IPIsPrivateNetworkV6 ip = IPIsHelper ip kPrivateNetworkPrefix 8"

definition IPIsPrivateNetwork :: "ip_address \<Rightarrow> bool" where
  "IPIsPrivateNetwork ip = (case family ip of
       AF_INET \<Rightarrow> IPIsPrivateNetworkV4 ip | AF_INET6 \<Rightarrow> IPIsPrivateNetworkV6 ip
     | AF_UNSPEC \<Rightarrow> False)"

definition IPIsSharedNetworkV4 :: "ip_address \<Rightarrow> bool" where
  "IPIsSharedNetworkV4 ip =
     (drop_bit 22 (v4AddressAsHostOrderInteger ip) = (push_bit 2 100 OR 1))"

definition IPIsSharedNetwork :: "ip_address \<Rightarrow> bool" where
  "IPIsSharedNetwork ip = (if family ip = AF_INET then IPIsSharedNetworkV4 ip else False)"

definition IPIsLinkLocalV4 :: "ip_address \<Rightarrow> bool" where
  "IPIsLinkLocalV4 ip =
     (drop_bit 16 (v4AddressAsHostOrderInteger ip) = (push_bit 8 169 OR 254))"

definition IPIsLinkLocalV6 :: "ip_address \<Rightarrow> bool" where
  "IPIsLinkLocalV6 ip = (ipv6_address ip ! 0 = 0xFE \<and> (ipv6_address ip ! 1) AND 0xC0 = 0x80)"

definition IPIsLinkLocal :: "ip_address \<Rightarrow> bool" where
  "IPIsLinkLocal ip = (case family ip of
       AF_INET \<Rightarrow> IPIsLinkLocalV4 ip | AF_INET6 \<Rightarrow> IPIsLinkLocalV6 ip | AF_UNSPEC \<Rightarrow> False)"

definition IPIsPrivate :: "ip_address \<Rightarrow> bool" where
  "IPIsPrivate ip =
     (IPIsLinkLocal ip \<or> IPIsLoopback ip \<or> IPIsPrivateNetwork ip \<or> IPIsSharedNetwork ip)"

definition IPIs6Bone :: "ip_address \<Rightarrow> bool" where
  "IPIs6Bone ip = IPIsHelper ip k6BonePrefix 16"

definition IPIs6To4 :: "ip_address \<Rightarrow> bool" where
  "IPIs6To4 ip = IPIsHelper ip k6To4Prefix 16"

definition IPIsMacBased :: "ip_address \<Rightarrow> bool" where
  "IPIsMacBased ip = ((ipv6_address ip ! 8) AND 0x02 \<noteq> 0 \<and>
     ipv6_address ip ! 11 = 0xFF \<and> ipv6_address ip ! 12 = 0xFE)"

definition IPIsSiteLocal :: "ip_address \<Rightarrow> bool" where
  "IPIsSiteLocal ip = (ipv6_address ip ! 0 = 0xFE \<and> (ipv6_address ip ! 1) AND 0xC0 = 0xC0)"

definition IPIsULA :: "ip_address \<Rightarrow> bool" where
  "IPIsULA ip = ((ipv6_address ip ! 0) AND 0xFE = 0xFC)"

definition IPIsTeredo :: "ip_address \<Rightarrow> bool" where
  "IPIsTeredo ip = IPIsHelper ip kTeredoPrefix 32"

definition IPIsV4Compatibility :: "ip_address \<Rightarrow> bool" where
  "IPIsV4Compatibility ip = IPIsHelper ip kV4CompatibilityPrefix 96"

definition IPIsV4Mapped :: "ip_address \<Rightarrow> bool" where
  "IPIsV4Mapped ip = IPIsHelper ip kV4MappedPrefix 96"

definition IPAddressPrecedence :: "ip_address \<Rightarrow> int" where
  "IPAddressPrecedence ip =
     (if family ip = AF_INET then 30
      else if family ip = AF_INET6 then
        (if IPIsLoopback ip then 60
         else if IPIsULA ip then 50
         else if IPIsV4Mapped ip then 30
         else if IPIs6To4 ip then 20
         else if IPIsTeredo ip then 10
         else if IPIsV4Compatibility ip \<or> IPIsSiteLocal ip \<or> IPIs6Bone ip then 1
         else 40)
      else 0)"

subsection \<open>Conversions\<close>

definition ExtractMappedAddress :: "bytes \<Rightarrow> bytes" where
  "ExtractMappedAddress in6 = take 4 (drop 12 in6)"

definition Normalized :: "ip_address \<Rightarrow> ip_address" where
  "Normalized ip =
     (if family ip \<noteq> AF_INET6 then ip
      else if \<not> IPIsV4Mapped ip then ip
      else IPAddress_v4 (ExtractMappedAddress (ipv6_address ip)))"

definition AsIPv6Address :: "ip_address \<Rightarrow> ip_address" where
  "AsIPv6Address ip =
     (if family ip \<noteq> AF_INET then ip
      else IPAddress_v6 (take 12 kV4MappedPrefix @ ipv4_address ip))"

definition GetLoopbackIP :: "ip_family \<Rightarrow> ip_address" where
  "GetLoopbackIP f = (case f of
       AF_INET \<Rightarrow> IPAddress_host INADDR_LOOPBACK
     | AF_INET6 \<Rightarrow> IPAddress_v6 in6addr_loopback
     | AF_UNSPEC \<Rightarrow> IPAddress_unspec)"

definition GetAnyIP :: "ip_family \<Rightarrow> ip_address" where
  "GetAnyIP f = (case f of
       AF_INET \<Rightarrow> IPAddress_host INADDR_ANY
     | AF_INET6 \<Rightarrow> IPAddress_v6 in6addr_any
     | AF_UNSPEC \<Rightarrow> IPAddress_unspec)"

text \<open>The four 32-bit words of an IPv6 address, each read in network order.\<close>

definition v6_words :: "bytes \<Rightarrow> u32 list" where
  "v6_words v6 = map (\<lambda>i. of_be (take 4 (drop (4 * i) v6))) [0..<4]"

definition TruncateIP :: "ip_address \<Rightarrow> int \<Rightarrow> ip_address" where
  "TruncateIP ip len =
     (if len < 0 then IPAddress_unspec
      else if family ip = AF_INET then
        (if len > 31 then ip
         else if len = 0 then IPAddress_host INADDR_ANY
         else IPAddress_host
           (v4AddressAsHostOrderInteger ip AND push_bit (32 - nat len) 0xFFFFFFFF))
      else if family ip = AF_INET6 then
        (if len > 127 then ip
         else if len = 0 then IPAddress_v6 in6addr_any
         else let position = nat len div 32;
                  inner_length = 32 - (nat len - position * 32);
                  inner_mask = push_bit inner_length 0xFFFFFFFF in
           IPAddress_v6 (concat (map (\<lambda>i. be32
             (let w = v6_words (ipv6_address ip) ! i in
              if i = position then w AND inner_mask else if i > position then 0 else w)) [0..<4])))
      else IPAddress_unspec)"

definition single_bit_position :: "u32 \<Rightarrow> nat" where
  "single_bit_position w = (let
     z = 32;
     z = (if w \<noteq> 0 then z - 1 else z);
     z = (if w AND 0x0000FFFF \<noteq> 0 then z - 16 else z);
     z = (if w AND 0x00FF00FF \<noteq> 0 then z - 8 else z);
     z = (if w AND 0x0F0F0F0F \<noteq> 0 then z - 4 else z);
     z = (if w AND 0x33333333 \<noteq> 0 then z - 2 else z);
     z = (if w AND 0x55555555 \<noteq> 0 then z - 1 else z) in z)"

definition count_low_zeroes :: "u32 \<Rightarrow> nat" where
  "count_low_zeroes w = single_bit_position (w AND (NOT w + 1))"

text \<open>\<open>CountIPMaskBits\<close>: the word counted and the bits of the words before it; the
  lowest set bit of that word is isolated and its position found by halving.\<close>

definition mask_word :: "ip_address \<Rightarrow> (u32 \<times> nat) option" where
  "mask_word ip = (case family ip of
       AF_INET \<Rightarrow> Some (of_be (ipv4_address ip), 0)
     | AF_INET6 \<Rightarrow> (let ws = v6_words (ipv6_address ip);
           i = length (takeWhile (\<lambda>w. w = 0xFFFFFFFF) ws) in
         Some (if i < 4 then ws ! i else 0, i * 32))
     | AF_UNSPEC \<Rightarrow> None)"

definition CountIPMaskBits :: "ip_address \<Rightarrow> nat" where
  "CountIPMaskBits ip = (case mask_word ip of
       None \<Rightarrow> 0
     | Some (word_to_count, bits) \<Rightarrow>
         if word_to_count = 0 then bits else bits + (32 - count_low_zeroes word_to_count))"

subsection \<open>Bytes and words\<close>

lemma less_4_cases: "(j :: nat) < 4 \<Longrightarrow> j = 0 \<or> j = 1 \<or> j = 2 \<or> j = 3"
  by linarith

lemma bit_be32:
  "j < 4 \<Longrightarrow> n < 8 \<Longrightarrow> bit (be32 w ! j) n = bit w (8 * (3 - j) + n)"
  by (drule less_4_cases) (auto simp: be32_def bit_simps)

lemma list_length_4: "length xs = 4 \<Longrightarrow> \<exists>a b c d. xs = [a, b, c, d]"
  by (auto simp: numeral_eq_Suc length_Suc_conv)

lemma bit_byte_high: "8 \<le> n \<Longrightarrow> \<not> bit (b :: byte) n"
  using bit_imp_le_length [of b n] by auto

lemma be32_of_be [codec_simps, simp]:
  assumes "length xs = 4"
  shows "be32 (of_be xs) = xs"
proof -
  from list_length_4 [OF assms] obtain a b c d where xs: "xs = [a, b, c, d]" by blast
  show ?thesis unfolding xs
    by (simp add: be32_def of_be_def)
       (auto intro!: bit_word_eqI simp: bit_simps bit_byte_high)
qed

lemma of_be_inj_4: "length xs = 4 \<Longrightarrow> length ys = 4 \<Longrightarrow> (of_be xs :: u32) = of_be ys \<Longrightarrow> xs = ys"
  by (metis be32_of_be)

subsection \<open>The invariant of an address\<close>

definition ip_wf :: "ip_address \<Rightarrow> bool" where
  "ip_wf ip \<longleftrightarrow> length (u_bytes ip) = 16 \<and>
     (family ip = AF_INET \<longrightarrow> drop 4 (u_bytes ip) = replicate 12 0) \<and>
     (family ip = AF_UNSPEC \<longrightarrow> u_bytes ip = replicate 16 0)"

lemma ip_wf_ctor [inv_intros, simp]:
  "ip_wf IPAddress_unspec" "length a4 = 4 \<Longrightarrow> ip_wf (IPAddress_v4 a4)"
  "length a6 = 16 \<Longrightarrow> ip_wf (IPAddress_v6 a6)" "ip_wf (IPAddress_host h)"
  by (simp_all add: ip_wf_def IPAddress_unspec_def IPAddress_v4_def IPAddress_v6_def
      IPAddress_host_def)

lemma family_ctor [simp]:
  "family IPAddress_unspec = AF_UNSPEC" "family (IPAddress_v4 a4) = AF_INET"
  "family (IPAddress_v6 a6) = AF_INET6" "family (IPAddress_host h) = AF_INET"
  by (simp_all add: IPAddress_unspec_def IPAddress_v4_def IPAddress_v6_def IPAddress_host_def)

lemma ip_wf_Normalized [inv_intros]: "ip_wf ip \<Longrightarrow> ip_wf (Normalized ip)"
  by (simp add: Normalized_def ExtractMappedAddress_def ipv6_address_def ip_wf_def
      IPAddress_v4_def)

lemma ip_wf_AsIPv6Address [inv_intros]: "ip_wf ip \<Longrightarrow> ip_wf (AsIPv6Address ip)"
  by (simp add: AsIPv6Address_def kV4MappedPrefix_def ipv4_address_def ip_wf_def
      IPAddress_v6_def)

lemma ip_eq_iff: "ip_wf a \<Longrightarrow> ip_wf b \<Longrightarrow> ip_eq a b \<longleftrightarrow> a = b"
proof
  assume w: "ip_wf a" "ip_wf b" and e: "ip_eq a b"
  have "u_bytes a = u_bytes b"
  proof (cases "family a")
    case AF_INET
    with w e have "take 4 (u_bytes a) = take 4 (u_bytes b)" "drop 4 (u_bytes a) = drop 4 (u_bytes b)"
      by (auto simp: ip_eq_def ip_wf_def ipv4_address_def split: if_splits)
    then show ?thesis by (metis append_take_drop_id)
  qed (use w e in \<open>auto simp: ip_eq_def ip_wf_def ipv6_address_def split: if_splits\<close>)
  with e show "a = b" by (simp add: ip_eq_def split: if_splits)
qed (auto simp: ip_eq_def intro: ip_family.exhaust)

subsection \<open>The order of addresses\<close>

lemma memcmp_lt_irrefl: "\<not> memcmp_lt xs xs"
  by (induction xs) auto

lemma memcmp_lt_trans: "memcmp_lt xs ys \<Longrightarrow> memcmp_lt ys zs \<Longrightarrow> memcmp_lt xs zs"
proof (induction xs ys arbitrary: zs rule: memcmp_lt.induct)
  case (1 x xs y ys)
  then show ?case by (cases zs) (auto dest: order.strict_trans)
qed auto

lemma memcmp_lt_total: "length xs = length ys \<Longrightarrow> memcmp_lt xs ys \<or> xs = ys \<or> memcmp_lt ys xs"
  by (induction xs ys rule: list_induct2) auto

lemma ip_less_irrefl: "\<not> ip_less a a"
  by (simp add: ip_less_def memcmp_lt_irrefl split: ip_family.split)

lemma ip_less_trans: "ip_less a b \<Longrightarrow> ip_less b c \<Longrightarrow> ip_less a c"
  by (cases "family a"; cases "family b"; cases "family c")
     (auto simp: ip_less_def intro: memcmp_lt_trans)

lemma ip_less_total:
  assumes "ip_wf a" "ip_wf b"
  shows "ip_less a b \<or> a = b \<or> ip_less b a"
proof -
  have "ip_less a b \<or> ip_eq a b \<or> ip_less b a"
    using assms memcmp_lt_total [of "u_bytes a" "u_bytes b"]
    by (cases "family a"; cases "family b")
       (auto simp: ip_less_def ip_eq_def ip_wf_def ipv4_address_def ipv6_address_def
         intro: of_be_inj_4)
  with assms show ?thesis by (simp add: ip_eq_iff)
qed

lemma ip_greater_iff: "ip_wf a \<Longrightarrow> ip_wf b \<Longrightarrow> ip_greater a b \<longleftrightarrow> ip_less b a"
  using ip_less_total [of a b] ip_less_trans ip_less_irrefl
  by (auto simp: ip_greater_def ip_eq_iff)

subsection \<open>Mapping between the families\<close>

lemma AsIPv6Address_mapped: "family ip = AF_INET \<Longrightarrow> IPIsV4Mapped (AsIPv6Address ip)"
  by (simp add: AsIPv6Address_def IPIsV4Mapped_def IPIsHelper_def IPAddress_v6_def
      ipv6_address_def kV4MappedPrefix_def)

theorem Normalized_AsIPv6Address:
  assumes "ip_wf ip" "family ip = AF_INET"
  shows "Normalized (AsIPv6Address ip) = ip"
proof -
  have "u_bytes ip = take 4 (u_bytes ip) @ replicate 12 0"
    using assms by (metis append_take_drop_id ip_wf_def)
  then have "ip = IPAddress_v4 (ipv4_address ip)"
    using assms by (cases ip) (simp add: IPAddress_v4_def ipv4_address_def)
  moreover have "Normalized (AsIPv6Address ip) = IPAddress_v4 (ipv4_address ip)"
    using assms AsIPv6Address_mapped [OF assms(2)]
    by (simp add: Normalized_def AsIPv6Address_def ExtractMappedAddress_def ipv6_address_def
        IPAddress_v6_def kV4MappedPrefix_def ipv4_address_def ip_wf_def)
  ultimately show ?thesis by simp
qed

theorem Normalized_AsIPv6Address_witness:
  "Normalized (AsIPv6Address (IPAddress_v4 [10, 0, 0, 7])) = IPAddress_v4 [10, 0, 0, 7]"
  by (rule Normalized_AsIPv6Address) (simp_all add: ip_wf_def IPAddress_v4_def)

subsection \<open>Truncation to a prefix\<close>

text \<open>Bit \<open>k\<close> of an address, counted from its most significant bit on the wire.\<close>

definition ip_bit :: "ip_address \<Rightarrow> nat \<Rightarrow> bool" where
  "ip_bit ip k = bit (u_bytes ip ! (k div 8)) (7 - k mod 8)"

lemma bit_be32_wire:
  "k < 32 \<Longrightarrow> bit (be32 w ! (k div 8)) (7 - k mod 8) = bit w (31 - k)"
proof -
  assume k: "k < 32"
  have "8 * (3 - k div 8) + (7 - k mod 8) = 31 - k"
    using k div_mult_mod_eq [of k 8] by (simp add: diff_mult_distrib2)
  with k show ?thesis by (subst bit_be32) (auto simp: less_mult_imp_div_less)
qed

lemma bit_high_mask: "n < 32 \<Longrightarrow> bit (push_bit m (0xFFFFFFFF :: u32)) n \<longleftrightarrow> m \<le> n"
proof -
  have "(0xFFFFFFFF :: u32) = mask 32" by (simp add: mask_eq_exp_minus_1)
  then show "n < 32 \<Longrightarrow> ?thesis" by (simp only: bit_push_bit_iff bit_mask_iff) auto
qed

lemma TruncateIP_v4_bit:
  assumes "ip_wf ip" "family ip = AF_INET" "0 \<le> len" "k < 32"
  shows "ip_bit (TruncateIP ip len) k \<longleftrightarrow> int k < len \<and> ip_bit ip k"
proof -
  have host: "ip_bit (IPAddress_host h) k = bit h (31 - k)" for h
    using assms(4) bit_be32_wire [of k h]
    by (simp add: ip_bit_def IPAddress_host_def nth_append less_mult_imp_div_less)
  have self: "ip_bit ip k = bit (v4AddressAsHostOrderInteger ip) (31 - k)"
  proof -
    have "k div 8 < 4" using assms(4) by (simp add: less_mult_imp_div_less)
    then have "u_bytes ip ! (k div 8) = take 4 (u_bytes ip) ! (k div 8)" by simp
    also have "\<dots> = be32 (v4AddressAsHostOrderInteger ip) ! (k div 8)"
      using assms by (simp add: v4AddressAsHostOrderInteger_def ipv4_address_def ip_wf_def)
    finally show ?thesis using assms(4) bit_be32_wire by (simp add: ip_bit_def)
  qed
  have "bit (push_bit (32 - nat len) (0xFFFFFFFF :: u32)) (31 - k) \<longleftrightarrow> int k < len" if "len \<le> 31"
    using bit_high_mask [of "31 - k" "32 - nat len"] that assms by auto
  then show ?thesis
    using assms by (auto simp: TruncateIP_def host self bit_and_iff INADDR_ANY_def)
qed

lemma bit_be32s_wire:
  "k < 32 * length ws \<Longrightarrow>
     bit (concat (map be32 ws) ! (k div 8)) (7 - k mod 8) = bit (ws ! (k div 32)) (31 - k mod 32)"
proof (induction ws arbitrary: k)
  case Nil
  then show ?case by simp
next
  case (Cons w ws)
  show ?case
  proof (cases "k < 32")
    case True
    then have "k div 8 < 4" by (simp add: less_mult_imp_div_less)
    with True show ?thesis using bit_be32_wire [of k w] by (simp add: nth_append)
  next
    case False
    then obtain j where k: "k = j + 32" by (metis add.commute le_Suc_ex not_less)
    with Cons.prems have "j < 32 * length ws" by simp
    moreover have "k div 8 = j div 8 + 4" "k mod 8 = j mod 8" "k div 32 = Suc (j div 32)"
      "k mod 32 = j mod 32"
      using div_plus_div_distrib_dvd_right [of 8 32 j] mod_mult_self2 [of j 8 4]
      by (simp_all add: k)
    ultimately show ?thesis using Cons.IH [of j] by (simp add: nth_append)
  qed
qed

lemma four_words: "[0..<4] = [0, 1, 2, 3]"
  by (simp add: upt_rec)

lemma v6_words_inverse:
  assumes "length v6 = 16"
  shows "concat (map be32 (v6_words v6)) = v6"
proof -
  have "drop 8 v6 = take 4 (drop 8 v6) @ drop 12 v6" "drop 4 v6 = take 4 (drop 4 v6) @ drop 8 v6"
    using append_take_drop_id [of 4 "drop 8 v6"] append_take_drop_id [of 4 "drop 4 v6"] by simp_all
  then have "v6 = take 4 v6 @ take 4 (drop 4 v6) @ take 4 (drop 8 v6) @ drop 12 v6"
    by (metis append_take_drop_id)
  moreover have "take 4 (drop 12 v6) = drop 12 v6" using assms by simp
  ultimately show ?thesis using assms by (simp add: v6_words_def four_words)
qed

lemma TruncateIP_v6_bit:
  assumes "ip_wf ip" "family ip = AF_INET6" "0 \<le> len" "k < 128"
  shows "ip_bit (TruncateIP ip len) k \<longleftrightarrow> int k < len \<and> ip_bit ip k"
proof -
  let ?ws = "v6_words (u_bytes ip)"
  have len_ws: "length ?ws = 4" by (simp add: v6_words_def)
  have i: "k div 32 < 4" using assms(4) by (simp add: less_mult_imp_div_less)
  have self: "ip_bit ip k = bit (?ws ! (k div 32)) (31 - k mod 32)"
    using assms bit_be32s_wire [of k ?ws] v6_words_inverse [of "u_bytes ip"]
    by (simp add: ip_bit_def ip_wf_def len_ws)
  show ?thesis
  proof (cases "0 < len \<and> len \<le> 127")
    case True
    let ?p = "nat len div 32"
    let ?m = "push_bit (32 - (nat len - ?p * 32)) (0xFFFFFFFF :: u32)"
    let ?f = "\<lambda>i. let w = ?ws ! i in if i = ?p then w AND ?m else if i > ?p then 0 else w"
    have tr: "TruncateIP ip len = IPAddress_v6 (concat (map be32 (map ?f [0..<4])))"
      using True assms by (simp add: TruncateIP_def ipv6_address_def Let_def comp_def)
    have "k < 32 * length (map ?f [0..<4])" using assms(4) by simp
    then have "ip_bit (TruncateIP ip len) k = bit (map ?f [0..<4] ! (k div 32)) (31 - k mod 32)"
      unfolding tr ip_bit_def
      by (simp only: IPAddress_v6_def ip_address.simps bit_be32s_wire)
    also have "map ?f [0..<4] ! (k div 32) = ?f (k div 32)"
      using i by (subst nth_map) (simp_all only: length_upt nth_upt, simp_all add: Let_def)
    finally have "ip_bit (TruncateIP ip len) k = bit (?f (k div 32)) (31 - k mod 32)" .
    moreover have "bit ?m (31 - k mod 32) \<longleftrightarrow> k mod 32 < nat len mod 32"
      using bit_high_mask [of "31 - k mod 32" "32 - (nat len - ?p * 32)"]
        mod_less_divisor [of 32 k] by (simp add: minus_div_mult_eq_mod) linarith
    moreover have "k div 32 = ?p \<Longrightarrow> k mod 32 < nat len mod 32 \<longleftrightarrow> int k < len"
      using div_mult_mod_eq [of k 32] div_mult_mod_eq [of "nat len" 32] True by linarith
    moreover have "k div 32 < ?p \<Longrightarrow> int k < len" "k div 32 > ?p \<Longrightarrow> \<not> int k < len"
      using True by (auto simp: div_less_iff_less_mult div_le_mono not_less dest: leD)
    ultimately show ?thesis using self by (auto simp: Let_def bit_and_iff)
  qed (use assms in \<open>auto simp: TruncateIP_def ip_bit_def IPAddress_v6_def in6addr_any_def\<close>)
qed

subsection \<open>Counting the bits of a netmask\<close>

lemma isolate_lowest_bit:
  fixes w :: u32
  assumes "bit w k" and "\<And>i. i < k \<Longrightarrow> \<not> bit w i"
  shows "w AND (NOT w + 1) = 2 ^ k"
proof -
  let ?h = "NOT w AND NOT (mask k)"
  have "NOT w = ?h OR mask k"
    by (rule bit_word_eqI) (use assms in \<open>auto simp: bit_simps\<close>)
  also have "\<dots> = ?h + mask k"
    by (rule disjunctive_add_eq_or [symmetric]) (auto intro!: bit_word_eqI simp: bit_simps)
  finally have "NOT w + 1 = (?h + mask k) + 1" by (rule arg_cong)
  also have "\<dots> = ?h + (mask k + 1)" by (rule add.assoc)
  also have "mask k + 1 = (2 ^ k :: u32)" by (simp add: mask_eq_exp_minus_1)
  also have "?h + 2 ^ k = ?h OR 2 ^ k"
    by (rule disjunctive_add_eq_or)
       (use assms(1) in \<open>auto intro!: bit_word_eqI simp: bit_simps\<close>)
  finally have e: "NOT w + 1 = ?h OR 2 ^ k" .
  show ?thesis
  proof (rule bit_word_eqI)
    fix n assume "n < LENGTH(32)"
    then show "bit (w AND (NOT w + 1)) n = bit (2 ^ k :: u32) n"
      unfolding e using assms(1) assms(2) [of n]
      by (simp add: bit_and_iff bit_or_iff bit_not_iff bit_mask_iff bit_exp_iff) auto
  qed
qed

lemma single_bit_position_exp: "k < 32 \<Longrightarrow> single_bit_position (2 ^ k) = k"
proof -
  have "\<forall>k \<in> set [0..<32]. single_bit_position (2 ^ k) = k" by code_simp
  then show "k < 32 \<Longrightarrow> ?thesis" by simp
qed

lemma count_low_zeroes_lowest:
  assumes "bit w k" and "\<And>i. i < k \<Longrightarrow> \<not> bit w i"
  shows "count_low_zeroes w = k"
proof -
  have "k < 32" using assms(1) bit_imp_le_length [of w k] by simp
  then show ?thesis
    by (simp add: count_low_zeroes_def isolate_lowest_bit [OF assms] single_bit_position_exp)
qed

theorem CountIPMaskBits_v4:
  assumes "family ip = AF_INET"
    and "bit (v4AddressAsHostOrderInteger ip) k"
    and "\<And>i. i < k \<Longrightarrow> \<not> bit (v4AddressAsHostOrderInteger ip) i"
  shows "CountIPMaskBits ip = 32 - k"
proof -
  have "v4AddressAsHostOrderInteger ip \<noteq> 0" using assms(2) by auto
  with count_low_zeroes_lowest [OF assms(2,3)] assms(1) show ?thesis
    by (simp add: CountIPMaskBits_def mask_word_def v4AddressAsHostOrderInteger_def)
qed

theorem CountIPMaskBits_v4_witness: "CountIPMaskBits (IPAddress_v4 [255, 0, 255, 0]) = 32 - 8"
proof (rule CountIPMaskBits_v4)
  have v: "v4AddressAsHostOrderInteger (IPAddress_v4 [255, 0, 255, 0]) = 0xFF00FF00"
    by code_simp
  show "bit (v4AddressAsHostOrderInteger (IPAddress_v4 [255, 0, 255, 0])) 8"
    unfolding v by simp
  show "\<not> bit (v4AddressAsHostOrderInteger (IPAddress_v4 [255, 0, 255, 0])) i" if "i < 8" for i
    using that unfolding v by (auto simp: less_Suc_eq numeral_eq_Suc)
qed (simp add: IPAddress_v4_def)

theorem TruncateIP_bits:
  assumes "ip_wf ip" "0 \<le> len" "k < (if family ip = AF_INET then 32 else 128)" "family ip \<noteq> AF_UNSPEC"
  shows "ip_bit (TruncateIP ip len) k \<longleftrightarrow> int k < len \<and> ip_bit ip k"
  using assms TruncateIP_v4_bit [of ip len k] TruncateIP_v6_bit [of ip len k]
  by (cases "family ip") simp_all

theorem TruncateIP_bits_witness:
  "ip_bit (TruncateIP (IPAddress_v4 [192, 168, 7, 1]) 16) 15 \<longleftrightarrow>
     int 15 < 16 \<and> ip_bit (IPAddress_v4 [192, 168, 7, 1]) 15"
  by (rule TruncateIP_bits) (simp_all add: ip_wf_def IPAddress_v4_def)

end
