(* ===== verification/Socket_Address.thy ===== *)
theory Socket_Address
  imports Ip_Address
begin

text \<open>
  \<open>rtc_base/socket_address.cc\<close>: an address with its port, and the comparisons by which
  \<open>UDPPort\<close> keys its \<open>std::map\<close> of connections.  \<open>std::map\<close> is a list sorted
  by the comparison; two keys are the same when neither is less.  What the container needs of
  its comparison is the locale \<open>map_order\<close>; its interpretation on
  \<open>SocketAddress::operator<\<close> is the proof that connections are found under exactly the
  addresses \<open>operator==\<close> identifies.
\<close>

record socket_address =
  hostname :: string
  sa_ip :: ip_address
  sa_port :: u16
  scope_id :: int
  literal :: bool

definition SocketAddress_nil :: socket_address where
  "SocketAddress_nil =
     \<lparr>hostname = [], sa_ip = IPAddress_unspec, sa_port = 0, scope_id = 0, literal = False\<rparr>"

definition SetIP :: "ip_address \<Rightarrow> socket_address \<Rightarrow> socket_address" where
  "SetIP ip a = a\<lparr>hostname := [], literal := False, sa_ip := ip, scope_id := 0\<rparr>"

text \<open>\<open>IPFromString\<close> is \<open>inet_pton\<close> of the C library for each family, a
  parameter; it yields the address of a literal.\<close>

definition SetIP_name ::
  "(string \<Rightarrow> ip_address option) \<Rightarrow> string \<Rightarrow> socket_address \<Rightarrow> socket_address" where
  "SetIP_name ip_from_string name a = (case ip_from_string name of
       Some ip \<Rightarrow> a\<lparr>hostname := name, literal := True, sa_ip := ip, scope_id := 0\<rparr>
     | None \<Rightarrow> a\<lparr>hostname := name, literal := False, sa_ip := IPAddress_unspec, scope_id := 0\<rparr>)"

definition SetPort :: "int \<Rightarrow> socket_address \<Rightarrow> socket_address" where
  "SetPort p a = a\<lparr>sa_port := word_of_int p\<rparr>"

definition SetResolvedIP :: "ip_address \<Rightarrow> socket_address \<Rightarrow> socket_address" where
  "SetResolvedIP ip a = a\<lparr>sa_ip := ip, scope_id := 0\<rparr>"

definition SocketAddress_ip :: "ip_address \<Rightarrow> int \<Rightarrow> socket_address" where
  "SocketAddress_ip ip p = SetPort p (SetIP ip SocketAddress_nil)"

definition sa_IsNil :: "socket_address \<Rightarrow> bool" where
  "sa_IsNil a = (hostname a = [] \<and> IPIsUnspec (sa_ip a) \<and> sa_port a = 0)"

definition sa_IsComplete :: "socket_address \<Rightarrow> bool" where
  "sa_IsComplete a = (\<not> IPIsAny (sa_ip a) \<and> sa_port a \<noteq> 0)"

definition IsUnresolvedIP :: "socket_address \<Rightarrow> bool" where
  "IsUnresolvedIP a = (IPIsUnspec (sa_ip a) \<and> \<not> literal a \<and> hostname a \<noteq> [])"

definition EqualIPs :: "socket_address \<Rightarrow> socket_address \<Rightarrow> bool" where
  "EqualIPs a b = (ip_eq (sa_ip a) (sa_ip b) \<and>
     ((\<not> IPIsAny (sa_ip a) \<and> \<not> IPIsUnspec (sa_ip a)) \<or> hostname a = hostname b))"

definition EqualPorts :: "socket_address \<Rightarrow> socket_address \<Rightarrow> bool" where
  "EqualPorts a b = (sa_port a = sa_port b)"

definition sa_eq :: "socket_address \<Rightarrow> socket_address \<Rightarrow> bool" where
  "sa_eq a b = (EqualIPs a b \<and> EqualPorts a b)"

text \<open>\<open>std::string::operator<\<close>: lexicographic on the character codes.\<close>

fun string_less :: "string \<Rightarrow> string \<Rightarrow> bool" where
  "string_less [] (y # ys) = True"
| "string_less (x # xs) (y # ys) =
     ((of_char x :: byte) < of_char y \<or> (x = y \<and> string_less xs ys))"
| "string_less _ [] = False"

definition sa_less :: "socket_address \<Rightarrow> socket_address \<Rightarrow> bool" where
  "sa_less a b =
     (if \<not> ip_eq (sa_ip a) (sa_ip b) then ip_less (sa_ip a) (sa_ip b)
      else if (IPIsAny (sa_ip a) \<or> IPIsUnspec (sa_ip a)) \<and> hostname a \<noteq> hostname b
      then string_less (hostname a) (hostname b)
      else sa_port a < sa_port b)"

definition EmptySocketAddressWithFamily :: "ip_family \<Rightarrow> socket_address" where
  "EmptySocketAddressWithFamily f = (case f of
       AF_INET \<Rightarrow> SocketAddress_ip (IPAddress_host INADDR_ANY) 0
     | AF_INET6 \<Rightarrow> SocketAddress_ip (IPAddress_v6 in6addr_any) 0
     | AF_UNSPEC \<Rightarrow> SocketAddress_nil)"

subsection \<open>Socket structures\<close>

text \<open>A \<open>sockaddr\_storage\<close>: the family decides which of \<open>sockaddr_in\<close> and
  \<open>sockaddr_in6\<close> the bytes are; the port is kept in network order, here as its two
  bytes.\<close>

record sockaddr_storage =
  ss_family :: ip_family
  ss_port :: bytes
  ss_addr :: bytes
  ss_scope :: int

definition ToSockAddrStorageHelper ::
  "ip_address \<Rightarrow> u16 \<Rightarrow> int \<Rightarrow> sockaddr_storage \<times> nat" where
  "ToSockAddrStorageHelper ip p sid = (case family ip of
       AF_INET6 \<Rightarrow> (\<lparr>ss_family = AF_INET6, ss_port = be16 p, ss_addr = ipv6_address ip,
                     ss_scope = sid\<rparr>, 28)
     | AF_INET \<Rightarrow> (\<lparr>ss_family = AF_INET, ss_port = be16 p, ss_addr = ipv4_address ip,
                     ss_scope = 0\<rparr>, 16)
     | AF_UNSPEC \<Rightarrow> (\<lparr>ss_family = AF_UNSPEC, ss_port = [0, 0], ss_addr = [], ss_scope = 0\<rparr>, 0))"

definition ToSockAddrStorage :: "socket_address \<Rightarrow> sockaddr_storage \<times> nat" where
  "ToSockAddrStorage a = ToSockAddrStorageHelper (sa_ip a) (sa_port a) (scope_id a)"

definition ToDualStackSockAddrStorage :: "socket_address \<Rightarrow> sockaddr_storage \<times> nat" where
  "ToDualStackSockAddrStorage a =
     ToSockAddrStorageHelper (AsIPv6Address (sa_ip a)) (sa_port a) (scope_id a)"

definition SocketAddressFromSockAddrStorage :: "sockaddr_storage \<Rightarrow> socket_address option" where
  "SocketAddressFromSockAddrStorage s = (case ss_family s of
       AF_INET \<Rightarrow> Some (SocketAddress_ip (IPAddress_v4 (ss_addr s)) (uint (of_be (ss_port s) :: u16)))
     | AF_INET6 \<Rightarrow> Some ((SocketAddress_ip (IPAddress_v6 (ss_addr s))
           (uint (of_be (ss_port s) :: u16)))\<lparr>scope_id := ss_scope s\<rparr>)
     | AF_UNSPEC \<Rightarrow> None)"

subsection \<open>std::map over a comparison\<close>

fun map_find :: "('k \<Rightarrow> 'k \<Rightarrow> bool) \<Rightarrow> 'k \<Rightarrow> ('k \<times> 'v) list \<Rightarrow> 'v option" where
  "map_find lt k [] = None"
| "map_find lt k ((k', v) # m) =
     (if lt k' k then map_find lt k m else if lt k k' then None else Some v)"

text \<open>Store \<open>v\<close> under \<open>k\<close>, keeping the key that is there if an equivalent one
  is.\<close>

fun map_assign :: "('k \<Rightarrow> 'k \<Rightarrow> bool) \<Rightarrow> 'k \<Rightarrow> 'v \<Rightarrow> ('k \<times> 'v) list \<Rightarrow> ('k \<times> 'v) list" where
  "map_assign lt k v [] = [(k, v)]"
| "map_assign lt k v ((k', v') # m) =
     (if lt k' k then (k', v') # map_assign lt k v m
      else if lt k k' then (k, v) # (k', v') # m
      else (k', v) # m)"

fun map_erase :: "('k \<Rightarrow> 'k \<Rightarrow> bool) \<Rightarrow> 'k \<Rightarrow> ('k \<times> 'v) list \<Rightarrow> ('k \<times> 'v) list" where
  "map_erase lt k [] = []"
| "map_erase lt k ((k', v') # m) =
     (if lt k' k then (k', v') # map_erase lt k m
      else if lt k k' then (k', v') # m
      else m)"

definition map_sorted :: "('k \<Rightarrow> 'k \<Rightarrow> bool) \<Rightarrow> ('k \<times> 'v) list \<Rightarrow> bool" where
  "map_sorted lt m = sorted_wrt lt (map fst m)"

locale map_order =
  fixes wf :: "'k \<Rightarrow> bool" and lt eq :: "'k \<Rightarrow> 'k \<Rightarrow> bool"
  assumes lt_irrefl: "\<not> lt a a"
    and lt_trans: "lt a b \<Longrightarrow> lt b c \<Longrightarrow> lt a c"
    and neither_iff: "wf a \<Longrightarrow> wf b \<Longrightarrow> \<not> lt a b \<and> \<not> lt b a \<longleftrightarrow> eq a b"
    and eq_lt: "wf a \<Longrightarrow> wf b \<Longrightarrow> wf c \<Longrightarrow> eq a b \<Longrightarrow> (lt a c \<longleftrightarrow> lt b c) \<and> (lt c a \<longleftrightarrow> lt c b)"
begin

definition keys_wf :: "('k \<times> 'v) list \<Rightarrow> bool" where
  "keys_wf m \<longleftrightarrow> (\<forall>k \<in> fst ` set m. wf k)"

lemma assign_keys: "fst ` set (map_assign lt k v m) \<subseteq> insert k (fst ` set m)"
  by (induction m rule: map_assign.induct [of _ lt k v]) auto

lemma erase_keys: "set (map_erase lt k m) \<subseteq> set m"
  by (induction m rule: map_erase.induct [of _ lt k]) auto

lemma assign_wf: "wf k \<Longrightarrow> keys_wf m \<Longrightarrow> keys_wf (map_assign lt k v m)"
  using assign_keys [of k v m] unfolding keys_wf_def by blast

lemma assign_sorted: "map_sorted lt m \<Longrightarrow> map_sorted lt (map_assign lt k v m)"
proof (induction m)
  case (Cons p m)
  obtain k' v' where p: "p = (k', v')" by force
  from Cons have a: "\<forall>x \<in> fst ` set m. lt k' x" and s: "map_sorted lt (map_assign lt k v m)"
    by (auto simp: map_sorted_def p)
  have "lt k' k \<Longrightarrow> \<forall>x \<in> fst ` set (map_assign lt k v m). lt k' x"
    using assign_keys [of k v m] a by blast
  with a s Cons.prems show ?case
    by (auto simp: map_sorted_def p intro: lt_trans)
qed (simp add: map_sorted_def)

lemma erase_sorted: "map_sorted lt m \<Longrightarrow> map_sorted lt (map_erase lt k m)"
proof (induction m)
  case (Cons p m)
  with erase_keys [of k m] show ?case
    by (cases p) (fastforce simp: map_sorted_def)
qed (simp add: map_sorted_def)

lemma find_skip: "\<forall>x \<in> fst ` set m. lt k x \<Longrightarrow> map_find lt k m = None"
proof (cases m)
  case (Cons p m')
  assume "\<forall>x \<in> fst ` set m. lt k x"
  with Cons have "lt k (fst p)" by simp
  moreover from this have "\<not> lt (fst p) k" using lt_trans lt_irrefl by blast
  ultimately show ?thesis by (cases p) (simp add: Cons)
qed simp

theorem find_assign:
  assumes "wf k" "wf j" "keys_wf m" "map_sorted lt m"
  shows "map_find lt j (map_assign lt k v m) = (if eq k j then Some v else map_find lt j m)"
  using assms(3,4)
proof (induction m)
  case Nil
  show ?case using neither_iff [OF assms(1,2)] by auto
next
  case (Cons p m)
  obtain k' v' where p: "p = (k', v')" by force
  have w: "wf k'" "keys_wf m" using Cons.prems by (auto simp: keys_wf_def p)
  have s: "map_sorted lt m" "\<forall>x \<in> fst ` set m. lt k' x"
    using Cons.prems by (auto simp: map_sorted_def p)
  note IH = Cons.IH [OF w(2) s(1)]
  have kj: "eq k j \<Longrightarrow> (lt k' k \<longleftrightarrow> lt k' j) \<and> (lt k k' \<longleftrightarrow> lt j k')"
    using eq_lt [OF assms(1,2) w(1)] by blast
  have nkj: "\<not> eq k j \<longleftrightarrow> lt k j \<or> lt j k" using neither_iff [OF assms(1,2)] by blast
  have same: "\<not> lt k' k \<Longrightarrow> \<not> lt k k' \<Longrightarrow> (lt k' j \<longleftrightarrow> lt k j) \<and> (lt j k' \<longleftrightarrow> lt j k)"
    using eq_lt [OF w(1) assms(1,2)] neither_iff [OF w(1) assms(1)] by blast
  consider (after) "lt k' k" | (before) "\<not> lt k' k" "lt k k'" | (same) "\<not> lt k' k" "\<not> lt k k'"
    by blast
  then show ?case
  proof cases
    case after
    then show ?thesis using IH kj by (simp add: p)
  next
    case before
    then have "lt j k \<Longrightarrow> lt j k' \<and> \<not> lt k' j"
      using lt_trans lt_irrefl by blast
    with before nkj kj show ?thesis by (auto simp: p)
  next
    case same
    with nkj \<open>\<not> lt k' k \<Longrightarrow> \<not> lt k k' \<Longrightarrow> _\<close> show ?thesis by (auto simp: p)
  qed
qed

end

subsection \<open>The comparison of socket addresses is such an order\<close>

definition sa_wf :: "socket_address \<Rightarrow> bool" where
  "sa_wf a \<longleftrightarrow> ip_wf (sa_ip a)"

lemma string_less_irrefl: "\<not> string_less s s"
  by (induction s) auto

lemma string_less_trans: "string_less a b \<Longrightarrow> string_less b c \<Longrightarrow> string_less a c"
proof (induction a b arbitrary: c rule: string_less.induct)
  case (1 y ys)
  then show ?case by (cases c) auto
next
  case (2 x xs y ys)
  then show ?case by (cases c) (auto dest: order.strict_trans)
qed auto

lemma of_char_byte_inj: "(of_char c :: byte) = of_char d \<longleftrightarrow> c = d"
proof -
  have "unat (of_char c :: byte) = (of_char c :: nat)" for c
  proof -
    have "unat (of_nat (of_char c) :: byte) = (of_char c :: nat)" by (simp add: unat_of_nat)
    then show ?thesis by (simp only: of_nat_of_char)
  qed
  then show ?thesis by (metis of_char_eq_iff)
qed

lemma string_less_total: "string_less a b \<or> a = b \<or> string_less b a"
proof (induction a arbitrary: b)
  case Nil
  then show ?case by (cases b) auto
next
  case (Cons x xs)
  then show ?case
    by (cases b) (auto simp: of_char_byte_inj dest: linorder_less_linear [THEN disjE, rotated])
qed

lemma sa_less_irrefl: "\<not> sa_less a a"
  by (simp add: sa_less_def ip_less_irrefl)

lemma ip_eq_cong:
  assumes "ip_eq a b"
  shows "ip_less a c \<longleftrightarrow> ip_less b c" "ip_less c a \<longleftrightarrow> ip_less c b" "ip_eq a c \<longleftrightarrow> ip_eq b c"
    "ip_eq c a \<longleftrightarrow> ip_eq c b" "IPIsUnspec a \<longleftrightarrow> IPIsUnspec b" "IPIsAny a \<longleftrightarrow> IPIsAny b"
  using assms
  by (cases "family a"; simp add: ip_eq_def ip_less_def IPIsUnspec_def IPIsAny_def split: if_splits)+

lemma sa_less_trans:
  assumes ab: "sa_less a b" and bc: "sa_less b c"
  shows "sa_less a c"
proof (cases "ip_eq (sa_ip a) (sa_ip b)")
  case True
  note cong = ip_eq_cong [OF True]
  show ?thesis
  proof (cases "ip_eq (sa_ip b) (sa_ip c)")
    case eq: True
    show ?thesis
      using ab bc True eq cong string_less_trans [of "hostname a" "hostname b" "hostname c"]
        string_less_irrefl
      by (auto simp: sa_less_def split: if_splits)
  qed (use bc cong in \<open>simp add: sa_less_def\<close>)
next
  case False
  with ab have l: "ip_less (sa_ip a) (sa_ip b)" by (simp add: sa_less_def)
  show ?thesis
  proof (cases "ip_eq (sa_ip b) (sa_ip c)")
    case True
    with l False ip_eq_cong [OF True] show ?thesis by (simp add: sa_less_def)
  next
    case neq: False
    with bc have r: "ip_less (sa_ip b) (sa_ip c)" by (simp add: sa_less_def)
    with l have "ip_less (sa_ip a) (sa_ip c)" by (rule ip_less_trans)
    moreover from this have "\<not> ip_eq (sa_ip a) (sa_ip c)"
      using ip_eq_cong(1) ip_less_irrefl by blast
    ultimately show ?thesis by (simp add: sa_less_def)
  qed
qed

lemma sa_less_neither:
  assumes "sa_wf a" "sa_wf b"
  shows "\<not> sa_less a b \<and> \<not> sa_less b a \<longleftrightarrow> sa_eq a b"
proof (cases "ip_eq (sa_ip a) (sa_ip b)")
  case True
  with ip_eq_cong [OF True] string_less_total [of "hostname a" "hostname b"] show ?thesis
    by (auto simp: sa_less_def sa_eq_def EqualIPs_def EqualPorts_def string_less_irrefl)
next
  case False
  with assms ip_less_total [of "sa_ip a" "sa_ip b"] show ?thesis
    by (auto simp: sa_less_def sa_eq_def EqualIPs_def sa_wf_def ip_eq_iff)
qed

lemma sa_eq_cong:
  assumes "sa_eq a b"
  shows "sa_less a c \<longleftrightarrow> sa_less b c" "sa_less c a \<longleftrightarrow> sa_less c b"
proof -
  from assms have ip: "ip_eq (sa_ip a) (sa_ip b)" by (simp add: sa_eq_def EqualIPs_def)
  note cong = ip_eq_cong(1-4) [OF ip, of "sa_ip c"] ip_eq_cong(5,6) [OF ip]
  from assms have rest: "sa_port a = sa_port b"
    "(\<not> IPIsAny (sa_ip b) \<and> \<not> IPIsUnspec (sa_ip b)) \<or> hostname a = hostname b"
    by (simp_all add: sa_eq_def EqualIPs_def EqualPorts_def cong)
  show "sa_less a c \<longleftrightarrow> sa_less b c"
    unfolding sa_less_def cong
    by (cases "hostname a = hostname b") (use rest in \<open>simp_all only: simp_thms if_False\<close>)
  have "IPIsAny (sa_ip c) = IPIsAny (sa_ip b) \<and> IPIsUnspec (sa_ip c) = IPIsUnspec (sa_ip b)"
    if "ip_eq (sa_ip c) (sa_ip b)"
    using ip_eq_cong(5,6) [OF that] by blast
  with rest have "(\<not> IPIsAny (sa_ip c) \<and> \<not> IPIsUnspec (sa_ip c)) \<or> hostname a = hostname b
    \<or> \<not> ip_eq (sa_ip c) (sa_ip b)"
    by blast
  then show "sa_less c a \<longleftrightarrow> sa_less c b"
    unfolding sa_less_def cong rest(1)
    by (elim disjE) simp_all
qed

interpretation sa: map_order sa_wf sa_less sa_eq
  by unfold_locales
    (auto simp: sa_less_irrefl sa_less_neither sa_eq_cong intro: sa_less_trans)

subsection \<open>Round trip through the socket structure\<close>

theorem sockaddr_roundtrip:
  assumes "sa_wf a" and "family (sa_ip a) \<noteq> AF_UNSPEC"
  shows "\<exists>b. SocketAddressFromSockAddrStorage (fst (ToSockAddrStorage a)) = Some b \<and> sa_ip b = sa_ip a
    \<and> sa_port b = sa_port a \<and> hostname b = []"
proof (cases "family (sa_ip a)")
  case AF_INET
  with assms(1) have "drop 4 (u_bytes (sa_ip a)) = replicate 12 0"
    by (simp add: sa_wf_def ip_wf_def)
  then have "u_bytes (sa_ip a) = take 4 (u_bytes (sa_ip a)) @ replicate 12 0"
    by (metis append_take_drop_id)
  then have "IPAddress_v4 (ipv4_address (sa_ip a)) = sa_ip a"
    using AF_INET by (simp add: IPAddress_v4_def ipv4_address_def)
  with AF_INET show ?thesis
    by (simp add: ToSockAddrStorage_def ToSockAddrStorageHelper_def SetPort_def SetIP_def
        SocketAddressFromSockAddrStorage_def SocketAddress_ip_def SocketAddress_nil_def)
next
  case AF_INET6
  then have "IPAddress_v6 (ipv6_address (sa_ip a)) = sa_ip a"
    by (simp add: IPAddress_v6_def ipv6_address_def)
  with AF_INET6 show ?thesis
    by (simp add: ToSockAddrStorage_def ToSockAddrStorageHelper_def SetPort_def SetIP_def
        SocketAddressFromSockAddrStorage_def SocketAddress_ip_def SocketAddress_nil_def)
qed (use assms in simp)

theorem sockaddr_roundtrip_witness:
  "\<exists>b. SocketAddressFromSockAddrStorage (fst (ToSockAddrStorage (SocketAddress_ip (IPAddress_v4 [10, 0, 0, 7]) 8000)))
       = Some b \<and> sa_ip b = IPAddress_v4 [10, 0, 0, 7] \<and> sa_port b = 8000 \<and> hostname b = []"
  using sockaddr_roundtrip [of "SocketAddress_ip (IPAddress_v4 [10, 0, 0, 7]) 8000"]
  by (simp add: sa_wf_def ip_wf_def SocketAddress_ip_def SetPort_def SetIP_def IPAddress_v4_def)

theorem address_order:
  assumes "sa_wf a" "sa_wf b" "sa_wf c"
  shows "\<not> sa_less a a \<and> (sa_less a b \<and> sa_less b c \<longrightarrow> sa_less a c) \<and>
    (sa_eq a b \<longleftrightarrow> \<not> sa_less a b \<and> \<not> sa_less b a) \<and> (sa_eq a b \<and> sa_eq b c \<longrightarrow> sa_eq a c)"
  using assms sa.neither_iff [of a b] sa.neither_iff [of b c] sa.neither_iff [of a c]
    sa.eq_lt [of a b c] sa.lt_trans [of a b c] sa.lt_irrefl [of a]
  by blast

theorem address_order_witness:
  "sa_less (SocketAddress_ip (IPAddress_v4 [10, 0, 0, 7]) 80) (SocketAddress_ip (IPAddress_v4 [10, 0, 0, 7]) 90) \<and>
   sa_less (SocketAddress_ip (IPAddress_v4 [10, 0, 0, 7]) 80) (SocketAddress_ip (IPAddress_v4 [10, 0, 0, 9]) 70)"
proof -
  let ?a = "SocketAddress_ip (IPAddress_v4 [10, 0, 0, 7]) 80"
  let ?b = "SocketAddress_ip (IPAddress_v4 [10, 0, 0, 7]) 90"
  let ?c = "SocketAddress_ip (IPAddress_v4 [10, 0, 0, 9]) 70"
  have wf: "sa_wf ?a" "sa_wf ?b" "sa_wf ?c"
    by (simp_all add: sa_wf_def ip_wf_def SocketAddress_ip_def SetPort_def SetIP_def IPAddress_v4_def)
  have "sa_less ?a ?b" "sa_less ?b ?c" by code_simp+
  with address_order [OF wf] show ?thesis by blast
qed

end
