(* ===== verification/Stun.thy ===== *)
theory Stun
  imports Byte_Buffer Crc32 Socket_Address
begin

text \<open>
  \<open>ice/stun.h\<close> and \<open>ice/stun.cpp\<close>: STUN messages, their attributes, and reading and
  writing them.  The subclasses of \<open>StunAttribute\<close> are the constructors of
  \<open>stun_value\<close>; the fields \<open>_type\<close> and \<open>_length\<close> of the base class are kept
  at their 16 bits, so that the arithmetic of lengths wraps as it does in the code.  A
  \<open>std::string\<close> that carries packet data is a byte list.  A method that returns
  \<open>false\<close> returns \<open>None\<close>, since every caller drops the object then.
\<close>

subsection \<open>Constants\<close>

definition k_stun_header_size :: nat where "k_stun_header_size = 20"
definition k_stun_attribute_header_size :: nat where "k_stun_attribute_header_size = 4"
definition k_stun_transaction_id_offset :: nat where "k_stun_transaction_id_offset = 8"
definition k_stun_transaction_id_length :: nat where "k_stun_transaction_id_length = 12"
definition k_stun_magic_cookie :: u32 where "k_stun_magic_cookie = 0x2112A442"
definition k_stun_magic_cookie_length :: nat where "k_stun_magic_cookie_length = 4"
definition k_stun_message_integrity_size :: nat where "k_stun_message_integrity_size = 20"
definition k_stun_type_mask :: int where "k_stun_type_mask = 0x0110"

definition STUN_BINDING_REQUEST :: u16 where "STUN_BINDING_REQUEST = 0x0001"
definition STUN_BINDING_RESPONSE :: u16 where "STUN_BINDING_RESPONSE = 0x0101"
definition STUN_BINDING_ERROR_RESPONSE :: u16 where "STUN_BINDING_ERROR_RESPONSE = 0x0111"

definition STUN_ATTR_USERNAME :: u16 where "STUN_ATTR_USERNAME = 0x0006"
definition STUN_ATTR_MESSAGE_INTEGRITY :: u16 where "STUN_ATTR_MESSAGE_INTEGRITY = 0x0008"
definition STUN_ATTR_ERROR_CODE :: u16 where "STUN_ATTR_ERROR_CODE = 0x0009"
definition STUN_ATTR_XOR_MAPPED_ADDRESS :: u16 where "STUN_ATTR_XOR_MAPPED_ADDRESS = 0x0020"
definition STUN_ATTR_PRIORITY :: u16 where "STUN_ATTR_PRIORITY = 0x0024"
definition STUN_ATTR_USE_CANDIDATE :: u16 where "STUN_ATTR_USE_CANDIDATE = 0x0025"
definition STUN_ATTR_FINGERPRINT :: u16 where "STUN_ATTR_FINGERPRINT = 0x8028"
definition STUN_ATTR_ICE_CONTROLLING :: u16 where "STUN_ATTR_ICE_CONTROLLING = 0x802A"

lemmas stun_consts = k_stun_header_size_def k_stun_attribute_header_size_def
  k_stun_transaction_id_offset_def k_stun_transaction_id_length_def
  k_stun_magic_cookie_length_def k_stun_message_integrity_size_def
lemmas stun_attr_types = STUN_ATTR_USERNAME_def STUN_ATTR_MESSAGE_INTEGRITY_def
  STUN_ATTR_ERROR_CODE_def STUN_ATTR_XOR_MAPPED_ADDRESS_def STUN_ATTR_PRIORITY_def
  STUN_ATTR_USE_CANDIDATE_def STUN_ATTR_FINGERPRINT_def STUN_ATTR_ICE_CONTROLLING_def
lemmas stun_msg_types = STUN_BINDING_REQUEST_def STUN_BINDING_RESPONSE_def
  STUN_BINDING_ERROR_RESPONSE_def

datatype stun_error_code = STUN_ERROR_BAD_REQUEST | STUN_ERROR_UNATHORIZED
  | STUN_ERROR_UNKNOWN_ATTRIBUTE | STUN_ERROR_SERVER_ERROR | STUN_ERROR_GLOBAL_FAIL

fun stun_error_code_value :: "stun_error_code \<Rightarrow> int" where
  "stun_error_code_value STUN_ERROR_BAD_REQUEST = 400"
| "stun_error_code_value STUN_ERROR_UNATHORIZED = 401"
| "stun_error_code_value STUN_ERROR_UNKNOWN_ATTRIBUTE = 420"
| "stun_error_code_value STUN_ERROR_SERVER_ERROR = 500"
| "stun_error_code_value STUN_ERROR_GLOBAL_FAIL = 600"

datatype stun_value_type = STUN_VALUE_UNKNOWN | STUN_VALUE_UINT32 | STUN_VALUE_BYTE_STRING
datatype stun_address_family = STUN_ADDRESS_UNDEF | STUN_ADDRESS_IPV4 | STUN_ADDRESS_IPV6

fun stun_family_code :: "stun_address_family \<Rightarrow> byte" where
  "stun_family_code STUN_ADDRESS_UNDEF = 0"
| "stun_family_code STUN_ADDRESS_IPV4 = 1"
| "stun_family_code STUN_ADDRESS_IPV6 = 2"

subsection \<open>Attributes\<close>

datatype stun_value =
    AddressV socket_address
  | XorAddressV socket_address
  | UInt32V u32
  | UInt64V u64
  | ByteStringV bytes
  | ErrorCodeV byte byte bytes

record stun_attribute =
  attr_type :: u16
  attr_length :: u16
  attr_value :: stun_value

definition stun_family :: "socket_address \<Rightarrow> stun_address_family" where
  "stun_family a = (case family (sa_ip a) of
     AF_INET \<Rightarrow> STUN_ADDRESS_IPV4 | AF_INET6 \<Rightarrow> STUN_ADDRESS_IPV6 | AF_UNSPEC \<Rightarrow> STUN_ADDRESS_UNDEF)"

text \<open>The length \<open>StunAddressAttribute::set_address\<close> gives the attribute.\<close>

definition address_length :: "socket_address \<Rightarrow> u16" where
  "address_length a = (case stun_family a of
     STUN_ADDRESS_IPV4 \<Rightarrow> 8 | STUN_ADDRESS_IPV6 \<Rightarrow> 20 | STUN_ADDRESS_UNDEF \<Rightarrow> 0)"

definition StunAddressAttribute :: "u16 \<Rightarrow> socket_address \<Rightarrow> stun_attribute" where
  "StunAddressAttribute t a =
     \<lparr>attr_type = t, attr_length = address_length a, attr_value = AddressV a\<rparr>"

definition StunXorAddressAttribute :: "u16 \<Rightarrow> socket_address \<Rightarrow> stun_attribute" where
  "StunXorAddressAttribute t a =
     \<lparr>attr_type = t, attr_length = address_length a, attr_value = XorAddressV a\<rparr>"

definition StunUInt32Attribute :: "u16 \<Rightarrow> u32 \<Rightarrow> stun_attribute" where
  "StunUInt32Attribute t v = \<lparr>attr_type = t, attr_length = 4, attr_value = UInt32V v\<rparr>"

definition StunUInt64Attribute :: "u16 \<Rightarrow> u64 \<Rightarrow> stun_attribute" where
  "StunUInt64Attribute t v = \<lparr>attr_type = t, attr_length = 8, attr_value = UInt64V v\<rparr>"

text \<open>\<open>copy_bytes\<close> copies the whole string and stores its length in 16 bits.\<close>

definition copy_bytes :: "bytes \<Rightarrow> stun_attribute \<Rightarrow> stun_attribute" where
  "copy_bytes bs a = a\<lparr>attr_value := ByteStringV bs, attr_length := of_nat (length bs)\<rparr>"

definition StunByteStringAttribute_len :: "u16 \<Rightarrow> u16 \<Rightarrow> stun_attribute" where
  "StunByteStringAttribute_len t len = \<lparr>attr_type = t, attr_length = len, attr_value = ByteStringV []\<rparr>"

definition StunByteStringAttribute :: "u16 \<Rightarrow> bytes \<Rightarrow> stun_attribute" where
  "StunByteStringAttribute t str = copy_bytes str (StunByteStringAttribute_len t 0)"

definition create_error_code :: stun_attribute where
  "create_error_code =
     \<lparr>attr_type = STUN_ATTR_ERROR_CODE, attr_length = 4, attr_value = ErrorCodeV 0 0 []\<rparr>"

definition set_code :: "int \<Rightarrow> stun_attribute \<Rightarrow> stun_attribute" where
  "set_code c a = (case attr_value a of
       ErrorCodeV _ _ r \<Rightarrow> a\<lparr>attr_value := ErrorCodeV (word_of_int (c div 100)) (word_of_int (c mod 100)) r\<rparr>
     | _ \<Rightarrow> a)"

definition set_reason :: "bytes \<Rightarrow> stun_attribute \<Rightarrow> stun_attribute" where
  "set_reason reason a = (case attr_value a of
       ErrorCodeV c n _ \<Rightarrow>
         a\<lparr>attr_value := ErrorCodeV c n reason, attr_length := of_nat (4 + length reason)\<rparr>
     | _ \<Rightarrow> a)"

definition error_code :: "stun_attribute \<Rightarrow> int" where
  "error_code a = (case attr_value a of
     ErrorCodeV c n _ \<Rightarrow> uint c * 100 + uint n | _ \<Rightarrow> 0)"

definition get_string :: "stun_attribute \<Rightarrow> bytes" where
  "get_string a = (case attr_value a of
     ByteStringV bs \<Rightarrow> take (unat (attr_length a)) bs | _ \<Rightarrow> [])"

definition uint32_value :: "stun_attribute \<Rightarrow> u32" where
  "uint32_value a = (case attr_value a of UInt32V v \<Rightarrow> v | _ \<Rightarrow> 0)"

subsection \<open>Writing an attribute\<close>

definition padding :: "nat \<Rightarrow> nat" where
  "padding n = (if n mod 4 > 0 then 4 - n mod 4 else 0)"

definition write_padding :: "stun_attribute \<Rightarrow> byte_buffer_writer \<Rightarrow> byte_buffer_writer" where
  "write_padding a b = WriteBytes b (replicate (padding (unat (attr_length a))) 0)"

definition get_xored_ip :: "socket_address \<Rightarrow> ip_address" where
  "get_xored_ip a = (case family (sa_ip a) of
       AF_INET \<Rightarrow> IPAddress_v4 (map2 (XOR) (ipv4_address (sa_ip a)) (be32 k_stun_magic_cookie))
     | _ \<Rightarrow> IPAddress_unspec)"

definition write_address ::
  "stun_address_family \<Rightarrow> u16 \<Rightarrow> bytes \<Rightarrow> byte_buffer_writer \<Rightarrow> byte_buffer_writer" where
  "write_address f p ip b = WriteBytes (WriteUInt16 (WriteUInt8 (WriteUInt8 b 0) (stun_family_code f)) p) ip"

definition attr_write :: "stun_attribute \<Rightarrow> byte_buffer_writer \<Rightarrow> byte_buffer_writer option" where
  "attr_write a b = (case attr_value a of
       AddressV sa \<Rightarrow>
         (case family (sa_ip sa) of
            AF_INET \<Rightarrow> Some (write_address (stun_family sa) (sa_port sa) (ipv4_address (sa_ip sa)) b)
          | AF_INET6 \<Rightarrow> Some (write_address (stun_family sa) (sa_port sa) (ipv6_address (sa_ip sa)) b)
          | AF_UNSPEC \<Rightarrow> None)
     | XorAddressV sa \<Rightarrow>
         (let xored_ip = get_xored_ip sa in
          if stun_family sa = STUN_ADDRESS_UNDEF then None
          else if family xored_ip = AF_UNSPEC then None
          else let p = sa_port sa XOR ucast (drop_bit 16 k_stun_magic_cookie) in
            (case family (sa_ip sa) of
               AF_INET \<Rightarrow> Some (write_address (stun_family sa) p (ipv4_address xored_ip) b)
             | AF_INET6 \<Rightarrow> Some (write_address (stun_family sa) p (ipv6_address xored_ip) b)
             | AF_UNSPEC \<Rightarrow> None))
     | UInt32V v \<Rightarrow> Some (WriteUInt32 b v)
     | UInt64V v \<Rightarrow> Some (WriteUInt64 b v)
     | ByteStringV bs \<Rightarrow>
         Some (write_padding a (WriteBytes b (take (unat (attr_length a)) bs)))
     | ErrorCodeV c n reason \<Rightarrow>
         Some (write_padding a (WriteString (WriteUInt32 b (push_bit 8 (ucast c) OR ucast n)) reason)))"

subsection \<open>Reading an attribute\<close>

definition get_attribute_value_type :: "u16 \<Rightarrow> stun_value_type" where
  "get_attribute_value_type t =
     (if t = STUN_ATTR_USERNAME then STUN_VALUE_BYTE_STRING
      else if t = STUN_ATTR_MESSAGE_INTEGRITY then STUN_VALUE_BYTE_STRING
      else if t = STUN_ATTR_PRIORITY then STUN_VALUE_UINT32
      else STUN_VALUE_UNKNOWN)"

definition attr_create :: "stun_value_type \<Rightarrow> u16 \<Rightarrow> u16 \<Rightarrow> stun_attribute option" where
  "attr_create vt t len = (case vt of
       STUN_VALUE_BYTE_STRING \<Rightarrow> Some (StunByteStringAttribute_len t len)
     | STUN_VALUE_UINT32 \<Rightarrow> Some (StunUInt32Attribute t 0)
     | STUN_VALUE_UNKNOWN \<Rightarrow> None)"

definition create_attribute :: "u16 \<Rightarrow> u16 \<Rightarrow> stun_attribute option" where
  "create_attribute t len = (let vt = get_attribute_value_type t in
     if vt \<noteq> STUN_VALUE_UNKNOWN then attr_create vt t len else None)"

text \<open>The result of \<open>Consume\<close> is ignored: padding that is not there is not missed.\<close>

definition consume_padding :: "stun_attribute \<Rightarrow> byte_buffer_reader \<Rightarrow> byte_buffer_reader" where
  "consume_padding a r = (let remain = unat (attr_length a) mod 4 in
     if remain > 0 then (case Consume r (4 - remain) of Some r' \<Rightarrow> r' | None \<Rightarrow> r) else r)"

definition attr_read ::
  "stun_attribute \<Rightarrow> byte_buffer_reader \<Rightarrow> (stun_attribute \<times> byte_buffer_reader) option" where
  "attr_read a r = (case attr_value a of
       AddressV _ \<Rightarrow> Some (a, r)
     | XorAddressV _ \<Rightarrow> Some (a, r)
     | UInt32V _ \<Rightarrow> (if attr_length a \<noteq> 4 then None
         else map_option (\<lambda>(v, r'). (a\<lparr>attr_value := UInt32V v\<rparr>, r')) (ReadUInt32 r))
     | UInt64V _ \<Rightarrow> (if attr_length a \<noteq> 8 then None
         else map_option (\<lambda>(v, r'). (a\<lparr>attr_value := UInt64V v\<rparr>, r')) (ReadUInt64 r))
     | ByteStringV _ \<Rightarrow> map_option (\<lambda>(bs, r').
         (let a' = a\<lparr>attr_value := ByteStringV bs\<rparr> in (a', consume_padding a' r')))
           (ReadBytes r (unat (attr_length a)))
     | ErrorCodeV _ _ _ \<Rightarrow> None)"

subsection \<open>Messages\<close>

datatype integrity_status = k_not_set | k_no_integrity | k_integrity_ok | k_integrity_bad

record stun_message =
  msg_type :: u16
  msg_length :: u16
  transaction_id :: bytes
  attrs :: "stun_attribute list"
  integrity :: integrity_status
  password :: bytes
  buffer :: bytes

definition EMPTY_TRANSACION_ID :: bytes where
  "EMPTY_TRANSACION_ID = bytes_of_string ''000000000000''"

definition StunMessage :: stun_message where
  "StunMessage = \<lparr>msg_type = 0, msg_length = 0, transaction_id = EMPTY_TRANSACION_ID, attrs = [],
     integrity = k_not_set, password = [], buffer = []\<rparr>"

definition set_type :: "u16 \<Rightarrow> stun_message \<Rightarrow> stun_message" where
  "set_type t m = m\<lparr>msg_type := t\<rparr>"

definition set_transaction_id :: "bytes \<Rightarrow> stun_message \<Rightarrow> stun_message" where
  "set_transaction_id t m = m\<lparr>transaction_id := t\<rparr>"

definition add_attribute :: "stun_attribute \<Rightarrow> stun_message \<Rightarrow> stun_message" where
  "add_attribute a m = (let attr_len = unat (attr_length a) + padding (unat (attr_length a)) in
     m\<lparr>msg_length := msg_length m + of_nat (attr_len + k_stun_attribute_header_size),
       attrs := attrs m @ [a]\<rparr>)"

fun write_attrs :: "stun_attribute list \<Rightarrow> byte_buffer_writer \<Rightarrow> byte_buffer_writer option" where
  "write_attrs [] b = Some b"
| "write_attrs (a # as) b =
     (case attr_write a (WriteUInt16 (WriteUInt16 b (attr_type a)) (attr_length a)) of
        None \<Rightarrow> None | Some b' \<Rightarrow> write_attrs as b')"

definition stun_write :: "stun_message \<Rightarrow> byte_buffer_writer \<Rightarrow> byte_buffer_writer option" where
  "stun_write m b = write_attrs (attrs m)
     (WriteString (WriteUInt32 (WriteUInt16 (WriteUInt16 b (msg_type m)) (msg_length m))
        k_stun_magic_cookie) (transaction_id m))"

lemma Read_Length:
  "ReadUInt16 r = Some (v, r') \<Longrightarrow> Length r' < Length r"
  by (auto simp: read_defs split: if_splits)

lemma ReadBytes_Length: "ReadBytes r n = Some (v, r') \<Longrightarrow> Length r' \<le> Length r"
  by (auto simp: read_defs split: if_splits)

lemma ReadUIntN_Length:
  "ReadUInt32 r = Some (v, r') \<Longrightarrow> Length r' \<le> Length r"
  "ReadUInt64 r = Some (w, r') \<Longrightarrow> Length r' \<le> Length r"
  by (auto simp: read_defs split: if_splits)

lemma Consume_Length: "Consume r n = Some r' \<Longrightarrow> Length r' \<le> Length r"
  by (auto simp: read_defs split: if_splits)

lemma consume_padding_Length: "Length (consume_padding a r) \<le> Length r"
  by (auto simp: consume_padding_def Let_def dest: Consume_Length split: option.splits)

lemma attr_read_Length: "attr_read a r = Some (a', r') \<Longrightarrow> Length r' \<le> Length r"
  by (auto simp: attr_read_def Let_def dest: ReadUIntN_Length ReadBytes_Length
      intro: order_trans [OF consume_padding_Length] split: stun_value.splits if_splits)

function read_attrs ::
  "byte_buffer_reader \<Rightarrow> stun_attribute list \<Rightarrow> (stun_attribute list \<times> byte_buffer_reader) option" where
  "read_attrs r acc =
     (if Length r = 0 then Some (acc, r)
      else case ReadUInt16 r of None \<Rightarrow> None | Some (attr_ty, r1) \<Rightarrow>
        (case ReadUInt16 r1 of None \<Rightarrow> None | Some (attr_len, r2) \<Rightarrow>
          (case create_attribute attr_ty attr_len of
             None \<Rightarrow>
               (let attr_len = (if unat attr_len mod 4 \<noteq> 0
                    then attr_len + of_nat (4 - unat attr_len mod 4) else attr_len) in
                case Consume r2 (unat attr_len) of None \<Rightarrow> None | Some r3 \<Rightarrow> read_attrs r3 acc)
           | Some attr \<Rightarrow>
               (case attr_read attr r2 of None \<Rightarrow> None
                | Some (attr', r3) \<Rightarrow> read_attrs r3 (acc @ [attr'])))))"
  by pat_completeness auto
termination
  by (relation "measure (\<lambda>(r, _). Length r)")
     (auto dest!: Read_Length Consume_Length attr_read_Length)

declare read_attrs.simps [simp del]

definition stun_read :: "stun_message \<Rightarrow> byte_buffer_reader \<Rightarrow> (stun_message \<times> byte_buffer_reader) option" where
  "stun_read m r = do {
     (ty, r1) \<leftarrow> ReadUInt16 r;
     if ty AND 0x0800 \<noteq> 0 then None else do {
       (len, r2) \<leftarrow> ReadUInt16 r1;
       (magic_cookie, r3) \<leftarrow> ReadString r2 [] k_stun_magic_cookie_length;
       (tid, r4) \<leftarrow> ReadString r3 [] k_stun_transaction_id_length;
       let tid' = (if of_be magic_cookie \<noteq> k_stun_magic_cookie then magic_cookie @ tid else tid);
       if Length r4 \<noteq> unat len then None else do {
         (as, r5) \<leftarrow> read_attrs r4 [];
         Some (m\<lparr>buffer := take (Length r) (Data r), msg_type := ty, msg_length := len,
                 transaction_id := tid', attrs := as\<rparr>, r5)
       }}}"

definition get_attribute :: "stun_message \<Rightarrow> u16 \<Rightarrow> stun_attribute option" where
  "get_attribute m t = find (\<lambda>a. attr_type a = t) (attrs m)"

definition get_byte_string :: "stun_message \<Rightarrow> u16 \<Rightarrow> stun_attribute option" where
  "get_byte_string m t = get_attribute m t"

definition get_uint32 :: "stun_message \<Rightarrow> u16 \<Rightarrow> stun_attribute option" where
  "get_uint32 m t = get_attribute m t"

definition get_error_code :: "stun_message \<Rightarrow> stun_attribute option" where
  "get_error_code m = get_attribute m STUN_ATTR_ERROR_CODE"

definition get_error_code_value :: "stun_message \<Rightarrow> int" where
  "get_error_code_value m = (case get_error_code m of
     Some a \<Rightarrow> error_code a | None \<Rightarrow> stun_error_code_value STUN_ERROR_GLOBAL_FAIL)"

definition is_stun_request_type :: "int \<Rightarrow> bool" where
  "is_stun_request_type req_type = (req_type AND k_stun_type_mask = 0)"

definition get_stun_success_response :: "int \<Rightarrow> int" where
  "get_stun_success_response req_type =
     (if is_stun_request_type req_type then req_type OR 0x100 else -1)"

definition get_stun_error_response :: "int \<Rightarrow> int" where
  "get_stun_error_response req_type =
     (if is_stun_request_type req_type then req_type OR 0x110 else -1)"

subsection \<open>Writing appends\<close>

definition attr_size :: "stun_attribute \<Rightarrow> nat" where
  "attr_size a = k_stun_attribute_header_size + unat (attr_length a) + padding (unat (attr_length a))"

lemma attr_write_append: "attr_write a b = map_option ((@) b) (attr_write a [])"
  by (cases "attr_value a")
     (auto simp: attr_write_def write_defs write_address_def write_padding_def Let_def
       split: ip_family.split)

definition attr_encode :: "stun_attribute \<Rightarrow> bytes option" where
  "attr_encode a = map_option (\<lambda>v. be16 (attr_type a) @ be16 (attr_length a) @ v) (attr_write a [])"

lemma attr_write_Some: "attr_write a [] = Some v \<Longrightarrow> attr_write a b = Some (b @ v)"
  by (subst attr_write_append) simp

lemma attr_write_None: "attr_write a [] = None \<Longrightarrow> attr_write a b = None"
  by (subst attr_write_append) simp

lemma write_attrs_append: "write_attrs as b = map_option ((@) b) (write_attrs as [])"
proof (induction as arbitrary: b)
  case (Cons a as)
  show ?case
  proof (cases "attr_write a []")
    case (Some v)
    show ?thesis
      by (cases "write_attrs as []")
         (simp_all add: write_defs attr_write_Some [OF Some] Cons.IH [of "_ @ _"])
  qed (simp add: attr_write_None)
qed simp

lemma write_attrs_Cons:
  "write_attrs (a # as) [] = (do { v \<leftarrow> attr_encode a; vs \<leftarrow> write_attrs as []; Some (v @ vs) })"
proof (cases "attr_write a []")
  case (Some v)
  then show ?thesis
    by (cases "write_attrs as []")
       (simp_all add: attr_encode_def write_defs attr_write_Some [OF Some]
         write_attrs_append [of _ "_ @ _"])
qed (simp add: attr_encode_def attr_write_None)

definition stun_header :: "stun_message \<Rightarrow> bytes" where
  "stun_header m = be16 (msg_type m) @ be16 (msg_length m) @ be32 k_stun_magic_cookie @ transaction_id m"

lemma stun_write_eq: "stun_write m b = map_option (\<lambda>v. b @ stun_header m @ v) (write_attrs (attrs m) [])"
  by (cases "write_attrs (attrs m) []")
     (simp_all add: stun_write_def stun_header_def write_defs write_attrs_append [of _ "_ @ _"])

lemma write_attrs_snoc:
  "write_attrs (as @ [a]) [] = (do { vs \<leftarrow> write_attrs as []; v \<leftarrow> attr_encode a; Some (vs @ v) })"
proof (induction as)
  case (Cons b as)
  show ?case
    by (cases "attr_encode b"; cases "attr_encode a"; cases "write_attrs as []")
       (simp_all add: write_attrs_Cons Cons.IH del: write_attrs.simps(2))
qed (cases "attr_encode a"; simp add: write_attrs_Cons del: write_attrs.simps(2))

subsection \<open>Well-formed attributes and the size of what is written\<close>

definition attr_wf :: "stun_attribute \<Rightarrow> bool" where
  "attr_wf a = (case attr_value a of
       AddressV sa \<Rightarrow> sa_wf sa \<and> attr_length a = address_length sa
     | XorAddressV sa \<Rightarrow> sa_wf sa \<and> attr_length a = address_length sa
     | UInt32V _ \<Rightarrow> attr_length a = 4
     | UInt64V _ \<Rightarrow> attr_length a = 8
     | ByteStringV bs \<Rightarrow> unat (attr_length a) = length bs
     | ErrorCodeV _ _ r \<Rightarrow> unat (attr_length a) = 4 + length r)"

definition attr_writable :: "stun_attribute \<Rightarrow> bool" where
  "attr_writable a = (case attr_value a of
       AddressV sa \<Rightarrow> family (sa_ip sa) \<noteq> AF_UNSPEC
     | XorAddressV sa \<Rightarrow> family (sa_ip sa) = AF_INET
     | _ \<Rightarrow> True)"

lemma attr_write_iff: "(\<exists>v. attr_write a [] = Some v) \<longleftrightarrow> attr_writable a"
  by (cases "attr_value a")
     (auto simp: attr_write_def attr_writable_def get_xored_ip_def stun_family_def Let_def
       split: ip_family.split)

lemma attr_write_length:
  assumes "attr_wf a" "attr_write a [] = Some v"
  shows "length v = unat (attr_length a) + padding (unat (attr_length a))"
  using assms
  by (cases "attr_value a")
     (auto simp: attr_wf_def attr_write_def write_defs write_address_def write_padding_def
       padding_def Let_def address_length_def stun_family_def sa_wf_def ip_wf_def
       ipv4_address_def ipv6_address_def get_xored_ip_def IPAddress_v4_def
       split: ip_family.splits if_splits)

lemma attr_encode_length: "attr_wf a \<Longrightarrow> attr_encode a = Some v \<Longrightarrow> length v = attr_size a"
  by (auto simp: attr_encode_def attr_size_def k_stun_attribute_header_size_def
      dest: attr_write_length)

lemma write_attrs_length:
  "(\<And>a. a \<in> set as \<Longrightarrow> attr_wf a) \<Longrightarrow> write_attrs as [] = Some v \<Longrightarrow>
     length v = sum_list (map attr_size as)"
proof (induction as arbitrary: v)
  case (Cons a as)
  from Cons.prems(2) obtain x y where "attr_encode a = Some x" "write_attrs as [] = Some y" "v = x @ y"
    unfolding write_attrs_Cons by auto
  with Cons show ?case by (simp add: attr_encode_length)
qed simp

lemma write_attrs_iff: "(\<exists>v. write_attrs as [] = Some v) \<longleftrightarrow> (\<forall>a \<in> set as. attr_writable a)"
proof (induction as)
  case (Cons a as)
  have "(\<exists>v. attr_encode a = Some v) \<longleftrightarrow> attr_writable a"
    using attr_write_iff [of a] by (auto simp: attr_encode_def)
  with Cons show ?case unfolding write_attrs_Cons by auto
qed simp

lemma attr_size_4: "4 dvd attr_size a"
proof -
  have "4 dvd n + padding n" for n
    unfolding padding_def by presburger
  then have "4 dvd 4 + (unat (attr_length a) + padding (unat (attr_length a)))"
    using dvd_add_right_iff [of 4 4] by simp
  then show ?thesis by (simp add: attr_size_def k_stun_attribute_header_size_def add.assoc)
qed

lemma attrs_size_4: "4 dvd sum_list (map attr_size as)"
  by (induction as) (simp_all add: attr_size_4)

subsection \<open>Well-formed messages\<close>

text \<open>The invariant of a message under construction: its length field is the size of its
  attributes, which fits the field.\<close>

definition stun_wf :: "stun_message \<Rightarrow> bool" where
  "stun_wf m \<longleftrightarrow> (\<forall>a \<in> set (attrs m). attr_wf a) \<and> length (transaction_id m) = 12 \<and>
     unat (msg_length m) = sum_list (map attr_size (attrs m))"

lemma stun_wf_new [inv_intros, simp]: "stun_wf StunMessage"
  by (simp add: stun_wf_def StunMessage_def EMPTY_TRANSACION_ID_def)

lemma stun_wf_set [inv_intros, simp]:
  "stun_wf (set_type t m) \<longleftrightarrow> stun_wf m"
  "stun_wf m \<Longrightarrow> length tid = 12 \<Longrightarrow> stun_wf (set_transaction_id tid m)"
  by (simp_all add: stun_wf_def set_type_def set_transaction_id_def)

lemma add_attribute_fields [frame_simps, simp]:
  "msg_type (add_attribute a m) = msg_type m"
  "transaction_id (add_attribute a m) = transaction_id m"
  "attrs (add_attribute a m) = attrs m @ [a]"
  "integrity (add_attribute a m) = integrity m"
  "buffer (add_attribute a m) = buffer m"
  by (simp_all add: add_attribute_def Let_def)

lemma stun_wf_add_attribute [inv_intros]:
  assumes "stun_wf m" "attr_wf a" "unat (msg_length m) + attr_size a < 2 ^ 16"
  shows "stun_wf (add_attribute a m)"
proof -
  have "msg_length (add_attribute a m) = msg_length m + of_nat (attr_size a)"
    by (simp add: add_attribute_def Let_def attr_size_def add.commute)
  then have "unat (msg_length (add_attribute a m)) = unat (msg_length m) + attr_size a"
    using assms(3) by (simp add: unat_word_ariths unat_of_nat)
  with assms show ?thesis by (auto simp: stun_wf_def)
qed

lemma attr_wf_ctor [inv_intros, simp]:
  "sa_wf sa \<Longrightarrow> attr_wf (StunAddressAttribute t sa)"
  "sa_wf sa \<Longrightarrow> attr_wf (StunXorAddressAttribute t sa)"
  "attr_wf (StunUInt32Attribute t v)" "attr_wf (StunUInt64Attribute t w)"
  "length bs < 2 ^ 16 \<Longrightarrow> attr_wf (StunByteStringAttribute t bs)"
  "attr_wf create_error_code" "attr_wf a \<Longrightarrow> attr_wf (set_code c a)"
  "attr_wf a \<Longrightarrow> 4 + length r < 2 ^ 16 \<Longrightarrow> attr_wf (set_reason r a)"
  by (auto simp: attr_wf_def StunAddressAttribute_def StunXorAddressAttribute_def
      StunUInt32Attribute_def StunUInt64Attribute_def StunByteStringAttribute_def
      StunByteStringAttribute_len_def copy_bytes_def create_error_code_def set_code_def
      set_reason_def unat_of_nat unat_word_ariths split: stun_value.splits)

lemma stun_write_length:
  assumes "stun_wf m" "stun_write m [] = Some v"
  shows "length v = k_stun_header_size + unat (msg_length m)" "4 dvd length v"
proof -
  from assms(2) obtain u where "write_attrs (attrs m) [] = Some u" "v = stun_header m @ u"
    by (auto simp: stun_write_eq)
  with assms(1) show l: "length v = k_stun_header_size + unat (msg_length m)"
    by (simp add: stun_wf_def stun_header_def write_attrs_length k_stun_header_size_def)
  with assms(1) show "4 dvd length v"
    using attrs_size_4 [of "attrs m"] by (simp add: stun_wf_def k_stun_header_size_def)
qed

subsection \<open>Reading back what was written\<close>

definition attr_known :: "stun_attribute \<Rightarrow> bool" where
  "attr_known a = (get_attribute_value_type (attr_type a) \<noteq> STUN_VALUE_UNKNOWN)"

text \<open>An attribute whose value has the kind the parser expects of its type.\<close>

definition attr_typed :: "stun_attribute \<Rightarrow> bool" where
  "attr_typed a = (case get_attribute_value_type (attr_type a) of
       STUN_VALUE_BYTE_STRING \<Rightarrow> (case attr_value a of ByteStringV _ \<Rightarrow> True | _ \<Rightarrow> False)
     | STUN_VALUE_UINT32 \<Rightarrow> (case attr_value a of UInt32V _ \<Rightarrow> True | _ \<Rightarrow> False)
     | STUN_VALUE_UNKNOWN \<Rightarrow> True)"

lemma Consume_next:
  assumes "reader_wf r" "Data r = v @ rest" "n = length v"
  shows "\<exists>r'. Consume r n = Some r' \<and> reader_wf r' \<and> Data r' = rest"
proof -
  from assms have "\<not> n > Length r" by (simp add: Length_Data)
  then obtain r' where "Consume r n = Some r'" by (simp add: Consume_def)
  with Consume_wf [OF this assms(1)] assms show ?thesis by simp
qed

lemma padded_length_word:
  assumes "unat (len :: u16) + padding (unat len) < 2 ^ 16"
  shows "unat (if unat len mod 4 \<noteq> 0 then len + of_nat (4 - unat len mod 4) else len)
    = unat len + padding (unat len)"
proof -
  have "unat (of_nat (4 - unat len mod 4) :: u16) = 4 - unat len mod 4"
    by (simp only: unat_of_nat) simp
  with assms show ?thesis
    by (auto simp: padding_def unat_word_ariths(1) simp del: of_nat_diff split: if_splits)
qed

lemma attr_read_written:
  assumes wf: "attr_wf a" and ty: "attr_typed a" and known: "attr_known a"
    and w: "attr_write a [] = Some body"
    and r: "reader_wf r" "Data r = body @ rest"
  shows "\<exists>a0 r'. create_attribute (attr_type a) (attr_length a) = Some a0 \<and>
    attr_read a0 r = Some (a, r') \<and> reader_wf r' \<and> Data r' = rest"
proof (cases "get_attribute_value_type (attr_type a)")
  case STUN_VALUE_UINT32
  with ty obtain v where v: "attr_value a = UInt32V v" and l: "attr_length a = 4"
    using wf by (auto simp: attr_typed_def attr_wf_def split: stun_value.splits)
  with w have "body = be32 v" by (simp add: attr_write_def write_defs)
  with r u32.get_enc [of r v rest] obtain r' where
    "ReadUInt32 r = Some (v, r')" "reader_wf r'" "Data r' = rest" by auto
  with STUN_VALUE_UINT32 v l show ?thesis
    by (cases a) (auto simp: create_attribute_def attr_create_def StunUInt32Attribute_def attr_read_def)
next
  case STUN_VALUE_BYTE_STRING
  with ty obtain bs where v: "attr_value a = ByteStringV bs" and l: "unat (attr_length a) = length bs"
    using wf by (auto simp: attr_typed_def attr_wf_def split: stun_value.splits)
  with w have "body = bs @ replicate (padding (length bs)) 0"
    by (simp add: attr_write_def write_defs write_padding_def)
  with r ReadBytes_next [of r bs "replicate (padding (length bs)) 0 @ rest" "length bs"]
  obtain r1 where r1: "ReadBytes r (length bs) = Some (bs, r1)" "reader_wf r1"
    "Data r1 = replicate (padding (length bs)) 0 @ rest" by auto
  have "\<exists>r'. consume_padding a r1 = r' \<and> reader_wf r' \<and> Data r' = rest"
    using r1 Consume_next [OF r1(2,3), of "padding (length bs)"] l
    by (auto simp: consume_padding_def padding_def Let_def split: if_splits)
  with STUN_VALUE_BYTE_STRING v l r1 show ?thesis
    by (cases a) (auto simp: create_attribute_def attr_create_def
        StunByteStringAttribute_len_def attr_read_def Let_def)
qed (use known in \<open>simp add: attr_known_def\<close>)

lemma read_attrs_step:
  assumes wf: "attr_wf a" and ty: "attr_typed a" and small: "attr_size a < 2 ^ 16"
    and e: "attr_encode a = Some v" and r: "reader_wf r" "Data r = v @ rest"
  shows "\<exists>r'. read_attrs r acc = read_attrs r' (if attr_known a then acc @ [a] else acc)
    \<and> reader_wf r' \<and> Data r' = rest"
proof -
  from e obtain body where b: "attr_write a [] = Some body"
    and v: "v = be16 (attr_type a) @ be16 (attr_length a) @ body"
    by (auto simp: attr_encode_def)
  from r v u16.get_enc [of r "attr_type a" "be16 (attr_length a) @ body @ rest"] obtain r1
    where r1: "ReadUInt16 r = Some (attr_type a, r1)" "reader_wf r1"
      "Data r1 = be16 (attr_length a) @ body @ rest" by auto
  with u16.get_enc [of r1 "attr_length a" "body @ rest"] obtain r2
    where r2: "ReadUInt16 r1 = Some (attr_length a, r2)" "reader_wf r2" "Data r2 = body @ rest" by auto
  have ne: "Length r \<noteq> 0" using r v by (simp add: Length_Data)
  show ?thesis
  proof (cases "attr_known a")
    case True
    from attr_read_written [OF wf ty True b r2(2,3)] obtain a0 r' where
      "create_attribute (attr_type a) (attr_length a) = Some a0" "attr_read a0 r2 = Some (a, r')"
      "reader_wf r'" "Data r' = rest" by blast
    with True ne r1(1) r2(1) show ?thesis by (subst read_attrs.simps) auto
  next
    case False
    then have c: "create_attribute (attr_type a) (attr_length a) = None"
      by (simp add: create_attribute_def attr_known_def)
    let ?n = "unat (attr_length a) + padding (unat (attr_length a))"
    have "?n < 2 ^ 16" using small by (simp add: attr_size_def)
    from padded_length_word [OF this] Consume_next [OF r2(2,3), of ?n] attr_write_length [OF wf b]
    obtain r' where "Consume r2 (unat (if unat (attr_length a) mod 4 \<noteq> 0
        then attr_length a + of_nat (4 - unat (attr_length a) mod 4) else attr_length a)) = Some r'"
      "reader_wf r'" "Data r' = rest" by auto
    with False ne r1(1) r2(1) c show ?thesis
      by (subst read_attrs.simps) (auto simp: Let_def)
  qed
qed

lemma read_attrs_written:
  "(\<And>a. a \<in> set as \<Longrightarrow> attr_wf a \<and> attr_typed a \<and> attr_size a < 2 ^ 16) \<Longrightarrow>
   write_attrs as [] = Some v \<Longrightarrow> reader_wf r \<Longrightarrow> Data r = v \<Longrightarrow>
   \<exists>r'. read_attrs r acc = Some (acc @ filter attr_known as, r') \<and> Length r' = 0"
proof (induction as arbitrary: v r acc)
  case Nil
  then have "Length r = 0" by (simp add: Length_Data)
  then show ?case by (subst read_attrs.simps) simp
next
  case (Cons a as)
  from Cons.prems(2) obtain x y where e: "attr_encode a = Some x" and y: "write_attrs as [] = Some y"
    and v: "v = x @ y"
    unfolding write_attrs_Cons by auto
  from Cons.prems(1) have a: "attr_wf a" "attr_typed a" "attr_size a < 2 ^ 16" by auto
  from read_attrs_step [OF a e Cons.prems(3), of y acc] Cons.prems(4) v obtain r'
    where "read_attrs r acc = read_attrs r' (if attr_known a then acc @ [a] else acc)"
      "reader_wf r'" "Data r' = y" by auto
  with Cons.IH [OF Cons.prems(1) y, of r' "if attr_known a then acc @ [a] else acc"] show ?case
    by auto
qed

text \<open>Reading a written message gives back its type, length and transaction id and exactly the
  attributes the parser knows.\<close>

lemma stun_read_written:
  assumes wf: "stun_wf m" and ty: "\<And>a. a \<in> set (attrs m) \<Longrightarrow> attr_typed a"
    and stun: "msg_type m AND 0x0800 = 0" and w: "stun_write m [] = Some v"
  shows "\<exists>r. stun_read m0 (ByteBufferReader v) =
    Some (m0\<lparr>buffer := v, msg_type := msg_type m, msg_length := msg_length m,
      transaction_id := transaction_id m, attrs := filter attr_known (attrs m)\<rparr>, r) \<and> Length r = 0"
proof -
  from w obtain u where u: "write_attrs (attrs m) [] = Some u" and v: "v = stun_header m @ u"
    by (auto simp: stun_write_eq)
  let ?r = "ByteBufferReader v"
  have "Data ?r = be16 (msg_type m) @ be16 (msg_length m) @ be32 k_stun_magic_cookie
      @ transaction_id m @ u" by (simp add: v stun_header_def)
  with u16.get_enc [of ?r] obtain r1 where r1: "ReadUInt16 ?r = Some (msg_type m, r1)" "reader_wf r1"
    "Data r1 = be16 (msg_length m) @ be32 k_stun_magic_cookie @ transaction_id m @ u"
    using reader_wf_init by blast
  with u16.get_enc [of r1] obtain r2 where r2: "ReadUInt16 r1 = Some (msg_length m, r2)" "reader_wf r2"
    "Data r2 = be32 k_stun_magic_cookie @ transaction_id m @ u" by blast
  have rs: "ReadString r [] n = ReadBytes r n" for r n
    by (simp add: ReadString_def ReadBytes_def)
  from ReadBytes_next [OF r2(2,3), of 4] obtain r3 where
    r3: "ReadString r2 [] 4 = Some (be32 k_stun_magic_cookie, r3)" "reader_wf r3"
    "Data r3 = transaction_id m @ u" by (auto simp: rs)
  from ReadBytes_next [OF r3(2,3), of 12] wf obtain r4 where
    r4: "ReadString r3 [] 12 = Some (transaction_id m, r4)" "reader_wf r4" "Data r4 = u"
    by (auto simp: rs stun_wf_def)
  have len: "Length r4 = unat (msg_length m)"
    using wf u r4 by (simp add: Length_Data stun_wf_def write_attrs_length)
  have "attr_wf a \<and> attr_typed a \<and> attr_size a < 2 ^ 16" if "a \<in> set (attrs m)" for a
  proof -
    have "attr_size a \<le> sum_list (map attr_size (attrs m))"
      using that by (simp add: member_le_sum_list)
    also have "\<dots> < 2 ^ 16"
      using wf unsigned_less [of "msg_length m", where ?'a = nat] by (simp add: stun_wf_def)
    finally show ?thesis using that ty wf by (simp add: stun_wf_def)
  qed
  from read_attrs_written [OF this u r4(2,3), of "[]"] obtain r5 where
    "read_attrs r4 [] = Some (filter attr_known (attrs m), r5)" "Length r5 = 0" by auto
  with r1(1) r2(1) r3(1) r4(1) len stun show ?thesis
    by (simp add: stun_read_def stun_consts Length_Data)
qed

subsection \<open>What the parser can return\<close>

lemma consume_padding_wf [inv_intros]: "reader_wf r \<Longrightarrow> reader_wf (consume_padding a r)"
  by (auto simp: consume_padding_def Let_def dest: Consume_wf split: option.split)

lemma attr_read_inv:
  assumes "create_attribute t l = Some a" "attr_read a r = Some (a', r')" "reader_wf r"
  shows "attr_wf a' \<and> attr_known a' \<and> attr_typed a' \<and> attr_type a' = t \<and> reader_wf r'"
proof -
  have ub: "reader_wf r1 \<and> length bs = n" if "ReadBytes r n = Some (bs, r1)" for bs n r1
    using ReadBytes_wf [OF that assms(3)] by simp
  have u32: "reader_wf r1" if "ReadUInt32 r = Some (v, r1)" for v r1
    using u32.get_wf [OF assms(3) that] by simp
  show ?thesis
    using assms
    by (auto simp: create_attribute_def attr_create_def attr_read_def Let_def attr_known_def
        attr_typed_def attr_wf_def StunByteStringAttribute_len_def StunUInt32Attribute_def
        get_attribute_value_type_def dest!: ub u32 intro: consume_padding_wf
        split: stun_value_type.splits if_splits)
qed

lemma read_attrs_inv:
  "read_attrs r acc = Some (as, r') \<Longrightarrow> reader_wf r \<Longrightarrow>
   (\<And>a. a \<in> set acc \<Longrightarrow> attr_wf a \<and> attr_known a \<and> attr_typed a) \<Longrightarrow>
   (\<forall>a \<in> set as. attr_wf a \<and> attr_known a \<and> attr_typed a) \<and> reader_wf r' \<and> Length r' = 0"
proof (induction r acc rule: read_attrs.induct)
  case (1 r acc)
  show ?case
  proof (cases "Length r = 0")
    case True
    with 1 show ?thesis by (subst (asm) (3) read_attrs.simps) auto
  next
    case False
    from 1(3) False obtain t r1 l r2 where h: "ReadUInt16 r = Some (t, r1)" "ReadUInt16 r1 = Some (l, r2)"
      by (subst (asm) read_attrs.simps) (auto split: option.splits)
    have wf2: "reader_wf r2" using u16.get_wf h 1(4) by blast
    show ?thesis
    proof (cases "create_attribute t l")
      case None
      from 1(3) False h None obtain l' r3 where
        c: "Consume r2 (unat l') = Some r3" "read_attrs r3 acc = Some (as, r')"
        and l': "l' = (if unat l mod 4 \<noteq> 0 then l + of_nat (4 - unat l mod 4) else l)"
        by (subst (asm) read_attrs.simps) (auto simp: Let_def split: option.splits)
      have "reader_wf r3" using Consume_wf [OF c(1) wf2] by simp
      from 1(1) [OF False h(1) refl h(2) refl None l' c(1) c(2) this 1(5)] show ?thesis .
    next
      case (Some a)
      from 1(3) False h Some obtain a' r3 where
        c: "attr_read a r2 = Some (a', r3)" "read_attrs r3 (acc @ [a']) = Some (as, r')"
        by (subst (asm) read_attrs.simps) (auto simp: Let_def split: option.splits)
      from attr_read_inv [OF Some c(1) wf2] have "attr_wf a' \<and> attr_known a' \<and> attr_typed a'"
        and w3: "reader_wf r3" by auto
      then have "b \<in> set (acc @ [a']) \<Longrightarrow> attr_wf b \<and> attr_known b \<and> attr_typed b" for b
        using 1(5) by auto
      from 1(2) [OF False h(1) refl h(2) refl Some c(1) refl c(2) w3 this] show ?thesis .
    qed
  qed
qed

lemma ReadString_ReadBytes: "ReadString r [] n = ReadBytes r n"
  by (simp add: ReadString_def ReadBytes_def)

lemma stun_read_inv:
  assumes "stun_read m r = Some (m', r')" "reader_wf r"
  shows "\<forall>a \<in> set (attrs m'). attr_wf a \<and> attr_known a \<and> attr_typed a"
    and "Length r' = 0" and "buffer m' = Data r"
    and "length (Data r) = k_stun_header_size + unat (msg_length m')"
    and "of_be (take 4 (drop 4 (Data r))) = k_stun_magic_cookie \<Longrightarrow> length (transaction_id m') = 12"
proof -
  from assms(1) obtain t r1 l r2 c r3 i r4 as where
    s: "ReadUInt16 r = Some (t, r1)" "ReadUInt16 r1 = Some (l, r2)" "ReadBytes r2 4 = Some (c, r3)"
      "ReadBytes r3 12 = Some (i, r4)" "Length r4 = unat l" "read_attrs r4 [] = Some (as, r')"
    and m': "m' = m\<lparr>buffer := take (Length r) (Data r), msg_type := t, msg_length := l,
      transaction_id := (if of_be c \<noteq> k_stun_magic_cookie then c @ i else i), attrs := as\<rparr>"
    by (auto simp: stun_read_def stun_consts ReadString_ReadBytes Let_def split: if_splits)
  from s(1,2) assms(2) obtain x y where w2: "reader_wf r2" and d2: "Data r = (x @ y) @ Data r2"
    "length x = 2" "length y = 2"
    by (auto simp: ReadUInt16_def dest!: ReadBytes_wf)
  from ReadBytes_wf [OF s(3) w2] have w3: "reader_wf r3" and d3: "Data r2 = c @ Data r3" "length c = 4"
    by auto
  from ReadBytes_wf [OF s(4) w3] have w4: "reader_wf r4" and d4: "Data r3 = i @ Data r4" "length i = 12"
    by auto
  from read_attrs_inv [OF s(6) w4] show "\<forall>a \<in> set (attrs m'). attr_wf a \<and> attr_known a \<and> attr_typed a"
    "Length r' = 0" by (auto simp: m')
  show "buffer m' = Data r" using assms(2) by (simp add: m' Length_Data)
  show "length (Data r) = k_stun_header_size + unat (msg_length m')"
    using d2 d3 d4 s(5) w4 by (simp add: m' Length_Data k_stun_header_size_def)
  have "take 4 (drop 4 (Data r)) = c" using d2 d3 by simp
  then show "of_be (take 4 (drop 4 (Data r))) = k_stun_magic_cookie \<Longrightarrow> length (transaction_id m') = 12"
    using d4 by (simp add: m')
qed

text \<open>No parsed message has an ERROR-CODE attribute, so the code of every received error
  response reads as 600.\<close>

lemma parsed_error_code:
  assumes "stun_read m r = Some (m', r')" "reader_wf r"
  shows "get_error_code_value m' = 600"
proof -
  have "attr_type a \<noteq> STUN_ATTR_ERROR_CODE" if "a \<in> set (attrs m')" for a
  proof -
    have "attr_known a" using stun_read_inv(1) [OF assms] that by blast
    then show ?thesis by (auto simp: attr_known_def get_attribute_value_type_def stun_attr_types)
  qed
  then have "get_error_code m' = None"
    by (simp add: get_error_code_def get_attribute_def find_None_iff)
  then show ?thesis by (simp add: get_error_code_value_def)
qed

text \<open>C31: Reading back a written well-formed STUN message consumes the whole packet and
  returns its type, length, transaction id and every attribute of a type the reader knows, in
  order.\<close>
theorem stun_roundtrip:
  assumes "stun_wf m" and "\<forall>a \<in> set (attrs m). attr_typed a"
    and "msg_type m AND 0x0800 = 0" and "stun_write m [] = Some v"
  shows "\<exists>r. stun_read m0 (ByteBufferReader v) =
    Some (m0\<lparr>buffer := v, msg_type := msg_type m, msg_length := msg_length m,
      transaction_id := transaction_id m, attrs := filter attr_known (attrs m)\<rparr>, r) \<and> Length r = 0"
  using assms by (intro stun_read_written) auto

theorem stun_roundtrip_witness:
  "\<exists>r v. stun_write (add_attribute (StunUInt32Attribute STUN_ATTR_PRIORITY 7) (set_type STUN_BINDING_REQUEST StunMessage)) []
      = Some v \<and>
    stun_read StunMessage (ByteBufferReader v) =
      Some (StunMessage\<lparr>buffer := v, msg_type := STUN_BINDING_REQUEST, msg_length := 8,
        transaction_id := EMPTY_TRANSACION_ID, attrs := [StunUInt32Attribute STUN_ATTR_PRIORITY 7]\<rparr>, r) \<and> Length r = 0"
proof -
  let ?m = "add_attribute (StunUInt32Attribute STUN_ATTR_PRIORITY 7) (set_type STUN_BINDING_REQUEST StunMessage)"
  let ?v = "[0, 1, 0, 8, 0x21, 0x12, 0xA4, 0x42] @ EMPTY_TRANSACION_ID @ [0, 0x24, 0, 4, 0, 0, 0, 7]"
  have w: "stun_write ?m [] = Some ?v" by code_simp
  have "stun_wf ?m" "\<forall>a \<in> set (attrs ?m). attr_typed a" "msg_type ?m AND 0x0800 = 0" by code_simp+
  from stun_roundtrip [OF this w, of StunMessage]
  have "\<exists>r. stun_read StunMessage (ByteBufferReader ?v) =
    Some (StunMessage\<lparr>buffer := ?v, msg_type := msg_type ?m, msg_length := msg_length ?m,
      transaction_id := transaction_id ?m, attrs := filter attr_known (attrs ?m)\<rparr>, r) \<and> Length r = 0" .
  moreover have "msg_type ?m = STUN_BINDING_REQUEST" "msg_length ?m = 8" "transaction_id ?m = EMPTY_TRANSACION_ID"
    "filter attr_known (attrs ?m) = [StunUInt32Attribute STUN_ATTR_PRIORITY 7]" by code_simp+
  ultimately show ?thesis using w by auto
qed

end
