(* ===== verification/Message_Digest.thy ===== *)
theory Message_Digest
  imports Xrtc_Prelude
begin

text \<open>
  \<open>rtc_base/message_digest.cc\<close>: the HMAC of RFC 2104 over a digest.  The digest itself is
  OpenSSL's and is a parameter: its output size and its hash of a byte string
  (\<open>Update\<close> calls concatenate, \<open>Finish\<close> returns the hash and starts afresh).
  The one law the code relies on is that a hash has the announced size, the locale
  \<open>digest_algorithm\<close>.
\<close>

record digest =
  dg_Size :: nat
  dg_hash :: "bytes \<Rightarrow> bytes"

definition kBlockSize :: nat where "kBlockSize = 64"

text \<open>\<open>Finish\<close> into a buffer of \<open>out\_len\<close> bytes; the empty list is the return
  value 0.\<close>

definition digest_Finish :: "digest \<Rightarrow> bytes \<Rightarrow> nat \<Rightarrow> bytes" where
  "digest_Finish dg input out_len = (if out_len < dg_Size dg then [] else dg_hash dg input)"

definition ComputeDigest :: "digest \<Rightarrow> bytes \<Rightarrow> nat \<Rightarrow> bytes" where
  "ComputeDigest dg input out_len = digest_Finish dg input out_len"

definition hmac_key :: "digest \<Rightarrow> bytes \<Rightarrow> bytes" where
  "hmac_key dg key =
     (if length key > kBlockSize
      then ComputeDigest dg key kBlockSize @ replicate (kBlockSize - dg_Size dg) 0
      else key @ replicate (kBlockSize - length key) 0)"

definition ComputeHmac :: "digest \<Rightarrow> bytes \<Rightarrow> bytes \<Rightarrow> nat \<Rightarrow> bytes" where
  "ComputeHmac dg key input out_len =
     (if dg_Size dg > 32 then []
      else let new_key = hmac_key dg key;
               o_pad = map (\<lambda>k. 0x5c XOR k) new_key;
               i_pad = map (\<lambda>k. 0x36 XOR k) new_key;
               inner = digest_Finish dg (i_pad @ input) (dg_Size dg) in
           digest_Finish dg (o_pad @ inner) out_len)"

text \<open>The overload that takes the name of the algorithm: \<open>MessageDigestFactory::Create\<close>
  gives no digest when the size is 0.\<close>

definition ComputeHmac_alg :: "digest \<Rightarrow> bytes \<Rightarrow> bytes \<Rightarrow> nat \<Rightarrow> bytes" where
  "ComputeHmac_alg dg key input out_len =
     (if dg_Size dg = 0 then [] else ComputeHmac dg key input out_len)"

definition sha1_like :: "digest \<Rightarrow> bool" where
  "sha1_like dg \<longleftrightarrow> dg_Size dg = 20 \<and> (\<forall>x. length (dg_hash dg x) = 20)"

locale digest_algorithm =
  fixes dg :: digest
  assumes size_pos: "0 < dg_Size dg" and size_small: "dg_Size dg \<le> 32"
    and hash_size: "length (dg_hash dg x) = dg_Size dg"
begin

lemma hmac_key_length: "length (hmac_key dg key) = kBlockSize"
  using size_small by (simp add: hmac_key_def ComputeDigest_def digest_Finish_def hash_size kBlockSize_def)

lemma hmac_length: "dg_Size dg \<le> out_len \<Longrightarrow> length (ComputeHmac_alg dg key input out_len) = dg_Size dg"
  using size_pos size_small
  by (simp add: ComputeHmac_alg_def ComputeHmac_def Let_def digest_Finish_def hash_size)

lemma hmac_rfc2104:
  assumes "length key \<le> kBlockSize" and "dg_Size dg \<le> out_len"
  shows "ComputeHmac_alg dg key text out_len =
    (let k = key @ replicate (64 - length key) 0 in
     dg_hash dg (map ((XOR) 0x5c) k @ dg_hash dg (map ((XOR) 0x36) k @ text)))"
  using assms size_pos size_small
  by (simp add: ComputeHmac_alg_def ComputeHmac_def Let_def digest_Finish_def hmac_key_def
      kBlockSize_def)

end

text \<open>A digest of twenty bytes that sums its input, for evaluating the definitions.\<close>

definition sum_digest :: digest where
  "sum_digest = \<lparr>dg_Size = 20, dg_hash = (\<lambda>x. replicate 19 0 @ [foldr (+) x 0])\<rparr>"

lemma sha1_like_algorithm: "sha1_like dg \<Longrightarrow> digest_algorithm dg"
  by unfold_locales (simp_all add: sha1_like_def)

lemma sha1_like_sum_digest: "sha1_like sum_digest"
  by (simp add: sha1_like_def sum_digest_def)

interpretation sum_digest: digest_algorithm sum_digest
  by (rule sha1_like_algorithm [OF sha1_like_sum_digest])

lemmas sha1_hmac_length = digest_algorithm.hmac_length [OF sha1_like_algorithm]

end
