(* ===== verification/Stun_Auth.thy ===== *)
theory Stun_Auth
  imports Stun Message_Digest
begin

text \<open>
  The authentication half of \<open>ice/stun.cpp\<close>: FINGERPRINT (a CRC) and MESSAGE-INTEGRITY
  (an HMAC of the message up to the attribute, with the length field adjusted).  The
  validators work on raw memory, so they return \<open>None\<close> for an access outside the packet.
\<close>

definition STUN_FINGERPRINT_XOR_VALUE :: u32 where "STUN_FINGERPRINT_XOR_VALUE = 0x5354554e"

subsection \<open>Fingerprint\<close>

definition fingerprint_attr_size :: nat where
  "fingerprint_attr_size = k_stun_attribute_header_size + 4"

definition validate_fingerprint :: "bytes \<Rightarrow> bool option" where
  "validate_fingerprint data = (let len = length data in
     if len mod 4 \<noteq> 0 \<or> len < k_stun_header_size + fingerprint_attr_size then Some False
     else do {
       magic_cookie \<leftarrow> GetBE32 data (k_stun_transaction_id_offset - k_stun_magic_cookie_length);
       if magic_cookie \<noteq> k_stun_magic_cookie then Some False
       else do {
         let fp = len - fingerprint_attr_size;
         ty \<leftarrow> GetBE16 data fp;
         alen \<leftarrow> GetBE16 data (fp + 2);
         if ty \<noteq> STUN_ATTR_FINGERPRINT \<or> alen \<noteq> 4 then Some False
         else do {
           fingerprint \<leftarrow> GetBE32 data (fp + k_stun_attribute_header_size);
           Some (fingerprint XOR STUN_FINGERPRINT_XOR_VALUE = ComputeCrc32 (take fp data))
         }}})"

text \<open>\<open>set_value\<close> and \<open>copy_bytes\<close> act on the attribute just added, the last one.\<close>

definition update_last_attr ::
  "(stun_attribute \<Rightarrow> stun_attribute) \<Rightarrow> stun_message \<Rightarrow> stun_message" where
  "update_last_attr f m = m\<lparr>attrs := butlast (attrs m) @ [f (last (attrs m))]\<rparr>"

definition add_fingerprint :: "stun_message \<Rightarrow> bool \<times> stun_message" where
  "add_fingerprint m = (let
     m1 = add_attribute (StunUInt32Attribute STUN_ATTR_FINGERPRINT 0) m in
     case stun_write m1 [] of
       None \<Rightarrow> (False, m1)
     | Some buf \<Rightarrow>
         (let msg_len_for_crc32 = length buf - k_stun_attribute_header_size - 4;
              c = ComputeCrc32 (take msg_len_for_crc32 buf) in
          (True, update_last_attr
             (\<lambda>a. a\<lparr>attr_value := UInt32V (c XOR STUN_FINGERPRINT_XOR_VALUE)\<rparr>) m1)))"

subsection \<open>Message integrity\<close>

function find_attr_pos :: "bytes \<Rightarrow> u16 \<Rightarrow> nat \<Rightarrow> nat option option" where
  "find_attr_pos data mi_attr_type current_pos =
     (if current_pos + k_stun_attribute_header_size \<le> length data then do {
        attr_ty \<leftarrow> GetBE16 data current_pos;
        attr_len \<leftarrow> GetBE16 data (current_pos + 2);
        if attr_ty = mi_attr_type then Some (Some current_pos)
        else find_attr_pos data mi_attr_type
          (current_pos + k_stun_attribute_header_size + unat attr_len + padding (unat attr_len))
      } else Some None)"
  by pat_completeness auto
termination
  by (relation "measure (\<lambda>(d, _, p). length d - p)") (auto simp: k_stun_attribute_header_size_def)

declare find_attr_pos.simps [simp del]

definition validate_message_integrity_of_type ::
  "digest \<Rightarrow> u16 \<Rightarrow> nat \<Rightarrow> bytes \<Rightarrow> bytes \<Rightarrow> bool option" where
  "validate_message_integrity_of_type dg mi_attr_type mi_attr_size data pw = (let sz = length data in
     if sz mod 4 \<noteq> 0 \<or> sz < k_stun_header_size then Some False
     else do {
       len \<leftarrow> GetBE16 data 2;
       if unat len + k_stun_header_size \<noteq> sz then Some False
       else do {
         found \<leftarrow> find_attr_pos data mi_attr_type k_stun_header_size;
         case found of None \<Rightarrow> Some False
         | Some mi_pos \<Rightarrow> do {
             let extra_pos = mi_pos + k_stun_attribute_header_size + mi_attr_size;
             temp_data \<leftarrow> (if sz > extra_pos
               then (let extra_size = sz - extra_pos in
                     SetBE16 (take mi_pos data) 2 (of_nat (sz - extra_size - k_stun_header_size)))
               else Some (take mi_pos data));
             let hmac = ComputeHmac_alg dg pw temp_data k_stun_message_integrity_size;
             if length hmac \<noteq> k_stun_message_integrity_size then Some False
             else do {
               mac \<leftarrow> mem_read data (mi_pos + k_stun_attribute_header_size) mi_attr_size;
               Some (mac = take mi_attr_size hmac)
             }}}})"

definition validate_message_integrity ::
  "digest \<Rightarrow> bytes \<Rightarrow> stun_message \<Rightarrow> (integrity_status \<times> stun_message) option" where
  "validate_message_integrity dg pw m = (let m1 = m\<lparr>password := pw\<rparr> in do {
     status \<leftarrow> (case get_byte_string m1 STUN_ATTR_MESSAGE_INTEGRITY of
         None \<Rightarrow> Some k_no_integrity
       | Some _ \<Rightarrow> map_option (\<lambda>ok. if ok then k_integrity_ok else k_integrity_bad)
           (validate_message_integrity_of_type dg STUN_ATTR_MESSAGE_INTEGRITY
              k_stun_message_integrity_size (buffer m1) pw));
     Some (status, m1\<lparr>integrity := status\<rparr>)
   })"

definition add_message_integrity_of_type ::
  "digest \<Rightarrow> u16 \<Rightarrow> nat \<Rightarrow> bytes \<Rightarrow> stun_message \<Rightarrow> bool \<times> stun_message" where
  "add_message_integrity_of_type dg attr_ty attr_sz key m = (let
     m1 = add_attribute (StunByteStringAttribute attr_ty (replicate attr_sz 0x30)) m in
     case stun_write m1 [] of
       None \<Rightarrow> (False, m1)
     | Some buf \<Rightarrow>
         (let msg_len_for_hmac = length buf - k_stun_attribute_header_size - attr_sz;
              hmac = ComputeHmac_alg dg key (take msg_len_for_hmac buf) k_stun_message_integrity_size in
          if length hmac \<noteq> k_stun_message_integrity_size then (False, m1)
          else (True, (update_last_attr (copy_bytes (take k_stun_message_integrity_size hmac)) m1)
                 \<lparr>password := key, integrity := k_integrity_ok\<rparr>)))"

definition add_message_integrity :: "digest \<Rightarrow> bytes \<Rightarrow> stun_message \<Rightarrow> bool \<times> stun_message" where
  "add_message_integrity dg pw m =
     add_message_integrity_of_type dg STUN_ATTR_MESSAGE_INTEGRITY k_stun_message_integrity_size pw m"

subsection \<open>The fingerprint validator stays inside the packet\<close>

lemma validate_fingerprint_safe: "\<exists>ok. validate_fingerprint data = Some ok"
  by (auto simp: validate_fingerprint_def stun_consts fingerprint_attr_size_def Let_def
      GetBE16_def GetBE32_def)

text \<open>On a packet that ends in a FINGERPRINT attribute the validator is the comparison with the
  checksum of the bytes before it.\<close>

lemma validate_fingerprint_at:
  assumes "length hdr = 4" "length (hdr @ be32 cookie @ rest) mod 4 = 0" "12 \<le> length rest"
  shows "validate_fingerprint (hdr @ be32 cookie @ rest @ be16 ty @ be16 al @ be32 f) =
    Some (cookie = k_stun_magic_cookie \<and> ty = STUN_ATTR_FINGERPRINT \<and> al = 4 \<and>
      f XOR STUN_FINGERPRINT_XOR_VALUE = ComputeCrc32 (hdr @ be32 cookie @ rest))"
proof -
  let ?p = "hdr @ be32 cookie @ rest"
  let ?d = "hdr @ be32 cookie @ rest @ be16 ty @ be16 al @ be32 f"
  have l: "length ?d = length ?p + 8" by simp
  have "GetBE32 ?d 4 = Some cookie" using assms(1) by (simp add: GetBE32_at)
  moreover have "GetBE16 ?d (length ?p) = Some ty"
    using GetBE16_at [of "length ?p" ?p ty "be16 al @ be32 f"] by simp
  moreover have "GetBE16 ?d (length ?p + 2) = Some al"
    using GetBE16_at [of "length ?p + 2" "?p @ be16 ty" al "be32 f"] by simp
  moreover have "GetBE32 ?d (length ?p + 4) = Some f"
    using GetBE32_at [of "length ?p + 4" "?p @ be16 ty @ be16 al" f "[]"] by simp
  moreover have "take (length ?p) ?d = ?p" by simp
  moreover have "length ?d mod 4 = 0" unfolding l using assms(2) by presburger
  ultimately show ?thesis
    using assms l by (auto simp: validate_fingerprint_def stun_consts fingerprint_attr_size_def Let_def)
qed

subsection \<open>A changed byte is detected\<close>

lemma validate_fingerprint_unfold:
  "validate_fingerprint d = Some True \<longleftrightarrow>
     length d mod 4 = 0 \<and> 28 \<le> length d \<and> of_be (take 4 (drop 4 d)) = k_stun_magic_cookie \<and>
     of_be (take 2 (drop (length d - 8) d)) = STUN_ATTR_FINGERPRINT \<and>
     of_be (take 2 (drop (length d - 8 + 2) d)) = (4 :: u16) \<and>
     of_be (take 4 (drop (length d - 8 + 4) d)) XOR STUN_FINGERPRINT_XOR_VALUE =
       ComputeCrc32 (take (length d - 8) d)"
  by (auto simp: validate_fingerprint_def stun_consts fingerprint_attr_size_def Let_def
      GetBE16_def GetBE32_def)

text \<open>C26: Fingerprint validation detects any change of a single byte in front of the
  fingerprint attribute of a valid packet.\<close>
theorem fingerprint_change:
  assumes v: "validate_fingerprint d = Some True" and i: "i < length d - 8" and b: "b \<noteq> d ! i"
  shows "validate_fingerprint (d[i := b]) = Some False"
proof -
  let ?fp = "length d - 8"
  have drops: "drop (?fp + k) (d[i := b]) = drop (?fp + k) d" for k
    using i by (simp add: drop_update_cancel)
  have takes: "take ?fp (d[i := b]) = (take ?fp d)[i := b]" by (rule take_update_swap)
  have "ComputeCrc32 ((take ?fp d)[i := b]) \<noteq> ComputeCrc32 (take ?fp d)"
    using i b by (intro ComputeCrc32_update) auto
  moreover have "of_be (take 4 (drop (?fp + 4) d)) XOR STUN_FINGERPRINT_XOR_VALUE
    = ComputeCrc32 (take ?fp d)" using v unfolding validate_fingerprint_unfold by blast
  ultimately have "validate_fingerprint (d[i := b]) \<noteq> Some True"
    unfolding validate_fingerprint_unfold length_list_update drops takes by metis
  then show ?thesis
    using validate_fingerprint_safe [of "d[i := b]"] by (metis (full_types))
qed

subsection \<open>What the sender adds, the receiver accepts\<close>

lemma add_attribute_msg_length:
  "msg_length (add_attribute a m) = msg_length m + of_nat (attr_size a)"
  by (simp add: add_attribute_def Let_def attr_size_def add.commute)

lemma update_last_attr_add:
  "attrs (update_last_attr f (add_attribute a m)) = attrs m @ [f a]"
  by (simp add: update_last_attr_def)

lemma update_last_attr_frame [frame_simps, simp]:
  "msg_type (update_last_attr f m) = msg_type m" "msg_length (update_last_attr f m) = msg_length m"
  "transaction_id (update_last_attr f m) = transaction_id m"
  by (simp_all add: update_last_attr_def)

lemma attr_size_fixed [simp]:
  "attr_size (StunUInt32Attribute t v) = 8"
  "length bs = 20 \<Longrightarrow> attr_size (StunByteStringAttribute t bs) = 24"
  by (simp_all add: attr_size_def StunUInt32Attribute_def StunByteStringAttribute_def
      StunByteStringAttribute_len_def copy_bytes_def padding_def k_stun_attribute_header_size_def)

lemma set_value_ctor [simp]:
  "(StunUInt32Attribute t w)\<lparr>attr_value := UInt32V v\<rparr> = StunUInt32Attribute t v"
  "copy_bytes bs (StunByteStringAttribute t cs) = StunByteStringAttribute t bs"
  by (simp_all add: StunUInt32Attribute_def StunByteStringAttribute_def copy_bytes_def
      StunByteStringAttribute_len_def)

lemma attr_encode_ctor [codec_simps]:
  "attr_encode (StunUInt32Attribute t v) = Some (be16 t @ be16 4 @ be32 v)"
  "length bs = 20 \<Longrightarrow> attr_encode (StunByteStringAttribute t bs) = Some (be16 t @ be16 20 @ bs)"
  by (simp_all add: attr_encode_def attr_write_def write_defs StunUInt32Attribute_def
      StunByteStringAttribute_def StunByteStringAttribute_len_def copy_bytes_def
      write_padding_def padding_def)

text \<open>The message after \<open>add_fingerprint\<close>.\<close>

lemma add_fingerprint_ok:
  assumes "write_attrs (attrs m) [] = Some v"
  defines "m1 \<equiv> add_attribute (StunUInt32Attribute STUN_ATTR_FINGERPRINT 0) m"
  shows "\<exists>m'. add_fingerprint m = (True, m') \<and> msg_type m' = msg_type m \<and>
    transaction_id m' = transaction_id m \<and> msg_length m' = msg_length m + 8 \<and>
    attrs m' = attrs m @ [StunUInt32Attribute STUN_ATTR_FINGERPRINT
      (ComputeCrc32 (stun_header m1 @ v) XOR STUN_FINGERPRINT_XOR_VALUE)]"
proof -
  have "write_attrs (attrs m1) [] = Some (v @ be16 STUN_ATTR_FINGERPRINT @ be16 4 @ be32 0)"
    by (simp add: m1_def write_attrs_snoc assms(1) codec_simps)
  then have w: "stun_write m1 [] = Some (stun_header m1 @ v @ be16 STUN_ATTR_FINGERPRINT @ be16 4 @ be32 0)"
    by (simp add: stun_write_eq)
  have "take (length (stun_header m1) + length v)
    (stun_header m1 @ v @ be16 STUN_ATTR_FINGERPRINT @ be16 4 @ be32 0) = stun_header m1 @ v" by simp
  with w show ?thesis
    unfolding add_fingerprint_def m1_def [symmetric]
    by (simp add: Let_def k_stun_attribute_header_size_def)
       (simp add: m1_def update_last_attr_add add_attribute_msg_length)
qed

lemma add_fingerprint_validates:
  assumes wf: "stun_wf m" and w: "write_attrs (attrs m) [] = Some u"
    and af: "add_fingerprint m = (True, m')" and wm: "stun_write m' [] = Some v"
  shows "validate_fingerprint v = Some True"
proof -
  let ?m1 = "add_attribute (StunUInt32Attribute STUN_ATTR_FINGERPRINT 0) m"
  let ?crc = "ComputeCrc32 (stun_header ?m1 @ u) XOR STUN_FINGERPRINT_XOR_VALUE"
  from add_fingerprint_ok [OF w] af have m': "msg_type m' = msg_type m"
    "transaction_id m' = transaction_id m" "msg_length m' = msg_length m + 8"
    "attrs m' = attrs m @ [StunUInt32Attribute STUN_ATTR_FINGERPRINT ?crc]" by auto
  then have h: "stun_header m' = stun_header ?m1"
    by (simp add: stun_header_def add_attribute_msg_length)
  from wm m'(4) w have v: "v = stun_header ?m1 @ u @ be16 STUN_ATTR_FINGERPRINT @ be16 4 @ be32 ?crc"
    by (auto simp: stun_write_eq write_attrs_snoc codec_simps h)
  let ?hdr = "be16 (msg_type m) @ be16 (msg_length ?m1)"
  have u4: "length u mod 4 = 0" and tid: "length (transaction_id m) = 12"
    using wf write_attrs_length [OF _ w] attrs_size_4 [of "attrs m"]
    by (auto simp: stun_wf_def dvd_eq_mod_eq_0)
  have "validate_fingerprint (?hdr @ be32 k_stun_magic_cookie @ (transaction_id m @ u)
      @ be16 STUN_ATTR_FINGERPRINT @ be16 4 @ be32 ?crc) = Some True"
    by (subst validate_fingerprint_at)
       (use u4 tid in \<open>auto simp: stun_header_def xor.assoc mod_add_right_eq [symmetric, of 20]\<close>)
  then show ?thesis by (simp add: v stun_header_def)
qed

lemma find_attr_pos_hit:
  "find_attr_pos (pre @ be16 ty @ be16 l @ rest) ty (length pre) = Some (Some (length pre))"
proof -
  let ?d = "pre @ be16 ty @ be16 l @ rest"
  have "GetBE16 ?d (length pre) = Some ty" by (rule GetBE16_at) simp
  moreover have "GetBE16 ?d (length pre + 2) = Some l"
    using GetBE16_at [of "length pre + 2" "pre @ be16 ty" l rest] by simp
  ultimately show ?thesis
    by (subst find_attr_pos.simps) (simp add: k_stun_attribute_header_size_def)
qed

lemma find_attr_pos_skip:
  assumes "attr_encode a = Some x" "attr_type a \<noteq> ty"
  shows "find_attr_pos (pre @ x @ rest) ty (length pre) =
    find_attr_pos (pre @ x @ rest) ty (length pre + attr_size a)"
proof -
  from assms(1) obtain b where x: "x = be16 (attr_type a) @ be16 (attr_length a) @ b"
    by (auto simp: attr_encode_def)
  let ?d = "pre @ x @ rest"
  have "GetBE16 ?d (length pre) = Some (attr_type a)"
    using GetBE16_at [of "length pre" pre "attr_type a" "be16 (attr_length a) @ b @ rest"]
    by (simp add: x)
  moreover have "GetBE16 ?d (length pre + 2) = Some (attr_length a)"
    using GetBE16_at [of "length pre + 2" "pre @ be16 (attr_type a)" "attr_length a" "b @ rest"]
    by (simp add: x)
  moreover have "length pre + 4 \<le> length ?d" by (simp add: x)
  ultimately show ?thesis using assms(2)
    by (subst find_attr_pos.simps) (simp add: k_stun_attribute_header_size_def attr_size_def add.assoc)
qed

lemma find_attr_pos_attrs:
  "(\<And>a. a \<in> set as \<Longrightarrow> attr_wf a \<and> attr_type a \<noteq> ty) \<Longrightarrow> write_attrs as [] = Some v \<Longrightarrow>
   find_attr_pos (pre @ v @ rest) ty (length pre) = find_attr_pos (pre @ v @ rest) ty (length pre + length v)"
proof (induction as arbitrary: v pre)
  case (Cons a as)
  from Cons.prems(2) obtain x y where x: "attr_encode a = Some x" and y: "write_attrs as [] = Some y"
    and v: "v = x @ y"
    unfolding write_attrs_Cons by auto
  have l: "length x = attr_size a" using Cons.prems(1) x by (simp add: attr_encode_length)
  have "find_attr_pos (pre @ x @ y @ rest) ty (length pre)
    = find_attr_pos (pre @ x @ y @ rest) ty (length pre + attr_size a)"
    using find_attr_pos_skip [OF x, of ty pre "y @ rest"] Cons.prems(1) by simp
  also have "\<dots> = find_attr_pos (pre @ x @ y @ rest) ty (length pre + length v)"
    using Cons.IH [OF Cons.prems(1) y, of "pre @ x"] l v by (simp add: add.assoc)
  finally show ?case by (simp add: v)
qed simp

text \<open>Validation of a message laid out as the sender writes it, with or without attributes
  after MESSAGE-INTEGRITY.\<close>

lemma validate_integrity_layout:
  fixes t len :: u16 and tid v mac extra :: bytes
  defines "d \<equiv> be16 t @ be16 len @ be32 k_stun_magic_cookie @ tid @ v
    @ be16 STUN_ATTR_MESSAGE_INTEGRITY @ be16 20 @ mac @ extra"
  defines "covered \<equiv> be16 t @ be16 (of_nat (length v + 24)) @ be32 k_stun_magic_cookie @ tid @ v"
  assumes tid: "length tid = 12" and v: "write_attrs as [] = Some v" and v4: "length v mod 4 = 0"
    and as: "\<And>a. a \<in> set as \<Longrightarrow> attr_wf a \<and> attr_type a \<noteq> STUN_ATTR_MESSAGE_INTEGRITY"
    and mac: "length mac = 20" and e4: "length extra mod 4 = 0"
    and len: "unat len = length v + 24 + length extra"
    and sha: "sha1_like dg"
  shows "validate_message_integrity_of_type dg STUN_ATTR_MESSAGE_INTEGRITY 20 d pw =
    Some (mac = ComputeHmac_alg dg pw covered 20)"
proof -
  let ?hdr = "be16 t @ be16 len @ be32 k_stun_magic_cookie @ tid"
  let ?rest = "be16 STUN_ATTR_MESSAGE_INTEGRITY @ be16 20 @ mac @ extra"
  have ld: "length d = 44 + length v + length extra" using tid mac by (simp add: d_def)
  have d: "d = ?hdr @ v @ ?rest" by (simp add: d_def)
  have get: "GetBE16 d 2 = Some len"
    using GetBE16_at [of 2 "be16 t" len] by (simp add: d_def)
  have "find_attr_pos d STUN_ATTR_MESSAGE_INTEGRITY (length ?hdr)
    = find_attr_pos d STUN_ATTR_MESSAGE_INTEGRITY (length (?hdr @ v))"
    using find_attr_pos_attrs [OF as v, of ?hdr ?rest] by (simp add: d add.assoc)
  also have "\<dots> = Some (Some (length (?hdr @ v)))"
    using find_attr_pos_hit [of "?hdr @ v" STUN_ATTR_MESSAGE_INTEGRITY] by (simp add: d add.assoc)
  finally have pos: "find_attr_pos d STUN_ATTR_MESSAGE_INTEGRITY 20 = Some (Some (20 + length v))"
    using tid by simp
  have tk: "take (20 + length v) d = ?hdr @ v" using tid by (simp add: d)
  have set: "SetBE16 (take (20 + length v) d) 2 (of_nat (24 + length v)) = Some covered"
    unfolding tk by (simp add: SetBE16_def covered_def add.commute)
  have same: "take (20 + length v) d = covered" if "extra = []"
  proof -
    have "length v + 24 = unat len" using that by (simp add: len)
    then have "of_nat (length v + 24) = (of_nat (unat len) :: u16)" by (rule arg_cong)
    also have "\<dots> = len" by simp
    finally show ?thesis by (simp only: tk covered_def append_assoc)
  qed
  have "d = (?hdr @ v @ be16 STUN_ATTR_MESSAGE_INTEGRITY @ be16 20) @ mac @ extra"
    by (simp add: d_def)
  then have rd: "mem_read d (20 + length v + 4) 20 = Some mac"
    by (simp only:) (rule mem_read_at; use tid mac in simp)
  have hl: "length (ComputeHmac_alg dg pw x 20) = 20" for x
    using sha1_hmac_length [OF sha, of 20] sha by (simp add: sha1_like_def)
  have m4: "length d mod 4 = 0" unfolding ld using v4 e4 by presburger
  have temp: "(if length d > 20 + length v + 4 + 20
      then SetBE16 (take (20 + length v) d) 2
        (of_nat (length d - (length d - (20 + length v + 4 + 20)) - 20))
      else Some (take (20 + length v) d)) = Some covered"
  proof (cases "extra = []")
    case True
    then show ?thesis using same ld by simp
  next
    case False
    then have g: "length d > 20 + length v + 4 + 20" by (simp add: ld)
    then have "length d - (length d - (20 + length v + 4 + 20)) - 20 = 24 + length v" by simp
    then show ?thesis using g set by (simp only: if_True)
  qed
  have c: "\<not> (length d mod 4 \<noteq> 0 \<or> length d < 20)" "\<not> unat len + 20 \<noteq> length d"
    using m4 ld len by simp_all
  have "take 20 (ComputeHmac_alg dg pw covered 20) = ComputeHmac_alg dg pw covered 20"
    using hl [of covered] by simp
  then show ?thesis
    unfolding validate_message_integrity_of_type_def Let_def stun_consts
    by (simp only: c if_False get pos temp bind.bind_lunit option.case hl rd simp_thms)
qed

lemma add_message_integrity_ok:
  assumes "write_attrs (attrs m) [] = Some v" and sha: "sha1_like dg"
  defines "m1 \<equiv> add_attribute (StunByteStringAttribute STUN_ATTR_MESSAGE_INTEGRITY (replicate 20 0x30)) m"
  shows "\<exists>m'. add_message_integrity dg pw m = (True, m') \<and> msg_type m' = msg_type m \<and>
    transaction_id m' = transaction_id m \<and> msg_length m' = msg_length m + 24 \<and>
    attrs m' = attrs m @ [StunByteStringAttribute STUN_ATTR_MESSAGE_INTEGRITY
      (ComputeHmac_alg dg pw (stun_header m1 @ v) 20)]"
proof -
  let ?t = "be16 STUN_ATTR_MESSAGE_INTEGRITY @ be16 20 @ replicate 20 0x30"
  have "write_attrs (attrs m1) [] = Some (v @ ?t)"
    by (simp add: m1_def write_attrs_snoc assms(1) codec_simps)
  then have w: "stun_write m1 [] = Some (stun_header m1 @ v @ ?t)"
    by (simp add: stun_write_eq)
  have tk: "take (length (stun_header m1) + length v) (stun_header m1 @ v @ ?t) = stun_header m1 @ v"
    by simp
  have hl: "length (ComputeHmac_alg dg pw x 20) = 20" for x
    using sha1_hmac_length [OF sha, of 20] sha by (simp add: sha1_like_def)
  have l: "length (stun_header m1 @ v @ ?t) - 4 - 20 = length (stun_header m1) + length v" by simp
  have "add_message_integrity dg pw m = (True, (update_last_attr
      (copy_bytes (ComputeHmac_alg dg pw (stun_header m1 @ v) 20)) m1)
        \<lparr>password := pw, integrity := k_integrity_ok\<rparr>)"
    unfolding add_message_integrity_def add_message_integrity_of_type_def stun_consts
      m1_def [symmetric] Let_def w option.case l tk
    using hl [of "stun_header m1 @ v"] by simp
  then show ?thesis
    by (simp add: m1_def update_last_attr_add add_attribute_msg_length)
qed

abbreviation mi_attr :: "bytes \<Rightarrow> stun_attribute" where
  "mi_attr mac \<equiv> StunByteStringAttribute STUN_ATTR_MESSAGE_INTEGRITY mac"

abbreviation fp_attr :: "u32 \<Rightarrow> stun_attribute" where
  "fp_attr f \<equiv> StunUInt32Attribute STUN_ATTR_FINGERPRINT f"

lemmas auth_attr_defs = get_attribute_value_type_def stun_attr_types StunUInt32Attribute_def
  StunByteStringAttribute_def StunByteStringAttribute_len_def copy_bytes_def

lemma auth_attr_typed [simp]:
  "attr_typed (mi_attr mac)" "attr_typed (fp_attr f)" "attr_known (mi_attr mac)"
  "\<not> attr_known (fp_attr f)" "attr_type (mi_attr mac) = STUN_ATTR_MESSAGE_INTEGRITY"
  by (simp_all add: attr_typed_def attr_known_def auth_attr_defs)

text \<open>The bytes covered by the HMAC of a message with attributes \<open>u\<close>: the header
  announces a length that ends with MESSAGE-INTEGRITY.\<close>

definition hmac_covered :: "stun_message \<Rightarrow> bytes \<Rightarrow> bytes" where
  "hmac_covered m u = be16 (msg_type m) @ be16 (of_nat (length u + 24))
     @ be32 k_stun_magic_cookie @ transaction_id m @ u"

lemma hmac_length_20 [simp]: "sha1_like dg \<Longrightarrow> length (ComputeHmac_alg dg pw x 20) = 20"
  using sha1_hmac_length [of dg 20] by (simp add: sha1_like_def)

lemma authenticated_write:
  assumes wf: "stun_wf m" and room: "unat (msg_length m) + 32 < 2 ^ 16"
    and u: "write_attrs (attrs m) [] = Some u" and sha: "sha1_like dg"
  shows "\<exists>m1 m2 f v. add_message_integrity dg pw m = (True, m1) \<and> add_fingerprint m1 = (True, m2) \<and>
    stun_wf m2 \<and> msg_type m2 = msg_type m \<and> transaction_id m2 = transaction_id m \<and>
    attrs m2 = attrs m @ [mi_attr (ComputeHmac_alg dg pw (hmac_covered m u) 20), fp_attr f] \<and>
    unat (msg_length m2) = unat (msg_length m) + 32 \<and>
    stun_write m2 [] = Some v \<and> validate_fingerprint v = Some True"
proof -
  let ?ma = "add_attribute (mi_attr (replicate 20 0x30)) m"
  let ?mac = "ComputeHmac_alg dg pw (stun_header ?ma @ u) 20"
  from add_message_integrity_ok [OF u sha, of pw] obtain m1 where
    mi: "add_message_integrity dg pw m = (True, m1)" and f1: "msg_type m1 = msg_type m"
      "transaction_id m1 = transaction_id m" "msg_length m1 = msg_length m + 24"
      "attrs m1 = attrs m @ [mi_attr ?mac]" by blast
  have ul1: "unat (msg_length m1) = unat (msg_length m) + 24"
    using room by (simp add: f1 unat_word_ariths)
  have wf1: "stun_wf m1" using wf ul1 sha by (auto simp: stun_wf_def f1)
  have u1: "write_attrs (attrs m1) [] = Some (u @ be16 STUN_ATTR_MESSAGE_INTEGRITY @ be16 20 @ ?mac)"
    using sha by (simp add: f1 write_attrs_snoc u codec_simps)
  from add_fingerprint_ok [OF u1] obtain m2 f where
    fp: "add_fingerprint m1 = (True, m2)" and f2: "msg_type m2 = msg_type m1"
      "transaction_id m2 = transaction_id m1" "msg_length m2 = msg_length m1 + 8"
      "attrs m2 = attrs m1 @ [fp_attr f]" by blast
  have ul2: "unat (msg_length m2) = unat (msg_length m) + 32"
    using room ul1 by (simp add: f2 unat_word_ariths)
  have wf2: "stun_wf m2" using wf1 ul1 ul2 by (auto simp: stun_wf_def f2)
  obtain v where w2: "stun_write m2 [] = Some v"
    using u1 by (auto simp: stun_write_eq f2 write_attrs_snoc codec_simps)
  have lu: "length u = unat (msg_length m)"
    using wf u by (simp add: stun_wf_def write_attrs_length)
  have "stun_header ?ma @ u = hmac_covered m u"
    by (simp add: stun_header_def hmac_covered_def add_attribute_msg_length lu)
  with mi fp wf2 f1 f2 ul2 w2 add_fingerprint_validates [OF wf1 u1 fp w2] show ?thesis
    by auto
qed

text \<open>The whole way of a message: the sender adds MESSAGE-INTEGRITY and FINGERPRINT and
  writes it; the receiver's validators accept the bytes, and its parser returns the header and
  the attributes it knows.\<close>

lemma authenticated_read:
  assumes wf: "stun_wf m" and room: "unat (msg_length m) + 32 < 2 ^ 16"
    and ty: "\<And>a. a \<in> set (attrs m) \<Longrightarrow> attr_typed a \<and> attr_type a \<noteq> STUN_ATTR_MESSAGE_INTEGRITY"
    and stun: "msg_type m AND 0x0800 = 0" and sha: "sha1_like dg"
    and u: "write_attrs (attrs m) [] = Some u"
    and m2: "stun_wf m2" "msg_type m2 = msg_type m" "transaction_id m2 = transaction_id m"
      "attrs m2 = attrs m @ [mi_attr (ComputeHmac_alg dg pw (hmac_covered m u) 20), fp_attr f]"
      "unat (msg_length m2) = unat (msg_length m) + 32"
    and v: "stun_write m2 [] = Some v"
  shows "\<exists>rm r. stun_read StunMessage (ByteBufferReader v) = Some (rm, r) \<and> Length r = 0 \<and>
    msg_type rm = msg_type m \<and> transaction_id rm = transaction_id m \<and> buffer rm = v \<and>
    attrs rm = filter attr_known (attrs m) @ [mi_attr (ComputeHmac_alg dg pw (hmac_covered m u) 20)] \<and>
    validate_message_integrity_of_type dg STUN_ATTR_MESSAGE_INTEGRITY 20 v pw = Some True"
proof -
  let ?mac = "ComputeHmac_alg dg pw (hmac_covered m u) 20"
  have typed2: "attr_typed a" if "a \<in> set (attrs m2)" for a
    using that ty by (auto simp: m2(4))
  from stun_read_written [OF m2(1) typed2 _ v, of StunMessage] stun obtain r where
    rd: "stun_read StunMessage (ByteBufferReader v) = Some (StunMessage\<lparr>buffer := v,
      msg_type := msg_type m2, msg_length := msg_length m2, transaction_id := transaction_id m2,
      attrs := filter attr_known (attrs m2)\<rparr>, r)" "Length r = 0"
    by (auto simp: m2(2))
  have "write_attrs ((attrs m @ [mi_attr ?mac]) @ [fp_attr f]) [] = Some (u
      @ be16 STUN_ATTR_MESSAGE_INTEGRITY @ be16 20 @ ?mac @ be16 STUN_ATTR_FINGERPRINT @ be16 4 @ be32 f)"
    unfolding write_attrs_snoc using u sha by (simp add: codec_simps)
  with v have "v = stun_header m2 @ u @ be16 STUN_ATTR_MESSAGE_INTEGRITY @ be16 20 @ ?mac
      @ be16 STUN_ATTR_FINGERPRINT @ be16 4 @ be32 f"
    by (simp add: stun_write_eq m2(4))
  then have layout: "v = be16 (msg_type m) @ be16 (msg_length m2) @ be32 k_stun_magic_cookie
      @ transaction_id m @ u @ be16 STUN_ATTR_MESSAGE_INTEGRITY @ be16 20 @ ?mac
      @ (be16 STUN_ATTR_FINGERPRINT @ be16 4 @ be32 f)"
    by (simp add: stun_header_def m2)
  have lu: "length u = unat (msg_length m)" and id: "length (transaction_id m) = 12"
    using wf u by (simp_all add: stun_wf_def write_attrs_length)
  have u4: "length u mod 4 = 0"
    using lu wf attrs_size_4 [of "attrs m"] by (simp add: stun_wf_def dvd_eq_mod_eq_0)
  have as: "attr_wf a \<and> attr_type a \<noteq> STUN_ATTR_MESSAGE_INTEGRITY" if "a \<in> set (attrs m)" for a
    using that ty wf by (simp add: stun_wf_def)
  have "validate_message_integrity_of_type dg STUN_ATTR_MESSAGE_INTEGRITY 20 v pw
    = Some (?mac = ComputeHmac_alg dg pw (hmac_covered m u) 20)"
    unfolding layout hmac_covered_def
    by (rule validate_integrity_layout [OF id u u4 as _ _ _ sha]) (use sha lu m2(5) in simp_all)
  with rd show ?thesis by (simp add: m2)
qed

lemma find_attr_pos_total: "\<exists>r. find_attr_pos data ty pos = Some r \<and> (\<forall>p. r = Some p \<longrightarrow> pos \<le> p \<and> p + 4 \<le> length data)"
proof (induction data ty pos rule: find_attr_pos.induct)
  case (1 d ty pos)
  show ?case
  proof (cases "pos + k_stun_attribute_header_size \<le> length d")
    case True
    then obtain t l where "GetBE16 d pos = Some t" "GetBE16 d (pos + 2) = Some l"
      by (auto simp: GetBE16_def k_stun_attribute_header_size_def)
    with True 1 [OF True] show ?thesis
      by (subst find_attr_pos.simps) (fastforce simp: k_stun_attribute_header_size_def)
  next
    case False
    then show ?thesis by (subst find_attr_pos.simps) simp
  qed
qed

text \<open>C27: The MESSAGE-INTEGRITY validator reads outside the packet exactly when the
  packet passes the length checks and its first MESSAGE-INTEGRITY attribute starts less than 24
  bytes before the end.\<close>
theorem integrity_memory:
  assumes "sha1_like dg"
  shows "validate_message_integrity_of_type dg STUN_ATTR_MESSAGE_INTEGRITY k_stun_message_integrity_size data pw = None \<longleftrightarrow>
    length data mod 4 = 0 \<and> 20 \<le> length data \<and>
    map_option (\<lambda>len. unat len + 20) (GetBE16 data 2) = Some (length data) \<and>
    (\<exists>pos. find_attr_pos data STUN_ATTR_MESSAGE_INTEGRITY 20 = Some (Some pos) \<and> length data < pos + 24)"
proof (cases "length data mod 4 = 0 \<and> 20 \<le> length data")
  case True
  then obtain len where len: "GetBE16 data 2 = Some len" by (auto simp: GetBE16_def)
  obtain r where r: "find_attr_pos data STUN_ATTR_MESSAGE_INTEGRITY 20 = Some r"
    "\<And>p. r = Some p \<Longrightarrow> 20 \<le> p \<and> p + 4 \<le> length data"
    using find_attr_pos_total [of data STUN_ATTR_MESSAGE_INTEGRITY 20] by blast
  have h: "length (ComputeHmac_alg dg pw x 20) = 20" for x using hmac_length_20 [OF assms] .
  show ?thesis using True len r h
    by (cases r) (auto simp: validate_message_integrity_of_type_def Let_def stun_consts
        SetBE16_def mem_read_def)
qed (auto simp: validate_message_integrity_of_type_def Let_def stun_consts)

theorem integrity_memory_witness:
  "validate_message_integrity_of_type sum_digest STUN_ATTR_MESSAGE_INTEGRITY k_stun_message_integrity_size
     ([0, 1, 0, 4, 0x21, 0x12, 0xA4, 0x42] @ replicate 12 0 @ [0, 8, 0, 0]) [] = None"
proof -
  let ?d = "[0, 1, 0, 4, 0x21, 0x12, 0xA4, 0x42] @ replicate 12 0 @ [0, 8, 0, 0] :: bytes"
  have "find_attr_pos ?d STUN_ATTR_MESSAGE_INTEGRITY 20 = Some (Some 20)"
    "map_option (\<lambda>len. unat len + 20) (GetBE16 ?d 2) = Some (length ?d)" by code_simp+
  then show ?thesis
    by (subst integrity_memory [OF sha1_like_sum_digest]) simp
qed

theorem fingerprint_change_witness:
  "let d = the (stun_write (snd (add_fingerprint (snd (add_message_integrity sum_digest [] StunMessage)))) []) in
     validate_fingerprint (d[0 := d ! 0 + 1]) = Some False"
proof -
  have "write_attrs (attrs StunMessage) [] = Some []" "msg_length StunMessage = 0" by (simp_all add: StunMessage_def)
  then obtain m1 m2 v where m: "add_message_integrity sum_digest [] StunMessage = (True, m1)"
      "add_fingerprint m1 = (True, m2)" "stun_wf m2" "unat (msg_length m2) = 32"
      "stun_write m2 [] = Some v" "validate_fingerprint v = Some True"
    using authenticated_write [of StunMessage "[]" sum_digest "[]"] by (auto simp: sha1_like_sum_digest)
  from stun_write_length(1) [OF m(3,5)] m(4) have "0 < length v - 8" by (simp add: stun_consts)
  from fingerprint_change [OF m(6) this, of "v ! 0 + 1"] show ?thesis by (simp add: m)
qed

end
