(* ===== verification/Candidate.thy ===== *)
theory Candidate
  imports Socket_Address Crc32
begin

text \<open>
  \<open>ice/ice_def.h\<close>, \<open>ice/ice_def.cpp\<close>, \<open>ice/ice_credentials.h\<close> and
  \<open>ice/candidate.cpp\<close>: the constants of the ICE agent, credentials, candidates and their
  priority.  ICE user fragments and passwords travel in packets and are byte lists.
\<close>

definition ICE_UFRAG_LENGTH :: nat where "ICE_UFRAG_LENGTH = 4"
definition ICE_PWD_LENGTH :: nat where "ICE_PWD_LENGTH = 24"
definition STUN_PACKET_SIZE :: int where "STUN_PACKET_SIZE = 60 * 8"
definition WEAK_PING_INTERVAL :: int where "WEAK_PING_INTERVAL = 1000 * STUN_PACKET_SIZE div 10000"
definition STRONG_PING_INTERVAL :: int where "STRONG_PING_INTERVAL = 1000 * STUN_PACKET_SIZE div 1000"
definition STABLING_CONNECTION_PING_INTERVAL :: int where "STABLING_CONNECTION_PING_INTERVAL = 900"
definition STABLE_CONNECTION_PING_INTERVAL :: int where "STABLE_CONNECTION_PING_INTERVAL = 2500"
definition MIN_PINGS_AT_WEAK_PING_INTERVAL :: int where "MIN_PINGS_AT_WEAK_PING_INTERVAL = 3"
definition WEAK_CONNECTION_RECEIVE_TIMEOUT :: int where "WEAK_CONNECTION_RECEIVE_TIMEOUT = 2500"
definition CONNECTION_WRITE_CONNECT_FAILS :: nat where "CONNECTION_WRITE_CONNECT_FAILS = 5"
definition CONNECTION_WRITE_CONNECT_TIMEOUT :: int where "CONNECTION_WRITE_CONNECT_TIMEOUT = 5000"
definition CONNECTION_WRITE_TIMEOUT :: int where "CONNECTION_WRITE_TIMEOUT = 15000"

lemmas ice_consts = STUN_PACKET_SIZE_def WEAK_PING_INTERVAL_def STRONG_PING_INTERVAL_def
  STABLING_CONNECTION_PING_INTERVAL_def STABLE_CONNECTION_PING_INTERVAL_def
  MIN_PINGS_AT_WEAK_PING_INTERVAL_def WEAK_CONNECTION_RECEIVE_TIMEOUT_def
  CONNECTION_WRITE_CONNECT_FAILS_def CONNECTION_WRITE_CONNECT_TIMEOUT_def
  CONNECTION_WRITE_TIMEOUT_def

datatype ice_component = RTP | RTCP

fun component_code :: "ice_component \<Rightarrow> int" where
  "component_code RTP = 1"
| "component_code RTCP = 2"

definition ICE_TYPE_PREFERENCE_RELAY_UDP :: u32 where "ICE_TYPE_PREFERENCE_RELAY_UDP = 2"
definition ICE_TYPE_PREFERENCE_SRFLX :: u32 where "ICE_TYPE_PREFERENCE_SRFLX = 100"
definition ICE_TYPE_PREFERENCE_PRFLX :: u32 where "ICE_TYPE_PREFERENCE_PRFLX = 110"
definition ICE_TYPE_PREFERENCE_HOST :: u32 where "ICE_TYPE_PREFERENCE_HOST = 126"

record ice_parameters =
  ice_ufrag :: bytes
  ice_pwd :: bytes

record candidate =
  component :: ice_component
  protocol :: string
  address :: socket_address
  cand_port :: int
  cand_priority :: u32
  username :: bytes
  cand_password :: bytes
  cand_type :: string
  foundation :: string

definition get_priority :: "candidate \<Rightarrow> u32 \<Rightarrow> int \<Rightarrow> int \<Rightarrow> u32" where
  "get_priority c type_preference network_adapter_preference relay_preference = (let
     addr_ref = IPAddressPrecedence (sa_ip (address c));
     local_pref = (push_bit 8 network_adapter_preference OR addr_ref) + relay_preference in
     push_bit 24 type_preference OR word_of_int (push_bit 8 local_pref)
       OR word_of_int (256 - component_code (component c)))"

text \<open>\<open>CreateRandomString\<close>: the characters of the base64 table the random bytes select.\<close>

definition kBase64 :: string where
  "kBase64 = ''ABCDEFGHIJKLMNOPQRSTUVWXYZabcdefghijklmnopqrstuvwxyz0123456789+/''"

definition CreateRandomString :: "bytes \<Rightarrow> bytes" where
  "CreateRandomString random = map (\<lambda>b. of_char (kBase64 ! (unat b mod 64))) random"

definition create_random_ice_credentials :: "bytes \<Rightarrow> bytes \<Rightarrow> ice_parameters" where
  "create_random_ice_credentials random1 random2 =
     \<lparr>ice_ufrag = CreateRandomString (take ICE_UFRAG_LENGTH random1),
      ice_pwd = CreateRandomString (take ICE_PWD_LENGTH random2)\<rparr>"

subsection \<open>The priority formula\<close>

lemma IPAddressPrecedence_range: "0 \<le> IPAddressPrecedence ip \<and> IPAddressPrecedence ip \<le> 60"
  by (simp add: IPAddressPrecedence_def)

lemma or_disjoint_add:
  fixes a b :: int
  assumes "0 \<le> b" "b < 2 ^ n"
  shows "push_bit n a OR b = push_bit n a + b"
proof (rule disjunctive_add_eq_or [symmetric])
  have "\<not> bit b m" if "n \<le> m" for m
  proof -
    have "b < 2 ^ m" using assms(2) that power_increasing [of n m "2 :: int"] by linarith
    then have "b div 2 ^ m = 0" using assms(1) by simp
    then show ?thesis by (simp add: bit_iff_odd)
  qed
  then have "\<not> bit (push_bit n a AND b) m" for m
    by (simp add: bit_and_iff bit_push_bit_iff)
  then show "push_bit n a AND b = 0"
    by (intro bit_eqI) simp
qed

text \<open>The bit fields of \<open>get_priority\<close> do not overlap, so it is the sum of RFC 5245.\<close>

theorem get_priority_rfc:
  assumes tp: "uint tp < 128" and lp: "0 \<le> nap" "nap < 256"
  shows "uint (get_priority c tp nap 0) = 2 ^ 24 * uint tp
    + 2 ^ 8 * (256 * nap + IPAddressPrecedence (sa_ip (address c)))
    + (256 - component_code (component c))"
proof -
  let ?a = "IPAddressPrecedence (sa_ip (address c))" and ?k = "256 - component_code (component c)"
  let ?l = "256 * nap + ?a"
  have a: "0 \<le> ?a" "?a \<le> 60" using IPAddressPrecedence_range by auto
  have k: "0 \<le> ?k" "?k < 2 ^ 8" by (cases "component c"; simp)+
  have l: "push_bit 8 nap OR ?a = ?l"
    using or_disjoint_add [of ?a 8 nap] a by (simp add: push_bit_eq_mult)
  have lr: "0 \<le> ?l" "?l < 2 ^ 16" using a lp by auto
  have i: "push_bit 24 (uint tp) OR (push_bit 8 ?l OR ?k) = 2 ^ 24 * uint tp + 2 ^ 8 * ?l + ?k"
  proof -
    have s: "push_bit 8 ?l OR ?k = 2 ^ 8 * ?l + ?k"
      using or_disjoint_add [of ?k 8 ?l] k by (simp add: push_bit_eq_mult)
    have "0 \<le> 2 ^ 8 * ?l + ?k" "2 ^ 8 * ?l + ?k < 2 ^ 24" using lr k by simp_all
    from or_disjoint_add [OF this, of "uint tp"] s show ?thesis
      by (simp add: push_bit_eq_mult)
  qed
  have "get_priority c tp nap 0 = word_of_int (push_bit 24 (uint tp) OR (push_bit 8 ?l OR ?k))"
    unfolding get_priority_def Let_def l add_0_right
    by (rule bit_word_eqI)
       (auto simp: bit_or_iff bit_push_bit_iff bit_word_of_int_iff bit_uint_iff simp del: of_int_diff)
  also have "\<dots> = word_of_int (2 ^ 24 * uint tp + 2 ^ 8 * ?l + ?k)" by (simp only: i)
  finally have e: "get_priority c tp nap 0 = word_of_int (2 ^ 24 * uint tp + 2 ^ 8 * ?l + ?k)" .
  have "0 \<le> 2 ^ 24 * uint tp + 2 ^ 8 * ?l + ?k" "2 ^ 24 * uint tp + 2 ^ 8 * ?l + ?k < 2 ^ 32"
    using tp lr k by simp_all
  then have "(2 ^ 24 * uint tp + 2 ^ 8 * ?l + ?k) mod 2 ^ LENGTH(32) = 2 ^ 24 * uint tp + 2 ^ 8 * ?l + ?k"
    by (intro mod_pos_pos_trivial) simp_all
  then show ?thesis unfolding e uint_word_of_int .
qed

theorem get_priority_rfc_witness:
  "uint (get_priority \<lparr>component = RTP, protocol = ''udp'', address = SocketAddress_ip (IPAddress_v4 [10, 0, 0, 7]) 8000,
      cand_port = 8000, cand_priority = 0, username = [], cand_password = [], cand_type = ''host'', foundation = []\<rparr>
      ICE_TYPE_PREFERENCE_HOST 0 0) = 2 ^ 24 * 126 + 2 ^ 8 * (256 * 0 + 30) + (256 - 1)"
  (is "uint (get_priority ?c _ _ _) = _")
proof -
  have "IPAddressPrecedence (sa_ip (address ?c)) = 30" by code_simp
  then show ?thesis
    using get_priority_rfc [of ICE_TYPE_PREFERENCE_HOST 0 ?c] by (simp add: ICE_TYPE_PREFERENCE_HOST_def)
qed

end
