(* ===== verification/String_Encode.thy ===== *)
theory String_Encode
  imports Xrtc_Prelude
begin

text \<open>
  \<open>rtc_base/string_encode.cc\<close>: splitting and joining on a delimiter (user names of STUN
  requests, lines of a session description) and hexadecimal encoding.  The loops keep the part
  of the source since the last delimiter, \<open>source[last, i)\<close>, as an accumulator.  The
  functions are polymorphic in the character type because the code applies them both to text
  and to raw bytes of a packet.
\<close>

subsection \<open>split, tokenize, join\<close>

fun split_loop :: "'c \<Rightarrow> 'c list \<Rightarrow> 'c list \<Rightarrow> 'c list list" where
  "split_loop d cur [] = [cur]"
| "split_loop d cur (c # cs) =
     (if c = d then cur # split_loop d [] cs else split_loop d (cur @ [c]) cs)"

definition split :: "'c list \<Rightarrow> 'c \<Rightarrow> 'c list list" where
  "split source d = split_loop d [] source"

fun tokenize_loop :: "'c \<Rightarrow> 'c list \<Rightarrow> 'c list \<Rightarrow> 'c list list" where
  "tokenize_loop d cur [] = (if cur \<noteq> [] then [cur] else [])"
| "tokenize_loop d cur (c # cs) =
     (if c = d then (if cur \<noteq> [] then cur # tokenize_loop d [] cs else tokenize_loop d [] cs)
      else tokenize_loop d (cur @ [c]) cs)"

definition tokenize :: "'c list \<Rightarrow> 'c \<Rightarrow> 'c list list" where
  "tokenize source d = tokenize_loop d [] source"

definition tokenize_first :: "'c list \<Rightarrow> 'c \<Rightarrow> ('c list \<times> 'c list) option" where
  "tokenize_first source d =
     (if d \<notin> set source then None
      else Some (takeWhile (\<lambda>c. c \<noteq> d) source,
                 dropWhile (\<lambda>c. c = d) (dropWhile (\<lambda>c. c \<noteq> d) source)))"

fun join :: "'c list list \<Rightarrow> 'c \<Rightarrow> 'c list" where
  "join [] d = []"
| "join [f] d = f"
| "join (f # g # fs) d = f @ d # join (g # fs) d"

subsection \<open>Hexadecimal\<close>

definition HEX :: string where "HEX = ''0123456789abcdef''"

definition hex_encode_nibble :: "byte \<Rightarrow> char" where
  "hex_encode_nibble v = (if v < 16 then HEX ! unat v else CHR ''!'')"

definition hex_decode_char :: "char \<Rightarrow> byte option" where
  "hex_decode_char ch = (let c = of_char ch :: byte in
     if c \<ge> of_char (CHR ''0'') \<and> c \<le> of_char (CHR ''9'') then Some (c - of_char (CHR ''0''))
     else if c \<ge> of_char (CHR ''A'') \<and> c \<le> of_char (CHR ''F'')
     then Some (c - of_char (CHR ''A'') + 10)
     else if c \<ge> of_char (CHR ''a'') \<and> c \<le> of_char (CHR ''f'')
     then Some (c - of_char (CHR ''a'') + 10)
     else None)"

definition hex_encode_byte :: "byte \<Rightarrow> string" where
  "hex_encode_byte ch =
     [hex_encode_nibble (drop_bit 4 ch AND 0xF), hex_encode_nibble (ch AND 0xF)]"

text \<open>The delimiter 0 of the source, meaning none, is \<open>None\<close>.\<close>

fun hex_encode_with_delimiter :: "char option \<Rightarrow> bytes \<Rightarrow> string" where
  "hex_encode_with_delimiter d [] = []"
| "hex_encode_with_delimiter d [b] = hex_encode_byte b"
| "hex_encode_with_delimiter d (b # c # bs) =
     hex_encode_byte b @ (case d of None \<Rightarrow> [] | Some x \<Rightarrow> [x])
       @ hex_encode_with_delimiter d (c # bs)"

definition hex_encode :: "bytes \<Rightarrow> string" where
  "hex_encode bs = hex_encode_with_delimiter None bs"

fun hex_decode_loop :: "char option \<Rightarrow> string \<Rightarrow> bytes option" where
  "hex_decode_loop d [] = Some []"
| "hex_decode_loop d [c] = None"
| "hex_decode_loop d (c1 # c2 # cs) =
     (case (hex_decode_char c1, hex_decode_char c2) of
        (Some h1, Some h2) \<Rightarrow>
          (case (d, cs) of
             (Some x, y # z # cs') \<Rightarrow>
               if y \<noteq> x then None
               else map_option ((#) (push_bit 4 h1 OR h2)) (hex_decode_loop d (z # cs'))
           | _ \<Rightarrow> map_option ((#) (push_bit 4 h1 OR h2)) (hex_decode_loop d cs))
      | _ \<Rightarrow> None)"

text \<open>The result is the bytes written to the buffer; every failure is the length 0.\<close>

definition hex_decode_with_delimiter :: "char option \<Rightarrow> nat \<Rightarrow> string \<Rightarrow> bytes" where
  "hex_decode_with_delimiter d buflen source =
     (if buflen = 0 then []
      else if buflen < (if d \<noteq> None then (length source + 1) div 3 else length source div 2) then []
      else (case hex_decode_loop d source of None \<Rightarrow> [] | Some bs \<Rightarrow> bs))"

definition hex_decode :: "nat \<Rightarrow> string \<Rightarrow> bytes" where
  "hex_decode buflen source = hex_decode_with_delimiter None buflen source"

subsection \<open>Splitting and joining are inverse\<close>

lemma split_loop_not_Nil [simp]: "split_loop d cur s \<noteq> []"
  by (induction s arbitrary: cur) auto

lemma join_Cons: "fs \<noteq> [] \<Longrightarrow> join (f # fs) d = f @ d # join fs d"
  by (cases fs) auto

lemma join_split_loop: "join (split_loop d cur s) d = cur @ s"
  by (induction s arbitrary: cur) (auto simp: join_Cons)

lemma split_loop_field: "d \<notin> set f \<Longrightarrow> split_loop d cur (f @ s) = split_loop d (cur @ f) s"
  by (induction f arbitrary: cur) auto

lemma split_join:
  assumes "fs \<noteq> []" and "\<forall>f \<in> set fs. d \<notin> set f"
  shows "split (join fs d) d = fs"
  using assms unfolding split_def
proof (induction fs d rule: join.induct)
  case (2 f d)
  then show ?case using split_loop_field [of d f "[]" "[]"] by simp
next
  case (3 f g fs d)
  then show ?case by (simp add: split_loop_field)
qed simp

lemma split_fields_free: "d \<notin> set cur \<Longrightarrow> f \<in> set (split_loop d cur s) \<Longrightarrow> d \<notin> set f"
proof (induction s arbitrary: cur)
  case (Cons c s)
  then show ?case
    using Cons.IH [of "[]"] Cons.IH [of "cur @ [c]"] by (auto split: if_splits)
qed simp

lemma length_split: "length (split s d) = Suc (count_list s d)"
proof -
  have "length (split_loop d cur s) = Suc (count_list s d)" for cur
    by (induction s arbitrary: cur) auto
  then show ?thesis by (simp add: split_def)
qed

lemma tokenize_split: "tokenize s d = filter (\<lambda>f. f \<noteq> []) (split s d)"
proof -
  have "tokenize_loop d cur s = filter (\<lambda>f. f \<noteq> []) (split_loop d cur s)" for cur
    by (induction s arbitrary: cur) auto
  then show ?thesis by (simp add: tokenize_def split_def)
qed

lemma split_pair: "d \<notin> set a \<Longrightarrow> d \<notin> set b \<Longrightarrow> split (a @ d # b) d = [a, b]"
  using split_join [of "[a, b]" d] by simp

subsection \<open>Hexadecimal round trip\<close>

lemma hex_nibble_roundtrip: "hex_decode_char (hex_encode_nibble (v AND 0xF)) = Some (v AND 0xF)"
proof -
  have a: "\<forall>i \<in> set [0..<16]. hex_decode_char (hex_encode_nibble (of_nat i)) = Some (of_nat i)"
    by code_simp
  have b: "unat (v AND 0xF) \<in> set [0..<16]"
    using word_and_le1 [of v "0xF"] by (simp add: word_le_nat_alt)
  from bspec [OF a b] show ?thesis by simp
qed

lemma nibbles_join: "push_bit 4 (drop_bit 4 b AND 0xF) OR (b AND 0xF) = (b :: byte)"
proof -
  have m: "(0xF :: byte) = mask 4" by (simp add: mask_eq_exp_minus_1)
  show ?thesis unfolding m
    by (rule bit_word_eqI) (auto simp: bit_simps)
qed

lemma hex_decode_loop_encode:
  "hex_decode_loop d (hex_encode_with_delimiter d bs) = Some bs"
proof (induction d bs rule: hex_encode_with_delimiter.induct)
  case (2 d b)
  then show ?case
    by (cases d)
      (simp_all add: hex_encode_byte_def hex_nibble_roundtrip nibbles_join del: push_bit_and)
next
  case (3 d b c bs)
  obtain c1 c2 r where e: "hex_encode_with_delimiter d (c # bs) = c1 # c2 # r"
    by (cases bs) (auto simp: hex_encode_byte_def)
  with 3 show ?case
    by (cases d)
      (simp_all add: hex_encode_byte_def hex_nibble_roundtrip nibbles_join del: push_bit_and)
qed simp

lemma length_hex_encode:
  "length (hex_encode_with_delimiter d bs) =
     (if d \<noteq> None \<and> bs \<noteq> [] then 3 * length bs - 1 else 2 * length bs)"
  by (induction d bs rule: hex_encode_with_delimiter.induct)
     (auto simp: hex_encode_byte_def split: option.splits)

theorem hex_decode_encode:
  assumes "length bs \<le> buflen"
  shows "hex_decode_with_delimiter d buflen (hex_encode_with_delimiter d bs) = bs"
  using assms hex_decode_loop_encode [of d bs]
  by (cases bs) (auto simp: hex_decode_with_delimiter_def length_hex_encode)

theorem hex_decode_encode_witness:
  "hex_decode_with_delimiter (Some (CHR '':'')) 2 (hex_encode_with_delimiter (Some (CHR '':'')) [0xCA, 0xFE]) = [0xCA, 0xFE]"
  by (rule hex_decode_encode) simp

theorem split_join_inverse:
  assumes "fs \<noteq> []" and "\<forall>f \<in> set fs. d \<notin> set f"
  shows "join (split s d) d = s \<and> split (join fs d) d = fs"
  using split_join [OF assms] join_split_loop [of d "[]" s] by (simp add: split_def)

theorem split_join_inverse_witness:
  "join (split ''a:b'' (CHR '':'')) (CHR '':'') = ''a:b'' \<and>
   split (join [''ufrag'', '''', ''pwd''] (CHR '':'')) (CHR '':'') = [''ufrag'', '''', ''pwd'']"
  by (rule split_join_inverse) simp_all

end
