(* ===== verification/Udp_Port.thy ===== *)
theory Udp_Port
  imports Stun_Auth Candidate String_Encode
begin

text \<open>
  \<open>ice/udp_port.cpp\<close>: a local UDP port.  It owns the map from remote addresses to
  connections, parses and authenticates STUN messages for itself and for its connections, and
  answers bad requests.  Connections are named by numbers (the addresses of the objects);
  packets handed to the socket are appended to \<open>port_sent\<close>, in order.

  A \<open>None\<close> result is an access outside a packet.  \<open>_on_read_packet\<close> dispatches to the
  connections and is in the theory of the channel.
\<close>

type_synonym conn_id = nat

record udp_port =
  port_transport_name :: string
  port_component :: ice_component
  port_ice_params :: ice_parameters
  async_socket :: bool
  local_addr :: socket_address
  candidates :: "candidate list"
  port_connections :: "(socket_address \<times> conn_id) list"
  port_sent :: "(bytes \<times> socket_address) list"

definition UDPPort :: "string \<Rightarrow> ice_component \<Rightarrow> ice_parameters \<Rightarrow> udp_port" where
  "UDPPort nm cmp params = \<lparr>port_transport_name = nm, port_component = cmp,
     port_ice_params = params, async_socket = False, local_addr = SocketAddress_nil,
     candidates = [], port_connections = [], port_sent = []\<rparr>"

subsection \<open>Candidates\<close>

text \<open>\<open>HostAsURIString\<close> with \<open>inet_ntop\<close> of the C library as a parameter.\<close>

definition HostAsURIString :: "(ip_address \<Rightarrow> string) \<Rightarrow> socket_address \<Rightarrow> string" where
  "HostAsURIString ntop a =
     (if \<not> literal a \<and> hostname a \<noteq> [] then hostname a
      else if family (sa_ip a) = AF_INET6 then ''['' @ ntop (sa_ip a) @ '']''
      else ntop (sa_ip a))"

text \<open>\<open>std::to_string\<close> of an unsigned value.\<close>

fun nat_to_string :: "nat \<Rightarrow> string" where
  "nat_to_string n =
     (if n < 10 then [char_of (n + 48)] else nat_to_string (n div 10) @ [char_of (n mod 10 + 48)])"

declare nat_to_string.simps [simp del]

definition compute_foundation ::
  "(ip_address \<Rightarrow> string) \<Rightarrow> string \<Rightarrow> string \<Rightarrow> string \<Rightarrow> socket_address \<Rightarrow> string" where
  "compute_foundation ntop ty proto relay_protocol base =
     nat_to_string (unat (ComputeCrc32_string
       (ty @ HostAsURIString ntop base @ proto @ relay_protocol)))"

definition LOCAL_PORT_TYPE :: string where "LOCAL_PORT_TYPE = ''host''"
definition PRFLX_PORT_TYPE :: string where "PRFLX_PORT_TYPE = ''prflx''"

text \<open>The operating system's part (creating the socket, making it non-blocking, binding it in
  the port range and asking for its port) is the parameter \<open>bind_port\<close>: the port, or
  \<open>None\<close> when a call fails.\<close>

definition create_ice_candidate ::
  "(ip_address \<Rightarrow> string) \<Rightarrow> (string \<Rightarrow> ip_address option) \<Rightarrow> (ip_address \<Rightarrow> int \<Rightarrow> int \<Rightarrow> int option)
   \<Rightarrow> ip_address \<Rightarrow> int \<Rightarrow> int \<Rightarrow> udp_port \<Rightarrow> candidate option \<times> udp_port" where
  "create_ice_candidate ntop pton bind_port network min_port max_port p =
     (case bind_port network min_port max_port of
        None \<Rightarrow> (None, p)
      | Some prt \<Rightarrow>
          (let la = SetPort prt (SetIP_name pton ''101.126.155.67'' (local_addr p));
               c = \<lparr>component = port_component p, protocol = ''udp'', address = la, cand_port = prt,
                    cand_priority = 0, username = ice_ufrag (port_ice_params p),
                    cand_password = ice_pwd (port_ice_params p), cand_type = LOCAL_PORT_TYPE,
                    foundation = compute_foundation ntop LOCAL_PORT_TYPE ''udp'' '''' la\<rparr>;
               c = c\<lparr>cand_priority := get_priority c ICE_TYPE_PREFERENCE_HOST 0 0\<rparr> in
           (Some c, p\<lparr>local_addr := la, async_socket := True, candidates := candidates p @ [c]\<rparr>)))"

subsection \<open>Connections by remote address\<close>

text \<open>\<open>insert\<close> keeps an existing entry, whose value is then overwritten, so in both cases
  the new connection is found under the address.\<close>

definition port_add_connection :: "socket_address \<Rightarrow> conn_id \<Rightarrow> udp_port \<Rightarrow> udp_port" where
  "port_add_connection addr conn p =
     p\<lparr>port_connections := map_assign sa_less addr conn (port_connections p)\<rparr>"

definition get_connection :: "udp_port \<Rightarrow> socket_address \<Rightarrow> conn_id option" where
  "get_connection p addr = map_find sa_less addr (port_connections p)"

subsection \<open>Sending\<close>

definition port_send_to :: "bytes \<Rightarrow> socket_address \<Rightarrow> udp_port \<Rightarrow> udp_port" where
  "port_send_to buf addr p =
     (if \<not> async_socket p then p else p\<lparr>port_sent := port_sent p @ [(buf, addr)]\<rparr>)"

definition error_response ::
  "digest \<Rightarrow> bytes \<Rightarrow> stun_message \<Rightarrow> stun_error_code \<Rightarrow> string \<Rightarrow> stun_message" where
  "error_response dg pwd stun_msg err_code reason = (let
     response = set_transaction_id (transaction_id stun_msg)
       (set_type STUN_BINDING_ERROR_RESPONSE StunMessage);
     error_attr = set_reason (bytes_of_string reason)
       (set_code (stun_error_code_value err_code) create_error_code);
     response = add_attribute error_attr response;
     response = (if err_code \<noteq> STUN_ERROR_BAD_REQUEST \<and> err_code \<noteq> STUN_ERROR_UNATHORIZED
                 then snd (add_message_integrity dg pwd response) else response) in
     snd (add_fingerprint response))"

definition send_binding_error_response ::
  "digest \<Rightarrow> stun_message \<Rightarrow> socket_address \<Rightarrow> stun_error_code \<Rightarrow> string \<Rightarrow> udp_port \<Rightarrow> udp_port" where
  "send_binding_error_response dg stun_msg addr err_code reason p =
     (if \<not> async_socket p then p
      else case stun_write (error_response dg (ice_pwd (port_ice_params p)) stun_msg err_code reason) [] of
        None \<Rightarrow> p
      | Some buf \<Rightarrow> p\<lparr>port_sent := port_sent p @ [(buf, addr)]\<rparr>)"

definition create_stun_username :: "udp_port \<Rightarrow> bytes \<Rightarrow> bytes" where
  "create_stun_username p remote_username =
     remote_username @ [of_char (CHR '':'')] @ ice_ufrag (port_ice_params p)"

subsection \<open>Parsing and authenticating a STUN message\<close>

definition parse_stun_username :: "stun_message \<Rightarrow> (bytes \<times> bytes) option" where
  "parse_stun_username stun_msg = (case get_byte_string stun_msg STUN_ATTR_USERNAME of
       None \<Rightarrow> None
     | Some attr \<Rightarrow>
         (case split (get_string attr) (of_char (CHR '':'')) of
            [local_ufrag, remote_ufrag] \<Rightarrow> Some (local_ufrag, remote_ufrag)
          | _ \<Rightarrow> None))"

record stun_parse =
  sp_result :: bool
  sp_msg :: "stun_message option"
  sp_ufrag :: bytes

definition get_stun_message ::
  "digest \<Rightarrow> bytes \<Rightarrow> socket_address \<Rightarrow> udp_port \<Rightarrow> (stun_parse \<times> udp_port) option" where
  "get_stun_message dg data addr p = (let
     no = \<lparr>sp_result = False, sp_msg = None, sp_ufrag = []\<rparr>;
     handled = \<lparr>sp_result = True, sp_msg = None, sp_ufrag = []\<rparr> in do {
     fp \<leftarrow> validate_fingerprint data;
     if \<not> fp then Some (no, p)
     else case stun_read StunMessage (ByteBufferReader data) of
       None \<Rightarrow> Some (no, p)
     | Some (stun_msg, buf) \<Rightarrow>
         if Length buf \<noteq> 0 then Some (no, p)
         else if msg_type stun_msg = STUN_BINDING_REQUEST then
           (if get_byte_string stun_msg STUN_ATTR_USERNAME = None \<or>
               get_byte_string stun_msg STUN_ATTR_MESSAGE_INTEGRITY = None
            then Some (handled, send_binding_error_response dg stun_msg addr
                   STUN_ERROR_BAD_REQUEST ''Bad request'' p)
            else case parse_stun_username stun_msg of
              None \<Rightarrow> Some (handled, send_binding_error_response dg stun_msg addr
                   STUN_ERROR_UNATHORIZED ''Unathorized'' p)
            | Some (local_ufrag, remote_ufrag) \<Rightarrow> do {
                (status, stun_msg) \<leftarrow> validate_message_integrity dg (ice_pwd (port_ice_params p)) stun_msg;
                if status \<noteq> k_integrity_ok
                then Some (handled, send_binding_error_response dg stun_msg addr
                       STUN_ERROR_UNATHORIZED ''Unathorized'' p)
                else Some (\<lparr>sp_result = True, sp_msg = Some stun_msg, sp_ufrag = remote_ufrag\<rparr>, p)
              })
         else Some (\<lparr>sp_result = True, sp_msg = Some stun_msg, sp_ufrag = []\<rparr>, p)
   })"

subsection \<open>Connections are found under equal addresses\<close>

definition port_wf :: "udp_port \<Rightarrow> bool" where
  "port_wf p \<longleftrightarrow> map_sorted sa_less (port_connections p) \<and> sa.keys_wf (port_connections p)"

lemma port_wf_new [inv_intros, simp]: "port_wf (UDPPort nm c pr)"
  by (simp add: port_wf_def UDPPort_def map_sorted_def sa.keys_wf_def)

lemma port_wf_add [inv_intros]: "port_wf p \<Longrightarrow> sa_wf a \<Longrightarrow> port_wf (port_add_connection a c p)"
  by (simp add: port_wf_def port_add_connection_def sa.assign_sorted sa.assign_wf)

lemma port_connections_frame [frame_simps, simp]:
  "port_connections (port_send_to b a p) = port_connections p"
  "port_connections (send_binding_error_response dg m a e r p) = port_connections p"
  by (simp_all add: port_send_to_def send_binding_error_response_def split: option.split)

lemma port_wf_send [inv_intros, simp]:
  "port_wf p \<Longrightarrow> port_wf (port_send_to b a p)"
  "port_wf p \<Longrightarrow> port_wf (send_binding_error_response dg m a e r p)"
  by (simp_all add: port_wf_def)

theorem get_connection_add:
  "port_wf p \<Longrightarrow> sa_wf a \<Longrightarrow> sa_wf b \<Longrightarrow>
     get_connection (port_add_connection a c p) b = (if sa_eq a b then Some c else get_connection p b)"
  by (simp add: get_connection_def port_add_connection_def port_wf_def sa.find_assign)

subsection \<open>Only authenticated requests pass\<close>

text \<open>C16: Whenever the packet filter of a port hands a STUN message on, the packet
  carries a valid fingerprint, and for a binding request also a valid MESSAGE-INTEGRITY under the
  port's own password and a well-formed username; such a packet causes no reply.\<close>
theorem get_stun_message_sound:
  assumes "get_stun_message dg data addr p = Some (sp, p')" and "sp_msg sp = Some m"
  shows "p' = p \<and> sp_result sp \<and> validate_fingerprint data = Some True \<and>
    (msg_type m = STUN_BINDING_REQUEST \<longrightarrow>
      validate_message_integrity_of_type dg STUN_ATTR_MESSAGE_INTEGRITY 20 data
        (ice_pwd (port_ice_params p)) = Some True \<and>
      (\<exists>local_ufrag. parse_stun_username m = Some (local_ufrag, sp_ufrag sp)))"
proof -
  from assms obtain fp where fp: "validate_fingerprint data = Some fp"
    by (auto simp: get_stun_message_def Let_def)
  with assms have fp1: "fp" by (auto simp: get_stun_message_def Let_def split: if_splits)
  with assms fp obtain m0 b where rd: "stun_read StunMessage (ByteBufferReader data) = Some (m0, b)"
    by (auto simp: get_stun_message_def Let_def split: option.splits)
  have buf: "buffer m0 = data" using stun_read_inv(3) [OF rd] by simp
  have user: "parse_stun_username (m0\<lparr>password := pw, integrity := st\<rparr>) = parse_stun_username m0" for pw st
    by (simp add: parse_stun_username_def get_byte_string_def get_attribute_def)
  show ?thesis
  proof (cases "msg_type m0 = STUN_BINDING_REQUEST")
    case True
    with assms fp fp1 rd show ?thesis
      by (auto simp: get_stun_message_def Let_def validate_message_integrity_def buf user
          k_stun_message_integrity_size_def get_byte_string_def get_attribute_def
          split: if_splits option.splits)
  next
    case False
    with assms fp fp1 rd show ?thesis
      by (auto simp: get_stun_message_def Let_def split: if_splits)
  qed
qed

subsection \<open>Error responses\<close>

theorem error_response_valid:
  assumes id: "length (transaction_id m) = 12" and reason: "length reason < 1000"
    and code: "c = STUN_ERROR_BAD_REQUEST \<or> c = STUN_ERROR_UNATHORIZED"
  shows "\<exists>v. stun_write (error_response dg pw m c reason) [] = Some v \<and>
    validate_fingerprint v = Some True \<and>
    (\<exists>rm r. stun_read StunMessage (ByteBufferReader v) = Some (rm, r) \<and>
       msg_type rm = STUN_BINDING_ERROR_RESPONSE \<and> transaction_id rm = transaction_id m)"
proof -
  define a where "a = set_reason (bytes_of_string reason) (set_code (stun_error_code_value c) create_error_code)"
  define m0 where "m0 = set_transaction_id (transaction_id m) (set_type STUN_BINDING_ERROR_RESPONSE StunMessage)"
  have awf: "attr_wf a" using reason by (simp add: a_def)
  have al: "attr_length a = of_nat (4 + length reason)" "attr_type a = STUN_ATTR_ERROR_CODE"
    by (simp_all add: a_def set_reason_def set_code_def create_error_code_def)
  have asz: "attr_size a \<le> 1020" using reason
    by (auto simp: attr_size_def al k_stun_attribute_header_size_def padding_def unat_of_nat
        unat_word_ariths)
  have m0: "stun_wf m0" "msg_length m0 = 0" "attrs m0 = []" "transaction_id m0 = transaction_id m"
    "msg_type m0 = STUN_BINDING_ERROR_RESPONSE"
    using id by (simp_all add: m0_def) (simp_all add: set_transaction_id_def set_type_def StunMessage_def)
  have wf1: "stun_wf (add_attribute a m0)"
    by (rule stun_wf_add_attribute) (use m0 awf asz in auto)
  have "attr_writable a" by (simp add: attr_writable_def a_def set_reason_def set_code_def create_error_code_def)
  then obtain u where u: "write_attrs (attrs (add_attribute a m0)) [] = Some u"
    using write_attrs_iff [of "[a]"] m0 by auto
  from add_fingerprint_ok [OF u] obtain m2 f where
    fp: "add_fingerprint (add_attribute a m0) = (True, m2)" and m2: "msg_type m2 = msg_type m0"
      "transaction_id m2 = transaction_id m" "msg_length m2 = msg_length (add_attribute a m0) + 8"
      "attrs m2 = [a, fp_attr f]" by (auto simp: m0)
  have wf2: "stun_wf m2"
    using wf1 asz by (auto simp: stun_wf_def m2 m0 unat_word_ariths)
  obtain v where v: "stun_write m2 [] = Some v"
    using u m0 by (auto simp: stun_write_eq m2 write_attrs_Cons codec_simps simp del: write_attrs.simps(2))
  have ty: "attr_typed b" if "b \<in> set (attrs m2)" for b
    using that al by (auto simp: m2 attr_typed_def get_attribute_value_type_def stun_attr_types
        StunUInt32Attribute_def)
  have er: "error_response dg pw m c reason = m2"
    using code fp by (auto simp: error_response_def Let_def a_def [symmetric] m0_def [symmetric])
  from stun_read_written [OF wf2 ty _ v, of StunMessage] add_fingerprint_validates [OF wf1 u fp v] v
  show ?thesis
    by (auto simp: er m2 m0 STUN_BINDING_ERROR_RESPONSE_def)
qed

text \<open>A port with one credential pair, for evaluating the definitions.\<close>

definition demo_params :: ice_parameters where
  "demo_params = \<lparr>ice_ufrag = bytes_of_string ''abcd'', ice_pwd = bytes_of_string ''0123456789abcdef01234567''\<rparr>"

definition demo_port :: udp_port where
  "demo_port = UDPPort ''audio'' RTP demo_params"

definition demo_addr :: "int \<Rightarrow> socket_address" where
  "demo_addr p = SocketAddress_ip (IPAddress_v4 [10, 0, 0, 7]) p"

lemma demo_addr_wf [simp]: "sa_wf (demo_addr p)"
  by (simp add: demo_addr_def sa_wf_def ip_wf_def SocketAddress_ip_def SetPort_def SetIP_def IPAddress_v4_def)

theorem get_connection_add_witness:
  "get_connection (port_add_connection (demo_addr 80) 3 demo_port) (demo_addr 80) = Some 3"
proof -
  have "port_wf demo_port" by (simp add: port_wf_def demo_port_def UDPPort_def sa.keys_wf_def map_sorted_def)
  moreover have "sa_eq (demo_addr 80) (demo_addr 80)" by code_simp
  ultimately show ?thesis using get_connection_add [of demo_port "demo_addr 80" "demo_addr 80" 3] by simp
qed

theorem error_response_valid_witness:
  "\<exists>v. stun_write (error_response sum_digest (ice_pwd demo_params) StunMessage STUN_ERROR_UNATHORIZED
      ''Unauthorized'') [] = Some v \<and>
    validate_fingerprint v = Some True \<and>
    (\<exists>rm r. stun_read StunMessage (ByteBufferReader v) = Some (rm, r) \<and>
       msg_type rm = STUN_BINDING_ERROR_RESPONSE \<and> transaction_id rm = transaction_id StunMessage)"
  by (rule error_response_valid) (simp_all add: StunMessage_def EMPTY_TRANSACION_ID_def)

end
