(* ===== verification/Ice_Connection.thy ===== *)
theory Ice_Connection
  imports Udp_Port
begin

text \<open>
  \<open>ice/ice_connection.h\<close>, \<open>ice_connection.cpp\<close> and the requests of
  \<open>ice/stun_request.cpp\<close>: the state of a candidate pair and everything a connection
  computes from its own fields, the binding request it sends and the binding response it
  answers with.  Operations that emit a signal run the slots of the channel at once and are in
  the theory of the channel.

  Times are milliseconds as integers; the places where the code stores a 64-bit time in an
  \<open>int\<close> go through \<open>to_int32\<close>.
\<close>

datatype write_state =
  STATE_WRITABLE | STATE_WRITE_UNRELIABLE | STATE_WRITE_INIT | STATE_WRITE_TIMEOUT

fun write_state_code :: "write_state \<Rightarrow> int" where
  "write_state_code STATE_WRITABLE = 0"
| "write_state_code STATE_WRITE_UNRELIABLE = 1"
| "write_state_code STATE_WRITE_INIT = 2"
| "write_state_code STATE_WRITE_TIMEOUT = 3"

datatype pair_state = WAITING | IN_PROGRESS | SUCCEEDED | FAILED

record sent_ping =
  ping_id :: bytes
  sent_time :: int

text \<open>A \<open>StunRequest\<close>: its message and the time it was sent.\<close>

record stun_request =
  req_msg :: stun_message
  req_ts :: int

record ice_connection =
  conn_port :: nat
  remote_candidate :: candidate
  write_state :: write_state
  receiving :: bool
  selected :: bool
  last_ping_sent :: int
  last_ping_received :: int
  last_ping_response_received :: int
  last_data_received :: int
  num_pings_sent :: int
  pings_since_last_response :: "sent_ping list"
  requests :: "bytes \<Rightarrow> stun_request option"
  rtt :: int
  rtt_samples :: int
  conn_state :: pair_state

definition IceConnection :: "nat \<Rightarrow> candidate \<Rightarrow> ice_connection" where
  "IceConnection prt remote = \<lparr>conn_port = prt, remote_candidate = remote,
     write_state = STATE_WRITE_INIT, receiving = False, selected = False, last_ping_sent = 0,
     last_ping_received = 0, last_ping_response_received = 0, last_data_received = 0,
     num_pings_sent = 0, pings_since_last_response = [], requests = (\<lambda>_. None), rtt = 3000,
     rtt_samples = 0, conn_state = WAITING\<rparr>"

definition RTT_RATIO :: int where "RTT_RATIO = 3"
definition MIN_RTT :: int where "MIN_RTT = 100"
definition MAX_RTT :: int where "MAX_RTT = 60000"

subsection \<open>Queries\<close>

definition writable :: "ice_connection \<Rightarrow> bool" where
  "writable c = (write_state c = STATE_WRITABLE)"

definition weak :: "ice_connection \<Rightarrow> bool" where
  "weak c = (\<not> (writable c \<and> receiving c))"

definition active :: "ice_connection \<Rightarrow> bool" where
  "active c = (write_state c \<noteq> STATE_WRITE_TIMEOUT)"

definition last_received :: "ice_connection \<Rightarrow> int" where
  "last_received c = max (max (last_ping_received c) (last_ping_response_received c)) (last_data_received c)"

definition receiving_timeout :: int where
  "receiving_timeout = WEAK_CONNECTION_RECEIVE_TIMEOUT"

definition compute_receiving :: "ice_connection \<Rightarrow> int \<Rightarrow> bool" where
  "compute_receiving c now =
     (if last_ping_sent c < last_ping_response_received c then True
      else last_received c > 0 \<and> now < last_received c + receiving_timeout)"

definition too_many_ping_fails :: "ice_connection \<Rightarrow> nat \<Rightarrow> int \<Rightarrow> int \<Rightarrow> bool" where
  "too_many_ping_fails c max_pings rtt_ms now =
     (if length (pings_since_last_response c) < max_pings then False
      else let expected_response_time =
             to_int32 (sent_time (pings_since_last_response c ! (max_pings - 1)) + rtt_ms) in
           now > expected_response_time)"

definition too_long_without_response :: "ice_connection \<Rightarrow> int \<Rightarrow> int \<Rightarrow> bool" where
  "too_long_without_response c min_time now =
     (case pings_since_last_response c of [] \<Rightarrow> False
      | p # _ \<Rightarrow> now > sent_time p + min_time)"

definition miss_response :: "ice_connection \<Rightarrow> int \<Rightarrow> bool" where
  "miss_response c now =
     (case pings_since_last_response c of [] \<Rightarrow> False
      | p # _ \<Rightarrow> to_int32 (now - sent_time p) > 2 * rtt c)"

definition stable :: "ice_connection \<Rightarrow> int \<Rightarrow> bool" where
  "stable c now = (rtt_samples c > RTT_RATIO + 1 \<and> \<not> miss_response c now)"

text \<open>\<open>2 * std::max(g, d)\<close> is 32-bit arithmetic, widened only when it is added.\<close>

definition pair_priority :: "u32 \<Rightarrow> u32 \<Rightarrow> u64" where
  "pair_priority g d =
     push_bit 32 (ucast (min g d)) + ucast (2 * max g d) + (if g > d then 1 else 0)"

subsection \<open>Round-trip time\<close>

text \<open>\<open>GetNextMovingAverage\<close> on the ratio 3 divides a sum of integers by 4 in double
  precision, exactly; storing it in an \<open>int\<close> drops the fraction.\<close>

definition div_to_zero :: "int \<Rightarrow> int \<Rightarrow> int" where
  "div_to_zero a b = (if a \<ge> 0 then a div b else - ((- a) div b))"

definition GetNextMovingAverage :: "int \<Rightarrow> int \<Rightarrow> int \<Rightarrow> int" where
  "GetNextMovingAverage prev_average cur ratio =
     div_to_zero (ratio * prev_average + cur) (ratio + 1)"

definition update_rtt :: "int \<Rightarrow> ice_connection \<Rightarrow> ice_connection" where
  "update_rtt new_rtt c =
     c\<lparr>rtt := (if rtt_samples c > 0 then GetNextMovingAverage (rtt c) new_rtt RTT_RATIO else new_rtt),
       rtt_samples := rtt_samples c + 1\<rparr>"

definition clamped_rtt :: "ice_connection \<Rightarrow> int" where
  "clamped_rtt c = (let r = 2 * rtt c in
     if r < MIN_RTT then MIN_RTT else if r > MAX_RTT then MAX_RTT else r)"

subsection \<open>Requests and responses\<close>

definition ConnectionRequest :: "bytes \<Rightarrow> stun_request" where
  "ConnectionRequest tid = \<lparr>req_msg = set_transaction_id tid StunMessage, req_ts = 0\<rparr>"

text \<open>\<open>ConnectionRequest::prepare\<close>; the attribute lists are those of the code, in its
  order.\<close>

definition request_attrs :: "bytes \<Rightarrow> u32 \<Rightarrow> stun_message \<Rightarrow> stun_message" where
  "request_attrs uname local_priority m = (let
     m = set_type STUN_BINDING_REQUEST m;
     m = add_attribute (StunByteStringAttribute STUN_ATTR_USERNAME uname) m;
     m = add_attribute (StunUInt64Attribute STUN_ATTR_ICE_CONTROLLING 0) m;
     m = add_attribute (StunByteStringAttribute_len STUN_ATTR_USE_CANDIDATE 0) m;
     prflx_priority = push_bit 24 ICE_TYPE_PREFERENCE_PRFLX OR (local_priority AND 0x00FFFFFF) in
     add_attribute (StunUInt32Attribute STUN_ATTR_PRIORITY prflx_priority) m)"

definition prepare :: "digest \<Rightarrow> udp_port \<Rightarrow> u32 \<Rightarrow> candidate \<Rightarrow> stun_message \<Rightarrow> stun_message" where
  "prepare dg p local_priority remote m = (let
     m = request_attrs (create_stun_username p (username remote)) local_priority m;
     m = snd (add_message_integrity dg (cand_password remote) m) in
     snd (add_fingerprint m))"

definition elapsed :: "stun_request \<Rightarrow> int \<Rightarrow> int" where
  "elapsed rq now = to_int32 (now - req_ts rq)"

definition binding_response :: "digest \<Rightarrow> udp_port \<Rightarrow> candidate \<Rightarrow> stun_message \<Rightarrow> stun_message" where
  "binding_response dg p remote stun_msg = (let
     m = set_transaction_id (transaction_id stun_msg) (set_type STUN_BINDING_RESPONSE StunMessage);
     m = add_attribute (StunXorAddressAttribute STUN_ATTR_XOR_MAPPED_ADDRESS (address remote)) m;
     m = snd (add_message_integrity dg (ice_pwd (port_ice_params p)) m) in
     snd (add_fingerprint m))"

definition send_stun_binding_response ::
  "digest \<Rightarrow> candidate \<Rightarrow> stun_message \<Rightarrow> udp_port \<Rightarrow> udp_port" where
  "send_stun_binding_response dg remote stun_msg p =
     (case get_byte_string stun_msg STUN_ATTR_USERNAME of
        None \<Rightarrow> p
      | Some _ \<Rightarrow>
          (case stun_write (binding_response dg p remote stun_msg) [] of
             None \<Rightarrow> p
           | Some buf \<Rightarrow> port_send_to buf (address remote) p))"

definition maybe_set_remote_ice_params :: "ice_parameters \<Rightarrow> ice_connection \<Rightarrow> ice_connection" where
  "maybe_set_remote_ice_params params c =
     (if username (remote_candidate c) = ice_ufrag params \<and> cand_password (remote_candidate c) = []
      then c\<lparr>remote_candidate := (remote_candidate c)\<lparr>cand_password := ice_pwd params\<rparr>\<rparr>
      else c)"

subsection \<open>The smoothed round-trip time stays between its inputs\<close>

theorem moving_average_bounds:
  assumes "0 \<le> a" "0 \<le> b"
  shows "min a b \<le> GetNextMovingAverage a b RTT_RATIO \<and> GetNextMovingAverage a b RTT_RATIO \<le> max a b"
  using assms by (auto simp: GetNextMovingAverage_def div_to_zero_def RTT_RATIO_def)

theorem moving_average_bounds_witness:
  "min 3000 20 \<le> GetNextMovingAverage 3000 20 RTT_RATIO \<and> GetNextMovingAverage 3000 20 RTT_RATIO \<le> max 3000 20"
  by (rule moving_average_bounds) simp_all

subsection \<open>Pair priority\<close>

lemma uint_min_max: "uint (min a b) = min (uint a) (uint b)" "uint (max a b) = max (uint a) (uint b)"
  for a b :: u32
  by (simp_all add: min_def max_def word_le_def)

theorem pair_priority_rfc:
  assumes "max (uint g) (uint d) < 2 ^ 31"
  shows "uint (pair_priority g d) =
    2 ^ 32 * min (uint g) (uint d) + 2 * max (uint g) (uint d) + (if uint g > uint d then 1 else 0)"
proof -
  define lo hi where lh: "lo = min (uint g) (uint d)" "hi = max (uint g) (uint d)"
  have r: "0 \<le> lo" "lo \<le> hi" "hi < 2 ^ 31" using assms by (auto simp: lh)
  have ulo: "uint (ucast (min g d) :: u64) = lo"
    unfolding unsigned_ucast_eq uint_min_max lh(1) [symmetric]
    by (rule take_bit_int_eq_self) (use r in simp_all)
  have "take_bit 64 (2 * hi) = 2 * hi" "take_bit 32 (2 * hi) = 2 * hi"
    by (rule take_bit_int_eq_self; use r in simp)+
  then have uhi: "uint (ucast (2 * max g d) :: u64) = 2 * hi"
    by (simp add: unsigned_ucast_eq uint_word_ariths uint_min_max take_bit_eq_mod lh(2) [symmetric])
  have c: "g > d \<longleftrightarrow> uint g > uint d" by (simp add: word_less_def)
  have "pair_priority g d = word_of_int (2 ^ 32 * lo + 2 * hi + (if uint g > uint d then 1 else 0))"
    unfolding pair_priority_def c ulo [symmetric] uhi [symmetric]
    by (simp add: push_bit_eq_mult mult.commute)
  moreover have "0 \<le> 2 ^ 32 * lo + 2 * hi + (if uint g > uint d then 1 else 0)"
    "2 ^ 32 * lo + 2 * hi + (if uint g > uint d then 1 else 0) < 2 ^ 64"
    using r by auto
  ultimately show ?thesis unfolding lh [symmetric] by (simp only: uint_word_of_int) simp
qed

theorem pair_priority_rfc_witness:
  "uint (pair_priority 2113929471 1862270975) = 2 ^ 32 * 1862270975 + 2 * 2113929471 + 1"
  using pair_priority_rfc [of 2113929471 1862270975] by simp

lemma request_attrs_attrs:
  "attrs (request_attrs u lp m) = attrs m @ [StunByteStringAttribute STUN_ATTR_USERNAME u,
     StunUInt64Attribute STUN_ATTR_ICE_CONTROLLING 0,
     StunByteStringAttribute_len STUN_ATTR_USE_CANDIDATE 0,
     StunUInt32Attribute STUN_ATTR_PRIORITY
       (push_bit 24 ICE_TYPE_PREFERENCE_PRFLX OR (lp AND 0x00FFFFFF))]"
  "transaction_id (request_attrs u lp m) = transaction_id m"
  "msg_type (request_attrs u lp m) = STUN_BINDING_REQUEST"
  by (simp_all add: request_attrs_def Let_def set_type_def)

lemma attr_len_ctor [simp]:
  "attr_wf (StunByteStringAttribute_len t 0)" "attr_size (StunByteStringAttribute_len t 0) = 4"
  "attr_size (StunUInt64Attribute t w) = 12" "attr_writable (StunByteStringAttribute_len t 0)"
  "attr_writable (StunUInt64Attribute t w)" "attr_writable (StunUInt32Attribute t v)"
  "attr_writable (StunByteStringAttribute t bs)"
  by (simp_all add: attr_wf_def attr_size_def StunByteStringAttribute_len_def padding_def
      k_stun_attribute_header_size_def StunUInt64Attribute_def attr_writable_def
      StunUInt32Attribute_def StunByteStringAttribute_def copy_bytes_def)

lemma attr_size_byte_string:
  "length bs < 2 ^ 16 \<Longrightarrow> attr_size (StunByteStringAttribute t bs) \<le> 8 + length bs"
  by (simp add: attr_size_def StunByteStringAttribute_def StunByteStringAttribute_len_def
      copy_bytes_def padding_def k_stun_attribute_header_size_def unat_of_nat)

lemma add_attribute_grows:
  assumes "stun_wf m" "attr_wf a" "unat (msg_length m) + attr_size a < 2 ^ 16"
  shows "stun_wf (add_attribute a m)"
    and "unat (msg_length (add_attribute a m)) = unat (msg_length m) + attr_size a"
proof -
  show "stun_wf (add_attribute a m)" by (rule stun_wf_add_attribute [OF assms])
  then show "unat (msg_length (add_attribute a m)) = unat (msg_length m) + attr_size a"
    using assms(1) by (simp add: stun_wf_def)
qed

lemma request_attrs_wf:
  assumes "length u < 1000" "length tid = 12"
  shows "stun_wf (request_attrs u lp (set_transaction_id tid StunMessage)) \<and>
    unat (msg_length (request_attrs u lp (set_transaction_id tid StunMessage))) < 2000"
proof -
  let ?m0 = "set_type STUN_BINDING_REQUEST (set_transaction_id tid StunMessage)"
  let ?a = "StunByteStringAttribute STUN_ATTR_USERNAME u"
  have m0: "stun_wf ?m0" "msg_length ?m0 = 0"
    using assms by (simp_all, simp add: set_type_def set_transaction_id_def StunMessage_def)
  have a: "attr_wf ?a" "attr_size ?a \<le> 1010"
    using assms(1) attr_size_byte_string [of u STUN_ATTR_USERNAME] by simp_all
  note m1 = add_attribute_grows [OF m0(1) a(1)]
  note m2 = add_attribute_grows [OF m1(1), of "StunUInt64Attribute STUN_ATTR_ICE_CONTROLLING 0"]
  note m3 = add_attribute_grows [OF m2(1), of "StunByteStringAttribute_len STUN_ATTR_USE_CANDIDATE 0"]
  note m4 = add_attribute_grows [OF m3(1), of "StunUInt32Attribute STUN_ATTR_PRIORITY p" for p]
  show ?thesis
    unfolding request_attrs_def Let_def
    using m1(2) m2(2) m3(2) m4(2) m4(1) a m0(2) by (auto simp add: m1 m2 m3)
qed

subsection \<open>A ping is accepted by the peer it is meant for\<close>

abbreviation colon :: byte where "colon \<equiv> of_char (CHR '':'')"

lemma authenticated_exchange:
  assumes wf: "stun_wf m" and room: "unat (msg_length m) + 32 < 2 ^ 16"
    and ty: "\<And>a. a \<in> set (attrs m) \<Longrightarrow> attr_typed a \<and> attr_writable a \<and>
      attr_type a \<noteq> STUN_ATTR_MESSAGE_INTEGRITY"
    and stun: "msg_type m AND 0x0800 = 0" and sha: "sha1_like dg"
  shows "\<exists>v rm r mac. stun_write (snd (add_fingerprint (snd (add_message_integrity dg pw m)))) [] = Some v \<and>
    validate_fingerprint v = Some True \<and>
    stun_read StunMessage (ByteBufferReader v) = Some (rm, r) \<and> Length r = 0 \<and>
    msg_type rm = msg_type m \<and> transaction_id rm = transaction_id m \<and> buffer rm = v \<and>
    attrs rm = filter attr_known (attrs m) @ [mi_attr mac] \<and>
    validate_message_integrity_of_type dg STUN_ATTR_MESSAGE_INTEGRITY 20 v pw = Some True"
proof -
  obtain u where u: "write_attrs (attrs m) [] = Some u"
    using ty write_attrs_iff [of "attrs m"] by blast
  from authenticated_write [OF wf room u sha, of pw] obtain m1 m2 f v where
    a: "add_message_integrity dg pw m = (True, m1)" "add_fingerprint m1 = (True, m2)"
    and m2: "stun_wf m2" "msg_type m2 = msg_type m" "transaction_id m2 = transaction_id m"
      "attrs m2 = attrs m @ [mi_attr (ComputeHmac_alg dg pw (hmac_covered m u) 20), fp_attr f]"
      "unat (msg_length m2) = unat (msg_length m) + 32"
    and v: "stun_write m2 [] = Some v" "validate_fingerprint v = Some True" by blast
  have ty': "attr_typed a \<and> attr_type a \<noteq> STUN_ATTR_MESSAGE_INTEGRITY" if "a \<in> set (attrs m)" for a
    using ty that by blast
  from authenticated_read [OF wf room ty' stun sha u m2 v(1)] a v show ?thesis by auto
qed

lemma request_attr_facts:
  "attr_typed (StunByteStringAttribute STUN_ATTR_USERNAME u)"
  "attr_typed (StunUInt64Attribute STUN_ATTR_ICE_CONTROLLING 0)"
  "attr_typed (StunByteStringAttribute_len STUN_ATTR_USE_CANDIDATE 0)"
  "attr_typed (StunUInt32Attribute STUN_ATTR_PRIORITY p)"
  "attr_known (StunByteStringAttribute STUN_ATTR_USERNAME u)"
  "\<not> attr_known (StunUInt64Attribute STUN_ATTR_ICE_CONTROLLING 0)"
  "\<not> attr_known (StunByteStringAttribute_len STUN_ATTR_USE_CANDIDATE 0)"
  "attr_known (StunUInt32Attribute STUN_ATTR_PRIORITY p)"
  "attr_type (StunByteStringAttribute t u) = t" "attr_type (StunUInt32Attribute t p) = t"
  "attr_type (StunUInt64Attribute t w) = t" "attr_type (StunByteStringAttribute_len t l) = t"
  by (simp_all add: attr_typed_def attr_known_def get_attribute_value_type_def stun_attr_types
      StunUInt64Attribute_def StunByteStringAttribute_len_def StunByteStringAttribute_def
      copy_bytes_def StunUInt32Attribute_def)

lemma get_string_ctor: "length u < 2 ^ 16 \<Longrightarrow> get_string (StunByteStringAttribute t u) = u"
  by (simp add: get_string_def StunByteStringAttribute_def copy_bytes_def
      StunByteStringAttribute_len_def unat_of_nat)

lemma attr_types_distinct [simp]:
  "STUN_ATTR_USERNAME \<noteq> STUN_ATTR_MESSAGE_INTEGRITY" "STUN_ATTR_USERNAME \<noteq> STUN_ATTR_PRIORITY"
  "STUN_ATTR_PRIORITY \<noteq> STUN_ATTR_MESSAGE_INTEGRITY"
  "STUN_ATTR_ICE_CONTROLLING \<noteq> STUN_ATTR_MESSAGE_INTEGRITY"
  "STUN_ATTR_USE_CANDIDATE \<noteq> STUN_ATTR_MESSAGE_INTEGRITY"
  "STUN_ATTR_XOR_MAPPED_ADDRESS \<noteq> STUN_ATTR_MESSAGE_INTEGRITY"
  by (simp_all add: stun_attr_types)

lemma prepared_request_accepted:
  assumes sha: "sha1_like dg" and tid: "length tid = 12"
    and names: "colon \<notin> set (username remote)" "colon \<notin> set (ice_ufrag (port_ice_params p))"
      "length (username remote) + length (ice_ufrag (port_ice_params p)) < 500"
    and peer: "ice_pwd (port_ice_params q) = cand_password remote"
  shows "\<exists>v rm. stun_write (prepare dg p lp remote (req_msg (ConnectionRequest tid))) [] = Some v \<and>
    get_stun_message dg v addr q =
      Some (\<lparr>sp_result = True, sp_msg = Some rm, sp_ufrag = ice_ufrag (port_ice_params p)\<rparr>, q) \<and>
    msg_type rm = STUN_BINDING_REQUEST \<and> transaction_id rm = tid \<and>
    map_option uint32_value (get_uint32 rm STUN_ATTR_PRIORITY) =
      Some (push_bit 24 ICE_TYPE_PREFERENCE_PRFLX OR (lp AND 0x00FFFFFF))"
proof -
  let ?u = "create_stun_username p (username remote)"
  let ?m = "request_attrs ?u lp (set_transaction_id tid StunMessage)"
  have lu: "length ?u < 1000" using names by (simp add: create_stun_username_def)
  have m: "stun_wf ?m" "unat (msg_length ?m) + 32 < 2 ^ 16"
    using request_attrs_wf [OF lu tid, of lp] by auto
  have m0: "attrs (set_transaction_id tid StunMessage) = []"
    "transaction_id (set_transaction_id tid StunMessage) = tid"
    by (simp_all add: set_transaction_id_def StunMessage_def)
  have ty: "attr_typed a \<and> attr_writable a \<and> attr_type a \<noteq> STUN_ATTR_MESSAGE_INTEGRITY"
    if "a \<in> set (attrs ?m)" for a
    using that by (auto simp: request_attrs_attrs m0 request_attr_facts)
  have st: "msg_type ?m AND 0x0800 = 0" by (simp add: request_attrs_attrs STUN_BINDING_REQUEST_def)
  from authenticated_exchange [OF m ty st sha, of "cand_password remote"] obtain v rm r mac where
    x: "stun_write (snd (add_fingerprint (snd (add_message_integrity dg (cand_password remote) ?m)))) [] = Some v"
      "validate_fingerprint v = Some True" "stun_read StunMessage (ByteBufferReader v) = Some (rm, r)"
      "Length r = 0" "msg_type rm = STUN_BINDING_REQUEST" "transaction_id rm = tid" "buffer rm = v"
    and as: "attrs rm = [StunByteStringAttribute STUN_ATTR_USERNAME ?u, StunUInt32Attribute STUN_ATTR_PRIORITY
      (push_bit 24 ICE_TYPE_PREFERENCE_PRFLX OR (lp AND 0x00FFFFFF)), mi_attr mac]"
    and mi: "validate_message_integrity_of_type dg STUN_ATTR_MESSAGE_INTEGRITY 20 v (cand_password remote) = Some True"
    by (auto simp: request_attrs_attrs m0 request_attr_facts)
  have "parse_stun_username rm = Some (username remote, ice_ufrag (port_ice_params p))"
    using names lu split_pair [OF names(1,2)]
    by (simp add: parse_stun_username_def get_byte_string_def get_attribute_def as
        request_attr_facts get_string_ctor create_stun_username_def)
  with x as mi peer have "get_stun_message dg v addr q = Some (\<lparr>sp_result = True,
      sp_msg = Some (rm\<lparr>password := cand_password remote, integrity := k_integrity_ok\<rparr>),
      sp_ufrag = ice_ufrag (port_ice_params p)\<rparr>, q)"
    by (simp add: get_stun_message_def Let_def get_byte_string_def get_attribute_def
        request_attr_facts validate_message_integrity_def k_stun_message_integrity_size_def)
  moreover have "get_uint32 rm STUN_ATTR_PRIORITY = Some (StunUInt32Attribute STUN_ATTR_PRIORITY
      (push_bit 24 ICE_TYPE_PREFERENCE_PRFLX OR (lp AND 0x00FFFFFF)))"
    by (simp add: get_uint32_def get_attribute_def as request_attr_facts)
  ultimately show ?thesis
    using x by (intro exI [of _ v] exI [of _ "rm\<lparr>password := cand_password remote, integrity := k_integrity_ok\<rparr>"])
      (simp add: prepare_def ConnectionRequest_def Let_def get_uint32_def get_attribute_def
        uint32_value_def StunUInt32Attribute_def)
qed

text \<open>C23: The binding response a connection sends to an IPv4 peer passes the receiver's
  packet filter, carries the transaction id of the request, and its integrity validates with the
  responder's password.\<close>
theorem response_accepted:
  assumes sha: "sha1_like dg" and tid: "length (transaction_id req) = 12"
    and v4: "family (sa_ip (address remote)) = AF_INET" "sa_wf (address remote)"
  shows "\<exists>v rm. stun_write (binding_response dg p remote req) [] = Some v \<and>
    get_stun_message dg v addr q = Some (\<lparr>sp_result = True, sp_msg = Some rm, sp_ufrag = []\<rparr>, q) \<and>
    msg_type rm = STUN_BINDING_RESPONSE \<and> transaction_id rm = transaction_id req \<and>
    map_option fst (validate_message_integrity dg (ice_pwd (port_ice_params p)) rm) = Some k_integrity_ok"
proof -
  let ?base = "set_transaction_id (transaction_id req) (set_type STUN_BINDING_RESPONSE StunMessage)"
  let ?a = "StunXorAddressAttribute STUN_ATTR_XOR_MAPPED_ADDRESS (address remote)"
  let ?m = "add_attribute ?a ?base"
  have m0: "stun_wf ?base" "attrs ?base = []" "msg_length ?base = 0" "msg_type ?base = STUN_BINDING_RESPONSE"
    "transaction_id ?base = transaction_id req"
    using tid by (simp_all, simp_all add: set_transaction_id_def set_type_def StunMessage_def)
  have sz: "attr_size ?a = 12"
    using v4 by (simp add: attr_size_def StunXorAddressAttribute_def address_length_def stun_family_def
        padding_def k_stun_attribute_header_size_def)
  from add_attribute_grows [OF m0(1), of ?a] v4 sz m0(3)
  have m: "stun_wf ?m" "unat (msg_length ?m) + 32 < 2 ^ 16" by auto
  have ty: "attr_typed a \<and> attr_writable a \<and> attr_type a \<noteq> STUN_ATTR_MESSAGE_INTEGRITY"
    if "a \<in> set (attrs ?m)" for a
    using that v4 by (auto simp: m0 StunXorAddressAttribute_def attr_typed_def attr_writable_def
        get_attribute_value_type_def stun_attr_types)
  have st: "msg_type ?m AND 0x0800 = 0" unfolding add_attribute_fields m0 by (simp add: STUN_BINDING_RESPONSE_def)
  have ua: "\<not> attr_known ?a"
    by (simp add: attr_known_def get_attribute_value_type_def stun_attr_types StunXorAddressAttribute_def)
  from authenticated_exchange [OF m ty st sha, of "ice_pwd (port_ice_params p)"] obtain v rm r mac where
    x: "stun_write (binding_response dg p remote req) [] = Some v"
      "validate_fingerprint v = Some True" "stun_read StunMessage (ByteBufferReader v) = Some (rm, r)"
      "Length r = 0" "msg_type rm = STUN_BINDING_RESPONSE" "transaction_id rm = transaction_id req"
      "buffer rm = v" "attrs rm = [mi_attr mac]"
      "validate_message_integrity_of_type dg STUN_ATTR_MESSAGE_INTEGRITY 20 v (ice_pwd (port_ice_params p)) = Some True"
    by (auto simp: m0 ua binding_response_def Let_def)
  moreover have "STUN_BINDING_RESPONSE \<noteq> STUN_BINDING_REQUEST" by (simp add: stun_msg_types)
  ultimately show ?thesis
    by (intro exI [of _ v] exI [of _ rm])
       (simp add: get_stun_message_def Let_def validate_message_integrity_def get_byte_string_def
        get_attribute_def k_stun_message_integrity_size_def)
qed

text \<open>C1: A binding request that a connection prepares (USERNAME, PRIORITY, USE-CANDIDATE,
  MESSAGE-INTEGRITY, FINGERPRINT) and writes is accepted by the peer's port whose password is the
  one it was signed with: fingerprint and integrity validate, the parser returns the same
  transaction id and priority, and the peer reads the sender's ufrag out of the username.\<close>
theorem ping_accepted:
  assumes "sha1_like dg" and "length tid = 12"
    and "colon \<notin> set (username remote)" "colon \<notin> set (ice_ufrag (port_ice_params p))"
      "length (username remote) + length (ice_ufrag (port_ice_params p)) < 500"
    and "ice_pwd (port_ice_params q) = cand_password remote"
  shows "\<exists>v rm. stun_write (prepare dg p lp remote (req_msg (ConnectionRequest tid))) [] = Some v \<and>
    get_stun_message dg v addr q =
      Some (\<lparr>sp_result = True, sp_msg = Some rm, sp_ufrag = ice_ufrag (port_ice_params p)\<rparr>, q) \<and>
    msg_type rm = STUN_BINDING_REQUEST \<and> transaction_id rm = tid \<and>
    map_option uint32_value (get_uint32 rm STUN_ATTR_PRIORITY) =
      Some (push_bit 24 ICE_TYPE_PREFERENCE_PRFLX OR (lp AND 0x00FFFFFF))"
  by (rule prepared_request_accepted [OF assms])

definition demo_candidate :: candidate where
  "demo_candidate = \<lparr>component = RTP, protocol = ''udp'', address = demo_addr 9000, cand_port = 9000,
     cand_priority = 2113929471, username = ice_ufrag demo_params, cand_password = ice_pwd demo_params,
     cand_type = ''host'', foundation = ''1''\<rparr>"

lemma demo_exchange:
  "sha1_like sum_digest" "length (replicate 12 0 :: bytes) = 12" "colon \<notin> set (username demo_candidate)"
  "colon \<notin> set (ice_ufrag (port_ice_params demo_port))"
  "length (username demo_candidate) + length (ice_ufrag (port_ice_params demo_port)) < 500"
  "ice_pwd (port_ice_params demo_port) = cand_password demo_candidate"
  by (simp_all add: sha1_like_sum_digest demo_candidate_def demo_port_def UDPPort_def demo_params_def
      bytes_of_string_def)

theorem ping_accepted_witness:
  "\<exists>v rm. stun_write (prepare sum_digest demo_port 5 demo_candidate (req_msg (ConnectionRequest (replicate 12 0)))) []
      = Some v \<and>
    get_stun_message sum_digest v (demo_addr 9000) demo_port =
      Some (\<lparr>sp_result = True, sp_msg = Some rm, sp_ufrag = ice_ufrag (port_ice_params demo_port)\<rparr>, demo_port) \<and>
    msg_type rm = STUN_BINDING_REQUEST \<and> transaction_id rm = replicate 12 0 \<and>
    map_option uint32_value (get_uint32 rm STUN_ATTR_PRIORITY) =
      Some (push_bit 24 ICE_TYPE_PREFERENCE_PRFLX OR (5 AND 0x00FFFFFF))"
  by (rule ping_accepted [OF demo_exchange])

theorem get_stun_message_sound_witness:
  "let v = the (stun_write (prepare sum_digest demo_port 5 demo_candidate
         (req_msg (ConnectionRequest (replicate 12 0)))) []) in
     validate_fingerprint v = Some True \<and>
     validate_message_integrity_of_type sum_digest STUN_ATTR_MESSAGE_INTEGRITY 20 v (ice_pwd demo_params) = Some True"
proof -
  obtain v rm where v: "stun_write (prepare sum_digest demo_port 5 demo_candidate
      (req_msg (ConnectionRequest (replicate 12 0)))) [] = Some v"
    "get_stun_message sum_digest v (demo_addr 9000) demo_port =
      Some (\<lparr>sp_result = True, sp_msg = Some rm, sp_ufrag = ice_ufrag (port_ice_params demo_port)\<rparr>, demo_port)"
    "msg_type rm = STUN_BINDING_REQUEST"
    using prepared_request_accepted [OF demo_exchange, of 5 "demo_addr 9000"] by blast
  from get_stun_message_sound [OF v(2)] v(1,3) show ?thesis
    by (simp add: demo_port_def UDPPort_def)
qed

theorem response_accepted_witness:
  "\<exists>v rm. stun_write (binding_response sum_digest demo_port demo_candidate StunMessage) [] = Some v \<and>
    get_stun_message sum_digest v (demo_addr 9000) demo_port =
      Some (\<lparr>sp_result = True, sp_msg = Some rm, sp_ufrag = []\<rparr>, demo_port) \<and>
    msg_type rm = STUN_BINDING_RESPONSE \<and> transaction_id rm = transaction_id StunMessage \<and>
    map_option fst (validate_message_integrity sum_digest (ice_pwd (port_ice_params demo_port)) rm) = Some k_integrity_ok"
  by (rule response_accepted)
     (simp_all add: sha1_like_sum_digest StunMessage_def EMPTY_TRANSACION_ID_def demo_candidate_def
       demo_addr_def [of 9000] SocketAddress_ip_def SetPort_def SetIP_def IPAddress_v4_def sa_wf_def ip_wf_def)

end
