(* ===== verification/Ice_Controller.thy ===== *)
theory Ice_Controller
  imports Ice_Connection "HOL-Library.Product_Lexorder" "HOL-Library.Multiset"
begin

text \<open>
  \<open>ice/ice_controller.cpp\<close>: which connection to ping next and which one to use.

  Connections live in a store from their numbers to their records; following a pointer to a
  deleted connection is \<open>None\<close>.  The controller keeps pointers, as in the code: the list
  it sorts, the two \<open>std::set\<close>s (ascending lists: the numbers stand for the addresses by
  which the sets are ordered) and the selected connection.  The comparator is proved to be a
  strict weak order, which \<open>stable_sort\<close> requires, by the locale
  \<open>strict_weak_order\<close>; the sort itself is proved to be a sorted stable permutation.
\<close>

type_synonym conn_store = "conn_id \<Rightarrow> ice_connection option"

record ice_controller =
  ctl_selected :: "conn_id option"
  ctl_connections :: "conn_id list"
  unpinged_connections :: "conn_id list"
  pinged_connections :: "conn_id list"

definition IceController :: ice_controller where
  "IceController = \<lparr>ctl_selected = None, ctl_connections = [], unpinged_connections = [],
     pinged_connections = []\<rparr>"

definition k_min_improvement :: int where "k_min_improvement = 10"
definition a_is_better :: int where "a_is_better = 1"
definition b_is_better :: int where "b_is_better = -1"

definition set_insert :: "nat \<Rightarrow> nat list \<Rightarrow> nat list" where
  "set_insert x xs = (if x \<in> set xs then xs else insort x xs)"

subsection \<open>Bookkeeping\<close>

definition ctl_add_connection :: "conn_id \<Rightarrow> ice_controller \<Rightarrow> ice_controller" where
  "ctl_add_connection conn ctl =
     ctl\<lparr>ctl_connections := ctl_connections ctl @ [conn],
         unpinged_connections := set_insert conn (unpinged_connections ctl)\<rparr>"

definition ctl_on_connection_destroyed :: "conn_id \<Rightarrow> ice_controller \<Rightarrow> ice_controller" where
  "ctl_on_connection_destroyed conn ctl =
     ctl\<lparr>pinged_connections := remove1 conn (pinged_connections ctl),
         unpinged_connections := remove1 conn (unpinged_connections ctl),
         ctl_connections := remove1 conn (ctl_connections ctl)\<rparr>"

definition mark_connection_pinged :: "conn_id \<Rightarrow> ice_controller \<Rightarrow> ice_controller" where
  "mark_connection_pinged conn ctl =
     (if conn \<in> set (pinged_connections ctl) then ctl
      else ctl\<lparr>pinged_connections := set_insert conn (pinged_connections ctl),
               unpinged_connections := remove1 conn (unpinged_connections ctl)\<rparr>)"

definition set_selected_connection :: "conn_id option \<Rightarrow> ice_controller \<Rightarrow> ice_controller" where
  "set_selected_connection conn ctl = ctl\<lparr>ctl_selected := conn\<rparr>"

subsection \<open>Pinging\<close>

definition ctl_weak :: "conn_store \<Rightarrow> ice_controller \<Rightarrow> bool option" where
  "ctl_weak h ctl = (case ctl_selected ctl of None \<Rightarrow> Some True | Some s \<Rightarrow> map_option weak (h s))"

definition get_connection_ping_interval ::
  "conn_store \<Rightarrow> ice_controller \<Rightarrow> ice_connection \<Rightarrow> int \<Rightarrow> int option" where
  "get_connection_ping_interval h ctl c now =
     (if num_pings_sent c < MIN_PINGS_AT_WEAK_PING_INTERVAL then Some WEAK_PING_INTERVAL
      else do {
        w \<leftarrow> ctl_weak h ctl;
        Some (if w \<or> \<not> stable c now then STABLING_CONNECTION_PING_INTERVAL
              else STABLE_CONNECTION_PING_INTERVAL)
      })"

definition is_connection_past_ping_interval ::
  "conn_store \<Rightarrow> ice_controller \<Rightarrow> ice_connection \<Rightarrow> int \<Rightarrow> bool option" where
  "is_connection_past_ping_interval h ctl c now = do {
     interval \<leftarrow> get_connection_ping_interval h ctl c now;
     Some (now \<ge> last_ping_sent c + interval)
   }"

definition is_pingable :: "conn_store \<Rightarrow> ice_controller \<Rightarrow> conn_id \<Rightarrow> int \<Rightarrow> bool option" where
  "is_pingable h ctl conn now = do {
     c \<leftarrow> h conn;
     if username (remote_candidate c) = [] \<or> cand_password (remote_candidate c) = [] then Some False
     else do {
       w \<leftarrow> ctl_weak h ctl;
       if w then Some True else is_connection_past_ping_interval h ctl c now
     }}"

fun any_pingable :: "conn_store \<Rightarrow> ice_controller \<Rightarrow> conn_id list \<Rightarrow> int \<Rightarrow> bool option" where
  "any_pingable h ctl [] now = Some False"
| "any_pingable h ctl (conn # conns) now = do {
     p \<leftarrow> is_pingable h ctl conn now;
     if p then Some True else any_pingable h ctl conns now
   }"

definition has_pingable_connection :: "conn_store \<Rightarrow> ice_controller \<Rightarrow> int \<Rightarrow> bool option" where
  "has_pingable_connection h ctl now = any_pingable h ctl (ctl_connections ctl) now"

definition more_pingable :: "ice_connection \<Rightarrow> ice_connection option \<Rightarrow> bool" where
  "more_pingable conn1 conn2 = (case conn2 of
       None \<Rightarrow> True
     | Some c2 \<Rightarrow>
         if last_ping_sent conn1 < last_ping_sent c2 then True
         else False)"

fun most_pingable ::
  "conn_store \<Rightarrow> ice_controller \<Rightarrow> int \<Rightarrow> conn_id list \<Rightarrow> (conn_id \<times> ice_connection) option
   \<Rightarrow> conn_id option option" where
  "most_pingable h ctl now [] find_conn = Some (map_option fst find_conn)"
| "most_pingable h ctl now (conn # conns) find_conn = do {
     p \<leftarrow> is_pingable h ctl conn now;
     if \<not> p then most_pingable h ctl now conns find_conn
     else do {
       c \<leftarrow> h conn;
       most_pingable h ctl now conns
         (if more_pingable c (map_option snd find_conn) then Some (conn, c) else find_conn)
     }}"

definition selected_due :: "conn_store \<Rightarrow> ice_controller \<Rightarrow> int \<Rightarrow> bool option" where
  "selected_due h ctl now = (case ctl_selected ctl of
       None \<Rightarrow> Some False
     | Some s \<Rightarrow> do {
         c \<leftarrow> h s;
         if \<not> writable c then Some False else is_connection_past_ping_interval h ctl c now
       })"

definition find_next_pingable_connection ::
  "conn_store \<Rightarrow> ice_controller \<Rightarrow> int \<Rightarrow> (conn_id option \<times> ice_controller) option" where
  "find_next_pingable_connection h ctl now = do {
     due \<leftarrow> selected_due h ctl now;
     if due then Some (ctl_selected ctl, ctl)
     else do {
       has_pingable \<leftarrow> any_pingable h ctl (unpinged_connections ctl) now;
       let ctl1 = (if has_pingable then ctl
         else ctl\<lparr>unpinged_connections := foldr set_insert (pinged_connections ctl) (unpinged_connections ctl),
                  pinged_connections := []\<rparr>);
       find_conn \<leftarrow> most_pingable h ctl1 now (unpinged_connections ctl1) None;
       Some (find_conn, ctl1)
     }}"

fun need_ping_more_at_weak :: "conn_store \<Rightarrow> conn_id list \<Rightarrow> bool option" where
  "need_ping_more_at_weak h [] = Some False"
| "need_ping_more_at_weak h (conn # conns) = do {
     c \<leftarrow> h conn;
     if num_pings_sent c < MIN_PINGS_AT_WEAK_PING_INTERVAL then Some True
     else need_ping_more_at_weak h conns
   }"

record ping_result =
  pr_conn :: "conn_id option"
  pr_interval :: int

text \<open>\<open>_weak()\<close> is the left operand of \<open>||\<close> and is evaluated first.\<close>

definition select_connection_to_ping ::
  "conn_store \<Rightarrow> ice_controller \<Rightarrow> int \<Rightarrow> int \<Rightarrow> (ping_result \<times> ice_controller) option" where
  "select_connection_to_ping h ctl now last_ping_sent_ms = do {
     more \<leftarrow> need_ping_more_at_weak h (ctl_connections ctl);
     w \<leftarrow> ctl_weak h ctl;
     let ping_interval = (if w \<or> more then WEAK_PING_INTERVAL else STRONG_PING_INTERVAL);
     (conn, ctl1) \<leftarrow> (if now \<ge> last_ping_sent_ms then find_next_pingable_connection h ctl now
                      else Some (None, ctl));
     Some (\<lparr>pr_conn = conn, pr_interval = ping_interval\<rparr>, ctl1)
   }"

subsection \<open>Choosing the connection to use\<close>

text \<open>What the comparator sees of a connection: its number, its record and its priority.\<close>

type_synonym conn_view = "conn_id \<times> ice_connection \<times> u64"

definition compare_connections :: "conn_view \<Rightarrow> conn_view \<Rightarrow> int" where
  "compare_connections x y = (let a = fst (snd x); b = fst (snd y); pa = snd (snd x); pb = snd (snd y) in
     if writable a \<and> \<not> writable b then a_is_better
     else if \<not> writable a \<and> writable b then b_is_better
     else if write_state_code (write_state a) \<noteq> 0 \<and> \<not> write_state_code (write_state b) \<noteq> 0 then a_is_better
     else if \<not> write_state_code (write_state a) \<noteq> 0 \<and> write_state_code (write_state b) \<noteq> 0 then b_is_better
     else if receiving a \<and> \<not> receiving b then a_is_better
     else if \<not> receiving a \<and> receiving b then b_is_better
     else if pa > pb then a_is_better
     else if pa < pb then b_is_better
     else 0)"

definition conn_less :: "conn_view \<Rightarrow> conn_view \<Rightarrow> bool" where
  "conn_less x y = (let cmp = compare_connections x y in
     if cmp \<noteq> 0 then cmp > 0 else rtt (fst (snd x)) < rtt (fst (snd y)))"

definition ready_to_send :: "ice_connection \<Rightarrow> bool" where
  "ready_to_send c = (writable c \<or> write_state c = STATE_WRITE_UNRELIABLE)"

fun insert_by :: "('a \<Rightarrow> 'a \<Rightarrow> bool) \<Rightarrow> 'a \<Rightarrow> 'a list \<Rightarrow> 'a list" where
  "insert_by lt x [] = [x]"
| "insert_by lt x (y # ys) = (if lt y x then y # insert_by lt x ys else x # y # ys)"

definition stable_sort :: "('a \<Rightarrow> 'a \<Rightarrow> bool) \<Rightarrow> 'a list \<Rightarrow> 'a list" where
  "stable_sort lt xs = foldr (insert_by lt) xs []"

definition local_candidate :: "udp_port list \<Rightarrow> ice_connection \<Rightarrow> candidate option" where
  "local_candidate ports c =
     (if conn_port c < length ports then
        (case candidates (ports ! conn_port c) of [] \<Rightarrow> None | k # _ \<Rightarrow> Some k)
      else None)"

definition conn_priority :: "udp_port list \<Rightarrow> ice_connection \<Rightarrow> u64 option" where
  "conn_priority ports c = map_option
     (\<lambda>k. pair_priority (cand_priority k) (cand_priority (remote_candidate c))) (local_candidate ports c)"

fun conn_views :: "conn_store \<Rightarrow> udp_port list \<Rightarrow> conn_id list \<Rightarrow> conn_view list option" where
  "conn_views h ports [] = Some []"
| "conn_views h ports (conn # conns) = do {
     c \<leftarrow> h conn;
     p \<leftarrow> conn_priority ports c;
     vs \<leftarrow> conn_views h ports conns;
     Some ((conn, c, p) # vs)
   }"

definition sort_and_switch_connection ::
  "conn_store \<Rightarrow> udp_port list \<Rightarrow> ice_controller \<Rightarrow> (conn_id option \<times> ice_controller) option" where
  "sort_and_switch_connection h ports ctl = do {
     vs \<leftarrow> conn_views h ports (ctl_connections ctl);
     let sorted = stable_sort conn_less vs;
     let ctl1 = ctl\<lparr>ctl_connections := map fst sorted\<rparr>;
     (case sorted of
        [] \<Rightarrow> Some (None, ctl1)
      | (best, c, _) # _ \<Rightarrow>
          if \<not> ready_to_send c \<or> ctl_selected ctl = Some best then Some (None, ctl1)
          else (case ctl_selected ctl of
              None \<Rightarrow> Some (Some best, ctl1)
            | Some s \<Rightarrow> do {
                sc \<leftarrow> h s;
                Some (if rtt c \<le> rtt sc - k_min_improvement then Some best else None, ctl1)
              }))
   }"

subsection \<open>Sorting by a strict weak order\<close>

locale strict_weak_order =
  fixes lt :: "'a \<Rightarrow> 'a \<Rightarrow> bool"
  assumes swo_irrefl: "\<not> lt a a"
    and swo_trans: "lt a b \<Longrightarrow> lt b c \<Longrightarrow> lt a c"
    and swo_neg_trans: "\<not> lt a b \<Longrightarrow> \<not> lt b c \<Longrightarrow> \<not> lt a c"
begin

abbreviation swo_equiv :: "'a \<Rightarrow> 'a \<Rightarrow> bool" where
  "swo_equiv a b \<equiv> \<not> lt a b \<and> \<not> lt b a"

lemma insert_mset: "mset (insert_by lt x xs) = mset (x # xs)"
  by (induction xs) auto

lemma insert_set: "set (insert_by lt x xs) = insert x (set xs)"
  by (induction xs) auto

lemma sort_mset: "mset (stable_sort lt xs) = mset xs"
  by (induction xs) (simp_all add: stable_sort_def insert_mset)

lemma insert_sorted: "sorted_wrt (\<lambda>a b. \<not> lt b a) xs \<Longrightarrow> sorted_wrt (\<lambda>a b. \<not> lt b a) (insert_by lt x xs)"
proof (induction xs)
  case (Cons y ys)
  have "\<not> lt y x \<Longrightarrow> \<forall>z \<in> set ys. \<not> lt z x"
    using Cons.prems swo_neg_trans by auto
  moreover have "lt y x \<Longrightarrow> \<not> lt x y" using swo_trans swo_irrefl by blast
  ultimately show ?case using Cons by (auto simp: insert_set)
qed simp

lemma sort_sorted: "sorted_wrt (\<lambda>a b. \<not> lt b a) (stable_sort lt xs)"
  by (induction xs) (simp_all add: stable_sort_def insert_sorted)

lemma insert_stable:
  "filter (swo_equiv z) (insert_by lt x xs) = filter (swo_equiv z) (x # xs)"
proof (induction xs)
  case (Cons y ys)
  have "lt y x \<Longrightarrow> swo_equiv z x \<Longrightarrow> \<not> swo_equiv z y" using swo_neg_trans by blast
  with Cons show ?case by auto
qed simp

lemma sort_stable: "filter (swo_equiv z) (stable_sort lt xs) = filter (swo_equiv z) xs"
proof (induction xs)
  case (Cons x xs)
  have "filter (swo_equiv z) (stable_sort lt (x # xs)) = filter (swo_equiv z) (x # stable_sort lt xs)"
    by (simp only: stable_sort_def foldr.simps comp_apply insert_stable)
  with Cons show ?case by simp
qed (simp add: stable_sort_def)

lemma sort_head: "stable_sort lt xs = x # ys \<Longrightarrow> y \<in> set xs \<Longrightarrow> \<not> lt y x"
proof -
  assume s: "stable_sort lt xs = x # ys" and "y \<in> set xs"
  then have "y \<in> set (x # ys)" using sort_mset [of xs] by (metis set_mset_mset)
  with sort_sorted [of xs] s swo_irrefl show "\<not> lt y x" by auto
qed

end

text \<open>The comparator compares four keys in turn: writable, receiving, priority, round-trip
  time.\<close>

definition conn_key :: "conn_view \<Rightarrow> int \<times> int \<times> int \<times> int" where
  "conn_key x = (let c = fst (snd x) in
     (if writable c then 0 else 1, if receiving c then 0 else 1, - uint (snd (snd x)), rtt c))"

lemma write_state_code_0: "write_state_code s = 0 \<longleftrightarrow> s = STATE_WRITABLE"
  by (cases s) simp_all

lemma conn_less_key: "conn_less x y \<longleftrightarrow> conn_key x < conn_key y"
  by (auto simp: conn_less_def conn_key_def compare_connections_def Let_def a_is_better_def
      b_is_better_def writable_def write_state_code_0 less_prod_def word_less_def word_le_def)

interpretation conn: strict_weak_order conn_less
  by unfold_locales (auto simp: conn_less_key)

theorem connections_sorted:
  "mset (stable_sort conn_less vs) = mset vs \<and>
   sorted_wrt (\<lambda>a b. \<not> conn_less b a) (stable_sort conn_less vs) \<and>
   filter (\<lambda>v. \<not> conn_less u v \<and> \<not> conn_less v u) (stable_sort conn_less vs) =
     filter (\<lambda>v. \<not> conn_less u v \<and> \<not> conn_less v u) vs"
  using conn.sort_mset conn.sort_sorted conn.sort_stable by blast

end
