(* ===== verification/Ice_Channel.thy ===== *)
theory Ice_Channel
  imports Ice_Controller
begin

text \<open>
  \<open>ice/ice_transport_channel.cpp\<close>, and the operations of \<open>ice_connection.cpp\<close>,
  \<open>stun_request.cpp\<close> and \<open>udp_port.cpp\<close> that reach the channel through signals.
  A signal runs its slots before it returns, so \<open>set_write_state\<close> on a connection sorts
  the connections and updates the channel in the middle of the caller; the model makes the same
  call at the same place.  The state is one record: the ports, the store of connections, the
  controller and the channel's own fields.  What the channel signals to its owner is appended to
  \<open>ch_events\<close>.

  An operation returns \<open>None\<close> when the code would follow a pointer to a deleted object, or
  read outside a packet.  Each handler runs at one instant, the field \<open>ch_now\<close>, which
  stands for \<open>rtc::TimeMillis()\<close>.
\<close>

datatype channel_state =
  k_new | k_checking | k_connected | k_completed | k_failed | k_disconnected | k_closed

datatype channel_event =
    Signal_candidate_allocate_done "candidate list"
  | Signal_receiving_state bool
  | Signal_writable_state bool
  | Signal_ice_state_changed channel_state
  | Signal_read_packet bytes int

record ice_channel =
  ch_transport_name :: string
  ch_component :: ice_component
  ch_ice_params :: ice_parameters
  ch_remote_ice_params :: ice_parameters
  ch_local_candidates :: "candidate list"
  ch_ports :: "udp_port list"
  ch_conns :: conn_store
  ch_next_conn :: conn_id
  ch_controller :: ice_controller
  ch_start_pinging :: bool
  ch_timer :: "int option"
  ch_cur_ping_interval :: int
  ch_last_ping_sent_ms :: int
  ch_selected :: "conn_id option"
  ch_receiving :: bool
  ch_writable :: bool
  ch_state :: channel_state
  had_connection :: bool
  has_been_connection :: bool
  ch_events :: "channel_event list"
  ch_now :: int

definition PING_INTERVAL_DIFF :: int where "PING_INTERVAL_DIFF = 5"

definition IceTransportChannel :: "string \<Rightarrow> ice_component \<Rightarrow> ice_channel" where
  "IceTransportChannel nm cmp = \<lparr>ch_transport_name = nm, ch_component = cmp,
     ch_ice_params = \<lparr>ice_ufrag = [], ice_pwd = []\<rparr>, ch_remote_ice_params = \<lparr>ice_ufrag = [], ice_pwd = []\<rparr>,
     ch_local_candidates = [], ch_ports = [], ch_conns = (\<lambda>_. None), ch_next_conn = 0,
     ch_controller = IceController, ch_start_pinging = False, ch_timer = None,
     ch_cur_ping_interval = WEAK_PING_INTERVAL, ch_last_ping_sent_ms = 0, ch_selected = None,
     ch_receiving = False, ch_writable = False, ch_state = k_new, had_connection = False,
     has_been_connection = False, ch_events = [], ch_now = 0\<rparr>"

definition emit :: "channel_event \<Rightarrow> ice_channel \<Rightarrow> ice_channel" where
  "emit e ch = ch\<lparr>ch_events := ch_events ch @ [e]\<rparr>"

definition upd_conn :: "conn_id \<Rightarrow> (ice_connection \<Rightarrow> ice_connection) \<Rightarrow> ice_channel \<Rightarrow> ice_channel option" where
  "upd_conn i f ch = map_option (\<lambda>c. ch\<lparr>ch_conns := (ch_conns ch)(i := Some (f c))\<rparr>) (ch_conns ch i)"

definition upd_port :: "nat \<Rightarrow> (udp_port \<Rightarrow> udp_port) \<Rightarrow> ice_channel \<Rightarrow> ice_channel" where
  "upd_port i f ch = ch\<lparr>ch_ports := (ch_ports ch)[i := f (ch_ports ch ! i)]\<rparr>"

subsection \<open>The state of the channel\<close>

definition set_writable :: "bool \<Rightarrow> ice_channel \<Rightarrow> ice_channel" where
  "set_writable w ch =
     (if ch_writable ch = w then ch
      else let ch1 = (if w then ch\<lparr>has_been_connection := True\<rparr> else ch) in
        emit (Signal_writable_state w) (ch1\<lparr>ch_writable := w\<rparr>))"

definition set_receiving :: "bool \<Rightarrow> ice_channel \<Rightarrow> ice_channel" where
  "set_receiving r ch =
     (if ch_receiving ch = r then ch
      else emit (Signal_receiving_state r) (ch\<lparr>ch_receiving := r\<rparr>))"

fun any_conn :: "conn_store \<Rightarrow> (ice_connection \<Rightarrow> bool) \<Rightarrow> conn_id list \<Rightarrow> bool option" where
  "any_conn h P [] = Some False"
| "any_conn h P (i # is) = do { c \<leftarrow> h i; if P c then Some True else any_conn h P is }"

definition compute_ice_transport_state :: "bool \<Rightarrow> ice_channel \<Rightarrow> channel_state" where
  "compute_ice_transport_state has_connection ch =
     (if had_connection ch \<and> \<not> has_connection then k_failed
      else if has_been_connection ch \<and> \<not> ch_writable ch then k_disconnected
      else if \<not> had_connection ch \<and> \<not> has_connection then k_new
      else if has_connection \<and> \<not> ch_writable ch then k_checking
      else k_connected)"

definition update_state :: "ice_channel \<Rightarrow> ice_channel option" where
  "update_state ch = do {
     w \<leftarrow> (case ch_selected ch of None \<Rightarrow> Some False | Some s \<Rightarrow> map_option writable (ch_conns ch s));
     let ch1 = set_writable w ch;
     r \<leftarrow> any_conn (ch_conns ch1) receiving (ctl_connections (ch_controller ch1));
     let ch2 = set_receiving r ch1;
     has_connection \<leftarrow> any_conn (ch_conns ch2) active (ctl_connections (ch_controller ch2));
     let st = compute_ice_transport_state has_connection ch2;
     Some (if st \<noteq> ch_state ch2 then emit (Signal_ice_state_changed st) (ch2\<lparr>ch_state := st\<rparr>) else ch2)
   }"

text \<open>The old and new connection are told; only a non-null pointer reaches the controller.\<close>

definition switch_selected_connection :: "conn_id option \<Rightarrow> ice_channel \<Rightarrow> ice_channel option" where
  "switch_selected_connection conn ch = do {
     ch1 \<leftarrow> (case ch_selected ch of
         None \<Rightarrow> Some ch
       | Some old \<Rightarrow> upd_conn old (\<lambda>c. c\<lparr>selected := False\<rparr>) ch);
     let ch2 = ch1\<lparr>ch_selected := conn\<rparr>;
     (case conn of
        None \<Rightarrow> Some ch2
      | Some i \<Rightarrow> do {
          ch3 \<leftarrow> upd_conn i (\<lambda>c. c\<lparr>selected := True\<rparr>) ch2;
          Some (ch3\<lparr>ch_controller := set_selected_connection (Some i) (ch_controller ch3)\<rparr>)
        })
   }"

definition maybe_switch_selected_connection :: "conn_id option \<Rightarrow> ice_channel \<Rightarrow> ice_channel option" where
  "maybe_switch_selected_connection conn ch =
     (if conn = None then Some ch else switch_selected_connection conn ch)"

definition maybe_start_pinging :: "ice_channel \<Rightarrow> ice_channel option" where
  "maybe_start_pinging ch =
     (if ch_start_pinging ch then Some ch
      else do {
        p \<leftarrow> has_pingable_connection (ch_conns ch) (ch_controller ch) (ch_now ch);
        Some (if p then ch\<lparr>ch_timer := Some (WEAK_PING_INTERVAL * 1000), ch_start_pinging := True\<rparr> else ch)
      })"

definition sort_connection_and_update_state :: "ice_channel \<Rightarrow> ice_channel option" where
  "sort_connection_and_update_state ch = do {
     (conn, ctl) \<leftarrow> sort_and_switch_connection (ch_conns ch) (ch_ports ch) (ch_controller ch);
     ch1 \<leftarrow> maybe_switch_selected_connection conn (ch\<lparr>ch_controller := ctl\<rparr>);
     ch2 \<leftarrow> update_state ch1;
     maybe_start_pinging ch2
   }"

definition on_connection_state_change :: "conn_id \<Rightarrow> ice_channel \<Rightarrow> ice_channel option" where
  "on_connection_state_change conn ch = sort_connection_and_update_state ch"

definition on_connection_destroyed :: "conn_id \<Rightarrow> ice_channel \<Rightarrow> ice_channel option" where
  "on_connection_destroyed conn ch = (let
     ch1 = ch\<lparr>ch_controller := ctl_on_connection_destroyed conn (ch_controller ch)\<rparr> in
     if ch_selected ch1 = Some conn then do {
       ch2 \<leftarrow> switch_selected_connection None ch1;
       sort_connection_and_update_state ch2
     } else update_state ch1)"

subsection \<open>Operations of a connection that signal the channel\<close>

definition conn_update_receiving :: "conn_id \<Rightarrow> int \<Rightarrow> ice_channel \<Rightarrow> ice_channel option" where
  "conn_update_receiving i now ch = do {
     c \<leftarrow> ch_conns ch i;
     let r = compute_receiving c now;
     if receiving c = r then Some ch
     else do {
       ch1 \<leftarrow> upd_conn i (\<lambda>c. c\<lparr>receiving := r\<rparr>) ch;
       on_connection_state_change i ch1
     }}"

definition conn_set_write_state :: "conn_id \<Rightarrow> write_state \<Rightarrow> ice_channel \<Rightarrow> ice_channel option" where
  "conn_set_write_state i st ch = do {
     c \<leftarrow> ch_conns ch i;
     ch1 \<leftarrow> upd_conn i (\<lambda>c. c\<lparr>write_state := st\<rparr>) ch;
     if write_state c \<noteq> st then on_connection_state_change i ch1 else Some ch1
   }"

definition conn_set_state :: "conn_id \<Rightarrow> pair_state \<Rightarrow> ice_channel \<Rightarrow> ice_channel option" where
  "conn_set_state i st ch = upd_conn i (\<lambda>c. c\<lparr>conn_state := st\<rparr>) ch"

definition received_ping_response :: "conn_id \<Rightarrow> int \<Rightarrow> ice_channel \<Rightarrow> ice_channel option" where
  "received_ping_response i new_rtt ch = do {
     ch1 \<leftarrow> upd_conn i (\<lambda>c. (update_rtt new_rtt c)
       \<lparr>last_ping_response_received := ch_now ch, pings_since_last_response := []\<rparr>) ch;
     ch2 \<leftarrow> conn_update_receiving i (ch_now ch) ch1;
     ch3 \<leftarrow> conn_set_write_state i STATE_WRITABLE ch2;
     conn_set_state i SUCCEEDED ch3
   }"

text \<open>\<open>signal_connection_destroy\<close> runs while the object is alive; then it is deleted.\<close>

definition conn_destroy :: "conn_id \<Rightarrow> ice_channel \<Rightarrow> ice_channel option" where
  "conn_destroy i ch = do {
     _ \<leftarrow> ch_conns ch i;
     ch1 \<leftarrow> on_connection_destroyed i ch;
     Some (ch1\<lparr>ch_conns := (ch_conns ch1)(i := None)\<rparr>)
   }"

definition conn_fail_and_destroy :: "conn_id \<Rightarrow> ice_channel \<Rightarrow> ice_channel option" where
  "conn_fail_and_destroy i ch = do { ch1 \<leftarrow> conn_set_state i FAILED ch; conn_destroy i ch1 }"

definition conn_update_state :: "conn_id \<Rightarrow> int \<Rightarrow> ice_channel \<Rightarrow> ice_channel option" where
  "conn_update_state i now ch = do {
     c \<leftarrow> ch_conns ch i;
     ch1 \<leftarrow> (if write_state c = STATE_WRITABLE \<and>
               too_many_ping_fails c CONNECTION_WRITE_CONNECT_FAILS (clamped_rtt c) now \<and>
               too_long_without_response c CONNECTION_WRITE_CONNECT_TIMEOUT now
             then conn_set_write_state i STATE_WRITE_UNRELIABLE ch else Some ch);
     c1 \<leftarrow> ch_conns ch1 i;
     ch2 \<leftarrow> (if (write_state c1 = STATE_WRITE_UNRELIABLE \<or> write_state c1 = STATE_WRITE_INIT) \<and>
               too_long_without_response c1 CONNECTION_WRITE_TIMEOUT now
             then conn_set_write_state i STATE_WRITE_TIMEOUT ch1 else Some ch1);
     conn_update_receiving i now ch2
   }"

subsection \<open>Requests of a connection\<close>

definition on_connection_request_response :: "conn_id \<Rightarrow> stun_request \<Rightarrow> ice_channel \<Rightarrow> ice_channel option" where
  "on_connection_request_response i rq ch = received_ping_response i (elapsed rq (ch_now ch)) ch"

definition on_connection_request_error_response ::
  "conn_id \<Rightarrow> stun_message \<Rightarrow> ice_channel \<Rightarrow> ice_channel option" where
  "on_connection_request_error_response i msg ch = (let error_code = get_error_code_value msg in
     if error_code = stun_error_code_value STUN_ERROR_UNATHORIZED \<or>
        error_code = stun_error_code_value STUN_ERROR_UNKNOWN_ATTRIBUTE \<or>
        error_code = stun_error_code_value STUN_ERROR_SERVER_ERROR
     then Some ch
     else conn_fail_and_destroy i ch)"

text \<open>\<open>delete request\<close>: the destructor takes the request out of its manager, which is a
  member of the connection.  A request is deleted exactly once; deleting it again, or after the
  connection that owned it is gone, is \<open>None\<close>.\<close>

definition delete_request :: "conn_id \<Rightarrow> bytes \<Rightarrow> ice_channel \<Rightarrow> ice_channel option" where
  "delete_request i tid ch = do {
     c \<leftarrow> ch_conns ch i;
     _ \<leftarrow> requests c tid;
     upd_conn i (\<lambda>c. c\<lparr>requests := (requests c)(tid := None)\<rparr>) ch
   }"

definition check_response :: "conn_id \<Rightarrow> stun_message \<Rightarrow> ice_channel \<Rightarrow> ice_channel option" where
  "check_response i msg ch = do {
     c \<leftarrow> ch_conns ch i;
     case requests c (transaction_id msg) of
       None \<Rightarrow> Some ch
     | Some rq \<Rightarrow>
         if uint (msg_type msg) = get_stun_success_response (uint (msg_type (req_msg rq))) then do {
           ch1 \<leftarrow> on_connection_request_response i rq ch;
           delete_request i (transaction_id msg) ch1
         } else if uint (msg_type msg) = get_stun_error_response (uint (msg_type (req_msg rq))) then do {
           ch1 \<leftarrow> on_connection_request_error_response i msg ch;
           delete_request i (transaction_id msg) ch1
         } else delete_request i (transaction_id msg) ch
   }"

text \<open>\<open>StunRequestManager::send\<close> and \<open>StunRequest::send\<close>: the request is prepared,
  registered under its id, stamped and handed to the port.\<close>

definition send_request :: "digest \<Rightarrow> conn_id \<Rightarrow> stun_request \<Rightarrow> ice_channel \<Rightarrow> ice_channel option" where
  "send_request dg i rq ch = do {
     c \<leftarrow> ch_conns ch i;
     lc \<leftarrow> local_candidate (ch_ports ch) c;
     let p = ch_ports ch ! conn_port c;
     let m = prepare dg p (cand_priority lc) (remote_candidate c) (req_msg rq);
     let rq1 = \<lparr>req_msg = m, req_ts = ch_now ch\<rparr>;
     ch1 \<leftarrow> upd_conn i (\<lambda>c. c\<lparr>requests := (requests c)(transaction_id m \<mapsto> rq1)\<rparr>) ch;
     (case stun_write m [] of
        None \<Rightarrow> Some ch1
      | Some buf \<Rightarrow> Some (upd_port (conn_port c) (port_send_to buf (address (remote_candidate c))) ch1))
   }"

text \<open>\<open>tid\<close> is the random transaction id of the new request.\<close>

definition conn_ping :: "digest \<Rightarrow> bytes \<Rightarrow> conn_id \<Rightarrow> int \<Rightarrow> ice_channel \<Rightarrow> ice_channel option" where
  "conn_ping dg tid i now ch = do {
     let rq = ConnectionRequest tid;
     ch1 \<leftarrow> upd_conn i (\<lambda>c. c\<lparr>last_ping_sent := now,
       pings_since_last_response := pings_since_last_response c @ [\<lparr>ping_id = tid, sent_time = now\<rparr>]\<rparr>) ch;
     ch2 \<leftarrow> send_request dg i rq ch1;
     ch3 \<leftarrow> conn_set_state i IN_PROGRESS ch2;
     upd_conn i (\<lambda>c. c\<lparr>num_pings_sent := num_pings_sent c + 1\<rparr>) ch3
   }"

subsection \<open>Packets\<close>

definition handle_stun_binding_request ::
  "digest \<Rightarrow> conn_id \<Rightarrow> stun_message \<Rightarrow> ice_channel \<Rightarrow> ice_channel option" where
  "handle_stun_binding_request dg i msg ch = do {
     c \<leftarrow> ch_conns ch i;
     Some (upd_port (conn_port c) (send_stun_binding_response dg (remote_candidate c) msg) ch)
   }"

definition conn_on_read_packet ::
  "digest \<Rightarrow> conn_id \<Rightarrow> bytes \<Rightarrow> int \<Rightarrow> ice_channel \<Rightarrow> ice_channel option" where
  "conn_on_read_packet dg i buf ts ch = do {
     c \<leftarrow> ch_conns ch i;
     let remote = remote_candidate c;
     (sp, p) \<leftarrow> get_stun_message dg buf (address remote) (ch_ports ch ! conn_port c);
     let ch1 = upd_port (conn_port c) (\<lambda>_. p) ch;
     if \<not> sp_result sp then Some (emit (Signal_read_packet buf ts) ch1)
     else case sp_msg sp of
       None \<Rightarrow> Some ch1
     | Some msg \<Rightarrow>
         if msg_type msg = STUN_BINDING_REQUEST then
           (if sp_ufrag sp \<noteq> username remote
            then Some (upd_port (conn_port c) (send_binding_error_response dg msg (address remote)
                   STUN_ERROR_UNATHORIZED ''Unathorized'') ch1)
            else handle_stun_binding_request dg i msg ch1)
         else if msg_type msg = STUN_BINDING_RESPONSE \<or> msg_type msg = STUN_BINDING_ERROR_RESPONSE then do {
           (status, msg1) \<leftarrow> validate_message_integrity dg (cand_password remote) msg;
           if status = k_integrity_ok then check_response i msg1 ch1 else Some ch1
         } else Some ch1
   }"

definition add_connection :: "conn_id \<Rightarrow> ice_channel \<Rightarrow> ice_channel" where
  "add_connection i ch =
     ch\<lparr>had_connection := True, ch_controller := ctl_add_connection i (ch_controller ch)\<rparr>"

text \<open>\<open>new IceConnection\<close> takes the next number; \<open>UDPPort::create_connection\<close>
  registers it under the remote address.\<close>

definition create_connection :: "nat \<Rightarrow> candidate \<Rightarrow> ice_channel \<Rightarrow> conn_id \<times> ice_channel" where
  "create_connection pi remote ch = (let i = ch_next_conn ch in
     (i, upd_port pi (port_add_connection (address remote) i)
       (ch\<lparr>ch_conns := (ch_conns ch)(i \<mapsto> IceConnection pi remote), ch_next_conn := i + 1\<rparr>)))"

definition on_unknown_address ::
  "digest \<Rightarrow> nat \<Rightarrow> socket_address \<Rightarrow> stun_message \<Rightarrow> bytes \<Rightarrow> ice_channel \<Rightarrow> ice_channel option" where
  "on_unknown_address dg pi addr msg remote_ufrag ch =
     (case get_uint32 msg STUN_ATTR_PRIORITY of
        None \<Rightarrow> Some (upd_port pi (send_binding_error_response dg msg addr
            STUN_ERROR_BAD_REQUEST ''Bad request'') ch)
      | Some priority_attr \<Rightarrow>
          (let remote = \<lparr>component = ch_component ch, protocol = ''udp'', address = addr, cand_port = 0,
                 cand_priority = uint32_value priority_attr, username = remote_ufrag,
                 cand_password = ice_pwd (ch_remote_ice_params ch), cand_type = PRFLX_PORT_TYPE,
                 foundation = []\<rparr>;
               (i, ch1) = create_connection pi remote ch;
               ch2 = add_connection i ch1 in do {
             ch3 \<leftarrow> handle_stun_binding_request dg i msg ch2;
             sort_connection_and_update_state ch3
           }))"

definition port_on_read_packet ::
  "digest \<Rightarrow> nat \<Rightarrow> bytes \<Rightarrow> socket_address \<Rightarrow> int \<Rightarrow> ice_channel \<Rightarrow> ice_channel option" where
  "port_on_read_packet dg pi buf addr ts ch =
     (case get_connection (ch_ports ch ! pi) addr of
        Some i \<Rightarrow> conn_on_read_packet dg i buf ts ch
      | None \<Rightarrow> do {
          (sp, p) \<leftarrow> get_stun_message dg buf addr (ch_ports ch ! pi);
          let ch1 = upd_port pi (\<lambda>_. p) ch;
          case sp_msg sp of
            None \<Rightarrow> Some ch1
          | Some msg \<Rightarrow>
              if sp_result sp \<and> msg_type msg = STUN_BINDING_REQUEST
              then on_unknown_address dg pi addr msg (sp_ufrag sp) ch1 else Some ch1
        })"

subsection \<open>Operations called by the owner and the timer\<close>

definition set_ice_params :: "ice_parameters \<Rightarrow> ice_channel \<Rightarrow> ice_channel" where
  "set_ice_params params ch = ch\<lparr>ch_ice_params := params\<rparr>"

fun set_params_all :: "ice_parameters \<Rightarrow> conn_id list \<Rightarrow> ice_channel \<Rightarrow> ice_channel option" where
  "set_params_all params [] ch = Some ch"
| "set_params_all params (i # is) ch = do {
     ch1 \<leftarrow> upd_conn i (maybe_set_remote_ice_params params) ch;
     set_params_all params is ch1
   }"

definition set_remote_ice_params :: "ice_parameters \<Rightarrow> ice_channel \<Rightarrow> ice_channel option" where
  "set_remote_ice_params params ch = do {
     ch1 \<leftarrow> set_params_all params (ctl_connections (ch_controller ch)) (ch\<lparr>ch_remote_ice_params := params\<rparr>);
     sort_connection_and_update_state ch1
   }"

fun gather_ports ::
  "(ip_address \<Rightarrow> string) \<Rightarrow> (string \<Rightarrow> ip_address option) \<Rightarrow> (ip_address \<Rightarrow> int \<Rightarrow> int \<Rightarrow> int option)
   \<Rightarrow> int \<Rightarrow> int \<Rightarrow> ip_address list \<Rightarrow> ice_channel \<Rightarrow> ice_channel" where
  "gather_ports ntop pton bind_port min_port max_port [] ch = ch"
| "gather_ports ntop pton bind_port min_port max_port (network # ns) ch = (let
     (r, p) = create_ice_candidate ntop pton bind_port network min_port max_port
       (UDPPort (ch_transport_name ch) (ch_component ch) (ch_ice_params ch));
     ch1 = ch\<lparr>ch_ports := ch_ports ch @ [p]\<rparr> in
     gather_ports ntop pton bind_port min_port max_port ns (case r of
         None \<Rightarrow> ch1
       | Some c \<Rightarrow> ch1\<lparr>ch_local_candidates := ch_local_candidates ch1 @ [c]\<rparr>))"

definition gathering_candidate ::
  "(ip_address \<Rightarrow> string) \<Rightarrow> (string \<Rightarrow> ip_address option) \<Rightarrow> (ip_address \<Rightarrow> int \<Rightarrow> int \<Rightarrow> int option)
   \<Rightarrow> int \<Rightarrow> int \<Rightarrow> ip_address list \<Rightarrow> ice_channel \<Rightarrow> ice_channel" where
  "gathering_candidate ntop pton bind_port min_port max_port network_list ch =
     (if ice_ufrag (ch_ice_params ch) = [] \<or> ice_pwd (ch_ice_params ch) = [] then ch
      else if network_list = [] then ch
      else let ch1 = gather_ports ntop pton bind_port min_port max_port network_list ch in
        emit (Signal_candidate_allocate_done (ch_local_candidates ch1)) ch1)"

fun update_connection_states :: "conn_id list \<Rightarrow> int \<Rightarrow> ice_channel \<Rightarrow> ice_channel option" where
  "update_connection_states [] now ch = Some ch"
| "update_connection_states (i # is) now ch = do {
     ch1 \<leftarrow> conn_update_state i now ch;
     update_connection_states is now ch1
   }"

definition ping_connection :: "digest \<Rightarrow> bytes \<Rightarrow> conn_id \<Rightarrow> ice_channel \<Rightarrow> ice_channel option" where
  "ping_connection dg tid i ch =
     conn_ping dg tid i (ch_now ch) (ch\<lparr>ch_last_ping_sent_ms := ch_now ch\<rparr>)"

definition on_check_and_ping :: "digest \<Rightarrow> bytes \<Rightarrow> ice_channel \<Rightarrow> ice_channel option" where
  "on_check_and_ping dg tid ch = do {
     ch1 \<leftarrow> update_connection_states (ctl_connections (ch_controller ch)) (ch_now ch) ch;
     (result, ctl) \<leftarrow> select_connection_to_ping (ch_conns ch1) (ch_controller ch1) (ch_now ch1)
       (ch_last_ping_sent_ms ch1 - PING_INTERVAL_DIFF);
     let ch2 = ch1\<lparr>ch_controller := ctl\<rparr>;
     ch3 \<leftarrow> (case pr_conn result of
         None \<Rightarrow> Some ch2
       | Some i \<Rightarrow> do {
           c \<leftarrow> ping_connection dg tid i ch2;
           Some (c\<lparr>ch_controller := mark_connection_pinged i (ch_controller c)\<rparr>)
         });
     Some (if ch_cur_ping_interval ch3 \<noteq> pr_interval result
       then ch3\<lparr>ch_cur_ping_interval := pr_interval result, ch_timer := Some (pr_interval result * 1000)\<rparr>
       else ch3)
   }"

definition send_packet :: "bytes \<Rightarrow> ice_channel \<Rightarrow> (bool \<times> ice_channel) option" where
  "send_packet data ch = (case ch_selected ch of
       None \<Rightarrow> Some (False, ch)
     | Some s \<Rightarrow> do {
         c \<leftarrow> ch_conns ch s;
         if \<not> ready_to_send c then Some (False, ch)
         else Some (async_socket (ch_ports ch ! conn_port c),
           upd_port (conn_port c) (port_send_to data (address (remote_candidate c))) ch)
       })"

fun destroy_all :: "conn_id list \<Rightarrow> ice_channel \<Rightarrow> ice_channel option" where
  "destroy_all [] ch = Some ch"
| "destroy_all (i # is) ch = do { ch1 \<leftarrow> conn_destroy i ch; destroy_all is ch1 }"

definition delete_channel :: "ice_channel \<Rightarrow> ice_channel option" where
  "delete_channel ch = map_option (\<lambda>c. c\<lparr>ch_ports := []\<rparr>)
     (destroy_all (ctl_connections (ch_controller ch)) (ch\<lparr>ch_timer := None\<rparr>))"

subsection \<open>The invariant: no dangling pointers\<close>

definition alive :: "ice_channel \<Rightarrow> conn_id \<Rightarrow> bool" where
  "alive ch i \<longleftrightarrow> ch_conns ch i \<noteq> None"

definition conns_ok :: "ice_channel \<Rightarrow> bool" where
  "conns_ok ch \<longleftrightarrow> (\<forall>i c. ch_conns ch i = Some c \<longrightarrow> i < ch_next_conn ch \<and>
     conn_port c < length (ch_ports ch) \<and> candidates (ch_ports ch ! conn_port c) \<noteq> [])"

definition ctl_ok :: "ice_channel \<Rightarrow> bool" where
  "ctl_ok ch \<longleftrightarrow> (let ctl = ch_controller ch in
     distinct (ctl_connections ctl) \<and>
     (\<forall>i \<in> set (ctl_connections ctl). alive ch i) \<and>
     set (unpinged_connections ctl) \<union> set (pinged_connections ctl) = set (ctl_connections ctl) \<and>
     (\<forall>s. ctl_selected ctl = Some s \<longrightarrow> s \<in> set (ctl_connections ctl)) \<and>
     (\<forall>s. ch_selected ch = Some s \<longrightarrow> s \<in> set (ctl_connections ctl)))"

definition channel_inv :: "ice_channel \<Rightarrow> bool" where
  "channel_inv ch \<longleftrightarrow> conns_ok ch \<and> ctl_ok ch"

text \<open>What an operation that neither creates nor deletes connections keeps.\<close>

definition keeps :: "ice_channel \<Rightarrow> ice_channel \<Rightarrow> bool" where
  "keeps ch ch' \<longleftrightarrow> (\<forall>i. alive ch' i \<longleftrightarrow> alive ch i) \<and> ch_now ch' = ch_now ch \<and>
     set (ctl_connections (ch_controller ch')) = set (ctl_connections (ch_controller ch))"

definition safe :: "ice_channel \<Rightarrow> ice_channel option \<Rightarrow> bool" where
  "safe ch r \<longleftrightarrow> (\<exists>ch'. r = Some ch' \<and> channel_inv ch' \<and> keeps ch ch')"

lemma keeps_refl [simp]: "keeps ch ch" by (simp add: keeps_def)

lemma keeps_trans: "keeps a b \<Longrightarrow> keeps b c \<Longrightarrow> keeps a c"
  by (simp add: keeps_def)

lemma safe_Some [simp]: "safe ch (Some ch') \<longleftrightarrow> channel_inv ch' \<and> keeps ch ch'"
  by (simp add: safe_def)

lemma safe_bind:
  assumes "safe ch r" and "\<And>ch'. r = Some ch' \<Longrightarrow> channel_inv ch' \<Longrightarrow> keeps ch ch' \<Longrightarrow> safe ch' (f ch')"
  shows "safe ch (r \<bind> f)"
proof -
  from assms(1) obtain ch1 where c1: "r = Some ch1" "channel_inv ch1" "keeps ch ch1"
    by (auto simp: safe_def)
  with assms(2) obtain ch2 where "f ch1 = Some ch2" "channel_inv ch2" "keeps ch1 ch2"
    unfolding safe_def by blast
  with c1 keeps_trans show ?thesis by (auto simp: safe_def)
qed

lemma safe_keeps: "safe ch' r \<Longrightarrow> keeps ch ch' \<Longrightarrow> safe ch r"
  using keeps_trans unfolding safe_def by blast

lemma inv_alive:
  assumes "channel_inv ch"
  shows "i \<in> set (ctl_connections (ch_controller ch)) \<Longrightarrow> \<exists>c. ch_conns ch i = Some c"
    and "ctl_selected (ch_controller ch) = Some s \<Longrightarrow> \<exists>c. ch_conns ch s = Some c"
    and "ch_selected ch = Some s \<Longrightarrow> \<exists>c. ch_conns ch s = Some c"
  using assms by (auto simp: channel_inv_def ctl_ok_def Let_def alive_def)

text \<open>The fields the invariant speaks of.\<close>

definition same_core :: "ice_channel \<Rightarrow> ice_channel \<Rightarrow> bool" where
  "same_core a b \<longleftrightarrow> ch_conns a = ch_conns b \<and> ch_ports a = ch_ports b \<and> ch_controller a = ch_controller b \<and>
     ch_selected a = ch_selected b \<and> ch_next_conn a = ch_next_conn b \<and> ch_now a = ch_now b"

lemma same_core_inv: "same_core a b \<Longrightarrow> channel_inv a \<longleftrightarrow> channel_inv b"
  by (simp add: same_core_def channel_inv_def conns_ok_def ctl_ok_def alive_def)

lemma same_core_keeps: "same_core a b \<Longrightarrow> keeps a b"
  by (simp add: same_core_def keeps_def alive_def)

lemma safe_same_core: "channel_inv ch \<Longrightarrow> same_core ch ch' \<Longrightarrow> safe ch (Some ch')"
  using same_core_inv same_core_keeps by simp

lemma upd_conn_safe:
  assumes "channel_inv ch" "alive ch i" "\<And>c. conn_port (f c) = conn_port c"
  shows "safe ch (upd_conn i f ch)"
  using assms
  by (auto simp: upd_conn_def alive_def channel_inv_def conns_ok_def ctl_ok_def keeps_def Let_def
      split: if_splits)

subsection \<open>Each step of the channel is safe\<close>

lemma any_conn_total:
  "\<forall>i \<in> set is. h i \<noteq> None \<Longrightarrow> any_conn h P is = Some (\<exists>i \<in> set is. P (the (h i)))"
  by (induction "is") auto

lemma set_flags_same_core [simp]:
  "same_core ch (set_writable w ch)" "same_core ch (set_receiving r ch)" "same_core ch (emit e ch)"
  by (simp_all add: same_core_def set_writable_def set_receiving_def emit_def Let_def)

lemma same_core_trans: "same_core a b \<Longrightarrow> same_core b c \<Longrightarrow> same_core a c"
  by (simp add: same_core_def)

lemma set_flags_core [simp]:
  "ch_conns (set_writable w ch) = ch_conns ch" "ch_controller (set_writable w ch) = ch_controller ch"
  "ch_conns (set_receiving r ch) = ch_conns ch" "ch_controller (set_receiving r ch) = ch_controller ch"
  by (simp_all add: set_writable_def set_receiving_def emit_def Let_def)

definition selected_writable :: "ice_channel \<Rightarrow> bool" where
  "selected_writable ch = (case ch_selected ch of None \<Rightarrow> False | Some s \<Rightarrow> writable (the (ch_conns ch s)))"

definition some_conn :: "(ice_connection \<Rightarrow> bool) \<Rightarrow> ice_channel \<Rightarrow> bool" where
  "some_conn P ch = (\<exists>i \<in> set (ctl_connections (ch_controller ch)). P (the (ch_conns ch i)))"

text \<open>\<open>_update_state\<close> as a function of the connections: the flags and the state of the
  channel are recomputed, in the order the code signals them.\<close>

lemma update_state_eq:
  assumes "channel_inv ch"
  shows "update_state ch = (let
     ch2 = set_receiving (some_conn receiving ch) (set_writable (selected_writable ch) ch);
     st = compute_ice_transport_state (some_conn active ch) ch2 in
     Some (if st \<noteq> ch_state ch2 then emit (Signal_ice_state_changed st) (ch2\<lparr>ch_state := st\<rparr>) else ch2))"
proof -
  have al: "\<forall>i \<in> set (ctl_connections (ch_controller ch)). ch_conns ch i \<noteq> None"
    using inv_alive(1) [OF assms] by auto
  have "(case ch_selected ch of None \<Rightarrow> Some False | Some s \<Rightarrow> map_option writable (ch_conns ch s))
    = Some (selected_writable ch)"
    using inv_alive(3) [OF assms] by (auto simp: selected_writable_def split: option.splits)
  then show ?thesis
    by (simp add: update_state_def any_conn_total [OF al] some_conn_def Let_def)
qed

lemma update_state_safe:
  assumes "channel_inv ch"
  shows "\<exists>ch'. update_state ch = Some ch' \<and> same_core ch ch'"
  unfolding update_state_eq [OF assms] Let_def
  by (auto simp: same_core_def set_writable_def set_receiving_def emit_def Let_def)

lemma update_state_safe' [intro]: "channel_inv ch \<Longrightarrow> safe ch (update_state ch)"
  using update_state_safe safe_same_core by fastforce

lemma conn_views_total:
  assumes "channel_inv ch" "\<forall>i \<in> set is. ch_conns ch i \<noteq> None"
  shows "\<exists>vs. conn_views (ch_conns ch) (ch_ports ch) is = Some vs \<and> map fst vs = is \<and>
    (\<forall>(i, c, p) \<in> set vs. ch_conns ch i = Some c)"
  using assms(2)
proof (induction "is")
  case (Cons i "is")
  then obtain c where c: "ch_conns ch i = Some c" by auto
  with assms(1) have "conn_priority (ch_ports ch) c \<noteq> None"
    by (auto simp: channel_inv_def conns_ok_def conn_priority_def local_candidate_def split: list.splits)
  with Cons c show ?case by auto
qed simp

lemma sort_and_switch_total:
  assumes "channel_inv ch"
  shows "\<exists>conn ctl. sort_and_switch_connection (ch_conns ch) (ch_ports ch) (ch_controller ch) = Some (conn, ctl) \<and>
    mset (ctl_connections ctl) = mset (ctl_connections (ch_controller ch)) \<and>
    ctl = (ch_controller ch)\<lparr>ctl_connections := ctl_connections ctl\<rparr> \<and>
    (\<forall>i. conn = Some i \<longrightarrow> i \<in> set (ctl_connections ctl))"
proof -
  let ?ctl = "ch_controller ch"
  from conn_views_total [OF assms, of "ctl_connections ?ctl"] inv_alive(1) [OF assms] obtain vs where
    vs: "conn_views (ch_conns ch) (ch_ports ch) (ctl_connections ?ctl) = Some vs"
      "map fst vs = ctl_connections ?ctl" by auto
  let ?s = "stable_sort conn_less vs"
  have ms: "mset (map fst ?s) = mset (ctl_connections ?ctl)"
    using conn.sort_mset [of vs] vs(2) by (metis mset_map)
  have sel: "\<And>s. ctl_selected ?ctl = Some s \<Longrightarrow> \<exists>c. ch_conns ch s = Some c"
    using inv_alive(2) [OF assms] by blast
  show ?thesis
  proof (cases ?s)
    case Nil
    with vs(1) ms show ?thesis by (simp add: sort_and_switch_connection_def Let_def)
  next
    case (Cons x xs)
    obtain i c p where x: "x = (i, c, p)" by (cases x)
    let ?ctl1 = "?ctl\<lparr>ctl_connections := map fst ?s\<rparr>"
    have "\<exists>conn. sort_and_switch_connection (ch_conns ch) (ch_ports ch) ?ctl = Some (conn, ?ctl1) \<and>
      (conn = None \<or> conn = Some i)"
    proof (cases "ctl_selected ?ctl")
      case (Some s)
      with sel obtain sc where "ch_conns ch s = Some sc" by blast
      with Some show ?thesis
        by (cases "rtt c \<le> rtt sc - k_min_improvement")
           (simp_all add: sort_and_switch_connection_def Let_def vs(1) Cons x)
    qed (simp add: sort_and_switch_connection_def Let_def vs(1) Cons x)
    then obtain conn where "sort_and_switch_connection (ch_conns ch) (ch_ports ch) ?ctl = Some (conn, ?ctl1)"
      "conn = None \<or> conn = Some i" by blast
    with ms Cons x show ?thesis
      by (intro exI [of _ conn] exI [of _ ?ctl1]) auto
  qed
qed

lemma switch_selected_safe:
  assumes inv: "channel_inv ch"
    and al: "\<And>i. conn = Some i \<Longrightarrow> i \<in> set (ctl_connections (ch_controller ch))"
  shows "safe ch (switch_selected_connection conn ch)"
  unfolding switch_selected_connection_def
proof (rule safe_bind)
  show "safe ch (case ch_selected ch of None \<Rightarrow> Some ch
      | Some old \<Rightarrow> upd_conn old (\<lambda>c. c\<lparr>selected := False\<rparr>) ch)"
    using inv inv_alive(3) [OF inv] upd_conn_safe [OF inv]
    by (auto simp: alive_def split: option.split)
next
  fix ch1 assume inv1: "channel_inv ch1" and k: "keeps ch ch1"
  let ?ch2 = "ch1\<lparr>ch_selected := conn\<rparr>"
  have inv2: "channel_inv ?ch2" and k2: "keeps ch1 ?ch2"
    using inv1 k al by (auto simp: channel_inv_def conns_ok_def ctl_ok_def alive_def keeps_def Let_def)
  have "safe ?ch2 (case conn of None \<Rightarrow> Some ?ch2
    | Some i \<Rightarrow> do { ch3 \<leftarrow> upd_conn i (\<lambda>c. c\<lparr>selected := True\<rparr>) ?ch2;
        Some (ch3\<lparr>ch_controller := set_selected_connection (Some i) (ch_controller ch3)\<rparr>) })"
  proof (cases conn)
    case (Some i)
    have m: "i \<in> set (ctl_connections (ch_controller ?ch2))" using al [OF Some] k by (simp add: keeps_def)
    then have "alive ?ch2 i" using inv2 by (simp add: channel_inv_def ctl_ok_def Let_def)
    then have a: "safe ?ch2 (upd_conn i (\<lambda>c. c\<lparr>selected := True\<rparr>) ?ch2)"
      using upd_conn_safe [OF inv2] by auto
    show ?thesis unfolding Some option.case
      by (rule safe_bind [OF a [unfolded Some]])
         (use m in \<open>auto simp: channel_inv_def conns_ok_def ctl_ok_def alive_def keeps_def Let_def
           set_selected_connection_def Some\<close>)
  qed (use inv2 in simp)
  from this k2 show "safe ch1 (Let ?ch2 (\<lambda>ch2. case conn of None \<Rightarrow> Some ch2
    | Some i \<Rightarrow> do { ch3 \<leftarrow> upd_conn i (\<lambda>c. c\<lparr>selected := True\<rparr>) ch2;
        Some (ch3\<lparr>ch_controller := set_selected_connection (Some i) (ch_controller ch3)\<rparr>) }))"
    unfolding Let_def by (rule safe_keeps)
qed

lemma ctl_weak_total: "channel_inv ch \<Longrightarrow> \<exists>w. ctl_weak (ch_conns ch) (ch_controller ch) = Some w"
  using inv_alive(2) [of ch] by (fastforce simp: ctl_weak_def split: option.split)

lemma past_interval_total:
  "channel_inv ch \<Longrightarrow> \<exists>b. is_connection_past_ping_interval (ch_conns ch) (ch_controller ch) c now = Some b"
  using ctl_weak_total [of ch]
  by (auto simp: is_connection_past_ping_interval_def get_connection_ping_interval_def)

lemma is_pingable_total:
  assumes "channel_inv ch" "alive ch i"
  shows "is_pingable (ch_conns ch) (ch_controller ch) i now \<noteq> None"
proof -
  from assms obtain c w b where "ch_conns ch i = Some c" "ctl_weak (ch_conns ch) (ch_controller ch) = Some w"
    "is_connection_past_ping_interval (ch_conns ch) (ch_controller ch) c now = Some b"
    using ctl_weak_total past_interval_total unfolding alive_def by (metis not_None_eq)
  then show ?thesis by (simp add: is_pingable_def del: not_None_eq)
qed

lemma any_pingable_total:
  assumes "channel_inv ch" "\<forall>i \<in> set is. alive ch i"
  shows "any_pingable (ch_conns ch) (ch_controller ch) is now \<noteq> None"
  using assms(2)
proof (induction "is")
  case (Cons i "is")
  from is_pingable_total [OF assms(1), of i now] Cons.prems obtain b where
    "is_pingable (ch_conns ch) (ch_controller ch) i now = Some b" by auto
  with Cons show ?case by (cases b) (simp_all del: not_None_eq)
qed simp

lemma inv_sets:
  assumes "channel_inv ch"
  shows "i \<in> set (ctl_connections (ch_controller ch)) \<Longrightarrow> alive ch i"
    and "i \<in> set (unpinged_connections (ch_controller ch)) \<Longrightarrow> alive ch i"
    and "i \<in> set (pinged_connections (ch_controller ch)) \<Longrightarrow> alive ch i"
  using assms by (auto simp: channel_inv_def ctl_ok_def Let_def)

lemma maybe_start_pinging_safe: "channel_inv ch \<Longrightarrow> safe ch (maybe_start_pinging ch)"
proof -
  assume inv: "channel_inv ch"
  from any_pingable_total [OF inv, of "ctl_connections (ch_controller ch)" "ch_now ch"] inv_sets(1) [OF inv]
  obtain b where "has_pingable_connection (ch_conns ch) (ch_controller ch) (ch_now ch) = Some b"
    by (auto simp: has_pingable_connection_def)
  then show ?thesis
    using inv safe_same_core [OF inv, of "ch\<lparr>ch_timer := Some (WEAK_PING_INTERVAL * 1000), ch_start_pinging := True\<rparr>"]
    by (simp add: maybe_start_pinging_def same_core_def)
qed

lemma sorted_ctl_inv:
  assumes inv: "channel_inv ch" and m: "mset (ctl_connections ctl) = mset (ctl_connections (ch_controller ch))"
    and ctl: "ctl = (ch_controller ch)\<lparr>ctl_connections := ctl_connections ctl\<rparr>"
  shows "channel_inv (ch\<lparr>ch_controller := ctl\<rparr>) \<and> keeps ch (ch\<lparr>ch_controller := ctl\<rparr>)"
proof -
  have st: "set (ctl_connections ctl) = set (ctl_connections (ch_controller ch))"
    "distinct (ctl_connections ctl) = distinct (ctl_connections (ch_controller ch))"
    using m by (auto dest: mset_eq_setD mset_eq_imp_distinct_iff)
  obtain cs where c: "ctl = (ch_controller ch)\<lparr>ctl_connections := cs\<rparr>" using ctl by blast
  show ?thesis
    using inv st by (auto simp: channel_inv_def conns_ok_def ctl_ok_def alive_def keeps_def Let_def c)
qed

lemma sort_and_update_safe:
  assumes inv: "channel_inv ch"
  shows "safe ch (sort_connection_and_update_state ch)"
proof -
  from sort_and_switch_total [OF inv] obtain conn ctl where
    s: "sort_and_switch_connection (ch_conns ch) (ch_ports ch) (ch_controller ch) = Some (conn, ctl)"
      "mset (ctl_connections ctl) = mset (ctl_connections (ch_controller ch))"
      "ctl = (ch_controller ch)\<lparr>ctl_connections := ctl_connections ctl\<rparr>"
      "\<And>i. conn = Some i \<Longrightarrow> i \<in> set (ctl_connections ctl)" by blast
  let ?ch1 = "ch\<lparr>ch_controller := ctl\<rparr>"
  have inv1: "channel_inv ?ch1" and k1: "keeps ch ?ch1"
    using sorted_ctl_inv [OF inv s(2,3)] by auto
  have al: "i \<in> set (ctl_connections (ch_controller ?ch1))" if "conn = Some i" for i
    using s(4) [OF that] by simp
  have a: "safe ?ch1 (maybe_switch_selected_connection conn ?ch1)"
    using inv1 al switch_selected_safe [OF inv1, of conn]
    by (auto simp: maybe_switch_selected_connection_def)
  have "safe ?ch1 (maybe_switch_selected_connection conn ?ch1 \<bind> (\<lambda>c. update_state c \<bind> maybe_start_pinging))"
    by (rule safe_bind [OF a], rule safe_bind) (auto intro: maybe_start_pinging_safe)
  then have "safe ch (maybe_switch_selected_connection conn ?ch1 \<bind> (\<lambda>c. update_state c \<bind> maybe_start_pinging))"
    using k1 by (rule safe_keeps)
  then show ?thesis by (simp add: sort_connection_and_update_state_def s(1))
qed

lemma conn_update_receiving_safe:
  assumes inv: "channel_inv ch" and "alive ch i"
  shows "safe ch (conn_update_receiving i now ch)"
proof -
  from assms(2) obtain c where c: "ch_conns ch i = Some c" by (auto simp: alive_def)
  have "safe ch (upd_conn i (receiving_update (\<lambda>_. r)) ch \<bind> on_connection_state_change i)" for r
    by (rule safe_bind [OF upd_conn_safe [OF inv assms(2)]])
       (auto simp: on_connection_state_change_def intro: sort_and_update_safe)
  with inv show ?thesis by (simp add: conn_update_receiving_def c Let_def)
qed

lemma conn_set_write_state_safe:
  assumes inv: "channel_inv ch" and "alive ch i"
  shows "safe ch (conn_set_write_state i st ch)"
proof -
  from assms(2) obtain c where c: "ch_conns ch i = Some c" by (auto simp: alive_def)
  have "safe ch (upd_conn i (write_state_update (\<lambda>_. st)) ch \<bind>
    (\<lambda>ch1. if write_state c \<noteq> st then on_connection_state_change i ch1 else Some ch1))"
    by (rule safe_bind [OF upd_conn_safe [OF inv assms(2)]])
       (auto simp: on_connection_state_change_def intro: sort_and_update_safe)
  then show ?thesis by (simp add: conn_set_write_state_def c)
qed

lemma keeps_alive: "keeps ch ch' \<Longrightarrow> alive ch i \<Longrightarrow> alive ch' i"
  by (simp add: keeps_def)

lemma safe_bind_alive:
  assumes "safe ch r" "alive ch i"
    and "\<And>ch' c. channel_inv ch' \<Longrightarrow> alive ch' i \<Longrightarrow> ch_conns ch' i = Some c \<Longrightarrow> safe ch' (f ch')"
  shows "safe ch (r \<bind> f)"
proof (rule safe_bind [OF assms(1)])
  fix ch' assume "channel_inv ch'" "keeps ch ch'"
  with assms(2) have "alive ch' i" by (simp add: keeps_alive)
  with \<open>channel_inv ch'\<close> assms(3) show "safe ch' (f ch')" by (metis alive_def not_None_eq)
qed

lemma conn_update_state_safe:
  assumes inv: "channel_inv ch" and al: "alive ch i"
  shows "safe ch (conn_update_state i now ch)"
proof -
  from al obtain c where c: "ch_conns ch i = Some c" by (auto simp: alive_def)
  show ?thesis
    unfolding conn_update_state_def c bind.bind_lunit
  proof (rule safe_bind_alive [OF _ al], goal_cases)
    case 1
    then show ?case using inv conn_set_write_state_safe [OF inv al] by auto
  next
    case (2 ch' c')
    show ?case unfolding \<open>ch_conns ch' i = Some c'\<close> bind.bind_lunit
      by (rule safe_bind_alive [OF _ \<open>alive ch' i\<close>])
         (use 2 conn_set_write_state_safe [OF 2(1,2)] in \<open>auto intro: conn_update_receiving_safe\<close>)
  qed
qed

lemma update_connection_states_safe:
  "channel_inv ch \<Longrightarrow> \<forall>i \<in> set is. alive ch i \<Longrightarrow> safe ch (update_connection_states is now ch)"
proof (induction "is" arbitrary: ch)
  case (Cons i "is")
  show ?case unfolding update_connection_states.simps
  proof (rule safe_bind)
    show "safe ch (conn_update_state i now ch)" using Cons.prems by (simp add: conn_update_state_safe)
  next
    fix ch' assume "channel_inv ch'" "keeps ch ch'"
    with Cons.prems show "safe ch' (update_connection_states is now ch')"
      by (intro Cons.IH) (auto intro: keeps_alive)
  qed
qed simp

lemma set_set_insert [simp]: "set (set_insert x xs) = insert x (set xs)"
  by (auto simp: set_insert_def set_insort_key)

lemma set_foldr_set_insert [simp]: "set (foldr set_insert xs ys) = set xs \<union> set ys"
  by (induction xs) auto

lemma most_pingable_total:
  assumes "channel_inv ch" "\<forall>i \<in> set is. alive ch i"
  shows "\<exists>r. most_pingable (ch_conns ch) (ch_controller ch) now is acc = Some r \<and>
    (\<forall>i. r = Some i \<longrightarrow> i \<in> set is \<or> (\<exists>c. acc = Some (i, c)))"
  using assms(2)
proof (induction "is" arbitrary: acc)
  case (Cons i "is")
  from is_pingable_total [OF assms(1), of i now] Cons.prems obtain b c where
    "is_pingable (ch_conns ch) (ch_controller ch) i now = Some b" "ch_conns ch i = Some c"
    by (auto simp: alive_def)
  with Cons.IH [of acc]
    Cons.IH [of "if more_pingable c (map_option snd acc) then Some (i, c) else acc"] Cons.prems
  show ?case by (cases b) (auto split: if_splits)
qed auto

lemma selected_due_total:
  assumes "channel_inv ch"
  shows "selected_due (ch_conns ch) (ch_controller ch) now \<noteq> None"
proof (cases "ctl_selected (ch_controller ch)")
  case (Some s)
  with inv_alive(2) [OF assms] obtain c where "ch_conns ch s = Some c" by blast
  with Some past_interval_total [OF assms, of c now] show ?thesis
    by (auto simp: selected_due_def)
qed (simp add: selected_due_def)

definition ctl_kept :: "ice_controller \<Rightarrow> ice_controller \<Rightarrow> bool" where
  "ctl_kept a b \<longleftrightarrow> ctl_connections b = ctl_connections a \<and> ctl_selected b = ctl_selected a \<and>
     set (unpinged_connections b) \<union> set (pinged_connections b)
       = set (unpinged_connections a) \<union> set (pinged_connections a)"

lemma ctl_kept_inv:
  assumes "channel_inv ch" "ctl_kept (ch_controller ch) ctl"
  shows "channel_inv (ch\<lparr>ch_controller := ctl\<rparr>) \<and> keeps ch (ch\<lparr>ch_controller := ctl\<rparr>)"
  using assms by (simp add: channel_inv_def conns_ok_def ctl_ok_def alive_def keeps_def ctl_kept_def Let_def)

lemma find_next_total:
  assumes inv: "channel_inv ch"
  shows "\<exists>conn ctl. find_next_pingable_connection (ch_conns ch) (ch_controller ch) now = Some (conn, ctl) \<and>
    ctl_kept (ch_controller ch) ctl \<and> (\<forall>i. conn = Some i \<longrightarrow> i \<in> set (ctl_connections (ch_controller ch)))"
proof -
  let ?h = "ch_conns ch" and ?ctl = "ch_controller ch"
  from selected_due_total [OF inv, of now] obtain due where due: "selected_due ?h ?ctl now = Some due" by auto
  from any_pingable_total [OF inv, of "unpinged_connections ?ctl" now] inv_sets(2) [OF inv]
  obtain hp where hp: "any_pingable ?h ?ctl (unpinged_connections ?ctl) now = Some hp" by auto
  define ctl1 where "ctl1 = (if hp then ?ctl
    else ?ctl\<lparr>unpinged_connections := foldr set_insert (pinged_connections ?ctl) (unpinged_connections ?ctl),
              pinged_connections := []\<rparr>)"
  have k: "ctl_kept ?ctl ctl1" by (auto simp: ctl1_def ctl_kept_def)
  have k1: "channel_inv (ch\<lparr>ch_controller := ctl1\<rparr>)" using ctl_kept_inv [OF inv k] by simp
  have al: "i \<in> set (ctl_connections ?ctl)" if "i \<in> set (unpinged_connections ctl1)" for i
    using that inv by (auto simp: ctl1_def channel_inv_def ctl_ok_def Let_def split: if_splits)
  from most_pingable_total [OF k1, of "unpinged_connections ctl1" now None] al inv_sets(1) [OF inv] obtain r where
    r: "most_pingable ?h ctl1 now (unpinged_connections ctl1) None = Some r"
      "\<And>i. r = Some i \<Longrightarrow> i \<in> set (ctl_connections ?ctl)" by (auto simp: alive_def)
  have sel: "s \<in> set (ctl_connections ?ctl)" if "ctl_selected ?ctl = Some s" for s
    using that inv by (simp add: channel_inv_def ctl_ok_def Let_def)
  have "find_next_pingable_connection ?h ?ctl now =
    Some (if due then (ctl_selected ?ctl, ?ctl) else (r, ctl1))"
    using due hp r(1) by (simp add: find_next_pingable_connection_def ctl1_def [symmetric])
  with k sel r(2) show ?thesis
    by (cases due) (auto simp: ctl_kept_def)
qed

lemma need_more_total:
  "\<forall>i \<in> set is. h i \<noteq> None \<Longrightarrow> need_ping_more_at_weak h is \<noteq> None"
proof (induction "is")
  case (Cons i "is")
  then obtain c where "h i = Some c" by auto
  with Cons show ?case by (simp del: not_None_eq)
qed simp

lemma select_total:
  assumes inv: "channel_inv ch"
  shows "\<exists>r ctl. select_connection_to_ping (ch_conns ch) (ch_controller ch) now since = Some (r, ctl) \<and>
    ctl_kept (ch_controller ch) ctl \<and> (\<forall>i. pr_conn r = Some i \<longrightarrow> i \<in> set (ctl_connections (ch_controller ch)))"
proof -
  let ?h = "ch_conns ch" and ?ctl = "ch_controller ch"
  from need_more_total [of "ctl_connections ?ctl" ?h] inv_sets(1) [OF inv] obtain m where
    "need_ping_more_at_weak ?h (ctl_connections ?ctl) = Some m" by (auto simp: alive_def)
  moreover from ctl_weak_total [OF inv] obtain w where "ctl_weak ?h ?ctl = Some w" by blast
  moreover from find_next_total [OF inv, of now] obtain conn ctl where
    "find_next_pingable_connection ?h ?ctl now = Some (conn, ctl)" "ctl_kept ?ctl ctl"
    "\<forall>i. conn = Some i \<longrightarrow> i \<in> set (ctl_connections ?ctl)" by blast
  ultimately show ?thesis
    by (cases "now \<ge> since") (simp_all add: select_connection_to_ping_def Let_def ctl_kept_def)
qed

subsection \<open>The ping timer\<close>

lemma upd_port_safe:
  assumes "channel_inv ch" "\<And>p. candidates (f p) = candidates p"
  shows "channel_inv (upd_port i f ch)" "keeps ch (upd_port i f ch)"
proof -
  have "candidates ((ch_ports ch)[i := f (ch_ports ch ! i)] ! j) = candidates (ch_ports ch ! j)"
    if "j < length (ch_ports ch)" for j
    using that assms(2) by (cases "i = j") simp_all
  with assms(1) show "channel_inv (upd_port i f ch)" "keeps ch (upd_port i f ch)"
    by (auto simp: upd_port_def channel_inv_def conns_ok_def ctl_ok_def alive_def keeps_def Let_def)
qed

lemma port_send_to_candidates [frame_simps, simp]: "candidates (port_send_to b a p) = candidates p"
  by (simp add: port_send_to_def)

lemma send_request_safe:
  assumes inv: "channel_inv ch" and al: "alive ch i"
  shows "safe ch (send_request dg i rq ch)"
proof -
  from al obtain c where c: "ch_conns ch i = Some c" by (auto simp: alive_def)
  with inv have "conn_port c < length (ch_ports ch)" "candidates (ch_ports ch ! conn_port c) \<noteq> []"
    by (auto simp: channel_inv_def conns_ok_def)
  then obtain lc where lc: "local_candidate (ch_ports ch) c = Some lc"
    by (cases "candidates (ch_ports ch ! conn_port c)") (simp_all add: local_candidate_def)
  let ?m = "prepare dg (ch_ports ch ! conn_port c) (cand_priority lc) (remote_candidate c) (req_msg rq)"
  have "safe ch (upd_conn i (\<lambda>c. c\<lparr>requests := (requests c)(transaction_id ?m \<mapsto>
      \<lparr>req_msg = ?m, req_ts = ch_now ch\<rparr>)\<rparr>) ch \<bind> (\<lambda>ch1. case stun_write ?m [] of
        None \<Rightarrow> Some ch1
      | Some buf \<Rightarrow> Some (upd_port (conn_port c) (port_send_to buf (address (remote_candidate c))) ch1)))"
    by (rule safe_bind [OF upd_conn_safe [OF inv al]])
       (auto split: option.split simp: upd_port_safe)
  then show ?thesis by (simp add: send_request_def c lc Let_def)
qed

lemma conn_ping_safe:
  assumes inv: "channel_inv ch" and al: "alive ch i"
  shows "safe ch (conn_ping dg tid i now ch)"
  unfolding conn_ping_def Let_def conn_set_state_def
proof (rule safe_bind_alive [OF upd_conn_safe [OF inv al] al], simp)
  fix ch1 assume 1: "channel_inv ch1" "alive ch1 i"
  show "safe ch1 (send_request dg i (ConnectionRequest tid) ch1 \<bind>
    (\<lambda>ch2. upd_conn i (conn_state_update (\<lambda>_. IN_PROGRESS)) ch2 \<bind>
      upd_conn i (\<lambda>c. c\<lparr>num_pings_sent := num_pings_sent c + 1\<rparr>)))"
    by (rule safe_bind_alive [OF send_request_safe [OF 1] 1(2)],
        rule safe_bind_alive [OF upd_conn_safe]) (auto intro: upd_conn_safe)
qed

lemma mark_pinged_inv:
  assumes "channel_inv ch" "i \<in> set (ctl_connections (ch_controller ch))"
  shows "channel_inv (ch\<lparr>ch_controller := mark_connection_pinged i (ch_controller ch)\<rparr>)"
proof -
  let ?ctl = "ch_controller ch"
  have "insert i (set (remove1 i (unpinged_connections ?ctl)) \<union> set (pinged_connections ?ctl))
    = insert i (set (unpinged_connections ?ctl) \<union> set (pinged_connections ?ctl))"
    by (auto dest: notin_set_remove1)
  with assms show ?thesis
    by (auto simp: channel_inv_def conns_ok_def ctl_ok_def alive_def Let_def mark_connection_pinged_def)
qed

text \<open>C5: The periodic handler of a channel (update every connection, choose one to ping,
  send the ping, rearm the timer) follows no dangling pointer and keeps the channel invariant,
  from every state of the channel that satisfies it.\<close>
theorem on_check_and_ping_safe:
  assumes inv: "channel_inv ch"
  shows "\<exists>ch'. on_check_and_ping dg tid ch = Some ch' \<and> channel_inv ch'"
proof -
  from update_connection_states_safe [OF inv] inv_sets(1) [OF inv] obtain ch1 where
    1: "update_connection_states (ctl_connections (ch_controller ch)) (ch_now ch) ch = Some ch1"
      "channel_inv ch1" by (fastforce simp: safe_def)
  from select_total [OF 1(2), of "ch_now ch1" "ch_last_ping_sent_ms ch1 - PING_INTERVAL_DIFF"] obtain r ctl where
    2: "select_connection_to_ping (ch_conns ch1) (ch_controller ch1) (ch_now ch1)
        (ch_last_ping_sent_ms ch1 - PING_INTERVAL_DIFF) = Some (r, ctl)"
      "ctl_kept (ch_controller ch1) ctl" "\<And>i. pr_conn r = Some i \<Longrightarrow> i \<in> set (ctl_connections (ch_controller ch1))" by blast
  let ?ch2 = "ch1\<lparr>ch_controller := ctl\<rparr>"
  have inv2: "channel_inv ?ch2" using ctl_kept_inv [OF 1(2) 2(2)] by simp
  have "\<exists>ch3. (case pr_conn r of None \<Rightarrow> Some ?ch2
      | Some i \<Rightarrow> do { c \<leftarrow> ping_connection dg tid i ?ch2;
          Some (c\<lparr>ch_controller := mark_connection_pinged i (ch_controller c)\<rparr>) }) = Some ch3 \<and> channel_inv ch3"
  proof (cases "pr_conn r")
    case (Some i)
    let ?c = "?ch2\<lparr>ch_last_ping_sent_ms := ch_now ?ch2\<rparr>"
    have i: "i \<in> set (ctl_connections (ch_controller ?c))"
      using 2(2) 2(3) [OF Some] by (simp add: ctl_kept_def)
    have "same_core ?ch2 ?c" by (simp add: same_core_def)
    then have c: "channel_inv ?c" using inv2 same_core_inv by blast
    from conn_ping_safe [OF c inv_sets(1) [OF c i], of dg tid "ch_now ?ch2"] obtain ch3 where
      3: "ping_connection dg tid i ?ch2 = Some ch3" "channel_inv ch3" "keeps ?c ch3"
      by (auto simp: ping_connection_def safe_def)
    with i mark_pinged_inv [OF 3(2), of i] Some show ?thesis by (simp add: keeps_def)
  qed (use inv2 in simp)
  then obtain ch3 where
    3: "(case pr_conn r of None \<Rightarrow> Some ?ch2
      | Some i \<Rightarrow> do { c \<leftarrow> ping_connection dg tid i ?ch2;
          Some (c\<lparr>ch_controller := mark_connection_pinged i (ch_controller c)\<rparr>) }) = Some ch3"
    and inv3: "channel_inv ch3" by blast
  have "same_core ch3 (ch3\<lparr>ch_cur_ping_interval := x, ch_timer := y\<rparr>)" for x y
    by (simp add: same_core_def)
  then have "channel_inv (ch3\<lparr>ch_cur_ping_interval := x, ch_timer := y\<rparr>)" for x y
    using inv3 same_core_inv by blast
  with 1(1) 2(1) 3 inv3 show ?thesis
    by (simp add: on_check_and_ping_def Let_def)
qed

subsection \<open>What the channel reports\<close>

text \<open>The three things a channel tells its owner agree with its connections.\<close>

definition channel_consistent :: "ice_channel \<Rightarrow> bool" where
  "channel_consistent ch \<longleftrightarrow> ch_writable ch = selected_writable ch \<and>
     ch_receiving ch = some_conn receiving ch \<and>
     ch_state ch = compute_ice_transport_state (some_conn active ch) ch"

lemma update_state_consistent:
  assumes "channel_inv ch" "update_state ch = Some ch'"
  shows "channel_consistent ch'"
proof -
  from assms have "same_core ch ch'" using update_state_safe by fastforce
  then have s: "selected_writable ch' = selected_writable ch" "\<And>P. some_conn P ch' = some_conn P ch"
    by (simp_all add: same_core_def selected_writable_def some_conn_def split: option.split)
  have w: "ch_writable (set_writable b c) = b" "ch_receiving (set_receiving b c) = b"
    "ch_writable (set_receiving b c) = ch_writable c" for b c
    by (simp_all add: set_writable_def set_receiving_def emit_def Let_def)
  have c: "compute_ice_transport_state b (c\<lparr>ch_state := st\<rparr>) = compute_ice_transport_state b c"
    "compute_ice_transport_state b (emit e c) = compute_ice_transport_state b c"
    "ch_state (emit e c) = ch_state c" "ch_writable (emit e c) = ch_writable c"
    "ch_receiving (emit e c) = ch_receiving c" for b c st e
    by (simp_all add: compute_ice_transport_state_def emit_def)
  from assms(2) show ?thesis
    unfolding update_state_eq [OF assms(1)] channel_consistent_def s
    by (auto simp: Let_def w c split: if_splits)
qed

lemma maybe_start_pinging_frame:
  assumes r: "maybe_start_pinging ch = Some ch'" and c: "channel_consistent ch"
  shows "channel_consistent ch'"
proof -
  let ?c = "\<lambda>x y. ch\<lparr>ch_timer := x, ch_start_pinging := y\<rparr>"
  have "selected_writable (?c x y) = selected_writable ch" "some_conn P (?c x y) = some_conn P ch"
    "compute_ice_transport_state b (?c x y) = compute_ice_transport_state b ch" for x y P b
    by (simp_all add: selected_writable_def some_conn_def compute_ice_transport_state_def split: option.split)
  then have "channel_consistent (?c x y)" for x y using c by (simp add: channel_consistent_def)
  with r c show ?thesis by (auto simp: maybe_start_pinging_def split: if_splits)
qed

text \<open>\<open>_sort_connection_and_update_state\<close> always leaves the channel consistent.\<close>

text \<open>C25: After sorting and updating, what the channel reports agrees with its
  connections: writable is that of the selected connection, receiving holds when some connection
  receives, and the ICE state is the one computed from the active connections.\<close>
theorem sort_and_update_consistent:
  assumes inv: "channel_inv ch" and r: "sort_connection_and_update_state ch = Some ch'"
  shows "channel_consistent ch'"
proof -
  from r obtain conn ctl ch1 ch2 where
    s: "sort_and_switch_connection (ch_conns ch) (ch_ports ch) (ch_controller ch) = Some (conn, ctl)"
      "maybe_switch_selected_connection conn (ch\<lparr>ch_controller := ctl\<rparr>) = Some ch1"
      "update_state ch1 = Some ch2" "maybe_start_pinging ch2 = Some ch'"
    by (auto simp: sort_connection_and_update_state_def)
  have "channel_inv ch1"
  proof -
    from sort_and_switch_total [OF inv] s(1) have
      m: "mset (ctl_connections ctl) = mset (ctl_connections (ch_controller ch))"
        "ctl = (ch_controller ch)\<lparr>ctl_connections := ctl_connections ctl\<rparr>"
        "\<And>i. conn = Some i \<Longrightarrow> i \<in> set (ctl_connections ctl)" by auto
    have inv1: "channel_inv (ch\<lparr>ch_controller := ctl\<rparr>)"
      using sorted_ctl_inv [OF inv m(1,2)] by simp
    show ?thesis
      using s(2) inv1 switch_selected_safe [OF inv1, of conn] m(3)
      by (auto simp: maybe_switch_selected_connection_def safe_def split: if_splits)
  qed
  from update_state_consistent [OF this s(3)] s(4) show ?thesis by (rule maybe_start_pinging_frame [rotated])
qed

subsection \<open>The connection in use is the best one\<close>

text \<open>C24: The connection the controller proposes to switch to exists, can send, is not
  the selected one, no other connection of the list precedes it in the controller's order, and it
  is at least 10 ms faster than the selected one.\<close>
theorem sort_and_switch_best:
  assumes inv: "channel_inv ch"
    and r: "sort_and_switch_connection (ch_conns ch) (ch_ports ch) (ch_controller ch) = Some (Some best, ctl)"
  shows "\<exists>c p. ch_conns ch best = Some c \<and> conn_priority (ch_ports ch) c = Some p \<and> ready_to_send c \<and>
    ctl_selected (ch_controller ch) \<noteq> Some best \<and>
    (\<forall>j \<in> set (ctl_connections (ch_controller ch)). \<forall>d q. ch_conns ch j = Some d \<longrightarrow>
       conn_priority (ch_ports ch) d = Some q \<longrightarrow> \<not> conn_less (j, d, q) (best, c, p)) \<and>
    (\<forall>s d. ctl_selected (ch_controller ch) = Some s \<longrightarrow> ch_conns ch s = Some d \<longrightarrow> rtt c \<le> rtt d - 10)"
proof -
  let ?ctl = "ch_controller ch"
  from r obtain vs where vs: "conn_views (ch_conns ch) (ch_ports ch) (ctl_connections ?ctl) = Some vs"
    by (auto simp: sort_and_switch_connection_def)
  have mem: "(j, d, q) \<in> set vs \<longleftrightarrow> j \<in> set is \<and> ch_conns ch j = Some d \<and> conn_priority (ch_ports ch) d = Some q"
    if "conn_views (ch_conns ch) (ch_ports ch) is = Some vs" for "is" vs j d q
    using that by (induction "is" arbitrary: vs) auto
  from r vs obtain c p xs where s: "stable_sort conn_less vs = (best, c, p) # xs"
    by (auto simp: sort_and_switch_connection_def Let_def split: list.splits if_splits option.splits)
  have rd: "ready_to_send c" "ctl_selected ?ctl \<noteq> Some best"
    using r vs s by (auto simp: sort_and_switch_connection_def Let_def split: if_splits)
  have im: "rtt c \<le> rtt d - 10" if "ctl_selected ?ctl = Some s" "ch_conns ch s = Some d" for s d
    using r vs s that
    by (auto simp: sort_and_switch_connection_def Let_def k_min_improvement_def split: if_splits)
  have "(best, c, p) \<in> set vs" using s conn.sort_mset [of vs]
    by (metis list.set_intros(1) set_mset_mset)
  with mem [OF vs] have b: "ch_conns ch best = Some c" "conn_priority (ch_ports ch) c = Some p" by auto
  have "\<not> conn_less (j, d, q) (best, c, p)"
    if "j \<in> set (ctl_connections ?ctl)" "ch_conns ch j = Some d" "conn_priority (ch_ports ch) d = Some q" for j d q
    using conn.sort_head [OF s, of "(j, d, q)"] mem [OF vs] that by blast
  with b rd im show ?thesis by blast
qed

subsection \<open>A response to a ping\<close>

text \<open>Fields of the connection that the channel's slots do not touch.\<close>

lemma switch_selected_frame:
  assumes "switch_selected_connection conn ch = Some ch'" "ch_conns ch i = Some c"
  shows "\<exists>b. ch_conns ch' i = Some (c\<lparr>selected := b\<rparr>)"
proof -
  have c: "c = c\<lparr>selected := selected c\<rparr>" by simp
  show ?thesis using assms c
    by (auto simp: switch_selected_connection_def upd_conn_def Let_def split: option.splits)
       (metis ice_connection.surjective ice_connection.update_convs(5))+
qed

lemma emit_frame [frame_simps, simp]:
  "ch_conns (emit e ch) = ch_conns ch" "ch_controller (emit e ch) = ch_controller ch"
  "ch_selected (emit e ch) = ch_selected ch"
  by (simp_all add: emit_def)

lemma update_state_frame:
  assumes "update_state ch = Some ch'"
  shows "ch_conns ch' = ch_conns ch \<and> ch_controller ch' = ch_controller ch"
proof -
  from assms obtain w r h where "ch' = (let
      ch2 = set_receiving r (set_writable w ch); st = compute_ice_transport_state h ch2 in
      if st \<noteq> ch_state ch2 then emit (Signal_ice_state_changed st) (ch2\<lparr>ch_state := st\<rparr>) else ch2)"
    unfolding update_state_def Let_def bind_eq_Some_conv by blast
  then show ?thesis by (simp add: Let_def)
qed

lemma sort_and_update_frame:
  assumes "sort_connection_and_update_state ch = Some ch'" "ch_conns ch i = Some c"
  shows "\<exists>b. ch_conns ch' i = Some (c\<lparr>selected := b\<rparr>)"
proof -
  from assms(1) obtain conn ctl ch1 ch2 where
    "maybe_switch_selected_connection conn (ch\<lparr>ch_controller := ctl\<rparr>) = Some ch1"
    "update_state ch1 = Some ch2" "maybe_start_pinging ch2 = Some ch'"
    by (auto simp: sort_connection_and_update_state_def)
  moreover from this have "ch_conns ch' = ch_conns ch1"
    by (auto simp: maybe_start_pinging_def dest: update_state_frame split: if_splits)
  ultimately show ?thesis
    using assms(2) switch_selected_frame [of conn "ch\<lparr>ch_controller := ctl\<rparr>" ch1 i c]
    by (auto simp: maybe_switch_selected_connection_def split: if_splits
        intro: exI [of _ "selected c"])
qed

lemma conn_update_receiving_frame:
  assumes "conn_update_receiving i now ch = Some ch'" "ch_conns ch i = Some c"
  shows "\<exists>b. ch_conns ch' i = Some (c\<lparr>receiving := compute_receiving c now, selected := b\<rparr>)"
proof (cases "receiving c = compute_receiving c now")
  case True
  with assms show ?thesis
    by (auto simp: conn_update_receiving_def Let_def intro!: exI [of _ "selected c"])
next
  case False
  with assms have "sort_connection_and_update_state
    (ch\<lparr>ch_conns := (ch_conns ch)(i := Some (c\<lparr>receiving := compute_receiving c now\<rparr>))\<rparr>) = Some ch'"
    by (simp add: conn_update_receiving_def Let_def upd_conn_def on_connection_state_change_def)
  from sort_and_update_frame [OF this, of i "c\<lparr>receiving := compute_receiving c now\<rparr>"] show ?thesis by auto
qed

lemma conn_set_write_state_frame:
  assumes "conn_set_write_state i st ch = Some ch'" "ch_conns ch i = Some c"
  shows "\<exists>b. ch_conns ch' i = Some (c\<lparr>write_state := st, selected := b\<rparr>)"
proof (cases "write_state c = st")
  case True
  with assms show ?thesis
    by (auto simp: conn_set_write_state_def upd_conn_def intro!: exI [of _ "selected c"])
next
  case False
  with assms have "sort_connection_and_update_state
    (ch\<lparr>ch_conns := (ch_conns ch)(i := Some (c\<lparr>write_state := st\<rparr>))\<rparr>) = Some ch'"
    by (simp add: conn_set_write_state_def upd_conn_def on_connection_state_change_def)
  from sort_and_update_frame [OF this, of i "c\<lparr>write_state := st\<rparr>"] show ?thesis by auto
qed

lemma received_ping_response_ok:
  assumes inv: "channel_inv ch" and c: "ch_conns ch i = Some c"
  shows "\<exists>ch' c'. received_ping_response i r ch = Some ch' \<and> channel_inv ch' \<and> keeps ch ch' \<and>
    ch_conns ch' i = Some c' \<and> write_state c' = STATE_WRITABLE \<and> conn_state c' = SUCCEEDED \<and>
    pings_since_last_response c' = [] \<and> rtt c' = rtt (update_rtt r c) \<and>
    rtt_samples c' = rtt_samples c + 1 \<and> requests c' = requests c"
proof -
  let ?c = "(update_rtt r c)\<lparr>last_ping_response_received := ch_now ch, pings_since_last_response := []\<rparr>"
  have al: "alive ch i" by (simp add: alive_def c)
  from upd_conn_safe [OF inv al, of "\<lambda>c. (update_rtt r c)\<lparr>last_ping_response_received := ch_now ch,
      pings_since_last_response := []\<rparr>"] obtain ch1 where
    1: "upd_conn i (\<lambda>c. (update_rtt r c)\<lparr>last_ping_response_received := ch_now ch,
      pings_since_last_response := []\<rparr>) ch = Some ch1" "channel_inv ch1" "keeps ch ch1" "ch_conns ch1 i = Some ?c"
    by (auto simp: safe_def update_rtt_def upd_conn_def c)
  from conn_update_receiving_safe [OF 1(2) keeps_alive [OF 1(3) al], of "ch_now ch"] obtain ch2 where
    2: "conn_update_receiving i (ch_now ch) ch1 = Some ch2" "channel_inv ch2" "keeps ch1 ch2" by (auto simp: safe_def)
  from conn_update_receiving_frame [OF 2(1) 1(4)] obtain b where
    2: "conn_update_receiving i (ch_now ch) ch1 = Some ch2" "channel_inv ch2" "keeps ch1 ch2"
      "ch_conns ch2 i = Some (?c\<lparr>receiving := compute_receiving ?c (ch_now ch), selected := b\<rparr>)"
    using 2 by blast
  have al2: "alive ch2 i" using 2(4) by (simp add: alive_def)
  from conn_set_write_state_safe [OF 2(2) al2, of STATE_WRITABLE] obtain ch3 where
    3: "conn_set_write_state i STATE_WRITABLE ch2 = Some ch3" "channel_inv ch3" "keeps ch2 ch3" by (auto simp: safe_def)
  from conn_set_write_state_frame [OF 3(1) 2(4)] obtain b' where
    c3: "ch_conns ch3 i = Some (?c\<lparr>receiving := compute_receiving ?c (ch_now ch), write_state := STATE_WRITABLE, selected := b'\<rparr>)"
    by auto
  have al3: "alive ch3 i" using c3 by (simp add: alive_def)
  from upd_conn_safe [OF 3(2) al3, of "conn_state_update (\<lambda>_. SUCCEEDED)"] obtain ch4 where
    4: "conn_set_state i SUCCEEDED ch3 = Some ch4" "channel_inv ch4" "keeps ch3 ch4"
      "ch_conns ch4 i = Some (?c\<lparr>receiving := compute_receiving ?c (ch_now ch), write_state := STATE_WRITABLE,
        selected := b', conn_state := SUCCEEDED\<rparr>)"
    by (auto simp: safe_def conn_set_state_def upd_conn_def c3)
  have "received_ping_response i r ch = Some ch4"
    by (simp add: received_ping_response_def 1(1) 2(1) 3(1) 4(1))
  with 4 1(3) 2(3) 3(3) show ?thesis
    by (intro exI [of _ ch4]) (auto simp: update_rtt_def intro: keeps_trans)
qed

text \<open>A success response to an outstanding ping makes the connection writable and retires the
  request.\<close>

text \<open>C11: A success response to an outstanding binding request makes the connection
  writable and its pair succeeded, clears the unanswered pings, retires the request, and keeps the
  channel invariant through every slot it triggers.\<close>
theorem success_response_ok:
  assumes inv: "channel_inv ch" and c: "ch_conns ch i = Some c"
    and rq: "requests c (transaction_id msg) = Some rq" "msg_type (req_msg rq) = STUN_BINDING_REQUEST"
    and ty: "msg_type msg = STUN_BINDING_RESPONSE"
  shows "\<exists>ch' c'. check_response i msg ch = Some ch' \<and> channel_inv ch' \<and> ch_conns ch' i = Some c' \<and>
    write_state c' = STATE_WRITABLE \<and> conn_state c' = SUCCEEDED \<and> pings_since_last_response c' = [] \<and>
    requests c' (transaction_id msg) = None"
proof -
  have t: "uint (msg_type msg) = get_stun_success_response (uint (msg_type (req_msg rq)))"
    by (simp add: rq(2) ty stun_msg_types get_stun_success_response_def is_stun_request_type_def k_stun_type_mask_def)
  from received_ping_response_ok [OF inv c, of "elapsed rq (ch_now ch)"] obtain ch' c' where
    r: "received_ping_response i (elapsed rq (ch_now ch)) ch = Some ch'" "channel_inv ch'"
      "ch_conns ch' i = Some c'" "write_state c' = STATE_WRITABLE" "conn_state c' = SUCCEEDED"
      "pings_since_last_response c' = []" "requests c' = requests c" by blast
  have al: "alive ch' i" using r(3) by (simp add: alive_def)
  from upd_conn_safe [OF r(2) al, of "\<lambda>c. c\<lparr>requests := (requests c)(transaction_id msg := None)\<rparr>"]
  show ?thesis
    using c rq(1) t r
    by (auto simp: check_response_def on_connection_request_response_def delete_request_def upd_conn_def safe_def)
qed

text \<open>Any error response to an outstanding ping destroys the connection while its request is
  still in use: the request is deleted a second time.\<close>


text \<open>Destroying the only connection while it is selected leaves the controller with a pointer
  to it, which the next timer tick follows.\<close>

text \<open>C40: Destroying the only connection of a channel while it is selected leaves the
  controller pointing to it, and the next tick of the ping timer follows that pointer.\<close>
theorem destroyed_selection_dangles:
  assumes one: "ctl_connections (ch_controller ch) = [i]"
    and sel: "ctl_selected (ch_controller ch) = Some i" "ch_selected ch = Some i"
    and r: "conn_destroy i ch = Some ch'"
  shows "on_check_and_ping dg tid ch' = None"
proof -
  let ?ctl = "ctl_on_connection_destroyed i (ch_controller ch)"
  have ctl: "ctl_connections ?ctl = []" "ctl_selected ?ctl = Some i"
    by (simp_all add: ctl_on_connection_destroyed_def one sel)
  from r sel obtain ch1 ch2 where
    1: "switch_selected_connection None (ch\<lparr>ch_controller := ?ctl\<rparr>) = Some ch1"
      "sort_connection_and_update_state ch1 = Some ch2" "ch' = ch2\<lparr>ch_conns := (ch_conns ch2)(i := None)\<rparr>"
    by (auto simp: conn_destroy_def on_connection_destroyed_def Let_def)
  have c1: "ch_controller ch1 = ?ctl"
    using 1(1) by (auto simp: switch_selected_connection_def upd_conn_def Let_def split: option.splits)
  have "sort_and_switch_connection (ch_conns ch1) (ch_ports ch1) (ch_controller ch1)
      = Some (None, ?ctl\<lparr>ctl_connections := []\<rparr>)"
    by (simp add: sort_and_switch_connection_def c1 ctl stable_sort_def Let_def)
  with 1(2) obtain ch3 where 3: "update_state (ch1\<lparr>ch_controller := ?ctl\<lparr>ctl_connections := []\<rparr>\<rparr>) = Some ch3"
    "maybe_start_pinging ch3 = Some ch2"
    by (auto simp: sort_connection_and_update_state_def maybe_switch_selected_connection_def)
  have "ch_controller ch2 = ?ctl\<lparr>ctl_connections := []\<rparr>"
    using update_state_frame [OF 3(1)] 3(2) by (auto simp: maybe_start_pinging_def split: if_splits)
  with ctl have "ctl_connections (ch_controller ch2) = [] \<and> ctl_selected (ch_controller ch2) = Some i" by simp
  then show ?thesis
    by (simp add: on_check_and_ping_def select_connection_to_ping_def ctl_weak_def 1(3))
qed

subsection \<open>A channel with one connection\<close>

text \<open>One port, one connection with an outstanding request, in a given write state and
  possibly selected.\<close>

definition demo_request :: stun_request where
  "demo_request = (let rq = ConnectionRequest EMPTY_TRANSACION_ID in rq\<lparr>req_msg := set_type STUN_BINDING_REQUEST (req_msg rq)\<rparr>)"

definition demo_conn :: "write_state \<Rightarrow> ice_connection" where
  "demo_conn ws = (IceConnection 0 demo_candidate)\<lparr>write_state := ws,
     requests := [EMPTY_TRANSACION_ID \<mapsto> demo_request]\<rparr>"

definition demo_channel :: "write_state \<Rightarrow> conn_id option \<Rightarrow> ice_channel" where
  "demo_channel ws sel = (IceTransportChannel ''audio'' RTP)\<lparr>ch_ports := [demo_port\<lparr>candidates := [demo_candidate]\<rparr>],
     ch_conns := [0 \<mapsto> demo_conn ws], ch_next_conn := 1, ch_selected := sel,
     ch_controller := set_selected_connection sel (ctl_add_connection 0 IceController)\<rparr>"

lemma demo_channel_inv: "sel = None \<or> sel = Some 0 \<Longrightarrow> channel_inv (demo_channel ws sel)"
  by (auto simp: demo_channel_def demo_conn_def IceTransportChannel_def IceConnection_def channel_inv_def conns_ok_def
      ctl_ok_def alive_def Let_def set_selected_connection_def ctl_add_connection_def IceController_def
      set_insert_def)

lemma demo_conn_lookup:
  "ch_conns (demo_channel ws sel) 0 = Some (demo_conn ws)"
  "requests (demo_conn ws) EMPTY_TRANSACION_ID = Some demo_request"
  "msg_type (req_msg demo_request) = STUN_BINDING_REQUEST"
  by (simp_all add: demo_channel_def demo_conn_def demo_request_def set_type_def Let_def)

theorem on_check_and_ping_safe_witness:
  "\<exists>ch'. on_check_and_ping sum_digest EMPTY_TRANSACION_ID (demo_channel STATE_WRITABLE (Some 0)) = Some ch' \<and>
     channel_inv ch'"
  by (rule on_check_and_ping_safe [OF demo_channel_inv]) simp

theorem success_response_ok_witness:
  "\<exists>ch' c'. check_response 0 (set_type STUN_BINDING_RESPONSE StunMessage) (demo_channel STATE_WRITE_INIT None) = Some ch' \<and>
    channel_inv ch' \<and> ch_conns ch' 0 = Some c' \<and> write_state c' = STATE_WRITABLE \<and> conn_state c' = SUCCEEDED \<and>
    pings_since_last_response c' = [] \<and> requests c' (transaction_id (set_type STUN_BINDING_RESPONSE StunMessage)) = None"
  by (rule success_response_ok [OF demo_channel_inv demo_conn_lookup(1) _ demo_conn_lookup(3)])
     (simp_all add: demo_conn_lookup(2) set_type_def StunMessage_def)

theorem sort_and_update_consistent_witness:
  "channel_consistent (the (sort_connection_and_update_state (demo_channel STATE_WRITABLE None)))"
proof -
  obtain ch' where "sort_connection_and_update_state (demo_channel STATE_WRITABLE None) = Some ch'"
    using sort_and_update_safe [OF demo_channel_inv] unfolding safe_def by blast
  with sort_and_update_consistent [OF demo_channel_inv] show ?thesis by auto
qed

theorem sort_and_switch_best_witness:
  "\<exists>c p. ch_conns (demo_channel STATE_WRITABLE None) 0 = Some c \<and> ready_to_send c \<and>
     conn_priority (ch_ports (demo_channel STATE_WRITABLE None)) c = Some p"
proof -
  let ?ch = "demo_channel STATE_WRITABLE None"
  obtain ctl where "sort_and_switch_connection (ch_conns ?ch) (ch_ports ?ch) (ch_controller ?ch) = Some (Some 0, ctl)"
    by (auto simp: sort_and_switch_connection_def demo_channel_def demo_conn_def IceTransportChannel_def
        IceConnection_def set_selected_connection_def ctl_add_connection_def IceController_def set_insert_def
        conn_priority_def local_candidate_def stable_sort_def ready_to_send_def writable_def Let_def)
  from sort_and_switch_best [OF demo_channel_inv this] show ?thesis by blast
qed


theorem destroyed_selection_dangles_witness:
  "on_check_and_ping sum_digest EMPTY_TRANSACION_ID (the (conn_destroy 0 (demo_channel STATE_WRITABLE (Some 0)))) = None"
proof -
  let ?ch = "demo_channel STATE_WRITABLE (Some 0)"
  obtain ch' where r: "conn_destroy 0 ?ch = Some ch'"
  proof -
    have "\<not> Option.is_none (conn_destroy 0 ?ch)" by code_simp
    then show ?thesis using that by (cases "conn_destroy 0 ?ch") auto
  qed
  have "ctl_connections (ch_controller ?ch) = [0]" "ctl_selected (ch_controller ?ch) = Some 0" "ch_selected ?ch = Some 0"
    by (simp_all add: demo_channel_def set_selected_connection_def ctl_add_connection_def IceController_def)
  from destroyed_selection_dangles [OF this r] r show ?thesis by simp
qed

end
