(* ===== verification/Signaling_Conn.thy ===== *)
theory Signaling_Conn
  imports Xrtc_Prelude
begin

text \<open>
  A TCP connection of the signaling service (\<open>server/tcp_connection.h\<close>) and what a worker does
  with its bytes (\<open>server/signaling_worker.cpp\<close>): framing by the 36-byte header of
  \<open>base/xhead.h\<close>, parsing of a request and the replies to write.

  Structures are read in the byte order of the host, little-endian.  The JSON library is a
  parameter: parsing, the typed accessors (\<open>None\<close> is the exception they throw) and printing.
  \<open>notified\<close> is the outcome of the notification written to the pipe of the RTC server.
\<close>

definition GetLE32 :: "bytes \<Rightarrow> nat \<Rightarrow> u32 option" where
  "GetLE32 d i = map_option (\<lambda>b. of_be (rev b)) (mem_read d i 4)"

definition XHEAD_SIZE :: nat where "XHEAD_SIZE = 36"
definition XHEAD_MAGIC_NUM :: u32 where "XHEAD_MAGIC_NUM = 0xfb202507"
definition MAX_RES_BUF :: nat where "MAX_RES_BUF = 4096"
definition CMDNO_PUSH :: int where "CMDNO_PUSH = 1"
definition CMDNO_PULL :: int where "CMDNO_PULL = 2"
definition CMDNO_ANSWER :: int where "CMDNO_ANSWER = 3"
definition CMDNO_STOP_PUSH :: int where "CMDNO_STOP_PUSH = 4"
definition CMDNO_STOPPULL :: int where "CMDNO_STOPPULL = 5"

lemmas cmdno_defs = CMDNO_PUSH_def CMDNO_PULL_def CMDNO_ANSWER_def CMDNO_STOP_PUSH_def CMDNO_STOPPULL_def

subsection \<open>The fields of \<open>xhead_t\<close>\<close>

definition xh_log_id :: "bytes \<Rightarrow> u32 option" where "xh_log_id d = GetLE32 d 4"
definition xh_magic_num :: "bytes \<Rightarrow> u32 option" where "xh_magic_num d = GetLE32 d 24"
definition xh_body_len :: "bytes \<Rightarrow> u32 option" where "xh_body_len d = GetLE32 d 32"

definition xh_set_body_len :: "nat \<Rightarrow> bytes \<Rightarrow> bytes" where
  "xh_set_body_len n h = take 32 h @ rev (be32 (of_nat n)) @ drop 36 h"

subsection \<open>State\<close>

record rtc_msg =
  cmdno :: int
  uid :: u64
  stream_name :: bytes
  stream_type :: bytes
  audio :: int
  video :: int
  log_id :: u32
  msg_worker :: "nat option"
  msg_conn :: "nat option"
  msg_fd :: int
  sdp :: bytes
  err_no :: int
  certificate :: "nat option"

definition RtcMsg :: rtc_msg where
  "RtcMsg = \<lparr>cmdno = -1, uid = 0, stream_name = [], stream_type = [], audio = 0, video = 0, log_id = 0,
     msg_worker = None, msg_conn = None, msg_fd = -1, sdp = [], err_no = 0, certificate = None\<rparr>"

text \<open>A \<open>rtc::Slice\<close> over a buffer; of the buffer only what has been written is readable.\<close>

record slice =
  sl_data :: bytes
  sl_size :: nat

datatype conn_phase = STATE_HEAD | STATE_BODY

record tcp_connection =
  tc_addr :: nat
  tc_fd :: int
  querybuf :: bytes
  current_state :: conn_phase
  bytes_expected :: nat
  bytes_processed :: nat
  last_interaction :: int
  reply_list :: "slice list"
  cur_resp_pos :: nat
  write_watched :: bool

definition TCPConnection :: "nat \<Rightarrow> int \<Rightarrow> tcp_connection" where
  "TCPConnection addr fd = \<lparr>tc_addr = addr, tc_fd = fd, querybuf = [], current_state = STATE_HEAD,
     bytes_expected = XHEAD_SIZE, bytes_processed = 0, last_interaction = 0, reply_list = [],
     cur_resp_pos = 0, write_watched = False\<rparr>"

subsection \<open>Requests\<close>

datatype json_value = JInt int | JString bytes

record 'j json_lib =
  json_parse :: "bytes \<Rightarrow> 'j option"
  json_int :: "'j \<Rightarrow> string \<Rightarrow> int option"
  json_uint64 :: "'j \<Rightarrow> string \<Rightarrow> u64 option"
  json_string :: "'j \<Rightarrow> string \<Rightarrow> bytes option"
  json_write :: "(string \<times> json_value) list \<Rightarrow> bytes"

text \<open>\<open>_process_push\<close> and \<open>_process_pull\<close> parse and build the same message.\<close>

definition stream_request ::
  "'j json_lib \<Rightarrow> nat \<Rightarrow> int \<Rightarrow> tcp_connection \<Rightarrow> 'j \<Rightarrow> u32 \<Rightarrow> rtc_msg option" where
  "stream_request lib wid cmd c root lid = do {
     u \<leftarrow> json_uint64 lib root ''uid'';
     nm \<leftarrow> json_string lib root ''stream_name'';
     au \<leftarrow> json_int lib root ''audio'';
     vi \<leftarrow> json_int lib root ''video'';
     Some (RtcMsg\<lparr>cmdno := cmd, stream_name := nm, uid := u, audio := au, video := vi, log_id := lid,
       msg_worker := Some wid, msg_conn := Some (tc_addr c), msg_fd := tc_fd c\<rparr>)
   }"

text \<open>\<open>_process_stop_push\<close> and \<open>_process_stop_pull\<close>.\<close>

definition stop_request :: "'j json_lib \<Rightarrow> int \<Rightarrow> 'j \<Rightarrow> u32 \<Rightarrow> rtc_msg option" where
  "stop_request lib cmd root lid = do {
     u \<leftarrow> json_uint64 lib root ''uid'';
     nm \<leftarrow> json_string lib root ''stream_name'';
     Some (RtcMsg\<lparr>cmdno := cmd, uid := u, stream_name := nm, log_id := lid\<rparr>)
   }"

definition answer_request :: "'j json_lib \<Rightarrow> int \<Rightarrow> 'j \<Rightarrow> u32 \<Rightarrow> rtc_msg option" where
  "answer_request lib cmd root lid = do {
     u \<leftarrow> json_uint64 lib root ''uid'';
     nm \<leftarrow> json_string lib root ''stream_name'';
     ans \<leftarrow> json_string lib root ''answer'';
     ty \<leftarrow> json_string lib root ''type'';
     Some (RtcMsg\<lparr>cmdno := cmd, uid := u, stream_name := nm, sdp := ans, stream_type := ty, log_id := lid\<rparr>)
   }"

text \<open>The common end of the five: the message goes to the queue of the RTC server whatever the
  notification returns.\<close>

definition forward :: "bool \<Rightarrow> rtc_msg option \<Rightarrow> int \<times> rtc_msg list" where
  "forward notified m = (case m of None \<Rightarrow> (-1, []) | Some r \<Rightarrow> (if notified then 0 else -1, [r]))"

definition add_reply :: "slice \<Rightarrow> tcp_connection \<Rightarrow> tcp_connection" where
  "add_reply r c = c\<lparr>reply_list := reply_list c @ [r], write_watched := True\<rparr>"

text \<open>Header and text are copied into a buffer of \<open>XHEAD_SIZE + MAX_RES_BUF\<close> bytes, the text by
  \<open>snprintf\<close>; the length in the header and of the slice is that of the whole text.\<close>

definition make_reply :: "bytes \<Rightarrow> bytes \<Rightarrow> slice" where
  "make_reply header json_data =
     \<lparr>sl_data = xh_set_body_len (length json_data) header @ take (MAX_RES_BUF - 1) json_data @ [0],
      sl_size = XHEAD_SIZE + length json_data\<rparr>"

definition process_push ::
  "'j json_lib \<Rightarrow> bool \<Rightarrow> nat \<Rightarrow> int \<Rightarrow> tcp_connection \<Rightarrow> 'j \<Rightarrow> u32 \<Rightarrow> int \<times> rtc_msg list" where
  "process_push lib notified wid cmd c root lid = forward notified (stream_request lib wid cmd c root lid)"

definition process_pull ::
  "'j json_lib \<Rightarrow> bool \<Rightarrow> nat \<Rightarrow> int \<Rightarrow> tcp_connection \<Rightarrow> 'j \<Rightarrow> u32 \<Rightarrow> int \<times> rtc_msg list" where
  "process_pull lib notified wid cmd c root lid = forward notified (stream_request lib wid cmd c root lid)"

definition process_stop_push :: "'j json_lib \<Rightarrow> bool \<Rightarrow> int \<Rightarrow> 'j \<Rightarrow> u32 \<Rightarrow> int \<times> rtc_msg list" where
  "process_stop_push lib notified cmd root lid = forward notified (stop_request lib cmd root lid)"

definition process_stop_pull :: "'j json_lib \<Rightarrow> bool \<Rightarrow> int \<Rightarrow> 'j \<Rightarrow> u32 \<Rightarrow> int \<times> rtc_msg list" where
  "process_stop_pull lib notified cmd root lid = forward notified (stop_request lib cmd root lid)"

definition process_answer :: "'j json_lib \<Rightarrow> bool \<Rightarrow> int \<Rightarrow> 'j \<Rightarrow> u32 \<Rightarrow> int \<times> rtc_msg list" where
  "process_answer lib notified cmd root lid = forward notified (answer_request lib cmd root lid)"

lemmas request_handlers = process_push_def process_pull_def process_stop_push_def process_stop_pull_def process_answer_def

text \<open>The commands that are answered at once.\<close>

definition control_request :: "'j json_lib \<Rightarrow> bool \<Rightarrow> int \<Rightarrow> 'j \<Rightarrow> u32 \<Rightarrow> int \<times> rtc_msg list" where
  "control_request lib notified cmd root lid =
     (if cmd = CMDNO_STOP_PUSH then process_stop_push lib notified cmd root lid
      else if cmd = CMDNO_STOPPULL then process_stop_pull lib notified cmd root lid
      else if cmd = CMDNO_ANSWER then process_answer lib notified cmd root lid
      else (-1, []))"

definition result_text :: "'j json_lib \<Rightarrow> int \<Rightarrow> bytes" where
  "result_text lib ret = json_write lib
     (if ret = 0 then [(''err_no'', JInt 0), (''err_msg'', JString (bytes_of_string ''success''))]
      else [(''err_no'', JInt (-1)), (''err_msg'', JString (bytes_of_string ''process error''))])"

definition dispatch_request ::
  "'j json_lib \<Rightarrow> bool \<Rightarrow> nat \<Rightarrow> tcp_connection \<Rightarrow> bytes \<Rightarrow> 'j \<Rightarrow> u32 \<Rightarrow> int
     \<Rightarrow> int \<times> tcp_connection \<times> rtc_msg list" where
  "dispatch_request lib notified wid c header root lid cmd =
     (if cmd = CMDNO_PUSH then (let r = process_push lib notified wid cmd c root lid in (fst r, c, snd r))
      else if cmd = CMDNO_PULL then (let r = process_pull lib notified wid cmd c root lid in (fst r, c, snd r))
      else (let r = control_request lib notified cmd root lid in
        (0, add_reply (make_reply header (result_text lib (fst r))) c, snd r)))"

definition process_request ::
  "'j json_lib \<Rightarrow> bool \<Rightarrow> nat \<Rightarrow> tcp_connection \<Rightarrow> bytes \<Rightarrow> bytes
     \<Rightarrow> (int \<times> tcp_connection \<times> rtc_msg list) option" where
  "process_request lib notified wid c header body = do {
     lid \<leftarrow> xh_log_id header;
     Some (case json_parse lib body of None \<Rightarrow> (-1, c, [])
       | Some root \<Rightarrow> (case json_int lib root ''cmdno'' of None \<Rightarrow> (-1, c, [])
           | Some cmd \<Rightarrow> dispatch_request lib notified wid c header root lid cmd))
   }"

subsection \<open>Framing\<close>

text \<open>One round of the loop: the return value when it returns, or the connection to go on with.\<close>

definition query_round ::
  "'j json_lib \<Rightarrow> bool \<Rightarrow> nat \<Rightarrow> tcp_connection \<Rightarrow> (int option \<times> tcp_connection \<times> rtc_msg list) option" where
  "query_round lib notified wid c = (case current_state c of
       STATE_HEAD \<Rightarrow> do {
         magic \<leftarrow> xh_magic_num (querybuf c);
         if magic \<noteq> XHEAD_MAGIC_NUM then Some (Some (-1), c, [])
         else do {
           len \<leftarrow> xh_body_len (querybuf c);
           Some (None, c\<lparr>current_state := STATE_BODY, bytes_processed := XHEAD_SIZE, bytes_expected := unat len\<rparr>, [])
         }}
     | STATE_BODY \<Rightarrow> do {
         len \<leftarrow> xh_body_len (querybuf c);
         header \<leftarrow> mem_read (querybuf c) 0 XHEAD_SIZE;
         body \<leftarrow> mem_read (querybuf c) XHEAD_SIZE (unat len);
         (ret, c1, ms) \<leftarrow> process_request lib notified wid c header body;
         if ret \<noteq> 0 then Some (Some (-1), c1, ms) else Some (None, c1\<lparr>bytes_processed := 65535\<rparr>, ms)
       })"

partial_function (option) process_query_buffer ::
  "'j json_lib \<Rightarrow> bool \<Rightarrow> nat \<Rightarrow> tcp_connection \<Rightarrow> (int \<times> tcp_connection \<times> rtc_msg list) option" where
  [code]: "process_query_buffer lib notified wid c =
     (if bytes_processed c + bytes_expected c \<le> length (querybuf c) then do {
        (r, c1, ms) \<leftarrow> query_round lib notified wid c;
        case r of Some ret \<Rightarrow> Some (ret, c1, ms)
        | None \<Rightarrow> do {
            (ret, c2, ms2) \<leftarrow> process_query_buffer lib notified wid c1;
            Some (ret, c2, ms @ ms2)
          }
      } else Some (0, c, []))"

subsection \<open>A request is found however the stream is cut\<close>

text \<open>\<open>_read_query\<close> on the bytes of one read; \<open>Query_Buffer\<close> shows for which lengths the buffer holds them.\<close>

definition receive ::
  "'j json_lib \<Rightarrow> bool \<Rightarrow> nat \<Rightarrow> bytes \<Rightarrow> tcp_connection \<Rightarrow> (int \<times> tcp_connection \<times> rtc_msg list) option" where
  "receive lib notified wid data c = process_query_buffer lib notified wid (c\<lparr>querybuf := querybuf c @ data\<rparr>)"

text \<open>Reads until the connection is to be closed.\<close>

fun receive_all ::
  "'j json_lib \<Rightarrow> bool \<Rightarrow> nat \<Rightarrow> bytes list \<Rightarrow> tcp_connection \<Rightarrow> (int \<times> tcp_connection \<times> rtc_msg list) option" where
  "receive_all lib notified wid [] c = Some (0, c, [])"
| "receive_all lib notified wid (d # ds) c = do {
     (ret, c1, ms) \<leftarrow> receive lib notified wid d c;
     if ret \<noteq> 0 then Some (ret, c1, ms)
     else do {
       (ret2, c2, ms2) \<leftarrow> receive_all lib notified wid ds c1;
       Some (ret2, c2, ms @ ms2)
     }}"

definition request_header :: "bytes \<Rightarrow> bytes \<Rightarrow> bool" where
  "request_header header body \<longleftrightarrow> length header = XHEAD_SIZE \<and> xh_magic_num header = Some XHEAD_MAGIC_NUM \<and>
     map_option unat (xh_body_len header) = Some (length body)"

text \<open>The connection after the first bytes \<open>got\<close> of a request with a body of \<open>n\<close> bytes.\<close>

definition partial_conn :: "nat \<Rightarrow> bytes \<Rightarrow> tcp_connection \<Rightarrow> tcp_connection" where
  "partial_conn n got c = (if length got < XHEAD_SIZE then c\<lparr>querybuf := got\<rparr>
     else c\<lparr>querybuf := got, current_state := STATE_BODY, bytes_processed := XHEAD_SIZE, bytes_expected := n\<rparr>)"

definition fresh_conn :: "tcp_connection \<Rightarrow> bool" where
  "fresh_conn c \<longleftrightarrow> querybuf c = [] \<and> current_state c = STATE_HEAD \<and> bytes_processed c = 0 \<and> bytes_expected c = XHEAD_SIZE"

lemma GetLE32_prefix: "i + 4 \<le> length h \<Longrightarrow> GetLE32 (h @ x) i = GetLE32 h i"
  by (simp add: GetLE32_def mem_read_def)

lemma xh_prefix:
  assumes "length h = XHEAD_SIZE"
  shows "xh_magic_num (h @ x) = xh_magic_num h" "xh_body_len (h @ x) = xh_body_len h" "\<exists>l. xh_log_id h = Some l"
  using assms
  by (simp_all add: xh_magic_num_def xh_body_len_def xh_log_id_def GetLE32_prefix XHEAD_SIZE_def)
     (simp add: GetLE32_def mem_read_def)

lemma query_next:
  assumes "bytes_processed c + bytes_expected c \<le> length (querybuf c)" "query_round lib nt wid c = Some (None, c1, ms)"
  shows "process_query_buffer lib nt wid c =
    map_option (\<lambda>(ret, c2, ms2). (ret, c2, ms @ ms2)) (process_query_buffer lib nt wid c1)"
  using assms by (subst process_query_buffer.simps) (cases "process_query_buffer lib nt wid c1"; auto)

lemma query_return:
  assumes "bytes_processed c + bytes_expected c \<le> length (querybuf c)" "query_round lib nt wid c = Some (Some r, c1, ms)"
  shows "process_query_buffer lib nt wid c = Some (r, c1, ms)"
  using assms by (subst process_query_buffer.simps) simp

lemma query_stop:
  assumes "length (querybuf c) < bytes_processed c + bytes_expected c"
  shows "process_query_buffer lib nt wid c = Some (0, c, [])"
  using assms by (subst process_query_buffer.simps) simp

text \<open>The header has arrived: the head round and then the body.\<close>

lemma head_round:
  assumes h: "request_header header body" and c: "fresh_conn c" and q: "take 36 got = header" "36 \<le> length got"
  shows "process_query_buffer lib nt wid (c\<lparr>querybuf := got\<rparr>) =
    process_query_buffer lib nt wid (partial_conn (length body) got c)"
proof -
  obtain x where g: "got = header @ x" using q(1) by (metis append_take_drop_id)
  have l: "length header = XHEAD_SIZE" using h by (simp add: request_header_def)
  then have r: "query_round lib nt wid (c\<lparr>querybuf := got\<rparr>) = Some (None, partial_conn (length body) got c, [])"
    using h c q(2) unfolding g
    by (auto simp: query_round_def fresh_conn_def request_header_def xh_prefix partial_conn_def XHEAD_SIZE_def)
  show ?thesis
    by (subst query_next [OF _ r]) (use c q(2) in \<open>simp_all add: fresh_conn_def XHEAD_SIZE_def case_prod_beta option.map_id option.map_id0\<close>)
qed

lemma receive_partial:
  assumes h: "request_header header body" and c: "fresh_conn c"
    and got: "got @ d @ rest = header @ body" and len: "length (got @ d) < XHEAD_SIZE + length body"
  shows "receive lib nt wid d (partial_conn (length body) got c) = Some (0, partial_conn (length body) (got @ d) c, [])"
proof -
  have l: "length header = 36" using h by (simp add: request_header_def XHEAD_SIZE_def)
  let ?p = "partial_conn (length body) got c"
  have stop: "process_query_buffer lib nt wid (partial_conn (length body) (got @ d) c)
      = Some (0, partial_conn (length body) (got @ d) c, [])"
    by (rule query_stop) (use len c in \<open>simp add: partial_conn_def fresh_conn_def XHEAD_SIZE_def\<close>)
  show ?thesis
  proof (cases "length got < XHEAD_SIZE \<and> XHEAD_SIZE \<le> length (got @ d)")
    case True
    then have q2: "36 \<le> length (got @ d)" by (simp add: XHEAD_SIZE_def)
    have "take 36 ((got @ d) @ rest) = take 36 (header @ body)" using got by simp
    with q2 l have q: "take 36 (got @ d) = header" by (simp only: take_append) simp
    have "?p\<lparr>querybuf := querybuf ?p @ d\<rparr> = c\<lparr>querybuf := got @ d\<rparr>" using True by (simp add: partial_conn_def)
    then show ?thesis unfolding receive_def using head_round [OF h c q q2, where lib = lib and nt = nt and wid = wid] stop by simp
  next
    case False
    then have "?p\<lparr>querybuf := querybuf ?p @ d\<rparr> = partial_conn (length body) (got @ d) c"
      by (auto simp: partial_conn_def)
    then show ?thesis unfolding receive_def using stop by simp
  qed
qed

lemma process_request_cases:
  assumes "process_request lib nt wid c header body = Some r"
  obtains "r = (-1, c, [])"
  | lid root cmd where "xh_log_id header = Some lid" "json_parse lib body = Some root" "json_int lib root ''cmdno'' = Some cmd"
    "r = dispatch_request lib nt wid c header root lid cmd"
proof -
  from assms obtain lid where "xh_log_id header = Some lid" by (cases "xh_log_id header") (auto simp: process_request_def)
  with assms that show ?thesis
    by (cases "json_parse lib body"; cases "json_int lib (the (json_parse lib body)) ''cmdno''")
       (auto simp: process_request_def)
qed

lemma process_request_keeps:
  assumes "process_request lib nt wid c header body = Some (ret, c1, ms)"
  shows "querybuf c1 = querybuf c \<and> bytes_expected c1 = bytes_expected c \<and> bytes_processed c1 = bytes_processed c \<and>
    current_state c1 = current_state c \<and> tc_addr c1 = tc_addr c \<and> tc_fd c1 = tc_fd c"
proof -
  have "querybuf c1 = querybuf c \<and> bytes_expected c1 = bytes_expected c \<and> bytes_processed c1 = bytes_processed c \<and>
      current_state c1 = current_state c \<and> tc_addr c1 = tc_addr c \<and> tc_fd c1 = tc_fd c"
    if "dispatch_request lib nt wid c header root lid cmd = (ret, c1, ms)" for root lid cmd
    using that by (auto simp: dispatch_request_def Let_def add_reply_def split: if_splits)
  then show ?thesis using process_request_cases [OF assms] by (metis prod.inject)
qed

lemma process_request_again:
  assumes "process_request lib nt wid c header body = Some (0, c1, ms)" "tc_addr c' = tc_addr c" "tc_fd c' = tc_fd c"
  shows "\<exists>c2. process_request lib nt wid c' header body = Some (0, c2, ms)"
proof -
  have "stream_request lib wid cmd c' root lid = stream_request lib wid cmd c root lid" for cmd root lid
    using assms(2,3) by (simp add: stream_request_def)
  then have d: "\<exists>c2. dispatch_request lib nt wid c' header root lid cmd = (0, c2, ms)"
    if "dispatch_request lib nt wid c header root lid cmd = (0, c1, ms)" for root lid cmd
    using that by (auto simp: dispatch_request_def request_handlers Let_def split: if_splits)
  show ?thesis
  proof (rule process_request_cases [OF assms(1)])
    fix lid root cmd
    assume a: "xh_log_id header = Some lid" "json_parse lib body = Some root" "json_int lib root ''cmdno'' = Some cmd"
      "(0, c1, ms) = dispatch_request lib nt wid c header root lid cmd"
    from d [OF a(4) [symmetric]] obtain c2 where "dispatch_request lib nt wid c' header root lid cmd = (0, c2, ms)" by blast
    with a show ?thesis by (simp add: process_request_def)
  qed simp
qed

lemma process_request_total:
  assumes "length header = XHEAD_SIZE"
  shows "\<exists>ret c1 ms. process_request lib nt wid c header body = Some (ret, c1, ms)"
proof -
  obtain l where "xh_log_id header = Some l" using xh_prefix(3) [OF assms] by blast
  then have "process_request lib nt wid c header body \<noteq> None"
    by (simp add: process_request_def)
  then show ?thesis by auto
qed

definition full_conn :: "bytes \<Rightarrow> bytes \<Rightarrow> tcp_connection \<Rightarrow> tcp_connection" where
  "full_conn header body c = c\<lparr>querybuf := header @ body, current_state := STATE_BODY, bytes_processed := XHEAD_SIZE,
     bytes_expected := length body\<rparr>"

definition served :: "(int \<times> tcp_connection \<times> rtc_msg list) \<Rightarrow> (int \<times> tcp_connection \<times> rtc_msg list)" where
  "served r = (case r of (ret, c, ms) \<Rightarrow> if ret \<noteq> 0 then (-1, c, ms) else (0, c\<lparr>bytes_processed := 65535\<rparr>, ms))"

lemma process_full:
  assumes h: "request_header header body"
    and p: "process_request lib nt wid (full_conn header body c) header body = Some (ret, c1, ms)"
  shows "process_query_buffer lib nt wid (full_conn header body c) = Some (served (ret, c1, ms))"
proof -
  let ?c = "full_conn header body c"
  have l: "length header = XHEAD_SIZE" using h by (simp add: request_header_def)
  from h obtain n where n: "xh_body_len header = Some n" "unat n = length body" by (auto simp: request_header_def)
  have g: "bytes_processed ?c + bytes_expected ?c \<le> length (querybuf ?c)" using l by (simp add: full_conn_def)
  have "query_round lib nt wid ?c =
      Some (if ret \<noteq> 0 then (Some (-1), c1, ms) else (None, c1\<lparr>bytes_processed := 65535\<rparr>, ms))"
    using l p n by (simp add: query_round_def full_conn_def xh_prefix mem_read_def)
  moreover have "process_query_buffer lib nt wid (c1\<lparr>bytes_processed := 65535\<rparr>) = Some (0, c1\<lparr>bytes_processed := 65535\<rparr>, [])"
    by (rule query_stop) (use process_request_keeps [OF p] l in \<open>simp add: full_conn_def XHEAD_SIZE_def\<close>)
  ultimately show ?thesis
    using query_return [OF g, where lib = lib and nt = nt and wid = wid] query_next [OF g, where lib = lib and nt = nt and wid = wid]
    by (cases "ret = 0") (simp_all add: served_def)
qed

lemma receive_full:
  assumes h: "request_header header body" and c: "fresh_conn c" and got: "got @ d = header @ body"
    and len: "length got < XHEAD_SIZE + length body"
    and p: "process_request lib nt wid (full_conn header body c) header body = Some r"
  shows "receive lib nt wid d (partial_conn (length body) got c) = Some (served r)"
proof -
  have l: "length header = 36" using h by (simp add: request_header_def XHEAD_SIZE_def)
  let ?p = "partial_conn (length body) got c"
  have f: "partial_conn (length body) (got @ d) c = full_conn header body c"
    using got l by (simp add: partial_conn_def full_conn_def XHEAD_SIZE_def)
  have full: "process_query_buffer lib nt wid (full_conn header body c) = Some (served r)"
    using process_full [OF h] p by (cases r) simp
  show ?thesis
  proof (cases "length got < XHEAD_SIZE")
    case True
    have q: "take 36 (got @ d) = header" "36 \<le> length (got @ d)" using got l by simp_all
    have "?p\<lparr>querybuf := querybuf ?p @ d\<rparr> = c\<lparr>querybuf := got @ d\<rparr>" using True by (simp add: partial_conn_def)
    then show ?thesis
      unfolding receive_def using head_round [OF h c q, where lib = lib and nt = nt and wid = wid] f full by simp
  next
    case False
    then have "?p\<lparr>querybuf := querybuf ?p @ d\<rparr> = partial_conn (length body) (got @ d) c"
      by (auto simp: partial_conn_def)
    then show ?thesis unfolding receive_def using f full by simp
  qed
qed

lemma receive_nothing:
  assumes "length (querybuf c) < bytes_processed c + bytes_expected c" "\<forall>d \<in> set ds. d = []"
  shows "receive_all lib nt wid ds c = Some (0, c, [])"
  using assms(2) query_stop [OF assms(1), where lib = lib and nt = nt and wid = wid]
  by (induction ds) (simp_all add: receive_def)

lemma receive_all_from:
  assumes h: "request_header header body" and c: "fresh_conn c"
    and p: "process_request lib nt wid (full_conn header body c) header body = Some r"
  shows "got @ concat ds = header @ body \<Longrightarrow> length got < XHEAD_SIZE + length body \<Longrightarrow>
    receive_all lib nt wid ds (partial_conn (length body) got c) = Some (served r)"
proof (induction ds arbitrary: got)
  case Nil
  then have "length got = length (header @ body)" by simp
  then show ?case using Nil.prems h by (simp add: request_header_def)
next
  case (Cons d ds)
  show ?case
  proof (cases "length (got @ d) < XHEAD_SIZE + length body")
    case True
    with receive_partial [OF h c _ True, where rest = "concat ds" and lib = lib and nt = nt and wid = wid] Cons.prems Cons.IH [of "got @ d"]
    show ?thesis by simp
  next
    case False
    have e: "(got @ d) @ concat ds = header @ body" using Cons.prems(1) by simp
    with False h have n: "concat ds = []"
    proof -
      have "length (got @ d) + length (concat ds) = length header + length body" using arg_cong [OF e, of length] by simp
      with False h have "length (concat ds) = 0" by (simp add: request_header_def del: concat_eq_Nil_conv length_0_conv)
      then show ?thesis by (rule length_0_conv [THEN iffD1])
    qed
    from e have gd: "got @ d = header @ body" unfolding n by simp
    obtain ret c1 ms where r: "r = (ret, c1, ms)" by (cases r)
    have "length (querybuf (c1\<lparr>bytes_processed := 65535\<rparr>)) <
        bytes_processed (c1\<lparr>bytes_processed := 65535\<rparr>) + bytes_expected (c1\<lparr>bytes_processed := 65535\<rparr>)"
      using process_request_keeps [OF p [unfolded r]] h by (simp add: full_conn_def request_header_def XHEAD_SIZE_def)
    then have "receive_all lib nt wid ds (c1\<lparr>bytes_processed := 65535\<rparr>) = Some (0, c1\<lparr>bytes_processed := 65535\<rparr>, [])"
      by (rule receive_nothing) (use n in auto)
    then show ?thesis using receive_full [OF h c gd Cons.prems(2) p] by (simp add: r served_def)
  qed
qed


subsection \<open>A loop that does not end\<close>

text \<open>Once a request has been answered the connection keeps its phase and its expected length, and
  \<open>bytes_processed\<close> is 65535: when enough further bytes arrive the same request is processed for ever.\<close>

fun query_rounds ::
  "'j json_lib \<Rightarrow> bool \<Rightarrow> nat \<Rightarrow> nat \<Rightarrow> tcp_connection \<Rightarrow> tcp_connection option" where
  "query_rounds lib notified wid n c = (if bytes_processed c + bytes_expected c \<le> length (querybuf c)
     then (case n of 0 \<Rightarrow> Some c
       | Suc k \<Rightarrow> (case query_round lib notified wid c of
             Some (None, c1, _) \<Rightarrow> query_rounds lib notified wid k c1
           | _ \<Rightarrow> None))
     else None)"

declare query_rounds.simps [simp del]

definition answered :: "'j json_lib \<Rightarrow> bool \<Rightarrow> nat \<Rightarrow> bytes \<Rightarrow> tcp_connection \<Rightarrow> tcp_connection \<Rightarrow> bool" where
  "answered lib nt wid buf c0 c \<longleftrightarrow> querybuf c = buf \<and> current_state c = STATE_BODY \<and> bytes_processed c = 65535 \<and>
     bytes_expected c = bytes_expected c0 \<and> tc_addr c = tc_addr c0 \<and> tc_fd c = tc_fd c0"

lemma answered_round:
  assumes h: "request_header header body"
    and p: "process_request lib nt wid c0 header body = Some (0, c1, ms)"
    and a: "answered lib nt wid (header @ body @ extra) c0 c"
  shows "\<exists>c2. query_round lib nt wid c = Some (None, c2, ms) \<and> answered lib nt wid (header @ body @ extra) c0 c2"
proof -
  have l: "length header = XHEAD_SIZE" using h by (simp add: request_header_def)
  from h obtain n where n: "xh_body_len header = Some n" "unat n = length body" by (auto simp: request_header_def)
  from process_request_again [OF p] a obtain c2 where
    c2: "process_request lib nt wid c header body = Some (0, c2, ms)" by (auto simp: answered_def)
  from process_request_keeps [OF c2] a c2 l n show ?thesis
    by (simp add: query_round_def answered_def xh_prefix mem_read_def)
qed

text \<open>C38: After a request has been answered, 65499 further bytes on the connection make
  the processing loop run for ever.\<close>
theorem pipelined_loop:
  assumes h: "request_header header body"
    and p: "process_request lib notified wid (full_conn header body c) header body = Some (0, c1, ms)"
    and len: "65535 \<le> XHEAD_SIZE + length extra"
  shows "query_rounds lib notified wid n (c1\<lparr>bytes_processed := 65535, querybuf := header @ body @ extra\<rparr>) \<noteq> None \<and>
    process_query_buffer lib notified wid (c1\<lparr>bytes_processed := 65535, querybuf := header @ body @ extra\<rparr>) = None"
proof -
  let ?c = "c1\<lparr>bytes_processed := 65535, querybuf := header @ body @ extra\<rparr>"
  let ?a = "answered lib notified wid (header @ body @ extra) (full_conn header body c)"
  have a: "?a ?c" using process_request_keeps [OF p] by (simp add: answered_def full_conn_def)
  have go: "bytes_processed c' + bytes_expected c' \<le> length (querybuf c')" if "?a c'" for c'
    using that h len by (simp add: answered_def full_conn_def request_header_def)
  note round = answered_round [OF h p]
  have "?a c' \<Longrightarrow> query_rounds lib notified wid n c' \<noteq> None" for c'
  proof (induction n arbitrary: c')
    case 0
    then show ?case using go by (subst query_rounds.simps) simp
  next
    case (Suc n)
    from round [OF Suc.prems] obtain c2 where "query_round lib notified wid c' = Some (None, c2, ms)" "?a c2" by blast
    with Suc.IH [of c2] go [OF Suc.prems] show ?case by (subst query_rounds.simps) simp
  qed
  moreover have "process_query_buffer lib notified wid c' \<noteq> Some r" if "?a c'" for c' r
  proof
    assume ret: "process_query_buffer lib notified wid c' = Some r"
    have "l = lib \<longrightarrow> nt = notified \<longrightarrow> w = wid \<longrightarrow> \<not> ?a c'" if "process_query_buffer l nt w c' = Some r" for l nt w c' r
    proof (rule process_query_buffer.raw_induct [where P = "\<lambda>l nt w c' r. l = lib \<longrightarrow> nt = notified \<longrightarrow> w = wid \<longrightarrow> \<not> ?a c'", OF _ that],
        intro impI notI)
      fix f l nt w c' r
      assume IH: "\<And>l nt w c' r. f l nt w c' = Some r \<Longrightarrow> l = lib \<longrightarrow> nt = notified \<longrightarrow> w = wid \<longrightarrow> \<not> ?a c'"
        and eq: "(if bytes_processed c' + bytes_expected c' \<le> length (querybuf c') then do {
            (r, c1, ms) \<leftarrow> query_round l nt w c';
            case r of Some ret \<Rightarrow> Some (ret, c1, ms)
            | None \<Rightarrow> do { (ret, c2, ms2) \<leftarrow> f l nt w c1; Some (ret, c2, ms @ ms2) } } else Some (0, c', [])) = Some r"
        and l: "l = lib" "nt = notified" "w = wid" and a': "?a c'"
      from round [OF a'] obtain c2 where q: "query_round lib notified wid c' = Some (None, c2, ms)" "?a c2" by blast
      with eq go [OF a'] l obtain r' where "f lib notified wid c2 = Some r'"
        by (cases "f lib notified wid c2") auto
      from IH [OF this] q(2) show False by blast
    qed
    with ret that show False by blast
  qed
  ultimately show ?thesis using a by (metis not_None_eq)
qed

subsection \<open>A concrete request\<close>

definition demo_lib :: "unit json_lib" where
  "demo_lib = \<lparr>json_parse = (\<lambda>_. Some ()), json_int = (\<lambda>_ _. Some CMDNO_STOP_PUSH), json_uint64 = (\<lambda>_ _. Some 7),
     json_string = (\<lambda>_ _. Some (bytes_of_string ''live'')), json_write = (\<lambda>_. bytes_of_string ''{}'')\<rparr>"

definition demo_header :: bytes where
  "demo_header = replicate 24 0 @ [0x07, 0x25, 0x20, 0xfb] @ replicate 4 0 @ [2, 0, 0, 0]"

definition demo_body :: bytes where
  "demo_body = bytes_of_string ''{}''"

lemma demo_request_header: "request_header demo_header demo_body"
  by code_simp

lemma demo_fresh: "fresh_conn (TCPConnection 2 5)"
  by (simp add: fresh_conn_def TCPConnection_def)

lemma demo_process:
  "\<exists>c1 ms. process_request demo_lib True 0 (full_conn demo_header demo_body c) demo_header demo_body = Some (0, c1, ms)"
proof -
  have "xh_log_id demo_header = Some 0" by code_simp
  then show ?thesis
    by (simp add: process_request_def dispatch_request_def demo_lib_def control_request_def request_handlers cmdno_defs forward_def
        stop_request_def)
qed


theorem pipelined_loop_witness:
  "let c1 = fst (snd (the (process_request demo_lib True 0 (full_conn demo_header demo_body (TCPConnection 2 5))
       demo_header demo_body))) in
   process_query_buffer demo_lib True 0
     (c1\<lparr>bytes_processed := 65535, querybuf := demo_header @ demo_body @ replicate 65499 0\<rparr>) = None"
proof -
  obtain c1 ms where p: "process_request demo_lib True 0 (full_conn demo_header demo_body (TCPConnection 2 5))
      demo_header demo_body = Some (0, c1, ms)" using demo_process by blast
  have "65535 \<le> XHEAD_SIZE + length (replicate 65499 (0 :: byte))" by (simp add: XHEAD_SIZE_def)
  from pipelined_loop [OF demo_request_header p this] show ?thesis by (simp add: p)
qed

end
