(* ===== verification/Lock_Free_Queue.thy ===== *)
theory Lock_Free_Queue
  imports Xrtc_Prelude
begin

text \<open>
  The single-producer single-consumer queue of \<open>base/lock_free_queue.h\<close>, through which the
  accepting thread hands connections to a worker.  The nodes live in a heap from addresses to
  nodes, so that \<open>delete\<close> removes an address and \<open>None\<close> is the use of a deleted node or of a
  null pointer.  The operations are given twice: as sequential functions, which refine a list
  queue, and as the atomic steps of the two threads, whose interleavings are a step relation.
\<close>

datatype 'a node = Node (node_value: 'a) (node_next: "nat option")

record 'a lfq =
  q_heap :: "nat \<Rightarrow> 'a node option"
  q_first :: nat
  q_divider :: nat
  q_last :: nat
  q_size :: int
  q_fresh :: nat

subsection \<open>The operations, one after the other\<close>

definition LockFreeQueue :: "'a \<Rightarrow> 'a lfq" where
  "LockFreeQueue dummy = \<lparr>q_heap = [0 \<mapsto> Node dummy None], q_first = 0, q_divider = 0, q_last = 0,
     q_size = 0, q_fresh = 1\<rparr>"

text \<open>\<open>last->next = new Node(t)\<close>.\<close>

definition q_link :: "'a \<Rightarrow> 'a lfq \<Rightarrow> 'a lfq option" where
  "q_link t q = do {
     n \<leftarrow> q_heap q (q_last q);
     Some (q\<lparr>q_heap := (q_heap q)(q_last q \<mapsto> Node (node_value n) (Some (q_fresh q)), q_fresh q \<mapsto> Node t None),
            q_fresh := q_fresh q + 1\<rparr>)
   }"

text \<open>\<open>last = last->next\<close>.\<close>

definition q_advance_last :: "'a lfq \<Rightarrow> 'a lfq option" where
  "q_advance_last q = do {
     n \<leftarrow> q_heap q (q_last q);
     l \<leftarrow> node_next n;
     Some (q\<lparr>q_last := l\<rparr>)
   }"

text \<open>One round of the clean-up loop: \<open>temp = first; first = first->next; delete temp\<close>.\<close>

definition q_delete_first :: "'a lfq \<Rightarrow> 'a lfq option" where
  "q_delete_first q = do {
     n \<leftarrow> q_heap q (q_first q);
     f \<leftarrow> node_next n;
     Some (q\<lparr>q_first := f, q_heap := (q_heap q)(q_first q := None)\<rparr>)
   }"

partial_function (option) q_cleanup :: "'a lfq \<Rightarrow> 'a lfq option" where
  [code]: "q_cleanup q = (if q_first q \<noteq> q_divider q then do { q1 \<leftarrow> q_delete_first q; q_cleanup q1 } else Some q)"

definition produce :: "'a \<Rightarrow> 'a lfq \<Rightarrow> 'a lfq option" where
  "produce t q = do {
     q1 \<leftarrow> q_link t q;
     q2 \<leftarrow> q_advance_last q1;
     q_cleanup (q2\<lparr>q_size := q_size q2 + 1\<rparr>)
   }"

definition q_peek :: "'a lfq \<Rightarrow> 'a option" where
  "q_peek q = do {
     d \<leftarrow> q_heap q (q_divider q);
     a \<leftarrow> node_next d;
     n \<leftarrow> q_heap q a;
     Some (node_value n)
   }"

definition q_advance_divider :: "'a lfq \<Rightarrow> 'a lfq option" where
  "q_advance_divider q = do {
     d \<leftarrow> q_heap q (q_divider q);
     a \<leftarrow> node_next d;
     Some (q\<lparr>q_divider := a\<rparr>)
   }"

text \<open>The value and \<open>true\<close>, or \<open>false\<close> when there is nothing to consume.\<close>

definition consume :: "'a lfq \<Rightarrow> ('a option \<times> 'a lfq) option" where
  "consume q = (if q_divider q \<noteq> q_last q then do {
       v \<leftarrow> q_peek q;
       q1 \<leftarrow> q_advance_divider q;
       Some (Some v, q1\<lparr>q_size := q_size q1 - 1\<rparr>)
     } else Some (None, q))"

definition q_empty :: "'a lfq \<Rightarrow> bool" where
  "q_empty q = (q_size q = 0)"

text \<open>The return type of \<open>size()\<close> is \<open>bool\<close>.\<close>

definition q_size_fn :: "'a lfq \<Rightarrow> bool" where
  "q_size_fn q = (q_size q \<noteq> 0)"

text \<open>The destructor deletes from \<open>first\<close> to the null pointer.\<close>

partial_function (option) q_delete_from :: "nat option \<Rightarrow> 'a lfq \<Rightarrow> 'a lfq option" where
  [code]: "q_delete_from p q = (case p of
       None \<Rightarrow> Some (q\<lparr>q_size := 0\<rparr>)
     | Some a \<Rightarrow> do {
         n \<leftarrow> q_heap q a;
         q_delete_from (node_next n) (q\<lparr>q_heap := (q_heap q)(a := None)\<rparr>)
       })"

definition q_destruct :: "'a lfq \<Rightarrow> 'a lfq option" where
  "q_destruct q = q_delete_from (Some (q_first q)) q"

subsection \<open>The two threads\<close>

datatype producer_pc = P_idle | P_linked | P_moved | P_clean

datatype 'a consumer_pc = C_idle | C_checked | C_read 'a | C_moved 'a

record 'a lfq_sys =
  sys_q :: "'a lfq"
  sys_prod :: producer_pc
  sys_cons :: "'a consumer_pc"
  sys_produced :: "'a list"
  sys_consumed :: "'a list"

definition sys_init :: "'a \<Rightarrow> 'a lfq_sys" where
  "sys_init dummy = \<lparr>sys_q = LockFreeQueue dummy, sys_prod = P_idle, sys_cons = C_idle,
     sys_produced = [], sys_consumed = []\<rparr>"

text \<open>One statement of \<open>produce\<close>; \<open>t\<close> is the argument of a call that starts.\<close>

definition producer_step :: "'a \<Rightarrow> 'a lfq_sys \<Rightarrow> 'a lfq_sys option" where
  "producer_step t s = (let q = sys_q s in case sys_prod s of
       P_idle \<Rightarrow> do { q1 \<leftarrow> q_link t q;
         Some (s\<lparr>sys_q := q1, sys_prod := P_linked, sys_produced := sys_produced s @ [t]\<rparr>) }
     | P_linked \<Rightarrow> do { q1 \<leftarrow> q_advance_last q; Some (s\<lparr>sys_q := q1, sys_prod := P_moved\<rparr>) }
     | P_moved \<Rightarrow> Some (s\<lparr>sys_q := q\<lparr>q_size := q_size q + 1\<rparr>, sys_prod := P_clean\<rparr>)
     | P_clean \<Rightarrow> if q_first q \<noteq> q_divider q
         then do { q1 \<leftarrow> q_delete_first q; Some (s\<lparr>sys_q := q1\<rparr>) }
         else Some (s\<lparr>sys_prod := P_idle\<rparr>))"

text \<open>One statement of \<open>consume\<close>.\<close>

definition consumer_step :: "'a lfq_sys \<Rightarrow> 'a lfq_sys option" where
  "consumer_step s = (let q = sys_q s in case sys_cons s of
       C_idle \<Rightarrow> Some (if q_divider q \<noteq> q_last q then s\<lparr>sys_cons := C_checked\<rparr> else s)
     | C_checked \<Rightarrow> do { v \<leftarrow> q_peek q; Some (s\<lparr>sys_cons := C_read v\<rparr>) }
     | C_read v \<Rightarrow> do { q1 \<leftarrow> q_advance_divider q; Some (s\<lparr>sys_q := q1, sys_cons := C_moved v\<rparr>) }
     | C_moved v \<Rightarrow> Some (s\<lparr>sys_q := q\<lparr>q_size := q_size q - 1\<rparr>, sys_cons := C_idle,
         sys_consumed := sys_consumed s @ [v]\<rparr>))"

inductive lfq_reach :: "'a \<Rightarrow> 'a lfq_sys \<Rightarrow> bool" for dummy where
  lfq_start: "lfq_reach dummy (sys_init dummy)"
| lfq_prod: "lfq_reach dummy s \<Longrightarrow> producer_step t s = Some s' \<Longrightarrow> lfq_reach dummy s'"
| lfq_cons: "lfq_reach dummy s \<Longrightarrow> consumer_step s = Some s' \<Longrightarrow> lfq_reach dummy s'"

subsection \<open>Chains of nodes\<close>

fun chain :: "(nat \<Rightarrow> 'a node option) \<Rightarrow> nat list \<Rightarrow> bool" where
  "chain h [] = False"
| "chain h [a] = (\<exists>v. h a = Some (Node v None))"
| "chain h (a # b # r) = ((\<exists>v. h a = Some (Node v (Some b))) \<and> chain h (b # r))"

definition chain_values :: "(nat \<Rightarrow> 'a node option) \<Rightarrow> nat list \<Rightarrow> 'a list" where
  "chain_values h as = map (\<lambda>a. node_value (the (h a))) as"

lemma chain_cong: "\<forall>a \<in> set as. h a = h' a \<Longrightarrow> chain h as = chain h' as"
  by (induction h as rule: chain.induct) auto

lemma chain_values_cong: "\<forall>a \<in> set as. node_value (the (h a)) = node_value (the (h' a)) \<Longrightarrow>
    chain_values h as = chain_values h' as"
  by (simp add: chain_values_def)

lemma chain_alive: "chain h as \<Longrightarrow> a \<in> set as \<Longrightarrow> \<exists>n. h a = Some n"
  by (induction h as rule: chain.induct) auto

lemma chain_next: "chain h (xs @ a # b # ys) \<Longrightarrow> \<exists>v. h a = Some (Node v (Some b))"
  by (induction xs) (auto simp: neq_Nil_conv Cons_eq_append_conv split: list.splits elim: chain.elims)

lemma chain_drop: "chain h (xs @ a # ys) \<Longrightarrow> chain h (a # ys)"
proof (induction xs)
  case (Cons x xs)
  then show ?case by (cases xs) auto
qed simp

lemma chain_snoc:
  assumes "chain h (as @ [l])" "n \<notin> set (as @ [l])" "l \<notin> set as"
  shows "chain (h(l \<mapsto> Node (node_value (the (h l))) (Some n), n \<mapsto> Node t None)) (as @ [l, n])"
  using assms
proof (induction as)
  case (Cons a as)
  from Cons.prems show ?case
    using Cons.IH by (cases as) auto
qed auto

subsection \<open>What each statement does to the chain\<close>

text \<open>\<open>xs\<close> are the nodes already consumed, \<open>ys\<close> the nodes to consume, and \<open>zs\<close> a node that is
  linked while \<open>last\<close> does not point to it yet.\<close>

definition lfq_shape :: "'a lfq \<Rightarrow> nat list \<Rightarrow> nat list \<Rightarrow> nat list \<Rightarrow> bool" where
  "lfq_shape q xs ys zs \<longleftrightarrow> (let as = xs @ q_divider q # ys @ zs in
     chain (q_heap q) as \<and> distinct as \<and> hd (xs @ [q_divider q]) = q_first q \<and>
     last (q_divider q # ys) = q_last q \<and> dom (q_heap q) = set as \<and> (\<forall>a \<in> set as. a < q_fresh q))"

lemma shapeI:
  assumes "xs @ q_divider q # ys @ zs = as" "chain (q_heap q) as" "distinct as" "dom (q_heap q) = set as"
    "\<forall>a \<in> set as. a < q_fresh q" "hd (xs @ [q_divider q]) = q_first q" "last (q_divider q # ys) = q_last q"
  shows "lfq_shape q xs ys zs"
  using assms(2-) unfolding lfq_shape_def Let_def assms(1) by simp

lemma shape_init: "lfq_shape (LockFreeQueue dummy) [] [] []"
  by (simp add: lfq_shape_def LockFreeQueue_def Let_def)

lemma shape_first: "lfq_shape q xs ys zs \<Longrightarrow> q_first q = q_divider q \<longleftrightarrow> xs = []"
  by (cases xs) (auto simp: lfq_shape_def Let_def)

lemma shape_last: "lfq_shape q xs ys zs \<Longrightarrow> q_divider q = q_last q \<longleftrightarrow> ys = []"
  by (cases ys rule: rev_cases) (auto simp: lfq_shape_def Let_def)

lemma split_last: "last (d # ys) = l \<Longrightarrow> xs @ d # ys = butlast (xs @ d # ys) @ [l]"
  using append_butlast_last_id [of "xs @ d # ys"] by simp

lemma q_link_shape:
  assumes "lfq_shape q xs ys []"
  shows "\<exists>q'. q_link t q = Some q' \<and> lfq_shape q' xs ys [q_fresh q] \<and>
    chain_values (q_heap q') (ys @ [q_fresh q]) = chain_values (q_heap q) ys @ [t] \<and>
    q_divider q' = q_divider q \<and> q_last q' = q_last q \<and> q_size q' = q_size q"
proof -
  let ?l = "q_last q" and ?n = "q_fresh q"
  define as where "as = butlast (xs @ q_divider q # ys)"
  have all: "xs @ q_divider q # ys = as @ [?l]"
    unfolding as_def by (rule split_last) (use assms in \<open>simp add: lfq_shape_def Let_def\<close>)
  have s: "chain (q_heap q) (as @ [?l])" "distinct (as @ [?l])" "dom (q_heap q) = set (as @ [?l])"
    "\<forall>a \<in> set (as @ [?l]). a < ?n" "hd (xs @ [q_divider q]) = q_first q" "last (q_divider q # ys) = ?l"
    using assms by (simp_all add: lfq_shape_def Let_def all)
  obtain v nx where l: "q_heap q ?l = Some (Node v nx)"
    using chain_alive [OF s(1)] by (metis in_set_conv_decomp node.exhaust)
  have n: "?n \<notin> set (as @ [?l])" using s(4) by fastforce
  have ch: "chain ((q_heap q)(?l \<mapsto> Node v (Some ?n), ?n \<mapsto> Node t None)) (as @ [?l, ?n])"
    using chain_snoc [OF s(1) n] s(2) l by simp
  have all': "xs @ q_divider q # ys @ [?n] = as @ [?l, ?n]" using all by (metis append.assoc append_Cons append_Nil)
  have "?n \<notin> set ys" using n all by (metis Un_iff list.set_intros(2) set_append)
  then have "chain_values ((q_heap q)(?l \<mapsto> Node v (Some ?n), ?n \<mapsto> Node t None)) ys = chain_values (q_heap q) ys"
    by (intro chain_values_cong) (auto simp: l)
  moreover have "?n \<notin> set ys" by fact
  moreover have "lfq_shape (q\<lparr>q_heap := (q_heap q)(?l \<mapsto> Node v (Some ?n), ?n \<mapsto> Node t None),
      q_fresh := ?n + 1\<rparr>) xs ys [?n]"
    by (rule shapeI [where as = "as @ [?l, ?n]"]) (use all' ch s n in \<open>auto\<close>)
  ultimately show ?thesis by (simp add: q_link_def l chain_values_def)
qed

lemma q_advance_last_shape:
  assumes "lfq_shape q xs ys [n]"
  shows "q_advance_last q = Some (q\<lparr>q_last := n\<rparr>) \<and> lfq_shape (q\<lparr>q_last := n\<rparr>) xs (ys @ [n]) []"
proof -
  define as where "as = butlast (xs @ q_divider q # ys)"
  have all: "xs @ q_divider q # ys = as @ [q_last q]"
    unfolding as_def by (rule split_last) (use assms in \<open>simp add: lfq_shape_def Let_def\<close>)
  then have all': "xs @ q_divider q # ys @ [n] = as @ q_last q # n # []" by (metis append.assoc append_Cons append_Nil)
  have "chain (q_heap q) (xs @ q_divider q # ys @ [n])" using assms by (simp add: lfq_shape_def Let_def)
  then obtain v where "q_heap q (q_last q) = Some (Node v (Some n))"
    unfolding all' using chain_next by blast
  then show ?thesis using assms by (simp add: q_advance_last_def lfq_shape_def Let_def)
qed

lemma q_delete_first_shape:
  assumes "lfq_shape q (x # xs) ys zs"
  shows "\<exists>q'. q_delete_first q = Some q' \<and> lfq_shape q' xs ys zs \<and>
    chain_values (q_heap q') (ys @ zs) = chain_values (q_heap q) (ys @ zs) \<and>
    q_divider q' = q_divider q \<and> q_last q' = q_last q \<and> q_size q' = q_size q"
proof -
  obtain f r where fr: "xs @ q_divider q # ys @ zs = f # r" by (cases xs) auto
  have s: "chain (q_heap q) (x # f # r)" "distinct (x # f # r)" "q_first q = x" "dom (q_heap q) = set (x # f # r)"
    "\<forall>a \<in> set (x # f # r). a < q_fresh q" "last (q_divider q # ys) = q_last q"
    using assms fr by (auto simp: lfq_shape_def Let_def)
  from s(1) obtain v where x: "q_heap q x = Some (Node v (Some f))" by auto
  have ch: "chain ((q_heap q)(x := None)) (f # r)"
    using s(1,2) chain_cong [of "f # r" "(q_heap q)(x := None)" "q_heap q"] by auto
  have f: "hd (xs @ [q_divider q]) = f" using fr by (cases xs) auto
  have "chain_values ((q_heap q)(x := None)) (ys @ zs) = chain_values (q_heap q) (ys @ zs)"
    by (rule chain_values_cong) (use s(2) fr in \<open>auto simp: append_eq_Cons_conv Cons_eq_append_conv\<close>)
  moreover have "lfq_shape (q\<lparr>q_first := f, q_heap := (q_heap q)(x := None)\<rparr>) xs ys zs"
    using s(2,4,5,6) ch f fr by (simp add: lfq_shape_def Let_def)
  ultimately show ?thesis using s(3) x by (simp add: q_delete_first_def)
qed

lemma shape_divider_next:
  assumes "lfq_shape q xs (y # ys) zs"
  shows "\<exists>v w. q_heap q (q_divider q) = Some (Node v (Some y)) \<and> q_heap q y = Some w"
  using assms chain_next [of "q_heap q" xs "q_divider q" y "ys @ zs"] chain_alive
  by (fastforce simp: lfq_shape_def Let_def)

lemma q_peek_shape: "lfq_shape q xs (y # ys) zs \<Longrightarrow> q_peek q = Some (hd (chain_values (q_heap q) (y # ys)))"
  by (drule shape_divider_next) (auto simp: q_peek_def chain_values_def)

lemma q_advance_divider_shape:
  assumes "lfq_shape q xs (y # ys) zs"
  shows "q_advance_divider q = Some (q\<lparr>q_divider := y\<rparr>) \<and> lfq_shape (q\<lparr>q_divider := y\<rparr>) (xs @ [q_divider q]) ys zs"
  using assms shape_divider_next [OF assms]
  by (cases xs) (auto simp: q_advance_divider_def lfq_shape_def Let_def split: if_splits)

subsection \<open>The sequential queue refines a list\<close>

definition lfq_rel :: "'a lfq \<Rightarrow> 'a list \<Rightarrow> bool" where
  "lfq_rel q vs \<longleftrightarrow> (\<exists>xs ys. lfq_shape q xs ys [] \<and> chain_values (q_heap q) ys = vs \<and> q_size q = int (length vs))"

lemma q_cleanup_shape:
  assumes "lfq_shape q xs ys zs"
  shows "\<exists>q'. q_cleanup q = Some q' \<and> lfq_shape q' [] ys zs \<and>
    chain_values (q_heap q') (ys @ zs) = chain_values (q_heap q) (ys @ zs) \<and> q_size q' = q_size q"
  using assms
proof (induction xs arbitrary: q)
  case Nil
  then show ?case using shape_first [OF Nil] by (subst q_cleanup.simps) simp
next
  case (Cons x xs)
  from q_delete_first_shape [OF Cons.prems] obtain q1 where
    q1: "q_delete_first q = Some q1" "lfq_shape q1 xs ys zs"
      "chain_values (q_heap q1) (ys @ zs) = chain_values (q_heap q) (ys @ zs)" "q_size q1 = q_size q" by blast
  with Cons.IH [OF q1(2)] shape_first [OF Cons.prems] show ?case by (subst q_cleanup.simps) auto
qed

lemma produce_rel:
  assumes "lfq_rel q vs"
  shows "\<exists>q'. produce t q = Some q' \<and> lfq_rel q' (vs @ [t])"
proof -
  from assms obtain xs ys where s: "lfq_shape q xs ys []" "chain_values (q_heap q) ys = vs" "q_size q = int (length vs)"
    by (auto simp: lfq_rel_def)
  from q_link_shape [OF s(1), of t] obtain q1 where
    1: "q_link t q = Some q1" "lfq_shape q1 xs ys [q_fresh q]"
      "chain_values (q_heap q1) (ys @ [q_fresh q]) = vs @ [t]" "q_size q1 = q_size q"
    using s(2) by auto
  let ?q2 = "q1\<lparr>q_last := q_fresh q, q_size := q_size q1 + 1\<rparr>"
  have 2: "q_advance_last q1 = Some (q1\<lparr>q_last := q_fresh q\<rparr>)" "lfq_shape ?q2 xs (ys @ [q_fresh q]) []"
    using q_advance_last_shape [OF 1(2)] by (simp_all add: lfq_shape_def)
  from q_cleanup_shape [OF 2(2)] obtain q3 where
    "q_cleanup ?q2 = Some q3" "lfq_shape q3 [] (ys @ [q_fresh q]) []"
    "chain_values (q_heap q3) (ys @ [q_fresh q]) = vs @ [t]" "q_size q3 = q_size q + 1"
    using 1(3,4) by auto
  with 1(1) 2(1) s(3) show ?thesis by (auto simp: produce_def lfq_rel_def)
qed

lemma consume_rel:
  assumes "lfq_rel q vs"
  shows "\<exists>q'. consume q = Some (case vs of [] \<Rightarrow> None | v # _ \<Rightarrow> Some v, q') \<and> lfq_rel q' (tl vs)"
proof -
  from assms obtain xs ys where s: "lfq_shape q xs ys []" "chain_values (q_heap q) ys = vs" "q_size q = int (length vs)"
    by (auto simp: lfq_rel_def)
  show ?thesis
  proof (cases ys)
    case Nil
    with s shape_last [OF s(1)] show ?thesis
      by (auto simp: consume_def lfq_rel_def chain_values_def)
  next
    case (Cons y ys')
    let ?q = "q\<lparr>q_divider := y, q_size := q_size q - 1\<rparr>"
    have "lfq_shape ?q (xs @ [q_divider q]) ys' []"
      using q_advance_divider_shape [of q xs y ys' "[]"] s(1) Cons by (simp add: lfq_shape_def)
    moreover have "chain_values (q_heap ?q) ys' = tl vs" using s(2) Cons by (auto simp: chain_values_def)
    moreover have "vs = hd vs # tl vs" using s(2) Cons by (auto simp: chain_values_def)
    ultimately have "lfq_rel ?q (tl vs)" using s(3) unfolding lfq_rel_def
      by (metis (no_types, lifting) length_Cons lfq.select_convs(5) lfq.surjective lfq.update_convs(5) of_nat_Suc add_diff_cancel_left')
    moreover have "consume q = Some (Some (hd vs), ?q)"
      using q_peek_shape [of q xs y ys' "[]"] q_advance_divider_shape [of q xs y ys' "[]"] shape_last [OF s(1)] s(1,2) Cons
      by (simp add: consume_def)
    ultimately show ?thesis using \<open>vs = hd vs # tl vs\<close> by (metis list.simps(5))
  qed
qed

subsection \<open>The contract of a queue\<close>

datatype 'a queue_op = Put 'a | Take

fun run_queue :: "('a \<Rightarrow> 'q \<Rightarrow> 'q option) \<Rightarrow> ('q \<Rightarrow> ('a option \<times> 'q) option) \<Rightarrow> 'a queue_op list \<Rightarrow> 'q
    \<Rightarrow> ('a option list \<times> 'q) option" where
  "run_queue enq deq [] q = Some ([], q)"
| "run_queue enq deq (Put t # ops) q = do { q1 \<leftarrow> enq t q; run_queue enq deq ops q1 }"
| "run_queue enq deq (Take # ops) q = do {
     (r, q1) \<leftarrow> deq q;
     (rs, q2) \<leftarrow> run_queue enq deq ops q1;
     Some (r # rs, q2)
   }"

fun run_spec :: "'a queue_op list \<Rightarrow> 'a list \<Rightarrow> 'a option list \<times> 'a list" where
  "run_spec [] vs = ([], vs)"
| "run_spec (Put t # ops) vs = run_spec ops (vs @ [t])"
| "run_spec (Take # ops) vs = (let (rs, vs') = run_spec ops (tl vs) in
     ((case vs of [] \<Rightarrow> None | v # _ \<Rightarrow> Some v) # rs, vs'))"

locale fifo_queue =
  fixes rel :: "'q \<Rightarrow> 'a list \<Rightarrow> bool"
    and enq :: "'a \<Rightarrow> 'q \<Rightarrow> 'q option"
    and deq :: "'q \<Rightarrow> ('a option \<times> 'q) option"
  assumes enq_rel: "rel q vs \<Longrightarrow> \<exists>q'. enq t q = Some q' \<and> rel q' (vs @ [t])"
    and deq_rel: "rel q vs \<Longrightarrow> \<exists>q'. deq q = Some (case vs of [] \<Rightarrow> None | v # _ \<Rightarrow> Some v, q') \<and> rel q' (tl vs)"
begin

lemma run_refines:
  "rel q vs \<Longrightarrow> \<exists>q'. run_queue enq deq ops q = Some (fst (run_spec ops vs), q') \<and> rel q' (snd (run_spec ops vs))"
proof (induction ops arbitrary: q vs)
  case (Cons p ops)
  show ?case
  proof (cases p)
    case (Put t)
    with Cons.IH enq_rel [OF Cons.prems, of t] show ?thesis by fastforce
  next
    case Take
    from deq_rel [OF Cons.prems] obtain q1 where
      d: "deq q = Some (case vs of [] \<Rightarrow> None | v # _ \<Rightarrow> Some v, q1)" "rel q1 (tl vs)" by blast
    from Cons.IH [OF d(2)] d(1) Take show ?thesis
      by (cases "run_spec ops (tl vs)") auto
  qed
qed simp

end

interpretation lfq: fifo_queue lfq_rel produce consume
  by unfold_locales (rule produce_rel consume_rel; assumption)+

subsection \<open>Every interleaving of the two threads\<close>

definition in_flight :: "'a consumer_pc \<Rightarrow> 'a list" where
  "in_flight pc = (case pc of C_moved v \<Rightarrow> [v] | _ \<Rightarrow> [])"

definition sys_inv :: "'a lfq_sys \<Rightarrow> bool" where
  "sys_inv s \<longleftrightarrow> (\<exists>xs ys zs. lfq_shape (sys_q s) xs ys zs \<and>
     (if sys_prod s = P_linked then \<exists>z. zs = [z] else zs = []) \<and>
     sys_produced s = sys_consumed s @ in_flight (sys_cons s) @ chain_values (q_heap (sys_q s)) (ys @ zs) \<and>
     (case sys_cons s of C_checked \<Rightarrow> ys \<noteq> [] | C_read v \<Rightarrow> ys \<noteq> [] \<and> v = hd (chain_values (q_heap (sys_q s)) ys)
      | _ \<Rightarrow> True) \<and>
     q_size (sys_q s) = int (length ys) + int (length (in_flight (sys_cons s))) - (if sys_prod s = P_moved then 1 else 0))"

lemma sys_invI:
  assumes "lfq_shape (sys_q s) xs ys zs" "if sys_prod s = P_linked then \<exists>z. zs = [z] else zs = []"
    "sys_produced s = sys_consumed s @ in_flight (sys_cons s) @ chain_values (q_heap (sys_q s)) (ys @ zs)"
    "case sys_cons s of C_checked \<Rightarrow> ys \<noteq> [] | C_read v \<Rightarrow> ys \<noteq> [] \<and> v = hd (chain_values (q_heap (sys_q s)) ys)
      | _ \<Rightarrow> True"
    "q_size (sys_q s) = int (length ys) + int (length (in_flight (sys_cons s))) - (if sys_prod s = P_moved then 1 else 0)"
  shows "sys_inv s"
  using assms unfolding sys_inv_def by blast

lemma sys_inv_init: "sys_inv (sys_init dummy)"
  by (rule sys_invI [where xs = "[]" and ys = "[]" and zs = "[]"])
     (simp_all add: sys_init_def shape_init in_flight_def chain_values_def, simp add: LockFreeQueue_def)

lemma shape_size [simp]: "lfq_shape (q\<lparr>q_size := n\<rparr>) xs ys zs = lfq_shape q xs ys zs"
  by (simp add: lfq_shape_def)

lemma producer_step_inv:
  assumes "sys_inv s"
  shows "\<exists>s'. producer_step t s = Some s' \<and> sys_inv s'"
proof -
  let ?q = "sys_q s"
  from assms obtain xs ys zs where s: "lfq_shape ?q xs ys zs"
    "if sys_prod s = P_linked then \<exists>z. zs = [z] else zs = []"
    "sys_produced s = sys_consumed s @ in_flight (sys_cons s) @ chain_values (q_heap ?q) (ys @ zs)"
    "case sys_cons s of C_checked \<Rightarrow> ys \<noteq> [] | C_read v \<Rightarrow> ys \<noteq> [] \<and> v = hd (chain_values (q_heap ?q) ys) | _ \<Rightarrow> True"
    "q_size ?q = int (length ys) + int (length (in_flight (sys_cons s))) - (if sys_prod s = P_moved then 1 else 0)"
    unfolding sys_inv_def by blast
  show ?thesis
  proof (cases "sys_prod s")
    case P_idle
    with s(2) have zs: "zs = []" by simp
    from q_link_shape [OF s(1) [unfolded zs], of t] obtain q' where
      q': "q_link t ?q = Some q'" "lfq_shape q' xs ys [q_fresh ?q]"
        "chain_values (q_heap q') (ys @ [q_fresh ?q]) = chain_values (q_heap ?q) ys @ [t]" "q_size q' = q_size ?q" by blast
    then have "chain_values (q_heap q') ys = chain_values (q_heap ?q) ys" by (simp add: chain_values_def)
    have "sys_inv (s\<lparr>sys_q := q', sys_prod := P_linked, sys_produced := sys_produced s @ [t]\<rparr>)"
      by (rule sys_invI [where xs = xs and ys = ys and zs = "[q_fresh ?q]"])
         (use q' s zs P_idle \<open>chain_values (q_heap q') ys = _\<close> in \<open>simp_all split: consumer_pc.splits\<close>)
    with P_idle q'(1) show ?thesis by (simp add: producer_step_def)
  next
    case P_linked
    with s(2) obtain z where zs: "zs = [z]" by auto
    have "sys_inv (s\<lparr>sys_q := ?q\<lparr>q_last := z\<rparr>, sys_prod := P_moved\<rparr>)"
      by (rule sys_invI [where xs = xs and ys = "ys @ [z]" and zs = "[]"])
         (use q_advance_last_shape [OF s(1) [unfolded zs]] s zs P_linked in \<open>auto simp: chain_values_def split: consumer_pc.splits\<close>)
    then show ?thesis using P_linked q_advance_last_shape [OF s(1) [unfolded zs]]
      by (simp add: producer_step_def)
  next
    case P_moved
    have "sys_inv (s\<lparr>sys_q := ?q\<lparr>q_size := q_size ?q + 1\<rparr>, sys_prod := P_clean\<rparr>)"
      by (rule sys_invI [where xs = xs and ys = ys and zs = zs])
         (use s P_moved in \<open>simp_all split: consumer_pc.splits\<close>)
    then show ?thesis using P_moved by (simp add: producer_step_def Let_def)
  next
    case P_clean
    with s(2) have zs: "zs = []" by simp
    show ?thesis
    proof (cases xs)
      case Nil
      have "sys_inv (s\<lparr>sys_prod := P_idle\<rparr>)"
        by (rule sys_invI [where xs = xs and ys = ys and zs = zs]) (use s P_clean in \<open>simp_all split: consumer_pc.splits\<close>)
      then show ?thesis using P_clean shape_first [OF s(1)] Nil by (simp add: producer_step_def)
    next
      case (Cons x xs')
      from q_delete_first_shape [OF s(1) [unfolded Cons]] obtain q' where
        q': "q_delete_first ?q = Some q'" "lfq_shape q' xs' ys zs"
          "chain_values (q_heap q') ys = chain_values (q_heap ?q) ys" "q_size q' = q_size ?q"
        by (auto simp: zs)
      have "sys_inv (s\<lparr>sys_q := q'\<rparr>)"
        by (rule sys_invI [where xs = xs' and ys = ys and zs = zs])
           (use q' s P_clean zs in \<open>simp_all split: consumer_pc.splits\<close>)
      then show ?thesis using P_clean shape_first [OF s(1)] Cons q'(1) by (simp add: producer_step_def)
    qed
  qed
qed

lemma consumer_step_inv:
  assumes "sys_inv s"
  shows "\<exists>s'. consumer_step s = Some s' \<and> sys_inv s'"
proof -
  let ?q = "sys_q s"
  from assms obtain xs ys zs where s: "lfq_shape ?q xs ys zs"
    "if sys_prod s = P_linked then \<exists>z. zs = [z] else zs = []"
    "sys_produced s = sys_consumed s @ in_flight (sys_cons s) @ chain_values (q_heap ?q) (ys @ zs)"
    "case sys_cons s of C_checked \<Rightarrow> ys \<noteq> [] | C_read v \<Rightarrow> ys \<noteq> [] \<and> v = hd (chain_values (q_heap ?q) ys) | _ \<Rightarrow> True"
    "q_size ?q = int (length ys) + int (length (in_flight (sys_cons s))) - (if sys_prod s = P_moved then 1 else 0)"
    unfolding sys_inv_def by blast
  show ?thesis
  proof (cases "sys_cons s")
    case C_idle
    have "sys_inv (s\<lparr>sys_cons := C_checked\<rparr>)" if "ys \<noteq> []"
      by (rule sys_invI [where xs = xs and ys = ys and zs = zs])
         (use s C_idle that in \<open>simp_all add: in_flight_def\<close>)
    then show ?thesis using C_idle shape_last [OF s(1)] assms by (auto simp: consumer_step_def)
  next
    case C_checked
    then obtain y ys' where ys: "ys = y # ys'" using s(4) by (cases ys) auto
    have "sys_inv (s\<lparr>sys_cons := C_read (hd (chain_values (q_heap ?q) ys))\<rparr>)"
      by (rule sys_invI [where xs = xs and ys = ys and zs = zs])
         (use s C_checked ys in \<open>simp_all add: in_flight_def\<close>)
    then show ?thesis using C_checked q_peek_shape [OF s(1) [unfolded ys]] ys by (simp add: consumer_step_def)
  next
    case (C_read v)
    then obtain y ys' where ys: "ys = y # ys'" using s(4) by (cases ys) auto
    note d = q_advance_divider_shape [OF s(1) [unfolded ys]]
    have "sys_inv (s\<lparr>sys_q := ?q\<lparr>q_divider := y\<rparr>, sys_cons := C_moved v\<rparr>)"
      by (rule sys_invI [where xs = "xs @ [q_divider ?q]" and ys = ys' and zs = zs])
         (use s C_read ys d in \<open>simp_all add: in_flight_def chain_values_def\<close>)
    then show ?thesis using C_read d by (simp add: consumer_step_def)
  next
    case (C_moved v)
    have "sys_inv (s\<lparr>sys_q := ?q\<lparr>q_size := q_size ?q - 1\<rparr>, sys_cons := C_idle, sys_consumed := sys_consumed s @ [v]\<rparr>)"
      by (rule sys_invI [where xs = xs and ys = ys and zs = zs])
         (use s C_moved in \<open>simp_all add: in_flight_def\<close>)
    then show ?thesis using C_moved by (simp add: consumer_step_def Let_def)
  qed
qed

lemma reach_inv: "lfq_reach dummy s \<Longrightarrow> sys_inv s"
proof (induction rule: lfq_reach.induct)
  case (lfq_prod s t s')
  then show ?case using producer_step_inv [of s t] by simp
next
  case (lfq_cons s s')
  then show ?case using consumer_step_inv [of s] by simp
qed (rule sys_inv_init)

subsection \<open>What the consumer still has to do\<close>

fun run_consumer :: "nat \<Rightarrow> 'a lfq_sys \<Rightarrow> 'a lfq_sys option" where
  "run_consumer 0 s = Some s"
| "run_consumer (Suc n) s = do { s1 \<leftarrow> consumer_step s; run_consumer n s1 }"

text \<open>The number of statements until the queue is drained, while the producer is idle.\<close>

definition drain_steps :: "'a lfq_sys \<Rightarrow> nat" where
  "drain_steps s = nat (4 * q_size (sys_q s) -
     (case sys_cons s of C_idle \<Rightarrow> 0 | C_checked \<Rightarrow> 1 | C_read _ \<Rightarrow> 2 | C_moved _ \<Rightarrow> 3))"

lemma inv_idle:
  assumes "sys_inv s" "sys_prod s = P_idle"
  obtains n where "q_size (sys_q s) = int n + int (length (in_flight (sys_cons s)))"
    "q_divider (sys_q s) = q_last (sys_q s) \<longleftrightarrow> n = 0"
    "case sys_cons s of C_checked \<Rightarrow> 0 < n | C_read _ \<Rightarrow> 0 < n | _ \<Rightarrow> True"
    "n = 0 \<Longrightarrow> sys_produced s = sys_consumed s @ in_flight (sys_cons s)"
proof -
  from assms obtain xs ys where s: "lfq_shape (sys_q s) xs ys []"
    "sys_produced s = sys_consumed s @ in_flight (sys_cons s) @ chain_values (q_heap (sys_q s)) ys"
    "case sys_cons s of C_checked \<Rightarrow> ys \<noteq> [] | C_read v \<Rightarrow> ys \<noteq> [] \<and> v = hd (chain_values (q_heap (sys_q s)) ys) | _ \<Rightarrow> True"
    "q_size (sys_q s) = int (length ys) + int (length (in_flight (sys_cons s)))"
    unfolding sys_inv_def by auto
  show ?thesis
    by (rule that [of "length ys"]) (use s shape_last [OF s(1)] in \<open>auto simp: chain_values_def split: consumer_pc.splits\<close>)
qed

lemma drain_step:
  assumes "sys_inv s" "sys_prod s = P_idle" "drain_steps s = Suc n"
  shows "\<exists>s'. consumer_step s = Some s' \<and> sys_inv s' \<and> sys_prod s' = P_idle \<and> drain_steps s' = n \<and>
    sys_produced s' = sys_produced s"
proof -
  from consumer_step_inv [OF assms(1)] obtain s' where s': "consumer_step s = Some s'" "sys_inv s'" by blast
  from inv_idle [OF assms(1,2)] obtain k where k: "q_size (sys_q s) = int k + int (length (in_flight (sys_cons s)))"
    "q_divider (sys_q s) = q_last (sys_q s) \<longleftrightarrow> k = 0" "case sys_cons s of C_checked \<Rightarrow> 0 < k | C_read _ \<Rightarrow> 0 < k | _ \<Rightarrow> True"
    by metis
  have "sys_prod s' = P_idle \<and> drain_steps s' = n \<and> sys_produced s' = sys_produced s"
    using s'(1) k assms(2,3)
    by (auto simp: consumer_step_def Let_def drain_steps_def in_flight_def q_advance_divider_def bind_eq_Some_conv
        split: consumer_pc.splits if_splits)
  with s' show ?thesis by blast
qed

lemma drained:
  assumes "sys_inv s" "sys_prod s = P_idle" "drain_steps s = 0"
  shows "sys_consumed s = sys_produced s"
proof -
  from inv_idle [OF assms(1,2)] obtain k where k: "q_size (sys_q s) = int k + int (length (in_flight (sys_cons s)))"
    "case sys_cons s of C_checked \<Rightarrow> 0 < k | C_read _ \<Rightarrow> 0 < k | _ \<Rightarrow> True"
    "k = 0 \<Longrightarrow> sys_produced s = sys_consumed s @ in_flight (sys_cons s)" by metis
  with assms(3) have "sys_cons s = C_idle" "k = 0"
    by (auto simp: drain_steps_def in_flight_def split: consumer_pc.splits)
  with k(3) show ?thesis by (simp add: in_flight_def)
qed

lemma drain_run:
  "sys_inv s \<Longrightarrow> sys_prod s = P_idle \<Longrightarrow>
     \<exists>s'. run_consumer (drain_steps s) s = Some s' \<and> sys_consumed s' = sys_produced s"
proof (induction "drain_steps s" arbitrary: s)
  case 0
  then show ?case using drained [of s] by (metis run_consumer.simps(1))
next
  case (Suc n)
  from drain_step [OF Suc.prems Suc.hyps(2) [symmetric]] obtain s' where
    s': "consumer_step s = Some s'" "sys_inv s'" "sys_prod s' = P_idle" "drain_steps s' = n" "sys_produced s' = sys_produced s"
    by blast
  from Suc.hyps(1) [of s'] s' Suc.hyps(2) [symmetric] show ?case by auto
qed

text \<open>C32: For one thread the lock-free queue refines a list: any sequence of produce and
  consume succeeds, returns what the list returns, and ends in a queue that represents the
  list.\<close>
theorem queue_refines:
  "\<exists>q. run_queue produce consume ops (LockFreeQueue dummy) = Some (fst (run_spec ops []), q) \<and>
     lfq_rel q (snd (run_spec ops []))"
proof (rule lfq.run_refines)
  show "lfq_rel (LockFreeQueue dummy) []"
    unfolding lfq_rel_def using shape_init [of dummy] by (fastforce simp: chain_values_def LockFreeQueue_def)
qed

text \<open>C12: In every interleaving of the instructions of one producing and one consuming
  thread, neither touches a node that is not there, and what has been consumed is a prefix of what
  has been produced.\<close>
theorem queue_interleavings:
  assumes "lfq_reach dummy s"
  shows "producer_step t s \<noteq> None \<and> consumer_step s \<noteq> None \<and> (\<exists>rest. sys_produced s = sys_consumed s @ rest)"
  using reach_inv [OF assms] producer_step_inv [of s t] consumer_step_inv [of s]
  by (auto simp: sys_inv_def)

text \<open>C35: Once the producer rests, the consumer reaches the end: after a number of its
  steps that the state determines it has consumed everything that was produced.\<close>
theorem queue_drains:
  assumes "lfq_reach dummy s" "sys_prod s = P_idle"
  shows "\<exists>s'. run_consumer (drain_steps s) s = Some s' \<and> sys_consumed s' = sys_produced s"
  by (rule drain_run [OF reach_inv [OF assms(1)] assms(2)])

text \<open>A state in which the consumer has read a value that is still linked.\<close>

definition demo_sys :: "nat lfq_sys" where
  "demo_sys = the (do { s1 \<leftarrow> producer_step 7 (sys_init 0); s2 \<leftarrow> producer_step 7 s1; s3 \<leftarrow> producer_step 7 s2;
     s4 \<leftarrow> producer_step 7 s3; s5 \<leftarrow> consumer_step s4; consumer_step s5 })"

lemma demo_sys_reach: "lfq_reach 0 demo_sys" "sys_prod demo_sys = P_idle" "drain_steps demo_sys = 2"
proof -
  have step: "lfq_reach 0 (the (producer_step t s))" "lfq_reach 0 (the (consumer_step s))" if "lfq_reach 0 s" for s and t :: nat
    using that producer_step_inv [OF reach_inv [OF that], of t] consumer_step_inv [OF reach_inv [OF that]]
      lfq_reach.intros(2,3) by force+
  have eq: "demo_sys = the (consumer_step (the (consumer_step (the (producer_step 7 (the (producer_step 7 (the (producer_step 7
      (the (producer_step 7 (sys_init 0))))))))))))"
    by (simp add: demo_sys_def producer_step_def consumer_step_def sys_init_def LockFreeQueue_def q_link_def
        q_advance_last_def q_peek_def Let_def)
  show "lfq_reach 0 demo_sys" unfolding eq by (intro step lfq_start)
  show "sys_prod demo_sys = P_idle" "drain_steps demo_sys = 2"
    by (simp_all add: demo_sys_def drain_steps_def producer_step_def consumer_step_def sys_init_def LockFreeQueue_def q_link_def
        q_advance_last_def q_peek_def Let_def)
qed

theorem queue_interleavings_witness:
  "producer_step 8 demo_sys \<noteq> None \<and> consumer_step demo_sys \<noteq> None \<and>
   (\<exists>rest. sys_produced demo_sys = sys_consumed demo_sys @ rest)"
  by (rule queue_interleavings [OF demo_sys_reach(1)])

theorem queue_drains_witness:
  "\<exists>s'. run_consumer 2 demo_sys = Some s' \<and> sys_consumed s' = sys_produced demo_sys"
  using queue_drains [OF demo_sys_reach(1,2)] by (simp add: demo_sys_reach(3))

end
