(* ===== verification/Signaling_Worker.thy ===== *)
theory Signaling_Worker
  imports Signaling_Conn Lock_Free_Queue
begin

text \<open>
  A worker of the signaling service (\<open>server/signaling_worker.cpp\<close>): the table of connections
  indexed by file descriptor, and the handlers of its event loop.  A connection is identified by
  the address of its object, which messages to the RTC server carry and bring back.  The results
  of the system calls are arguments; what a handler writes, closes or forwards is recorded in the
  state.  \<open>None\<close> is a use of a null pointer or a read outside a buffer.
\<close>

datatype sys_read = Sys_read bytes | Sys_read_again | Sys_read_error
datatype sys_write = Sys_written nat | Sys_write_again | Sys_write_error

text \<open>\<open>sock_read_data\<close> and \<open>sock_write_data\<close> of \<open>base/socket.cpp\<close>.\<close>

definition sock_read_data :: "sys_read \<Rightarrow> int \<times> bytes" where
  "sock_read_data r = (case r of
       Sys_read_error \<Rightarrow> (-1, [])
     | Sys_read_again \<Rightarrow> (0, [])
     | Sys_read d \<Rightarrow> if d = [] then (-1, []) else (int (length d), d))"

definition sock_write_data :: "sys_write \<Rightarrow> int" where
  "sock_write_data r = (case r of Sys_write_error \<Rightarrow> -1 | Sys_write_again \<Rightarrow> 0 | Sys_written n \<Rightarrow> int n)"

datatype worker_notification = QUIT | NEW_CONN | RTC_MSG | Other_msg int

record signaling_worker =
  sw_id :: nat
  sw_timeout :: int
  sw_conns :: "tcp_connection option list"
  sw_q_conn :: "int lfq"
  sw_q_msg :: "rtc_msg list"
  sw_pipe :: "worker_notification list"
  sw_thread :: bool
  sw_loop :: bool
  sw_now :: int
  sw_forwarded :: "rtc_msg list"
  sw_written :: "(int \<times> bytes) list"
  sw_closed :: "int list"

definition SignalingWorker :: "nat \<Rightarrow> int \<Rightarrow> signaling_worker" where
  "SignalingWorker i timeout = \<lparr>sw_id = i, sw_timeout = timeout, sw_conns = [], sw_q_conn = LockFreeQueue 0,
     sw_q_msg = [], sw_pipe = [], sw_thread = False, sw_loop = False, sw_now = 0, sw_forwarded = [],
     sw_written = [], sw_closed = []\<rparr>"

definition sw_start :: "signaling_worker \<Rightarrow> int \<times> signaling_worker" where
  "sw_start w = (if sw_thread w then (-1, w) else (0, w\<lparr>sw_thread := True, sw_loop := True\<rparr>))"

definition sw_stop :: "signaling_worker \<Rightarrow> signaling_worker" where
  "sw_stop w = (if \<not> sw_thread w then w else w\<lparr>sw_loop := False\<rparr>)"

text \<open>\<open>ok\<close> is whether the write to the pipe succeeded.\<close>

definition sw_notify :: "bool \<Rightarrow> worker_notification \<Rightarrow> signaling_worker \<Rightarrow> int \<times> signaling_worker" where
  "sw_notify ok m w = (if ok then (0, w\<lparr>sw_pipe := sw_pipe w @ [m]\<rparr>) else (-1, w))"

definition notify_new_conn :: "bool \<Rightarrow> int \<Rightarrow> signaling_worker \<Rightarrow> (int \<times> signaling_worker) option" where
  "notify_new_conn ok fd w = map_option (\<lambda>q. sw_notify ok NEW_CONN (w\<lparr>sw_q_conn := q\<rparr>)) (produce fd (sw_q_conn w))"

definition sw_push_msg :: "rtc_msg \<Rightarrow> signaling_worker \<Rightarrow> signaling_worker" where
  "sw_push_msg m w = w\<lparr>sw_q_msg := sw_q_msg w @ [m]\<rparr>"

definition sw_pop_msg :: "signaling_worker \<Rightarrow> rtc_msg option \<times> signaling_worker" where
  "sw_pop_msg w = (case sw_q_msg w of [] \<Rightarrow> (None, w) | m # ms \<Rightarrow> (Some m, w\<lparr>sw_q_msg := ms\<rparr>))"

definition sw_send_rtc_msg :: "bool \<Rightarrow> rtc_msg \<Rightarrow> signaling_worker \<Rightarrow> int \<times> signaling_worker" where
  "sw_send_rtc_msg ok m w = sw_notify ok RTC_MSG (sw_push_msg m w)"

subsection \<open>The table of connections\<close>

definition conn_index :: "signaling_worker \<Rightarrow> int \<Rightarrow> bool" where
  "conn_index w fd \<longleftrightarrow> 0 \<le> fd \<and> nat fd < length (sw_conns w)"

definition get_conn :: "int \<Rightarrow> signaling_worker \<Rightarrow> tcp_connection option" where
  "get_conn fd w = (if conn_index w fd then sw_conns w ! nat fd else None)"

definition set_conn :: "int \<Rightarrow> tcp_connection option \<Rightarrow> signaling_worker \<Rightarrow> signaling_worker" where
  "set_conn fd c w = w\<lparr>sw_conns := (sw_conns w)[nat fd := c]\<rparr>"

definition close_conn :: "tcp_connection \<Rightarrow> signaling_worker \<Rightarrow> signaling_worker" where
  "close_conn c w = set_conn (tc_fd c) None (w\<lparr>sw_closed := sw_closed w @ [tc_fd c]\<rparr>)"

text \<open>\<open>addr\<close> is the address the allocator gives the new object.  The table grows to twice the
  descriptor; an index beyond it is a write outside the table.\<close>

definition new_conn :: "nat \<Rightarrow> int \<Rightarrow> signaling_worker \<Rightarrow> signaling_worker option" where
  "new_conn addr fd w = (if fd < 0 then Some w else let
     c = (TCPConnection addr fd)\<lparr>last_interaction := sw_now w\<rparr>;
     conns = (if length (sw_conns w) \<le> nat fd
       then sw_conns w @ replicate (2 * nat fd - length (sw_conns w)) None else sw_conns w);
     w1 = w\<lparr>sw_conns := conns\<rparr> in
     if nat fd < length conns then Some (set_conn fd (Some c) w1) else None)"

definition read_query ::
  "'j json_lib \<Rightarrow> bool \<Rightarrow> sys_read \<Rightarrow> int \<Rightarrow> signaling_worker \<Rightarrow> signaling_worker option" where
  "read_query lib notified r fd w = (if \<not> conn_index w fd then Some w else do {
     c \<leftarrow> get_conn fd w;
     let (nread, d) = sock_read_data r;
     let c1 = c\<lparr>last_interaction := sw_now w\<rparr>;
     if nread = -1 then Some (close_conn c1 (set_conn fd (Some c1) w))
     else do {
       (ret, c2, ms) \<leftarrow> process_query_buffer lib notified (sw_id w) (c1\<lparr>querybuf := querybuf c1 @ d\<rparr>);
       let w1 = set_conn fd (Some c2) (w\<lparr>sw_forwarded := sw_forwarded w @ ms\<rparr>);
       Some (if ret \<noteq> 0 then close_conn c2 w1 else w1)
     }})"

subsection \<open>Writing replies\<close>

datatype write_outcome = W_done | W_closed | W_running

text \<open>The loop over the replies, one result of \<open>write\<close> per round; \<open>W_running\<close> when the results are
  used up while the loop goes on.  The written bytes come from the buffer of the reply.\<close>

fun write_loop :: "sys_write list \<Rightarrow> tcp_connection \<Rightarrow> (write_outcome \<times> tcp_connection \<times> bytes) option" where
  "write_loop rs c = (case reply_list c of
       [] \<Rightarrow> Some (W_done, c, [])
     | reply # rest \<Rightarrow> (case rs of
           [] \<Rightarrow> Some (W_running, c, [])
         | r # rs' \<Rightarrow>
             if length (sl_data reply) < sl_size reply \<or> sl_size reply < cur_resp_pos c then None
             else let nwritten = sock_write_data r; out = take (nat nwritten) (drop (cur_resp_pos c) (take (sl_size reply) (sl_data reply))) in
               if nwritten = -1 then Some (W_closed, c, [])
               else if nwritten = 0 then write_loop rs' c
               else if int (sl_size reply) \<le> nwritten + int (cur_resp_pos c)
                 then map_option (\<lambda>(o1, c1, ws). (o1, c1, out @ ws)) (write_loop rs' (c\<lparr>reply_list := rest, cur_resp_pos := 0\<rparr>))
               else map_option (\<lambda>(o1, c1, ws). (o1, c1, out @ ws))
                 (write_loop rs' (c\<lparr>cur_resp_pos := cur_resp_pos c + nat nwritten\<rparr>))))"

declare write_loop.simps [simp del]

definition write_reply :: "sys_write list \<Rightarrow> int \<Rightarrow> signaling_worker \<Rightarrow> (write_outcome \<times> signaling_worker) option" where
  "write_reply rs fd w = (if fd \<le> 0 \<or> \<not> conn_index w fd then Some (W_done, w)
     else case get_conn fd w of None \<Rightarrow> Some (W_done, w)
     | Some c \<Rightarrow> do {
         (o1, c1, ws) \<leftarrow> write_loop rs c;
         let w1 = w\<lparr>sw_written := sw_written w @ [(fd, ws)]\<rparr>;
         Some (o1, case o1 of
             W_closed \<Rightarrow> close_conn c1 (set_conn fd (Some c1) w1)
           | W_running \<Rightarrow> set_conn fd (Some c1) w1
           | W_done \<Rightarrow> set_conn fd (Some (c1\<lparr>last_interaction := sw_now w, write_watched := False\<rparr>)) w1)
       })"

subsection \<open>Messages and timers\<close>

definition offer_text :: "'j json_lib \<Rightarrow> rtc_msg \<Rightarrow> bytes" where
  "offer_text lib m = json_write lib (if err_no m \<noteq> 0
     then [(''err_no'', JInt (err_no m)), (''err_msg'', JString (bytes_of_string ''process error'')), (''offer'', JString [])]
     else [(''err_no'', JInt (err_no m)), (''err_msg'', JString (bytes_of_string ''success'')), (''offer'', JString (sdp m))])"

definition response_server_offer :: "'j json_lib \<Rightarrow> rtc_msg \<Rightarrow> signaling_worker \<Rightarrow> signaling_worker option" where
  "response_server_offer lib m w = (case msg_conn m of None \<Rightarrow> Some w
     | Some addr \<Rightarrow>
         if msg_fd m \<le> 0 \<or> \<not> conn_index w (msg_fd m) then Some w
         else case get_conn (msg_fd m) w of None \<Rightarrow> Some w
         | Some c \<Rightarrow> if tc_addr c \<noteq> addr then Some w
             else do {
               header \<leftarrow> mem_read (querybuf c) 0 XHEAD_SIZE;
               Some (set_conn (msg_fd m) (Some (add_reply (make_reply header (offer_text lib m)) c)) w)
             })"

definition sw_process_rtc_msg :: "'j json_lib \<Rightarrow> signaling_worker \<Rightarrow> signaling_worker option" where
  "sw_process_rtc_msg lib w = (case sw_pop_msg w of (None, w1) \<Rightarrow> Some w1
     | (Some m, w1) \<Rightarrow> if cmdno m = CMDNO_PUSH \<or> cmdno m = CMDNO_PULL
         then response_server_offer lib m w1 else Some w1)"

definition sw_process_notify :: "'j json_lib \<Rightarrow> nat \<Rightarrow> worker_notification \<Rightarrow> signaling_worker \<Rightarrow> signaling_worker option" where
  "sw_process_notify lib addr msg w = (case msg of
       QUIT \<Rightarrow> Some (sw_stop w)
     | NEW_CONN \<Rightarrow> do {
         (r, q) \<leftarrow> consume (sw_q_conn w);
         (case r of None \<Rightarrow> Some (w\<lparr>sw_q_conn := q\<rparr>) | Some fd \<Rightarrow> new_conn addr fd (w\<lparr>sw_q_conn := q\<rparr>))
       }
     | RTC_MSG \<Rightarrow> sw_process_rtc_msg lib w
     | Other_msg _ \<Rightarrow> Some w)"

text \<open>\<open>_el->now() - last_interaction\<close> is an unsigned subtraction of times in microseconds.\<close>

definition process_timeout :: "int \<Rightarrow> signaling_worker \<Rightarrow> signaling_worker option" where
  "process_timeout fd w = do {
     c \<leftarrow> get_conn fd w;
     Some (if (sw_now w - last_interaction c) mod 2 ^ 64 \<ge> sw_timeout w mod 2 ^ 64 then close_conn c w else w)
   }"

fun close_all :: "nat \<Rightarrow> signaling_worker \<Rightarrow> signaling_worker" where
  "close_all 0 w = w"
| "close_all (Suc n) w = (case sw_conns (close_all n w) ! n of None \<Rightarrow> close_all n w
     | Some c \<Rightarrow> close_conn c (close_all n w))"

definition delete_worker :: "signaling_worker \<Rightarrow> signaling_worker" where
  "delete_worker w = (close_all (length (sw_conns w)) w)\<lparr>sw_conns := []\<rparr>"

subsection \<open>Partial writes lose and repeat nothing\<close>

definition pending_bytes :: "tcp_connection \<Rightarrow> bytes" where
  "pending_bytes c = drop (cur_resp_pos c) (concat (map (\<lambda>s. take (sl_size s) (sl_data s)) (reply_list c)))"

definition replies_ok :: "tcp_connection \<Rightarrow> bool" where
  "replies_ok c \<longleftrightarrow> (\<forall>s \<in> set (reply_list c). sl_size s \<le> length (sl_data s)) \<and>
     (case reply_list c of [] \<Rightarrow> cur_resp_pos c = 0 | s # _ \<Rightarrow> cur_resp_pos c \<le> sl_size s)"

lemma write_loop_conserves:
  "replies_ok c \<Longrightarrow> \<forall>s \<in> set (reply_list c). 0 < sl_size s \<Longrightarrow>
   \<exists>o1 c1 ws. write_loop rs c = Some (o1, c1, ws) \<and> pending_bytes c = ws @ pending_bytes c1 \<and>
     replies_ok c1 \<and> (o1 = W_done \<longrightarrow> reply_list c1 = []) \<and> tc_fd c1 = tc_fd c"
proof (induction rs arbitrary: c)
  case Nil
  then show ?case by (subst write_loop.simps) (auto split: list.split)
next
  case (Cons r rs)
  show ?case
  proof (cases "reply_list c")
    case Nil
    then show ?thesis using Cons.prems by (subst write_loop.simps) auto
  next
    case (Cons reply rest)
    let ?n = "sock_write_data r"
    let ?out = "take (nat ?n) (drop (cur_resp_pos c) (take (sl_size reply) (sl_data reply)))"
    from Cons Cons.prems(1) have ok: "sl_size reply \<le> length (sl_data reply)" "cur_resp_pos c \<le> sl_size reply"
      "\<forall>s \<in> set rest. sl_size s \<le> length (sl_data s)"
      by (auto simp: replies_ok_def)
    have n: "?n = -1 \<or> 0 \<le> ?n" by (auto simp: sock_write_data_def split: sys_write.split)
    define c2 where "c2 = (if int (sl_size reply) \<le> ?n + int (cur_resp_pos c) then c\<lparr>reply_list := rest, cur_resp_pos := 0\<rparr>
        else c\<lparr>cur_resp_pos := cur_resp_pos c + nat ?n\<rparr>)"
    consider "?n = -1" | "?n = 0" | "0 < ?n" using n by linarith
    then show ?thesis
    proof cases
      case 3
      have ok2: "replies_ok c2" "\<forall>s \<in> set (reply_list c2). 0 < sl_size s" "tc_fd c2 = tc_fd c"
        using ok Cons Cons.prems 3 by (auto simp: c2_def replies_ok_def nat_le_iff split: list.split)
      have pend: "pending_bytes c = ?out @ pending_bytes c2"
        using ok Cons 3 by (auto simp: pending_bytes_def c2_def drop_append take_all_iff nat_le_iff le_nat_iff simp flip: drop_drop)
           (metis append_take_drop_id drop_drop add.commute)
      have "write_loop (r # rs) c = map_option (\<lambda>(o1, c1, ws). (o1, c1, ?out @ ws)) (write_loop rs c2)"
        using ok Cons 3 by (subst write_loop.simps) (simp add: Let_def c2_def)
      with Cons.IH [OF ok2(1,2)] pend ok2(3) show ?thesis by fastforce
    qed (use ok Cons Cons.prems Cons.IH [of c] in \<open>subst write_loop.simps, simp add: Let_def\<close>)+
  qed
qed

theorem write_conserves:
  assumes "replies_ok c" "\<forall>s \<in> set (reply_list c). 0 < sl_size s"
  shows "\<exists>o1 c1 ws. write_loop rs c = Some (o1, c1, ws) \<and> pending_bytes c = ws @ pending_bytes c1 \<and>
     (o1 = W_done \<longrightarrow> ws = pending_bytes c)"
proof -
  from write_loop_conserves [OF assms] obtain o1 c1 ws where
    r: "write_loop rs c = Some (o1, c1, ws)" "pending_bytes c = ws @ pending_bytes c1" "replies_ok c1"
      "o1 = W_done \<longrightarrow> reply_list c1 = []" by blast
  have "o1 = W_done \<longrightarrow> pending_bytes c1 = []" using r(4) by (simp add: pending_bytes_def)
  with r show ?thesis by auto
qed

theorem write_conserves_witness:
  "\<exists>o1 c1 ws. write_loop [Sys_written 3, Sys_write_again, Sys_written 39]
       (add_reply (make_reply demo_header (bytes_of_string ''{\"e\":0}'')) (TCPConnection 2 5)) = Some (o1, c1, ws) \<and>
     pending_bytes (add_reply (make_reply demo_header (bytes_of_string ''{\"e\":0}'')) (TCPConnection 2 5)) = ws @ pending_bytes c1 \<and>
     (o1 = W_done \<longrightarrow> ws = pending_bytes (add_reply (make_reply demo_header (bytes_of_string ''{\"e\":0}'')) (TCPConnection 2 5)))"
  by (rule write_conserves) code_simp+

text \<open>A reply is within its buffer as long as the text has at most \<open>MAX_RES_BUF\<close> bytes; a longer
  offer makes the next write read past the buffer.\<close>

theorem reply_bounds:
  assumes "length header = XHEAD_SIZE" "reply_list c = [make_reply header text]" "cur_resp_pos c = 0"
  shows "write_loop (r # rs) c \<noteq> None \<longleftrightarrow> length text \<le> MAX_RES_BUF"
proof -
  have d: "length (sl_data (make_reply header text)) = XHEAD_SIZE + min (length text) (MAX_RES_BUF - 1) + 1"
    "sl_size (make_reply header text) = XHEAD_SIZE + length text"
    using assms(1) by (simp_all add: make_reply_def xh_set_body_len_def be32_def XHEAD_SIZE_def)
  show ?thesis
  proof (cases "length text \<le> MAX_RES_BUF")
    case True
    then have "length text \<le> min (length text) (MAX_RES_BUF - 1) + 1" by (auto simp: MAX_RES_BUF_def)
    then have "replies_ok c" "\<forall>s \<in> set (reply_list c). 0 < sl_size s"
      using assms(2,3) d by (simp_all add: replies_ok_def XHEAD_SIZE_def)
    from write_loop_conserves [OF this, of "r # rs"] True show ?thesis by auto
  next
    case False
    then have "\<not> sl_size (make_reply header text) \<le> length (sl_data (make_reply header text))"
      unfolding d by (simp add: MAX_RES_BUF_def)
    with assms(2) False show ?thesis by (subst write_loop.simps) simp
  qed
qed

theorem reply_bounds_witness:
  "write_loop [Sys_written 1] ((TCPConnection 2 5)\<lparr>reply_list := [make_reply demo_header (replicate 5000 0)]\<rparr>) = None"
proof -
  have "length demo_header = XHEAD_SIZE" by code_simp
  note r = reply_bounds [OF this, of "(TCPConnection 2 5)\<lparr>reply_list := [make_reply demo_header (replicate 5000 0)]\<rparr>"
      "replicate 5000 0" "Sys_written 1" "[]"]
  have "\<not> length (replicate 5000 (0 :: byte)) \<le> MAX_RES_BUF" by (simp add: MAX_RES_BUF_def)
  with r show ?thesis by (simp only: tcp_connection.simps TCPConnection_def) blast
qed

subsection \<open>The table of connections\<close>

definition sw_inv :: "signaling_worker \<Rightarrow> bool" where
  "sw_inv w \<longleftrightarrow> (\<forall>i c. i < length (sw_conns w) \<longrightarrow> sw_conns w ! i = Some c \<longrightarrow> tc_fd c = int i) \<and>
     (\<exists>fds. lfq_rel (sw_q_conn w) fds)"

lemma sw_inv_start: "sw_inv (SignalingWorker i t)"
  using shape_init [of 0] by (fastforce simp: sw_inv_def SignalingWorker_def lfq_rel_def chain_values_def LockFreeQueue_def)

lemma get_conn_fd: "sw_inv w \<Longrightarrow> get_conn fd w = Some c \<Longrightarrow> tc_fd c = fd \<and> conn_index w fd"
  by (auto simp: sw_inv_def get_conn_def conn_index_def split: if_splits)

lemma sw_inv_set [inv_intros]: "sw_inv w \<Longrightarrow> conn_index w fd \<Longrightarrow> tc_fd c = fd \<Longrightarrow> sw_inv (set_conn fd (Some c) w)"
  by (auto simp: sw_inv_def set_conn_def conn_index_def nth_list_update)

lemma sw_inv_frame:
  "sw_conns w' = sw_conns w \<Longrightarrow> sw_q_conn w' = sw_q_conn w \<Longrightarrow> sw_inv w \<Longrightarrow> sw_inv w'"
  by (simp add: sw_inv_def)

lemma sw_inv_close [inv_intros]: "sw_inv w \<Longrightarrow> 0 \<le> tc_fd c \<Longrightarrow> sw_inv (close_conn c w)"
  by (auto simp: sw_inv_def close_conn_def set_conn_def)
     (metis nth_list_update_eq nth_list_update_neq option.distinct(1))

lemma conn_index_frame: "sw_conns w' = sw_conns w \<Longrightarrow> conn_index w' fd = conn_index w fd"
  by (simp add: conn_index_def)

lemma new_conn_inv:
  assumes "sw_inv w" "new_conn addr fd w = Some w'"
  shows "sw_inv w'"
proof (cases "fd < 0")
  case False
  define conns where "conns = (if length (sw_conns w) \<le> nat fd
       then sw_conns w @ replicate (2 * nat fd - length (sw_conns w)) None else sw_conns w)"
  have "sw_inv (w\<lparr>sw_conns := conns\<rparr>)"
    using assms(1) by (auto simp: sw_inv_def conns_def nth_append split: if_splits)
  with False assms(2) show ?thesis
    by (auto simp: new_conn_def Let_def TCPConnection_def conn_index_def simp flip: conns_def
        split: if_splits intro!: sw_inv_set)
qed (use assms in \<open>simp add: new_conn_def\<close>)

lemma query_round_fd: "query_round lib nt wid c = Some (r, c1, ms) \<Longrightarrow> tc_fd c1 = tc_fd c"
  by (auto simp: query_round_def bind_eq_Some_conv split: conn_phase.splits if_splits dest!: process_request_keeps)

lemma pqb_fd:
  assumes "process_query_buffer lib nt wid c = Some (ret, c1, ms)"
  shows "tc_fd c1 = tc_fd c"
proof -
  have "tc_fd (fst (snd (ret, c1, ms))) = tc_fd c"
  proof (rule process_query_buffer.raw_induct [where P = "\<lambda>l nt w c r. tc_fd (fst (snd r)) = tc_fd c", OF _ assms])
    fix f l nt w c r
    assume IH: "\<And>l nt w c r. f l nt w c = Some r \<Longrightarrow> tc_fd (fst (snd r)) = tc_fd c"
      and eq: "(if bytes_processed c + bytes_expected c \<le> length (querybuf c) then do {
          (r, c1, ms) \<leftarrow> query_round l nt w c;
          case r of Some ret \<Rightarrow> Some (ret, c1, ms)
          | None \<Rightarrow> do { (ret, c2, ms2) \<leftarrow> f l nt w c1; Some (ret, c2, ms @ ms2) } } else Some (0, c, [])) = Some r"
    show "tc_fd (fst (snd r)) = tc_fd c"
      using eq by (auto simp: bind_eq_Some_conv split: if_splits option.splits dest!: IH query_round_fd)
  qed
  then show ?thesis by simp
qed

lemma write_loop_fd: "write_loop rs c = Some (o1, c1, ws) \<Longrightarrow> tc_fd c1 = tc_fd c"
proof (induction rs arbitrary: c ws)
  case Nil
  then show ?case by (subst (asm) write_loop.simps) (auto split: list.splits)
next
  case (Cons r rs)
  from Cons.prems show ?case
    by (subst (asm) write_loop.simps) (auto simp: Let_def split: list.splits if_splits dest!: Cons.IH)
qed

lemma set_conn_fields [simp]:
  "sw_q_conn (set_conn fd c w) = sw_q_conn w" "conn_index (set_conn fd c w) fd' = conn_index w fd'"
  by (simp_all add: set_conn_def conn_index_def)

lemma read_query_inv:
  assumes "sw_inv w" "read_query lib nt r fd w = Some w'"
  shows "sw_inv w'"
proof (cases "conn_index w fd")
  case True
  with assms(2) obtain c where c: "get_conn fd w = Some c" by (auto simp: read_query_def)
  have fd: "tc_fd c = fd" "0 \<le> fd" using get_conn_fd [OF assms(1) c] by (simp_all add: conn_index_def)
  have f: "sw_inv (w\<lparr>sw_forwarded := ms\<rparr>)" "conn_index (w\<lparr>sw_forwarded := ms\<rparr>) fd" for ms
    using assms(1) True by (simp_all add: sw_inv_def conn_index_def)
  show ?thesis
    using assms(2) True c fd f assms(1)
    by (auto simp: read_query_def bind_eq_Some_conv Let_def split: prod.splits if_splits
        dest!: pqb_fd intro!: sw_inv_close sw_inv_set)
qed (use assms in \<open>simp add: read_query_def\<close>)

lemma write_reply_inv:
  assumes "sw_inv w" "write_reply rs fd w = Some (o1, w')"
  shows "sw_inv w'"
proof (cases "fd \<le> 0 \<or> \<not> conn_index w fd \<or> get_conn fd w = None")
  case False
  then obtain c where c: "get_conn fd w = Some c" "conn_index w fd" by auto
  have fd: "tc_fd c = fd" "0 \<le> fd" using get_conn_fd [OF assms(1) c(1)] by (simp_all add: conn_index_def)
  have f: "sw_inv (w\<lparr>sw_written := ms\<rparr>)" "conn_index (w\<lparr>sw_written := ms\<rparr>) fd" for ms
    using assms(1) c(2) by (simp_all add: sw_inv_def conn_index_def)
  show ?thesis
    using assms(2) False c fd f
    by (cases o1) (auto simp: write_reply_def bind_eq_Some_conv Let_def split: write_outcome.splits
        dest!: write_loop_fd intro!: sw_inv_close sw_inv_set)
qed (use assms in \<open>auto simp: write_reply_def split: if_splits option.splits\<close>)

lemma response_inv:
  assumes "sw_inv w" "response_server_offer lib m w = Some w'"
  shows "sw_inv w'"
  using assms get_conn_fd [OF assms(1)]
  by (auto simp: response_server_offer_def add_reply_def bind_eq_Some_conv split: option.splits if_splits intro!: sw_inv_set)

lemma process_notify_inv:
  assumes "sw_inv w" "sw_process_notify lib addr msg w = Some w'"
  shows "sw_inv w'"
proof (cases msg)
  case QUIT
  with assms show ?thesis by (auto simp: sw_process_notify_def sw_stop_def intro: sw_inv_frame [OF _ _ assms(1)])
next
  case NEW_CONN
  from assms(1) obtain fds where "lfq_rel (sw_q_conn w) fds" by (auto simp: sw_inv_def)
  from consume_rel [OF this] obtain q where
    q: "consume (sw_q_conn w) = Some (case fds of [] \<Rightarrow> None | v # _ \<Rightarrow> Some v, q)" "lfq_rel q (tl fds)" by blast
  have "sw_inv (w\<lparr>sw_q_conn := q\<rparr>)" using assms(1) q(2) by (auto simp: sw_inv_def)
  with NEW_CONN assms(2) q(1) show ?thesis
    by (auto simp: sw_process_notify_def split: option.splits list.splits intro: new_conn_inv)
next
  case RTC_MSG
  have "sw_inv w1" if "sw_pop_msg w = (m, w1)" for m w1
    using assms(1) that by (auto simp: sw_pop_msg_def sw_inv_def split: list.splits)
  with RTC_MSG assms(2) show ?thesis
    by (auto simp: sw_process_notify_def sw_process_rtc_msg_def split: prod.splits option.splits if_splits intro: response_inv)
qed (use assms in \<open>simp add: sw_process_notify_def\<close>)

lemma process_timeout_inv:
  assumes "sw_inv w" "process_timeout fd w = Some w'"
  shows "sw_inv w'"
proof -
  from assms(2) obtain c where c: "get_conn fd w = Some c" by (auto simp: process_timeout_def)
  have "0 \<le> tc_fd c" using get_conn_fd [OF assms(1) c] by (simp add: conn_index_def)
  with c assms show ?thesis by (auto simp: process_timeout_def split: if_splits intro: sw_inv_close)
qed

lemma notify_new_conn_inv:
  assumes "sw_inv w"
  shows "\<exists>ret w'. notify_new_conn ok fd w = Some (ret, w') \<and> sw_inv w'"
proof -
  from assms obtain fds where "lfq_rel (sw_q_conn w) fds" by (auto simp: sw_inv_def)
  from produce_rel [OF this, of fd] obtain q where "produce fd (sw_q_conn w) = Some q" "lfq_rel q (fds @ [fd])" by blast
  with assms show ?thesis by (auto simp: notify_new_conn_def sw_notify_def sw_inv_def)
qed

subsection \<open>The event loop of a worker\<close>

text \<open>Everything that happens to a worker, in any order: the accepting thread hands it a
  connection, the RTC worker a message, and its own loop runs a callback.\<close>

datatype worker_event =
    Hand_over bool int
  | Offer_ready bool rtc_msg
  | Pipe_readable nat worker_notification
  | Conn_readable bool sys_read int
  | Conn_writable "sys_write list" int
  | Conn_timer int
  | Clock int

definition worker_step :: "'j json_lib \<Rightarrow> worker_event \<Rightarrow> signaling_worker \<Rightarrow> signaling_worker option" where
  "worker_step lib e w = (case e of
       Hand_over ok fd \<Rightarrow> map_option snd (notify_new_conn ok fd w)
     | Offer_ready ok m \<Rightarrow> Some (snd (sw_send_rtc_msg ok m w))
     | Pipe_readable addr m \<Rightarrow> sw_process_notify lib addr m w
     | Conn_readable ok r fd \<Rightarrow> read_query lib ok r fd w
     | Conn_writable rs fd \<Rightarrow> map_option snd (write_reply rs fd w)
     | Conn_timer fd \<Rightarrow> process_timeout fd w
     | Clock t \<Rightarrow> Some (w\<lparr>sw_now := t\<rparr>))"

fun worker_run :: "'j json_lib \<Rightarrow> worker_event list \<Rightarrow> signaling_worker \<Rightarrow> signaling_worker option" where
  "worker_run lib [] w = Some w"
| "worker_run lib (e # es) w = do { w1 \<leftarrow> worker_step lib e w; worker_run lib es w1 }"

lemma worker_step_inv:
  assumes "sw_inv w" "worker_step lib e w = Some w'"
  shows "sw_inv w'"
proof (cases e)
  case (Hand_over ok fd)
  with assms notify_new_conn_inv [OF assms(1), of ok fd] show ?thesis by (auto simp: worker_step_def)
next
  case (Offer_ready ok m)
  with assms show ?thesis 
    by (auto simp: worker_step_def sw_send_rtc_msg_def sw_notify_def sw_push_msg_def intro: sw_inv_frame [OF _ _ assms(1)])
next
  case (Clock t)
  with assms show ?thesis by (auto simp: worker_step_def sw_inv_def)
qed (use assms in \<open>auto simp: worker_step_def intro: process_notify_inv read_query_inv write_reply_inv process_timeout_inv\<close>)

lemma worker_run_inv: "sw_inv w \<Longrightarrow> worker_run lib es w = Some w' \<Longrightarrow> sw_inv w'"
  by (induction es arbitrary: w) (auto simp: bind_eq_Some_conv intro: worker_step_inv)

theorem worker_table:
  assumes "worker_run lib es (SignalingWorker i timeout) = Some w" "get_conn fd w = Some c"
  shows "tc_fd c = fd \<and> 0 \<le> fd"
  using get_conn_fd [OF worker_run_inv [OF sw_inv_start assms(1)] assms(2)] by (simp add: conn_index_def)

text \<open>An offer carries the address of the connection that asked for it.  When that connection is
  gone and a new one has got its descriptor and its address, the offer is taken for the new one,
  and the header of the reply is read out of an empty buffer.\<close>

text \<open>C37: When a connection is gone and a new one has got its descriptor and its address,
  an offer meant for the old one is taken for the new one, and the header of the reply is read out
  of an empty buffer.\<close>
theorem offer_after_reuse:
  assumes "new_conn addr fd w = Some w1" "0 < fd" "msg_conn m = Some addr" "msg_fd m = fd"
  shows "response_server_offer lib m w1 = None"
proof -
  let ?c = "(TCPConnection addr fd)\<lparr>last_interaction := sw_now w\<rparr>"
  have "conn_index w1 fd" "get_conn fd w1 = Some ?c"
    using assms(1,2) by (auto simp: new_conn_def Let_def conn_index_def get_conn_def set_conn_def split: if_splits)
  then show ?thesis using assms(2-4)
    by (simp add: response_server_offer_def mem_read_def TCPConnection_def XHEAD_SIZE_def)
qed

definition demo_events :: "worker_event list" where
  "demo_events = [Hand_over True 5, Pipe_readable 2 NEW_CONN]"

theorem worker_table_witness:
  "tc_fd (the (get_conn 5 (the (worker_run demo_lib demo_events (SignalingWorker 0 30))))) = 5"
proof -
  have "\<not> Option.is_none (worker_run demo_lib demo_events (SignalingWorker 0 30))"
    "\<not> Option.is_none (get_conn 5 (the (worker_run demo_lib demo_events (SignalingWorker 0 30))))" by code_simp+
  then obtain w c where w: "worker_run demo_lib demo_events (SignalingWorker 0 30) = Some w" "get_conn 5 w = Some c"
    by (auto simp: Option.is_none_def)
  from worker_table [OF w] w show ?thesis by simp
qed

theorem offer_after_reuse_witness:
  "response_server_offer demo_lib (RtcMsg\<lparr>msg_conn := Some 2, msg_fd := 5\<rparr>) (the (new_conn 2 5 (SignalingWorker 0 30))) = None"
proof -
  have n: "new_conn 2 5 (SignalingWorker 0 30) \<noteq> None" by (simp add: new_conn_def SignalingWorker_def Let_def)
  then obtain w1 where w1: "new_conn 2 5 (SignalingWorker 0 30) = Some w1" by auto
  from offer_after_reuse [OF this, where m = "RtcMsg\<lparr>msg_conn := Some 2, msg_fd := 5\<rparr>" and lib = demo_lib]
  show ?thesis by (simp add: w1)
qed

end
