(* ===== verification/Signaling_Server.thy ===== *)
theory Signaling_Server
  imports Signaling_Worker
begin

text \<open>
  The signaling server (\<open>server/signaling_server.cpp\<close>): it creates the workers and hands every
  accepted connection to the next of them.  The values read from the configuration file and the
  outcome of \<open>pipe\<close>, \<open>create_tcp_server\<close>, \<open>accept\<close> and of the writes to the pipes are arguments.
  \<open>None\<close> as the result of a handler is an index outside the vector of workers.
\<close>

record signaling_options =
  so_worker_num :: int
  so_connection_timeout :: int

record signaling_server =
  ss_options :: signaling_options
  ss_workers :: "signaling_worker list"
  ss_next_worker_index :: int
  ss_pipe :: "int list"
  ss_thread :: bool
  ss_loop :: bool
  ss_listening :: bool

definition SignalingServer :: signaling_server where
  "SignalingServer = \<lparr>ss_options = \<lparr>so_worker_num = 0, so_connection_timeout = 0\<rparr>, ss_workers = [],
     ss_next_worker_index = 0, ss_pipe = [], ss_thread = False, ss_loop = False, ss_listening = False\<rparr>"

definition dispatch_new_conn :: "bool \<Rightarrow> int \<Rightarrow> signaling_server \<Rightarrow> signaling_server option" where
  "dispatch_new_conn ok fd s = (let
     index = ss_next_worker_index s;
     next1 = index + 1;
     next2 = (if int (length (ss_workers s)) \<le> next1 then 0 else next1) in
     if 0 \<le> index \<and> nat index < length (ss_workers s) then do {
       (_, w) \<leftarrow> notify_new_conn ok fd (ss_workers s ! nat index);
       Some (s\<lparr>ss_next_worker_index := next2, ss_workers := (ss_workers s)[nat index := w]\<rparr>)
     } else None)"

definition accept_new_conn :: "bool \<Rightarrow> int \<Rightarrow> signaling_server \<Rightarrow> signaling_server option" where
  "accept_new_conn ok cfd s = (if cfd = -1 then Some s else dispatch_new_conn ok cfd s)"

text \<open>\<open>started\<close> is whether the pipe of the worker could be made.\<close>

definition ss_create_worker :: "bool \<Rightarrow> nat \<Rightarrow> signaling_server \<Rightarrow> int \<times> signaling_server" where
  "ss_create_worker started i s = (let
     w = SignalingWorker i (so_connection_timeout (ss_options s));
     r = sw_start w in
     if \<not> started \<or> fst r \<noteq> 0 then (-1, s)
     else (0, s\<lparr>ss_workers := ss_workers s @ [snd r]\<rparr>))"

text \<open>The loop over the workers to create, \<open>k\<close> of them left.\<close>

fun ss_create_workers :: "(nat \<Rightarrow> bool) \<Rightarrow> nat \<Rightarrow> nat \<Rightarrow> signaling_server \<Rightarrow> int \<times> signaling_server" where
  "ss_create_workers started i 0 s = (0, s)"
| "ss_create_workers started i (Suc k) s = (let r = ss_create_worker (started i) i s in
     if fst r \<noteq> 0 then (-1, snd r) else ss_create_workers started (Suc i) k (snd r))"

definition ss_init :: "signaling_options option \<Rightarrow> bool \<Rightarrow> bool \<Rightarrow> (nat \<Rightarrow> bool) \<Rightarrow> signaling_server \<Rightarrow> int \<times> signaling_server" where
  "ss_init config pipe_ok listen_ok started s = (case config of None \<Rightarrow> (-1, s)
     | Some opts \<Rightarrow> let s1 = s\<lparr>ss_options := opts\<rparr> in
         if \<not> pipe_ok \<or> \<not> listen_ok then (-1, s1)
         else ss_create_workers started 0 (nat (so_worker_num opts)) (s1\<lparr>ss_listening := True\<rparr>))"

definition ss_start :: "signaling_server \<Rightarrow> bool \<times> signaling_server" where
  "ss_start s = (if ss_thread s then (False, s) else (True, s\<lparr>ss_thread := True, ss_loop := True\<rparr>))"

definition ss_notify :: "bool \<Rightarrow> int \<Rightarrow> signaling_server \<Rightarrow> int \<times> signaling_server" where
  "ss_notify ok m s = (if ok then (0, s\<lparr>ss_pipe := ss_pipe s @ [m]\<rparr>) else (-1, s))"

text \<open>Stopping writes \<open>QUIT\<close> to every worker and waits for its thread, whose loop then runs
  \<open>_stop\<close>; a worker that the message does not reach is waited for without end, \<open>None\<close>.\<close>

definition worker_quit :: "bool \<Rightarrow> signaling_worker \<Rightarrow> signaling_worker option" where
  "worker_quit ok w = (if ok \<or> \<not> sw_thread w then Some (sw_stop (snd (sw_notify ok QUIT w))) else None)"

fun quit_all :: "(nat \<Rightarrow> bool) \<Rightarrow> nat \<Rightarrow> signaling_worker list \<Rightarrow> signaling_worker list option" where
  "quit_all ok i [] = Some []"
| "quit_all ok i (w # ws) = do { w1 \<leftarrow> worker_quit (ok i) w; ws1 \<leftarrow> quit_all ok (Suc i) ws; Some (w1 # ws1) }"

definition ss_stop :: "(nat \<Rightarrow> bool) \<Rightarrow> signaling_server \<Rightarrow> signaling_server option" where
  "ss_stop ok s = (if \<not> ss_thread s then Some s else do {
     ws \<leftarrow> quit_all ok 0 (ss_workers s);
     Some (s\<lparr>ss_loop := False, ss_listening := False, ss_workers := ws\<rparr>) })"

definition ss_process_notify :: "(nat \<Rightarrow> bool) \<Rightarrow> int \<Rightarrow> signaling_server \<Rightarrow> signaling_server option" where
  "ss_process_notify ok m s = (if m = 0 then ss_stop ok s else Some s)"

definition delete_server :: "signaling_server \<Rightarrow> signaling_server" where
  "delete_server s = s\<lparr>ss_thread := False, ss_workers := []\<rparr>"

subsection \<open>Connections go round\<close>

fun accept_all :: "int list \<Rightarrow> signaling_server \<Rightarrow> signaling_server option" where
  "accept_all [] s = Some s"
| "accept_all (fd # fds) s = do { s1 \<leftarrow> accept_new_conn True fd s; accept_all fds s1 }"

text \<open>What the worker \<open>i\<close> of \<open>n\<close> is to get when the next connection is for worker \<open>k\<close>.\<close>

fun share :: "nat \<Rightarrow> nat \<Rightarrow> nat \<Rightarrow> 'a list \<Rightarrow> 'a list" where
  "share n k i [] = []"
| "share n k i (x # xs) = (if k mod n = i then [x] else []) @ share n (Suc k) i xs"

definition server_ready :: "nat \<Rightarrow> (nat \<Rightarrow> int list) \<Rightarrow> nat \<Rightarrow> signaling_server \<Rightarrow> bool" where
  "server_ready n q k s \<longleftrightarrow> length (ss_workers s) = n \<and> ss_next_worker_index s = int (k mod n) \<and>
     (\<forall>i < n. lfq_rel (sw_q_conn (ss_workers s ! i)) (q i))"

lemma dispatch_ready:
  assumes "server_ready n q k s" "0 < n"
  shows "\<exists>s1. dispatch_new_conn ok fd s = Some s1 \<and>
    server_ready n (q(k mod n := q (k mod n) @ [fd])) (Suc k) s1"
proof -
  let ?i = "k mod n"
  have i: "?i < n" using assms(2) by simp
  from assms i have "lfq_rel (sw_q_conn (ss_workers s ! ?i)) (q ?i)" by (simp add: server_ready_def)
  from produce_rel [OF this, of fd] obtain q1 where
    q1: "produce fd (sw_q_conn (ss_workers s ! ?i)) = Some q1" "lfq_rel q1 (q ?i @ [fd])" by blast
  obtain r w where w: "notify_new_conn ok fd (ss_workers s ! ?i) = Some (r, w)" "sw_q_conn w = q1"
    using q1(1) by (cases ok) (auto simp: notify_new_conn_def sw_notify_def)
  have "int (Suc k mod n) = (if int n \<le> int ?i + 1 then 0 else int ?i + 1)"
    using assms(2) i by (auto simp: mod_Suc)
  then show ?thesis using assms i w q1(2)
    by (auto simp: dispatch_new_conn_def server_ready_def Let_def nth_list_update)
qed

lemma accept_ready:
  assumes "0 < n" "-1 \<notin> set fds" "server_ready n q k s"
  shows "\<exists>s1. accept_all fds s = Some s1 \<and> server_ready n (\<lambda>i. q i @ share n k i fds) (k + length fds) s1"
  using assms(2,3)
proof (induction fds arbitrary: q k s)
  case (Cons fd fds)
  from dispatch_ready [OF Cons.prems(2) assms(1), of True fd] obtain s1 where
    s1: "dispatch_new_conn True fd s = Some s1" "server_ready n (q(k mod n := q (k mod n) @ [fd])) (Suc k) s1" by blast
  from Cons.IH [OF _ s1(2)] Cons.prems(1) obtain s2 where
    s2: "accept_all fds s1 = Some s2"
      "server_ready n (\<lambda>i. (q(k mod n := q (k mod n) @ [fd])) i @ share n (Suc k) i fds) (Suc k + length fds) s2" by auto
  have "(\<lambda>i. (q(k mod n := q (k mod n) @ [fd])) i @ share n (Suc k) i fds) = (\<lambda>i. q i @ share n k i (fd # fds))"
    by (auto simp: fun_eq_iff)
  then show ?case using s1(1) s2 Cons.prems(1) by (auto simp: accept_new_conn_def)
qed simp

lemma create_workers_ready:
  assumes "\<forall>j. started j" "\<forall>i < length (ss_workers s). lfq_rel (sw_q_conn (ss_workers s ! i)) []" "ss_next_worker_index s = 0"
  shows "\<exists>s1. ss_create_workers started i k s = (0, s1) \<and> length (ss_workers s1) = length (ss_workers s) + k \<and>
    ss_next_worker_index s1 = 0 \<and> (\<forall>i < length (ss_workers s1). lfq_rel (sw_q_conn (ss_workers s1 ! i)) [])"
  using assms(2,3)
proof (induction k arbitrary: i s)
  case (Suc k)
  let ?w = "snd (sw_start (SignalingWorker i (so_connection_timeout (ss_options s))))"
  have w: "lfq_rel (sw_q_conn ?w) []" "fst (sw_start (SignalingWorker i t)) = 0" for t
    using shape_init [of 0] by (fastforce simp: sw_start_def SignalingWorker_def lfq_rel_def chain_values_def LockFreeQueue_def)+
  let ?s = "s\<lparr>ss_workers := ss_workers s @ [?w]\<rparr>"
  have c: "ss_create_worker (started i) i s = (0, ?s)" using w(2) assms(1) by (simp add: ss_create_worker_def Let_def)
  have "\<forall>j < length (ss_workers ?s). lfq_rel (sw_q_conn (ss_workers ?s ! j)) []"
    using Suc.prems(1) w(1) by (simp add: nth_append less_Suc_eq)
  from Suc.IH [OF this, of "Suc i"] Suc.prems(2) c show ?case by simp
qed simp

text \<open>The server as it is after a successful \<open>init\<close>.\<close>

definition served_by :: "nat \<Rightarrow> int \<Rightarrow> signaling_server" where
  "served_by n timeout = snd (ss_init (Some \<lparr>so_worker_num = int n, so_connection_timeout = timeout\<rparr>) True True (\<lambda>_. True) SignalingServer)"

theorem round_robin:
  assumes "0 < n" "-1 \<notin> set fds"
  shows "\<exists>s. accept_all fds (served_by n timeout) = Some s \<and> length (ss_workers s) = n \<and>
    (\<forall>i < n. lfq_rel (sw_q_conn (ss_workers s ! i)) (share n 0 i fds))"
proof -
  let ?s = "SignalingServer\<lparr>ss_options := \<lparr>so_worker_num = int n, so_connection_timeout = timeout\<rparr>, ss_listening := True\<rparr>"
  have "\<exists>s1. ss_create_workers (\<lambda>_. True) 0 n ?s = (0, s1) \<and> length (ss_workers s1) = length (ss_workers ?s) + n \<and>
      ss_next_worker_index s1 = 0 \<and> (\<forall>i < length (ss_workers s1). lfq_rel (sw_q_conn (ss_workers s1 ! i)) [])"
    by (rule create_workers_ready) (simp_all add: SignalingServer_def)
  then have "server_ready n (\<lambda>_. []) 0 (served_by n timeout)"
    by (auto simp: served_by_def ss_init_def server_ready_def Let_def SignalingServer_def)
  from accept_ready [OF assms this] show ?thesis by (auto simp: server_ready_def)
qed

theorem round_robin_witness:
  "\<exists>s. accept_all [7, 8, 9] (served_by 2 30) = Some s \<and> length (ss_workers s) = 2 \<and>
    (\<forall>i < 2. lfq_rel (sw_q_conn (ss_workers s ! i)) (if i = 0 then [7, 9] else [8]))"
proof -
  have "share 2 0 i [7, 8, 9] = (if i = 0 then [7, 9] else [8])" if "i < 2" for i :: nat
    using that by (auto simp: less_2_cases_iff)
  with round_robin [of 2 "[7, 8, 9]" 30] show ?thesis by fastforce
qed

text \<open>A configuration without workers is accepted, and the first connection indexes the empty vector.\<close>

theorem no_workers:
  assumes "so_worker_num opts \<le> 0" "fd \<noteq> -1"
  shows "\<exists>s. ss_init (Some opts) True True started SignalingServer = (0, s) \<and> accept_new_conn ok fd s = None"
  using assms by (simp add: ss_init_def accept_new_conn_def dispatch_new_conn_def Let_def SignalingServer_def)

theorem no_workers_witness:
  "\<exists>s. ss_init (Some \<lparr>so_worker_num = 0, so_connection_timeout = 30\<rparr>) True True (\<lambda>_. True) SignalingServer = (0, s) \<and>
    accept_new_conn True 5 s = None"
  by (rule no_workers) simp_all

end
