(* ===== verification/Sdp_Text.thy ===== *)
theory Sdp_Text
  imports Udp_Port "HOL-Library.Sublist"
begin

text \<open>
  What the session descriptions need of strings: searching, decimal numbers
  (\<open>rtc_base/string_to_number.cc\<close>) and certificate fingerprints
  (\<open>rtc_base/ssl_fingerprint.cc\<close>).
\<close>

subsection \<open>Searching\<close>

text \<open>\<open>contains p s\<close> is \<open>s.find(p) != npos\<close>; \<open>substr_from n s\<close> is \<open>s.substr(n)\<close>, which throws
  \<open>std::out_of_range\<close> (\<open>None\<close>) when \<open>n\<close> is beyond the end.\<close>

fun contains :: "'c list \<Rightarrow> 'c list \<Rightarrow> bool" where
  "contains p [] \<longleftrightarrow> p = []"
| "contains p (c # cs) \<longleftrightarrow> prefix p (c # cs) \<or> contains p cs"

definition substr_from :: "nat \<Rightarrow> 'c list \<Rightarrow> 'c list option" where
  "substr_from n s = (if n \<le> length s then Some (drop n s) else None)"

definition to_lower :: "char \<Rightarrow> char" where
  "to_lower c = (let n = of_char c :: nat in if 65 \<le> n \<and> n \<le> 90 then char_of (n + 32) else c)"

definition to_upper :: "char \<Rightarrow> char" where
  "to_upper c = (let n = of_char c :: nat in if 97 \<le> n \<and> n \<le> 122 then char_of (n - 32) else c)"

definition string_of_bytes :: "bytes \<Rightarrow> string" where
  "string_of_bytes bs = map (\<lambda>b. char_of (unat b)) bs"

lemma contains_sublist: "contains p s = sublist p s"
  by (induction s) (simp_all add: sublist_Cons_right)

declare contains.simps [simp del]

text \<open>A pattern and a text that have one marker each match at the marker.\<close>

lemma contains_at:
  assumes "x \<notin> set p1" "x \<notin> set s1" "x \<notin> set s2" "x \<notin> set p2"
  shows "contains (p1 @ x # p2) (s1 @ x # s2) \<longleftrightarrow> suffix p1 s1 \<and> prefix p2 s2"
proof
  assume "contains (p1 @ x # p2) (s1 @ x # s2)"
  then obtain a b where e: "s1 @ x # s2 = (a @ p1) @ x # (p2 @ b)" by (auto simp: contains_sublist sublist_def)
  have "x \<notin> set (a @ p1)"
  proof
    assume "x \<in> set (a @ p1)"
    then have "2 \<le> count_list (s1 @ x # s2) x" unfolding e by (auto simp: count_list_0_iff Suc_le_eq)
    moreover have "count_list (s1 @ x # s2) x = 1" using assms by (simp add: count_notin)
    ultimately show False by simp
  qed
  with e assms have "s1 = a @ p1 \<and> s2 = p2 @ b" using append_Cons_eq_iff [of x s1 s2 "a @ p1" "p2 @ b"] by simp
  then show "suffix p1 s1 \<and> prefix p2 s2" by (simp add: suffix_def)
next
  assume "suffix p1 s1 \<and> prefix p2 s2"
  then obtain a b where "s1 = a @ p1" "s2 = p2 @ b" by (auto simp: suffix_def prefix_def)
  then have "s1 @ x # s2 = a @ (p1 @ x # p2) @ b" by simp
  then show "contains (p1 @ x # p2) (s1 @ x # s2)" unfolding contains_sublist by (metis sublist_appendI)
qed

lemma contains_not: "x \<in> set p \<Longrightarrow> x \<notin> set s \<Longrightarrow> \<not> contains p s"
  by (auto simp: contains_sublist sublist_def)

subsection \<open>Decimal numbers\<close>

definition isdigit :: "char \<Rightarrow> bool" where
  "isdigit c \<longleftrightarrow> 48 \<le> (of_char c :: nat) \<and> (of_char c :: nat) \<le> 57"

definition digits_value :: "string \<Rightarrow> nat" where
  "digits_value ds = foldl (\<lambda>a c. 10 * a + (of_char c - 48)) 0 ds"

text \<open>A \<open>std::string\<close> as a C string ends at its first zero character.\<close>

definition c_str :: "string \<Rightarrow> string" where
  "c_str s = takeWhile (\<lambda>c. c \<noteq> CHR 0x00) s"

definition ParseUnsigned :: "string \<Rightarrow> nat option" where
  "ParseUnsigned str = (let
     s = c_str str;
     is_negative = (s \<noteq> [] \<and> hd s = CHR ''-'');
     ds = (if is_negative then tl s else s);
     v = digits_value ds in
     if s = [] \<or> \<not> (isdigit (hd s) \<or> is_negative) then None
     else if ds = [] \<or> \<not> list_all isdigit ds then None
     else if 2 ^ 64 \<le> v then None
     else if v = 0 \<or> \<not> is_negative then Some v else None)"

text \<open>\<open>FromString\<close> for a \<open>uint32_t\<close>.\<close>

definition FromString_u32 :: "string \<Rightarrow> u32 option" where
  "FromString_u32 s = (case ParseUnsigned s of None \<Rightarrow> None
     | Some v \<Rightarrow> if v < 2 ^ 32 then Some (of_nat v) else None)"

lemma digits_value_snoc: "digits_value (ds @ [c]) = 10 * digits_value ds + (of_char c - 48)"
  by (simp add: digits_value_def)

lemma nat_to_string_digits:
  "nat_to_string n \<noteq> [] \<and> list_all isdigit (nat_to_string n) \<and> digits_value (nat_to_string n) = n"
proof (induction n rule: nat_to_string.induct)
  case (1 n)
  show ?case
  proof (cases "n < 10")
    case True
    then show ?thesis by (subst (1 2 3) nat_to_string.simps) (simp add: isdigit_def digits_value_def)
  next
    case False
    with 1 have "nat_to_string (n div 10) \<noteq> []" "list_all isdigit (nat_to_string (n div 10))"
      "digits_value (nat_to_string (n div 10)) = n div 10" by auto
    with False show ?thesis
      by (subst (1 2 3) nat_to_string.simps) (simp add: isdigit_def digits_value_snoc)
  qed
qed

lemma nat_to_string_set: "c \<in> set (nat_to_string n) \<Longrightarrow> isdigit c"
  using nat_to_string_digits [of n] by (simp add: list_all_iff)

lemma isdigit_neq: "isdigit c \<Longrightarrow> c \<noteq> CHR 0x00 \<and> c \<noteq> CHR ''-'' \<and> c \<noteq> CHR '' '' \<and> c \<noteq> CHR '':'' \<and> c \<noteq> CHR ''='' \<and> c \<noteq> CHR 0x0A \<and> c \<noteq> CHR 0x0D"
  by (auto simp: isdigit_def)

lemma ParseUnsigned_to_string: "n < 2 ^ 64 \<Longrightarrow> ParseUnsigned (nat_to_string n) = Some n"
proof -
  assume n: "n < 2 ^ 64"
  have d: "\<And>c. c \<in> set (nat_to_string n) \<Longrightarrow> isdigit c" by (rule nat_to_string_set)
  have c: "c_str (nat_to_string n) = nat_to_string n"
    unfolding c_str_def using d isdigit_neq by (auto simp: takeWhile_eq_all_conv)
  have h: "isdigit (hd (nat_to_string n))" "hd (nat_to_string n) \<noteq> CHR ''-''"
    using d [OF hd_in_set] isdigit_neq nat_to_string_digits [of n] by blast+
  show ?thesis using n h nat_to_string_digits [of n] by (simp add: ParseUnsigned_def Let_def c)
qed

lemma FromString_to_string: "FromString_u32 (nat_to_string (unat x)) = Some x"
proof -
  have "unat x < 2 ^ 32" using unsigned_less [of x] by simp
  then show ?thesis by (simp add: FromString_u32_def ParseUnsigned_to_string)
qed

subsection \<open>Fingerprints\<close>

record ssl_fingerprint =
  fp_algorithm :: string
  fp_digest :: bytes

definition IsFips180DigestAlgorithm :: "string \<Rightarrow> bool" where
  "IsFips180DigestAlgorithm alg \<longleftrightarrow> alg = ''sha-1'' \<or> alg = ''sha-224'' \<or> alg = ''sha-256'' \<or> alg = ''sha-384'' \<or> alg = ''sha-512''"

definition digest_kMaxSize :: nat where "digest_kMaxSize = 64"

definition CreateUniqueFromRfc4572 :: "string \<Rightarrow> string \<Rightarrow> ssl_fingerprint option" where
  "CreateUniqueFromRfc4572 algorithm fingerprint =
     (if algorithm = [] \<or> \<not> IsFips180DigestAlgorithm algorithm then None
      else if fingerprint = [] then None
      else let value = hex_decode_with_delimiter (Some (CHR '':'')) digest_kMaxSize fingerprint in
        if value = [] then None else Some \<lparr>fp_algorithm = algorithm, fp_digest = value\<rparr>)"

definition GetRfc4572Fingerprint :: "ssl_fingerprint \<Rightarrow> string" where
  "GetRfc4572Fingerprint fp = map to_upper (hex_encode_with_delimiter (Some (CHR '':'')) (fp_digest fp))"

lemma of_to_upper:
  "(of_char (to_upper c) :: nat) = (if 97 \<le> (of_char c :: nat) \<and> (of_char c :: nat) \<le> 122 then of_char c - 32 else of_char c)"
  by (auto simp: to_upper_def Let_def)

lemma hex_decode_nat: "hex_decode_char c = (let n = of_char c :: nat in
    if 48 \<le> n \<and> n \<le> 57 then Some (of_nat (n - 48)) else if 65 \<le> n \<and> n \<le> 70 then Some (of_nat (n - 55))
    else if 97 \<le> n \<and> n \<le> 102 then Some (of_nat (n - 87)) else None)"
proof -
  define n where "n = (of_char c :: nat)"
  have n: "(of_char c :: byte) = of_nat n" "n < 256" by (simp_all add: n_def of_nat_of_char)
  then have u: "unat (of_char c :: byte) = n" by (simp add: unat_of_nat)
  have "unat (of_char (CHR ''0'') :: byte) = 48" "unat (of_char (CHR ''9'') :: byte) = 57" "unat (of_char (CHR ''A'') :: byte) = 65"
    "unat (of_char (CHR ''F'') :: byte) = 70" "unat (of_char (CHR ''a'') :: byte) = 97" "unat (of_char (CHR ''f'') :: byte) = 102"
    by simp_all
  then show ?thesis
    unfolding hex_decode_char_def Let_def word_le_nat_alt u n_def [symmetric]
    by (auto simp: n(1) of_nat_diff)
qed

lemma hex_decode_upper: "hex_decode_char (to_upper c) = hex_decode_char c"
  unfolding hex_decode_nat of_to_upper Let_def by auto

lemma to_upper_colon: "to_upper c = CHR '':'' \<longleftrightarrow> c = CHR '':''"
proof -
  have "x = CHR '':'' \<longleftrightarrow> (of_char x :: nat) = 58" for x
    using of_char_eq_iff [where 'a = nat, of x "CHR '':''"] by simp
  moreover have "(of_char (to_upper c) :: nat) = 58 \<longleftrightarrow> (of_char c :: nat) = 58" by (auto simp: of_to_upper)
  ultimately show ?thesis by blast
qed

lemma hex_decode_loop_upper:
  "d = Some (CHR '':'') \<Longrightarrow> hex_decode_loop d (map to_upper s) = hex_decode_loop d s"
proof (induction d s rule: hex_decode_loop.induct)
  case (3 d c1 c2 cs)
  show ?case
  proof (cases cs)
    case Nil
    with 3 show ?thesis by (simp add: hex_decode_upper split: option.split)
  next
    case (Cons y zs)
    with 3 show ?thesis
      by (cases zs) (simp_all add: hex_decode_upper to_upper_colon split: option.split)
  qed
qed simp_all

lemma CreateUnique_Get:
  assumes "IsFips180DigestAlgorithm (fp_algorithm fp)" "fp_digest fp \<noteq> []" "length (fp_digest fp) \<le> digest_kMaxSize"
  shows "CreateUniqueFromRfc4572 (fp_algorithm fp) (GetRfc4572Fingerprint fp) = Some fp"
proof -
  have n: "fp_algorithm fp \<noteq> []" using assms(1) by (auto simp: IsFips180DigestAlgorithm_def)
  have l: "length (GetRfc4572Fingerprint fp) = 3 * length (fp_digest fp) - 1"
    using assms(2) by (simp add: GetRfc4572Fingerprint_def length_hex_encode)
  have "hex_decode_loop (Some (CHR '':'')) (GetRfc4572Fingerprint fp) = Some (fp_digest fp)"
    by (simp add: GetRfc4572Fingerprint_def hex_decode_loop_upper hex_decode_loop_encode)
  then have "hex_decode_with_delimiter (Some (CHR '':'')) digest_kMaxSize (GetRfc4572Fingerprint fp) = fp_digest fp"
    using assms(2,3) l by (cases "fp_digest fp") (simp_all add: hex_decode_with_delimiter_def digest_kMaxSize_def)
  moreover have "GetRfc4572Fingerprint fp \<noteq> []" using l assms(2) by (cases "fp_digest fp") auto
  ultimately show ?thesis using assms n by (simp add: CreateUniqueFromRfc4572_def)
qed

theorem fingerprint_roundtrip:
  assumes "IsFips180DigestAlgorithm (fp_algorithm fp)" "fp_digest fp \<noteq> []" "length (fp_digest fp) \<le> digest_kMaxSize"
  shows "CreateUniqueFromRfc4572 (fp_algorithm fp) (GetRfc4572Fingerprint fp) = Some fp"
  by (rule CreateUnique_Get [OF assms])

definition demo_fp :: ssl_fingerprint where
  "demo_fp = \<lparr>fp_algorithm = ''sha-256'', fp_digest = [0xCA, 0xFE, 0x01]\<rparr>"

theorem fingerprint_roundtrip_witness:
  "CreateUniqueFromRfc4572 ''sha-256'' (GetRfc4572Fingerprint demo_fp) = Some demo_fp"
  using fingerprint_roundtrip [of demo_fp] by (simp add: demo_fp_def IsFips180DigestAlgorithm_def digest_kMaxSize_def)

end
