(* ===== verification/Session_Description.thy ===== *)
theory Session_Description
  imports Sdp_Text
begin

text \<open>
  Session descriptions (\<open>pc/session_description.*\<close>, \<open>pc/codec_info.h\<close>, \<open>pc/stream_params.*\<close>):
  media contents, groups, transport descriptions, and the text of an offer.  The text is a list
  of lines, each followed by CR LF.  The fingerprint of a certificate (OpenSSL) and
  \<open>inet_ntop\<close> are arguments.
\<close>

subsection \<open>Codecs and streams\<close>

record feedback_param =
  fb_id :: string
  fb_param :: string

record codec_info =
  codec_id :: int
  codec_name :: string
  codec_clockrate :: int
  codec_feedback :: "feedback_param list"
  codec_param :: "(string \<times> string) list"
  codec_channels :: "int option"

record ssrc_group =
  semantics :: string
  group_ssrcs :: "u32 list"

record stream_params =
  sp_id :: string
  sp_ssrcs :: "u32 list"
  sp_ssrc_groups :: "ssrc_group list"
  sp_cname :: string
  sp_stream_id :: string

definition StreamParams :: stream_params where
  "StreamParams = \<lparr>sp_id = [], sp_ssrcs = [], sp_ssrc_groups = [], sp_cname = [], sp_stream_id = []\<rparr>"

definition has_ssrc :: "u32 \<Rightarrow> stream_params \<Rightarrow> bool" where
  "has_ssrc ssrc p \<longleftrightarrow> ssrc \<in> set (sp_ssrcs p)"

subsection \<open>Contents, groups and transports\<close>

datatype sdp_type = K_offer | K_answer
datatype media_type = MEDIA_TYPE_AUDIO | MEDIA_TYPE_VIDEO
datatype rtp_direction = K_send_recv | K_send_only | K_recv_only | K_inactive
datatype connection_role = Role_NONE | ACTIVE | PASSIVE | ACTPASS | HOLDCONN

record media_content =
  mc_type :: media_type
  mc_codecs :: "codec_info list"
  mc_direction :: rtp_direction
  mc_rtcp_mux :: bool
  mc_candidates :: "candidate list"
  mc_streams :: "stream_params list"

definition media_mid :: "media_type \<Rightarrow> string" where
  "media_mid t = (case t of MEDIA_TYPE_AUDIO \<Rightarrow> ''audio'' | MEDIA_TYPE_VIDEO \<Rightarrow> ''video'')"

definition mc_mid :: "media_content \<Rightarrow> string" where
  "mc_mid c = media_mid (mc_type c)"

definition feedback :: "string \<Rightarrow> string \<Rightarrow> feedback_param" where
  "feedback i p = \<lparr>fb_id = i, fb_param = p\<rparr>"

definition opus_codec :: codec_info where
  "opus_codec = \<lparr>codec_id = 111, codec_name = ''opus'', codec_clockrate = 48000,
     codec_feedback = [feedback ''transport-cc'' ''''],
     codec_param = map_assign string_less ''useinbandfec'' ''1'' (map_assign string_less ''minptime'' ''10'' []),
     codec_channels = Some 2\<rparr>"

definition h264_codec :: codec_info where
  "h264_codec = \<lparr>codec_id = 107, codec_name = ''h264'', codec_clockrate = 90000,
     codec_feedback = [feedback ''goog-remb'' '''', feedback ''transport-cc'' '''', feedback ''ccm'' ''fir'',
       feedback ''nack'' '''', feedback ''nack'' ''pli''],
     codec_param = map_assign string_less ''profile-level-id'' ''42e01f'' (map_assign string_less ''packetization-mode'' ''1''
       (map_assign string_less ''level-asymmetry-allowed'' ''1'' [])),
     codec_channels = None\<rparr>"

definition int_to_string :: "int \<Rightarrow> string" where
  "int_to_string i = (if i < 0 then ''-'' @ nat_to_string (nat (- i)) else nat_to_string (nat i))"

definition rtx_codec :: codec_info where
  "rtx_codec = \<lparr>codec_id = 99, codec_name = ''rtx'', codec_clockrate = 90000, codec_feedback = [],
     codec_param = map_assign string_less ''apt'' (int_to_string (codec_id h264_codec)) [], codec_channels = None\<rparr>"

text \<open>The constructors leave \<open>_direction\<close> uninitialised: \<open>d\<close> is what is found there.\<close>

definition AudioContentDescription :: "rtp_direction \<Rightarrow> media_content" where
  "AudioContentDescription d = \<lparr>mc_type = MEDIA_TYPE_AUDIO, mc_codecs = [opus_codec], mc_direction = d,
     mc_rtcp_mux = True, mc_candidates = [], mc_streams = []\<rparr>"

definition VideoContentDescription :: "rtp_direction \<Rightarrow> media_content" where
  "VideoContentDescription d = \<lparr>mc_type = MEDIA_TYPE_VIDEO, mc_codecs = [h264_codec, rtx_codec], mc_direction = d,
     mc_rtcp_mux = True, mc_candidates = [], mc_streams = []\<rparr>"

definition mc_add_candidates :: "candidate list \<Rightarrow> media_content \<Rightarrow> media_content" where
  "mc_add_candidates cs c = c\<lparr>mc_candidates := cs\<rparr>"

definition mc_add_stream :: "stream_params \<Rightarrow> media_content \<Rightarrow> media_content" where
  "mc_add_stream p c = c\<lparr>mc_streams := mc_streams c @ [p]\<rparr>"

record content_group =
  content_names :: "string list"
  cg_semantics :: string

definition add_content_name :: "string \<Rightarrow> content_group \<Rightarrow> content_group" where
  "add_content_name n g = (if n \<in> set (content_names g) then g else g\<lparr>content_names := content_names g @ [n]\<rparr>)"

record transport_description =
  td_mid :: string
  td_ice_ufrag :: string
  td_ice_pwd :: string
  td_fingerprint :: "ssl_fingerprint option"
  td_role :: connection_role

definition TransportDescription :: transport_description where
  "TransportDescription = \<lparr>td_mid = [], td_ice_ufrag = [], td_ice_pwd = [], td_fingerprint = None, td_role = Role_NONE\<rparr>"

record session_description =
  sd_type :: sdp_type
  sd_contents :: "media_content list"
  sd_groups :: "content_group list"
  sd_transports :: "transport_description list"

definition SessionDescription :: "sdp_type \<Rightarrow> session_description" where
  "SessionDescription t = \<lparr>sd_type = t, sd_contents = [], sd_groups = [], sd_transports = []\<rparr>"

definition get_content :: "string \<Rightarrow> session_description \<Rightarrow> media_content option" where
  "get_content mid s = find (\<lambda>c. mc_mid c = mid) (sd_contents s)"

definition get_transport_info :: "string \<Rightarrow> session_description \<Rightarrow> transport_description option" where
  "get_transport_info mid s = find (\<lambda>t. td_mid t = mid) (sd_transports s)"

definition add_group :: "content_group \<Rightarrow> session_description \<Rightarrow> session_description" where
  "add_group g s = s\<lparr>sd_groups := sd_groups s @ [g]\<rparr>"

definition get_group_by_name :: "string \<Rightarrow> session_description \<Rightarrow> content_group list" where
  "get_group_by_name n s = filter (\<lambda>g. cg_semantics g = n) (sd_groups s)"

definition add_content :: "media_content \<Rightarrow> session_description \<Rightarrow> session_description" where
  "add_content c s = s\<lparr>sd_contents := sd_contents s @ [c]\<rparr>"

definition add_transport_description :: "transport_description \<Rightarrow> session_description \<Rightarrow> session_description" where
  "add_transport_description t s = s\<lparr>sd_transports := sd_transports s @ [t]\<rparr>"

definition add_transport_info ::
  "(nat \<Rightarrow> ssl_fingerprint option) \<Rightarrow> string \<Rightarrow> ice_parameters \<Rightarrow> nat option \<Rightarrow> session_description
     \<Rightarrow> bool \<times> session_description" where
  "add_transport_info fingerprint_of mid ice_param certificate s = (let
     fp = (case certificate of None \<Rightarrow> None | Some c \<Rightarrow> fingerprint_of c);
     t = \<lparr>td_mid = mid, td_ice_ufrag = string_of_bytes (ice_ufrag ice_param), td_ice_pwd = string_of_bytes (ice_pwd ice_param),
       td_fingerprint = fp, td_role = (if sd_type s = K_offer then ACTPASS else ACTIVE)\<rparr> in
     if certificate \<noteq> None \<and> fp = None then (False, s)
     else (True, add_transport_description t s))"

definition is_bundle :: "string \<Rightarrow> session_description \<Rightarrow> bool" where
  "is_bundle mid s \<longleftrightarrow> (\<exists>g \<in> set (get_group_by_name ''BUNDLE'' s). mid \<in> set (content_names g))"

text \<open>\<open>None\<close> when the first group has no name: the code indexes an empty vector.\<close>

definition get_first_bundle_mid :: "session_description \<Rightarrow> string option" where
  "get_first_bundle_mid s = (case get_group_by_name ''BUNDLE'' s of [] \<Rightarrow> Some []
     | g # _ \<Rightarrow> (case content_names g of [] \<Rightarrow> None | n # _ \<Rightarrow> Some n))"

subsection \<open>The text\<close>

definition add_rtcp_fb_line :: "codec_info \<Rightarrow> string list" where
  "add_rtcp_fb_line codec = map (\<lambda>p. ''a=rtcp-fd:'' @ int_to_string (codec_id codec) @ '' '' @ fb_id p @
     (if fb_param p \<noteq> [] then '' '' @ fb_param p else [])) (codec_feedback codec)"

definition add_fmtp_line :: "codec_info \<Rightarrow> string list" where
  "add_fmtp_line codec = (if codec_param codec \<noteq> [] then
     [''a=fmtp:'' @ int_to_string (codec_id codec) @ '' '' @
       tl (concat (map (\<lambda>(k, v). '';'' @ k @ ''='' @ v) (codec_param codec)))] else [])"

definition build_rtp_map :: "media_content \<Rightarrow> string list" where
  "build_rtp_map content = concat (map (\<lambda>codec.
     [''a=rtpmap:'' @ int_to_string (codec_id codec) @ '' '' @ codec_name codec @ ''/'' @ int_to_string (codec_clockrate codec) @
       (case codec_channels codec of Some n \<Rightarrow> ''/'' @ int_to_string n | None \<Rightarrow> [])]
     @ add_rtcp_fb_line codec @ add_fmtp_line codec) (mc_codecs content))"

definition build_rtp_direction :: "media_content \<Rightarrow> string" where
  "build_rtp_direction content = (case mc_direction content of K_send_recv \<Rightarrow> ''a=sendrecv'' | K_send_only \<Rightarrow> ''a=sendonly''
     | K_recv_only \<Rightarrow> ''a=recvonly'' | K_inactive \<Rightarrow> ''a=inactive'')"

definition connection_role_to_string :: "connection_role \<Rightarrow> string" where
  "connection_role_to_string r = (case r of ACTIVE \<Rightarrow> ''active'' | PASSIVE \<Rightarrow> ''passive'' | ACTPASS \<Rightarrow> ''actpass''
     | HOLDCONN \<Rightarrow> ''holdconn'' | Role_NONE \<Rightarrow> ''none'')"

definition candidate_line :: "(ip_address \<Rightarrow> string) \<Rightarrow> candidate \<Rightarrow> string" where
  "candidate_line ntop c = ''a=candidate:'' @ foundation c @ '' '' @ int_to_string (component_code (component c)) @ '' '' @
     protocol c @ '' '' @ nat_to_string (unat (cand_priority c)) @ '' '' @ HostAsURIString ntop (address c) @ '' '' @
     int_to_string (cand_port c) @ '' typ '' @ cand_type c"

definition build_candidate :: "(ip_address \<Rightarrow> string) \<Rightarrow> media_content \<Rightarrow> string list" where
  "build_candidate ntop content = map (candidate_line ntop) (mc_candidates content)"

definition add_ssrc_line :: "u32 \<Rightarrow> string \<Rightarrow> string \<Rightarrow> string" where
  "add_ssrc_line ssrc attribute value = ''a=ssrc:'' @ nat_to_string (unat ssrc) @ '' '' @ attribute @ '':'' @ value"

definition ssrc_group_line :: "ssrc_group \<Rightarrow> string" where
  "ssrc_group_line g = ''a=ssrc-group'' @ semantics g @ concat (map (\<lambda>s. '' '' @ nat_to_string (unat s)) (group_ssrcs g))"

definition ssrc_lines :: "stream_params \<Rightarrow> u32 \<Rightarrow> string list" where
  "ssrc_lines track ssrc = [add_ssrc_line ssrc ''cname'' (sp_cname track),
     add_ssrc_line ssrc ''msid'' (sp_stream_id track @ '' '' @ sp_id track),
     add_ssrc_line ssrc ''mslabel'' (sp_stream_id track), add_ssrc_line ssrc ''lable'' (sp_id track)]"

definition track_lines :: "stream_params \<Rightarrow> string list" where
  "track_lines track = map ssrc_group_line (filter (\<lambda>g. group_ssrcs g \<noteq> []) (sp_ssrc_groups track)) @
     concat (map (ssrc_lines track) (sp_ssrcs track))"

definition build_ssrc :: "media_content \<Rightarrow> string list" where
  "build_ssrc content = concat (map track_lines (mc_streams content))"

definition session_lines :: "session_description \<Rightarrow> string list" where
  "session_lines s = [''v=0'', ''o=- 0 2 IN IP4 127.0.0.1'', ''s=-'', ''t=0 0''] @
     (let gs = get_group_by_name ''BUNDLE'' s in
        if gs \<noteq> [] then [''a=group:BUNDLE'' @ concat (map (\<lambda>n. '' '' @ n) (concat (map content_names gs)))] else []) @
     [''a=msid-semantic: WMS'']"

definition transport_lines :: "transport_description option \<Rightarrow> string list" where
  "transport_lines t = (case t of None \<Rightarrow> [] | Some t \<Rightarrow>
     [''a=ice-ufrag:'' @ td_ice_ufrag t, ''a=ice-pwd:'' @ td_ice_pwd t] @
     (case td_fingerprint t of None \<Rightarrow> [] | Some fp \<Rightarrow>
        [''a=fingerprint:'' @ fp_algorithm fp @ '' '' @ GetRfc4572Fingerprint fp,
         ''a=setup:'' @ connection_role_to_string (td_role t)]))"

definition media_lines :: "(ip_address \<Rightarrow> string) \<Rightarrow> session_description \<Rightarrow> media_content \<Rightarrow> string list" where
  "media_lines ntop s content =
     [''m='' @ mc_mid content @ '' 9 UDP/TLS/RTP/SAVPF'' @
        concat (map (\<lambda>codec. '' '' @ int_to_string (codec_id codec)) (mc_codecs content)),
      ''c=IN IP4 0.0.0.0'', ''a=rtcp:9 IN IP4 0.0.0.0''] @
     build_candidate ntop content @
     transport_lines (get_transport_info (mc_mid content) s) @
     [''a=mid:'' @ mc_mid content, build_rtp_direction content] @
     (if mc_rtcp_mux content then [''a=rtcp-mux''] else []) @
     build_rtp_map content @ build_ssrc content"

definition sdp_text :: "string list \<Rightarrow> string" where
  "sdp_text ls = concat (map (\<lambda>l. l @ [CHR 0x0D, CHR 0x0A]) ls)"

definition sd_to_string :: "(ip_address \<Rightarrow> string) \<Rightarrow> session_description \<Rightarrow> string" where
  "sd_to_string ntop s = sdp_text (session_lines s @ concat (map (media_lines ntop s) (sd_contents s)))"

end
