(* ===== verification/Sdp_Answer.thy ===== *)
theory Sdp_Answer
  imports Session_Description
begin

text \<open>
  Reading the answer of a browser: the static functions of \<open>pc/peer_connection.cpp\<close> and the
  loop of \<open>set_remote_sdp\<close>.  A step can succeed, fail (the function returns -1), or throw:
  \<open>std::string::substr\<close> beyond the end raises \<open>std::out_of_range\<close>, which nothing catches.
\<close>

datatype 'a sdp_step = Parsed 'a | Bad_line | Throws

definition sdp_get_attribute :: "string \<Rightarrow> string" where
  "sdp_get_attribute line = (let fields = tokenize line (CHR '':'') in
     if length fields < 2 then [] else fields ! 1)"

definition parse_fingerprint :: "transport_description \<Rightarrow> string \<Rightarrow> transport_description sdp_step" where
  "parse_fingerprint td line = (let items = tokenize line (CHR '' '') in
     if length items \<noteq> 2 then Bad_line
     else case substr_from 14 (items ! 0) of None \<Rightarrow> Throws
     | Some alg \<Rightarrow> (case CreateUniqueFromRfc4572 (map to_lower alg) (items ! 1) of
           None \<Rightarrow> Bad_line
         | Some fp \<Rightarrow> Parsed (td\<lparr>td_fingerprint := Some fp\<rparr>)))"

definition parse_transport_info :: "transport_description \<Rightarrow> string \<Rightarrow> transport_description sdp_step" where
  "parse_transport_info td line =
     (if contains ''a=ice-ufrag'' line then Parsed (td\<lparr>td_ice_ufrag := sdp_get_attribute line\<rparr>)
      else if contains ''a=ice-pwd'' line then Parsed (td\<lparr>td_ice_pwd := sdp_get_attribute line\<rparr>)
      else if contains ''a=fingerprint'' line then parse_fingerprint td line
      else Parsed td)"

record ssrc_info =
  ssrc_id :: u32
  cname :: string
  stream_id :: string
  track_id :: string

definition SsrcInfo :: "u32 \<Rightarrow> ssrc_info" where
  "SsrcInfo i = \<lparr>ssrc_id = i, cname = [], stream_id = [], track_id = []\<rparr>"

text \<open>The entry of the id, a new one at the end when there is none.\<close>

fun upd_ssrc :: "u32 \<Rightarrow> (ssrc_info \<Rightarrow> ssrc_info) \<Rightarrow> ssrc_info list \<Rightarrow> ssrc_info list" where
  "upd_ssrc i f [] = [f (SsrcInfo i)]"
| "upd_ssrc i f (x # xs) = (if ssrc_id x = i then f x # xs else x # upd_ssrc i f xs)"

definition ssrc_attribute :: "u32 \<Rightarrow> string \<Rightarrow> string \<Rightarrow> ssrc_info list \<Rightarrow> ssrc_info list sdp_step" where
  "ssrc_attribute i attribute value infos =
     (if attribute = ''cname'' then Parsed (upd_ssrc i (\<lambda>x. x\<lparr>cname := value\<rparr>) infos)
      else if attribute = ''msid'' then let fields = split value (CHR '' '') in
        if length fields < 1 \<or> 2 < length fields then Bad_line
        else Parsed (upd_ssrc i (\<lambda>x. x\<lparr>stream_id := fields ! 0,
               track_id := (if length fields = 2 then fields ! 1 else track_id x)\<rparr>) infos)
      else Parsed (upd_ssrc i id infos))"

definition parse_ssrc_info :: "ssrc_info list \<Rightarrow> string \<Rightarrow> ssrc_info list sdp_step" where
  "parse_ssrc_info infos line =
     (if \<not> contains ''a=ssrc:'' line then Parsed infos
      else case tokenize_first (drop 2 line) (CHR '' '') of None \<Rightarrow> Bad_line
      | Some (field1, field2) \<Rightarrow> (case substr_from 5 field1 of None \<Rightarrow> Throws
          | Some ids \<Rightarrow> (case FromString_u32 ids of None \<Rightarrow> Bad_line
              | Some i \<Rightarrow> (case tokenize_first field2 (CHR '':'') of None \<Rightarrow> Bad_line
                  | Some (attribute, value) \<Rightarrow> ssrc_attribute i attribute value infos))))"

fun parse_ssrcs :: "string list \<Rightarrow> u32 list option" where
  "parse_ssrcs [] = Some []"
| "parse_ssrcs (f # fs) = do { i \<leftarrow> FromString_u32 f; is \<leftarrow> parse_ssrcs fs; Some (i # is) }"

definition parse_ssrc_group_info :: "ssrc_group list \<Rightarrow> string \<Rightarrow> ssrc_group list sdp_step" where
  "parse_ssrc_group_info groups line =
     (if \<not> contains ''a=ssrc-group:'' line then Parsed groups
      else let fields = split (drop 2 line) (CHR '' '') in
        if length fields < 2 then Bad_line
        else let sem = sdp_get_attribute (fields ! 0) in
          if sem = [] then Bad_line
          else case parse_ssrcs (tl fields) of None \<Rightarrow> Bad_line
            | Some ids \<Rightarrow> Parsed (groups @ [\<lparr>semantics = sem, group_ssrcs = ids\<rparr>]))"

text \<open>The track of an id, a new one at the end when there is none.\<close>

fun upd_track :: "string \<Rightarrow> (stream_params \<Rightarrow> stream_params) \<Rightarrow> stream_params list \<Rightarrow> stream_params list" where
  "upd_track t f [] = [f (StreamParams\<lparr>sp_id := t\<rparr>)]"
| "upd_track t f (x # xs) = (if sp_id x = t then f x # xs else x # upd_track t f xs)"

definition create_track_from_ssrc_info :: "ssrc_info list \<Rightarrow> stream_params list \<Rightarrow> stream_params list" where
  "create_track_from_ssrc_info infos tracks = foldl (\<lambda>ts x. upd_track (track_id x)
     (\<lambda>p. p\<lparr>sp_cname := cname x, sp_stream_id := stream_id x, sp_ssrcs := sp_ssrcs p @ [ssrc_id x]\<rparr>) ts) tracks infos"

text \<open>The loop over the video groups: it appends all tracks to the content once per group.\<close>

definition video_group :: "ssrc_group \<Rightarrow> stream_params list \<times> stream_params list \<Rightarrow> stream_params list \<times> stream_params list" where
  "video_group g s = (case group_ssrcs g of [] \<Rightarrow> s
     | ssrc # _ \<Rightarrow> let tracks = map (\<lambda>t. if has_ssrc ssrc t then t\<lparr>sp_ssrc_groups := sp_ssrc_groups t @ [g]\<rparr> else t) (fst s) in
         (tracks, snd s @ tracks))"

definition video_streams :: "ssrc_info list \<Rightarrow> ssrc_group list \<Rightarrow> stream_params list" where
  "video_streams infos groups = snd (fold video_group groups (create_track_from_ssrc_info infos [], []))"

subsection \<open>The lines of an answer\<close>

text \<open>The local variables of \<open>set_remote_sdp\<close> and what it adds to \<open>_remote_desc\<close>; the contents are
  pointers to the two objects made before the loop.\<close>

record answer_state =
  as_media :: string
  as_contents :: "media_type list"
  as_groups :: "content_group list"
  as_audio_td :: transport_description
  as_video_td :: transport_description
  as_audio_ssrc :: "ssrc_info list"
  as_video_ssrc :: "ssrc_info list"
  as_video_groups :: "ssrc_group list"

definition answer_start :: answer_state where
  "answer_start = \<lparr>as_media = [], as_contents = [], as_groups = [], as_audio_td = TransportDescription,
     as_video_td = TransportDescription, as_audio_ssrc = [], as_video_ssrc = [], as_video_groups = []\<rparr>"

definition bundle_line :: "string \<Rightarrow> answer_state \<Rightarrow> answer_state" where
  "bundle_line field s = (let items = split field (CHR '' '') in
     if 1 < length items
     then s\<lparr>as_groups := as_groups s @ [fold add_content_name (tl items) \<lparr>content_names = [], cg_semantics = ''BUNDLE''\<rparr>]\<rparr>
     else s)"

definition media_line :: "string \<Rightarrow> answer_state \<Rightarrow> answer_state sdp_step" where
  "media_line field s = (let items = split field (CHR '' '') in
     if length items \<le> 2 then Bad_line
     else case substr_from 2 (items ! 0) of None \<Rightarrow> Throws
     | Some m \<Rightarrow> let s1 = s\<lparr>as_media := m\<rparr> in
         Parsed (if m = ''audio'' then s1\<lparr>as_contents := as_contents s1 @ [MEDIA_TYPE_AUDIO],
             as_audio_td := (as_audio_td s1)\<lparr>td_mid := ''audio''\<rparr>\<rparr>
           else if m = ''video'' then s1\<lparr>as_contents := as_contents s1 @ [MEDIA_TYPE_VIDEO],
             as_video_td := (as_video_td s1)\<lparr>td_mid := ''video''\<rparr>\<rparr>
           else s1))"

definition group_or_media_line :: "string \<Rightarrow> answer_state \<Rightarrow> answer_state sdp_step" where
  "group_or_media_line field s = (if contains ''m=group:BUNDLE'' field then Parsed (bundle_line field s)
     else if contains ''m='' field then media_line field s else Parsed s)"

fun and_then :: "'a sdp_step \<Rightarrow> ('a \<Rightarrow> 'b sdp_step) \<Rightarrow> 'b sdp_step" where
  "and_then (Parsed x) f = f x"
| "and_then Bad_line f = Bad_line"
| "and_then Throws f = Throws"

definition audio_line :: "string \<Rightarrow> answer_state \<Rightarrow> answer_state sdp_step" where
  "audio_line field s = and_then (parse_transport_info (as_audio_td s) field) (\<lambda>td.
     and_then (parse_ssrc_info (as_audio_ssrc s) field) (\<lambda>infos.
       Parsed (s\<lparr>as_audio_td := td, as_audio_ssrc := infos\<rparr>)))"

definition video_line :: "string \<Rightarrow> answer_state \<Rightarrow> answer_state sdp_step" where
  "video_line field s = and_then (parse_transport_info (as_video_td s) field) (\<lambda>td.
     and_then (parse_ssrc_group_info (as_video_groups s) field) (\<lambda>groups.
       and_then (parse_ssrc_info (as_video_ssrc s) field) (\<lambda>infos.
         Parsed (s\<lparr>as_video_td := td, as_video_groups := groups, as_video_ssrc := infos\<rparr>))))"

text \<open>One round of the loop.  The second component is what has been added to \<open>_remote_desc\<close> when the
  round ends, which stays there if the round fails.\<close>

definition answer_line :: "string \<Rightarrow> answer_state \<Rightarrow> answer_state sdp_step \<times> answer_state" where
  "answer_line field s = (case group_or_media_line field s of
       Parsed s1 \<Rightarrow> (if as_media s1 = ''audio'' then audio_line field s1
          else if as_media s1 = ''video'' then video_line field s1 else Parsed s1, s1)
     | Bad_line \<Rightarrow> (Bad_line, s) | Throws \<Rightarrow> (Throws, s))"

fun answer_loop :: "bool \<Rightarrow> string list \<Rightarrow> answer_state \<Rightarrow> answer_state sdp_step \<times> answer_state" where
  "answer_loop is_rn [] s = (Parsed s, s)"
| "answer_loop is_rn (f # fs) s = (let field = (if is_rn then butlast f else f) in
     case answer_line field s of (Parsed s1, _) \<Rightarrow> answer_loop is_rn fs s1
     | (Bad_line, s1) \<Rightarrow> (Bad_line, s1) | (Throws, s1) \<Rightarrow> (Throws, s1))"

text \<open>The remote description as left in \<open>_remote_desc\<close>: complete after the last line, without streams
  and transports when a line fails.  \<open>d\<close> is the uninitialised direction of the contents.\<close>

definition content_of :: "rtp_direction \<Rightarrow> stream_params list \<Rightarrow> stream_params list \<Rightarrow> media_type \<Rightarrow> media_content" where
  "content_of d audio video t = (case t of
       MEDIA_TYPE_AUDIO \<Rightarrow> fold mc_add_stream audio (AudioContentDescription d)
     | MEDIA_TYPE_VIDEO \<Rightarrow> fold mc_add_stream video (VideoContentDescription d))"

definition partial_description :: "rtp_direction \<Rightarrow> answer_state \<Rightarrow> session_description" where
  "partial_description d s = (SessionDescription K_answer)\<lparr>sd_contents := map (content_of d [] []) (as_contents s),
     sd_groups := as_groups s\<rparr>"

definition answer_description :: "rtp_direction \<Rightarrow> answer_state \<Rightarrow> session_description" where
  "answer_description d s = (let
     audio = create_track_from_ssrc_info (as_audio_ssrc s) [];
     video = video_streams (as_video_ssrc s) (as_video_groups s) in
     add_transport_description (as_video_td s) (add_transport_description (as_audio_td s)
       ((SessionDescription K_answer)\<lparr>sd_contents := map (content_of d audio video) (as_contents s), sd_groups := as_groups s\<rparr>)))"

datatype answer_result =
    No_lines
  | Rejected session_description
  | Thrown session_description
  | Accepted session_description

definition parse_answer :: "rtp_direction \<Rightarrow> string \<Rightarrow> answer_result" where
  "parse_answer d sdp = (let fields = tokenize sdp (CHR 0x0A) in
     if fields = [] then No_lines
     else case answer_loop (contains [CHR 0x0D, CHR 0x0A] sdp) fields answer_start of
         (Parsed s, _) \<Rightarrow> Accepted (answer_description d s)
       | (Bad_line, s) \<Rightarrow> Rejected (partial_description d s)
       | (Throws, s) \<Rightarrow> Thrown (partial_description d s))"

subsection \<open>Tracks\<close>

lemma upd_track_fold:
  assumes "distinct (map sp_id ts)" "\<And>p. sp_id (f p) = sp_id p"
  shows "distinct (map sp_id (upd_track t f ts)) \<and> set (map sp_id (upd_track t f ts)) = insert t (set (map sp_id ts))"
  using assms(1)
proof (induction ts)
  case (Cons x ts)
  then show ?case by (auto simp: assms(2))
qed (simp add: assms(2) StreamParams_def)

text \<open>The ssrcs that a list of tracks has for an id.\<close>

definition ssrcs_of :: "string \<Rightarrow> stream_params list \<Rightarrow> u32 list" where
  "ssrcs_of t ts = concat (map sp_ssrcs (filter (\<lambda>p. sp_id p = t) ts))"

lemma ssrcs_of_Cons: "ssrcs_of u (x # ts) = (if sp_id x = u then sp_ssrcs x else []) @ ssrcs_of u ts"
  by (simp add: ssrcs_of_def)

lemma ssrcs_of_upd:
  assumes "distinct (map sp_id ts)" "\<And>p. sp_id (f p) = sp_id p" "\<And>p. sp_ssrcs (f p) = sp_ssrcs p @ [i]"
  shows "ssrcs_of u (upd_track t f ts) = ssrcs_of u ts @ (if u = t then [i] else [])"
  using assms(1)
proof (induction ts)
  case (Cons x ts)
  have "ssrcs_of t ts = []" if "sp_id x = t"
  proof -
    have "filter (\<lambda>p. sp_id p = t) ts = []" using Cons.prems that by (metis (mono_tags, lifting) distinct.simps(2) filter_empty_conv image_eqI list.simps(9) list.set_map)
    then show ?thesis by (simp add: ssrcs_of_def)
  qed
  with Cons show ?case by (auto simp: ssrcs_of_Cons assms(2,3))
qed (simp add: ssrcs_of_def assms(2,3) StreamParams_def)

lemma create_track_state:
  assumes "distinct (map sp_id ts)"
  shows "distinct (map sp_id (create_track_from_ssrc_info infos ts)) \<and>
    set (map sp_id (create_track_from_ssrc_info infos ts)) = set (map sp_id ts) \<union> set (map track_id infos) \<and>
    ssrcs_of u (create_track_from_ssrc_info infos ts) = ssrcs_of u ts @ map ssrc_id (filter (\<lambda>x. track_id x = u) infos)"
  using assms
proof (induction infos arbitrary: ts)
  case (Cons x infos)
  let ?f = "\<lambda>p. p\<lparr>sp_cname := cname x, sp_stream_id := stream_id x, sp_ssrcs := sp_ssrcs p @ [ssrc_id x]\<rparr>"
  let ?ts = "upd_track (track_id x) ?f ts"
  have u: "distinct (map sp_id ?ts)" "set (map sp_id ?ts) = insert (track_id x) (set (map sp_id ts))"
    using upd_track_fold [OF Cons.prems, of ?f "track_id x"] by simp_all
  have s: "ssrcs_of u ?ts = ssrcs_of u ts @ (if u = track_id x then [ssrc_id x] else [])"
    by (rule ssrcs_of_upd [OF Cons.prems]) simp_all
  have e: "create_track_from_ssrc_info (x # infos) ts = create_track_from_ssrc_info infos ?ts"
    by (simp add: create_track_from_ssrc_info_def)
  from Cons.IH [OF u(1)] show ?case unfolding e using u(2) s by auto
qed (simp add: create_track_from_ssrc_info_def)

lemma ssrcs_of_member: "distinct (map sp_id ts) \<Longrightarrow> p \<in> set ts \<Longrightarrow> ssrcs_of (sp_id p) ts = sp_ssrcs p"
proof (induction ts)
  case (Cons x ts)
  have "q \<in> set ts \<Longrightarrow> sp_id q = sp_id x \<Longrightarrow> False" for q using Cons.prems(1) by (metis distinct.simps(2) image_eqI list.simps(9) list.set_map)
  then have "sp_id p = sp_id x \<Longrightarrow> filter (\<lambda>q. sp_id q = sp_id p) ts = []" by (auto simp: filter_empty_conv)
  with Cons show ?case by (cases "p = x") (auto simp: ssrcs_of_def)
qed simp

theorem tracks_group_ssrcs:
  "let tracks = create_track_from_ssrc_info infos [] in
   distinct (map sp_id tracks) \<and> set (map sp_id tracks) = set (map track_id infos) \<and>
   list_all (\<lambda>p. sp_ssrcs p = map ssrc_id (filter (\<lambda>x. track_id x = sp_id p) infos)) tracks"
proof -
  let ?ts = "create_track_from_ssrc_info infos []"
  note c = create_track_state [of "[]" infos, simplified]
  have "list_all (\<lambda>p. sp_ssrcs p = map ssrc_id (filter (\<lambda>x. track_id x = sp_id p) infos)) ?ts"
    unfolding list_all_iff
  proof
    fix p assume "p \<in> set ?ts"
    from ssrcs_of_member [OF _ this] c show "sp_ssrcs p = map ssrc_id (filter (\<lambda>x. track_id x = sp_id p) infos)"
      by (simp add: ssrcs_of_def)
  qed
  with c show ?thesis by simp
qed

text \<open>The tracks of a video answer reach the content once per ssrc group: never without a group, and
  twice with two groups.\<close>

lemma video_group_length:
  "length (snd (fold video_group groups (tracks, streams))) =
     length streams + length (filter (\<lambda>g. group_ssrcs g \<noteq> []) groups) * length tracks"
proof (induction groups arbitrary: tracks streams)
  case (Cons g groups)
  then show ?case
    by (cases "group_ssrcs g") (simp_all add: video_group_def Let_def)
qed simp

theorem video_streams_count:
  "length (video_streams infos groups) =
     length (filter (\<lambda>g. group_ssrcs g \<noteq> []) groups) * length (create_track_from_ssrc_info infos [])"
  by (simp add: video_streams_def video_group_length)

subsection \<open>A line that brings the server down\<close>

lemma tokenize_pair:
  "d \<notin> set a \<Longrightarrow> d \<notin> set b \<Longrightarrow> a \<noteq> [] \<Longrightarrow> b \<noteq> [] \<Longrightarrow> tokenize (a @ d # b) d = [a, b]"
  by (simp add: tokenize_split split_pair)

lemma a_line:
  assumes "CHR ''='' \<notin> set x" "CHR ''='' \<notin> set p2"
  shows "contains (CHR ''a'' # CHR ''='' # p2) (CHR ''a'' # CHR ''='' # x) \<longleftrightarrow> prefix p2 x"
    "\<not> contains (CHR ''m'' # CHR ''='' # p2) (CHR ''a'' # CHR ''='' # x)"
  using contains_at [of "CHR ''=''" "[CHR ''a'']" "[CHR ''a'']" x p2] contains_at [of "CHR ''=''" "[CHR ''m'']" "[CHR ''a'']" x p2] assms
  by (simp_all add: suffix_Cons)

lemma fingerprint_line_throws:
  assumes "CHR ''='' \<notin> set x" "CHR '' '' \<notin> set x" "x \<noteq> []" "as_media s = ''audio'' \<or> as_media s = ''video''"
  shows "answer_line (''a=fingerprint '' @ x) s = (Throws, s)"
proof -
  have t: "tokenize (''a=fingerprint '' @ x) (CHR '' '') = [''a=fingerprint'', x]"
    using tokenize_pair [of "CHR '' ''" "''a=fingerprint''" x] assms by simp
  have "parse_transport_info td (''a=fingerprint '' @ x) = Throws" for td
    using assms(1) t by (simp add: parse_transport_info_def a_line parse_fingerprint_def substr_from_def)
  with assms show ?thesis
    by (auto simp: answer_line_def group_or_media_line_def a_line audio_line_def video_line_def)
qed

theorem answer_throws:
  assumes "x \<noteq> []" "CHR ''='' \<notin> set x" "CHR '' '' \<notin> set x" "CHR 0x0A \<notin> set x" "CHR 0x0D \<notin> set x"
  shows "parse_answer d (''m=audio 9 RTP'' @ [CHR 0x0A] @ ''a=fingerprint '' @ x) =
    Thrown (partial_description d (answer_start\<lparr>as_media := ''audio'', as_contents := [MEDIA_TYPE_AUDIO],
      as_audio_td := TransportDescription\<lparr>td_mid := ''audio''\<rparr>\<rparr>))"
proof -
  let ?sdp = "''m=audio 9 RTP'' @ [CHR 0x0A] @ ''a=fingerprint '' @ x"
  let ?s = "answer_start\<lparr>as_media := ''audio'', as_contents := [MEDIA_TYPE_AUDIO],
      as_audio_td := TransportDescription\<lparr>td_mid := ''audio''\<rparr>\<rparr>"
  have t: "tokenize ?sdp (CHR 0x0A) = [''m=audio 9 RTP'', ''a=fingerprint '' @ x]"
    using tokenize_pair [of "CHR 0x0A" "''m=audio 9 RTP''" "''a=fingerprint '' @ x"] assms by simp
  have rn: "\<not> contains [CHR 0x0D, CHR 0x0A] ?sdp"
    by (rule contains_not [of "CHR 0x0D"]) (use assms in auto)
  have "answer_line ''m=audio 9 RTP'' answer_start = (Parsed ?s, ?s)" by code_simp
  moreover have "answer_line (''a=fingerprint '' @ x) ?s = (Throws, ?s)"
    by (rule fingerprint_line_throws) (use assms in simp_all)
  ultimately show ?thesis unfolding parse_answer_def t using rn by simp
qed

theorem answer_throws_witness:
  "parse_answer K_inactive (''m=audio 9 RTP'' @ [CHR 0x0A] @ ''a=fingerprint '' @ ''x'') =
    Thrown (partial_description K_inactive (answer_start\<lparr>as_media := ''audio'', as_contents := [MEDIA_TYPE_AUDIO],
      as_audio_td := TransportDescription\<lparr>td_mid := ''audio''\<rparr>\<rparr>))"
  by (rule answer_throws) simp_all

end
