(* ===== verification/Peer_Connection.thy ===== *)
theory Peer_Connection
  imports Sdp_Answer
begin

text \<open>
  \<open>pc/peer_connection.cpp\<close>: building an offer and taking an answer.  The calls to the transport
  controller are recorded in order; the candidates it reports while it sets the local
  description, the fingerprint of a certificate, the random credentials and \<open>inet_ntop\<close> are
  arguments, as is \<open>d\<close>, what is found in an uninitialised direction.
\<close>

datatype pc_state = Pc_new | Pc_connecting | Pc_connected | Pc_disconnected | Pc_failed | Pc_closed

record offer_options =
  recv_audio :: bool
  recv_video :: bool
  send_audio :: bool
  send_video :: bool
  use_rtp_mux :: bool
  use_rtcp_mux :: bool
  dtls_on :: bool

definition RTCOfferAnswerOptions :: offer_options where
  "RTCOfferAnswerOptions = \<lparr>recv_audio = True, recv_video = True, send_audio = True, send_video = True,
     use_rtp_mux = True, use_rtcp_mux = True, dtls_on = True\<rparr>"

datatype transport_call =
    Set_local_certificate "nat option"
  | Set_local_description session_description
  | Set_remote_description session_description
  | Send_rtp string bytes
  | Send_rtcp string bytes

record peer_connection =
  pc_local_desc :: "session_description option"
  pc_remote_desc :: "session_description option"
  pc_certificate :: "nat option"
  pc_audio_source :: "stream_params list"
  pc_video_source :: "stream_params list"
  pc_destroy_timer :: bool
  pc_transport_calls :: "transport_call list"

definition PeerConnection :: peer_connection where
  "PeerConnection = \<lparr>pc_local_desc = None, pc_remote_desc = None, pc_certificate = None, pc_audio_source = [],
     pc_video_source = [], pc_destroy_timer = False, pc_transport_calls = []\<rparr>"

definition transport_call :: "transport_call \<Rightarrow> peer_connection \<Rightarrow> peer_connection" where
  "transport_call c pc = pc\<lparr>pc_transport_calls := pc_transport_calls pc @ [c]\<rparr>"

definition pc_init :: "nat option \<Rightarrow> peer_connection \<Rightarrow> int \<times> peer_connection" where
  "pc_init cert pc = (0, transport_call (Set_local_certificate cert) (pc\<lparr>pc_certificate := cert\<rparr>))"

definition pc_destroy :: "peer_connection \<Rightarrow> peer_connection" where
  "pc_destroy pc = pc\<lparr>pc_destroy_timer := True\<rparr>"

definition pc_add_audio_source :: "stream_params list \<Rightarrow> peer_connection \<Rightarrow> peer_connection" where
  "pc_add_audio_source source pc = pc\<lparr>pc_audio_source := source\<rparr>"

definition pc_add_video_source :: "stream_params list \<Rightarrow> peer_connection \<Rightarrow> peer_connection" where
  "pc_add_video_source source pc = pc\<lparr>pc_video_source := source\<rparr>"

definition get_direction :: "bool \<Rightarrow> bool \<Rightarrow> rtp_direction" where
  "get_direction send recv = (if send \<and> recv then K_send_recv else if send \<and> \<not> recv then K_send_only
     else if \<not> send \<and> recv then K_recv_only else K_inactive)"

text \<open>One medium of the offer.  The content is added to the description before its streams are; both
  are the same object.\<close>

definition offer_media ::
  "(nat \<Rightarrow> ssl_fingerprint option) \<Rightarrow> nat option \<Rightarrow> ice_parameters \<Rightarrow> bool \<Rightarrow> bool \<Rightarrow> bool \<Rightarrow> stream_params list
     \<Rightarrow> media_content \<Rightarrow> session_description \<Rightarrow> session_description" where
  "offer_media fingerprint_of cert ice send recv rtcp_mux source content desc =
     (if recv \<or> send then let
        c = content\<lparr>mc_direction := get_direction send recv, mc_rtcp_mux := rtcp_mux\<rparr>;
        c1 = (if send then fold mc_add_stream source c else c) in
        snd (add_transport_info fingerprint_of (mc_mid c) ice cert (add_content c1 desc))
      else desc)"

definition offer_bundle :: "offer_options \<Rightarrow> session_description \<Rightarrow> session_description" where
  "offer_bundle options desc = (if use_rtp_mux options then let
       g = fold (\<lambda>c. add_content_name (mc_mid c)) (sd_contents desc) \<lparr>content_names = [], cg_semantics = ''BUNDLE''\<rparr> in
       if content_names g \<noteq> [] then add_group g desc else desc
     else desc)"

definition offer_description ::
  "(nat \<Rightarrow> ssl_fingerprint option) \<Rightarrow> rtp_direction \<Rightarrow> ice_parameters \<Rightarrow> offer_options \<Rightarrow> peer_connection
     \<Rightarrow> session_description" where
  "offer_description fingerprint_of d ice options pc =
     offer_bundle options
       (offer_media fingerprint_of (pc_certificate pc) ice (send_video options) (recv_video options) (use_rtcp_mux options)
          (pc_video_source pc) (VideoContentDescription d)
       (offer_media fingerprint_of (pc_certificate pc) ice (send_audio options) (recv_audio options) (use_rtcp_mux options)
          (pc_audio_source pc) (AudioContentDescription d) (SessionDescription K_offer)))"

fun set_candidates :: "string \<Rightarrow> candidate list \<Rightarrow> media_content list \<Rightarrow> media_content list" where
  "set_candidates mid cs [] = []"
| "set_candidates mid cs (c # contents) = (if mc_mid c = mid then mc_add_candidates cs c # contents
     else c # set_candidates mid cs contents)"

definition on_candidate_allocate_done :: "string \<Rightarrow> candidate list \<Rightarrow> peer_connection \<Rightarrow> peer_connection" where
  "on_candidate_allocate_done transport_name cs pc = pc\<lparr>pc_local_desc := map_option
     (\<lambda>desc. desc\<lparr>sd_contents := set_candidates transport_name cs (sd_contents desc)\<rparr>) (pc_local_desc pc)\<rparr>"

definition create_offer ::
  "(nat \<Rightarrow> ssl_fingerprint option) \<Rightarrow> (ip_address \<Rightarrow> string) \<Rightarrow> rtp_direction \<Rightarrow> ice_parameters
     \<Rightarrow> (string \<times> candidate list) list \<Rightarrow> offer_options \<Rightarrow> peer_connection \<Rightarrow> string \<times> peer_connection" where
  "create_offer fingerprint_of ntop d ice gathered options pc =
     (if dtls_on options \<and> pc_certificate pc = None then ([], pc)
      else let
        desc = offer_description fingerprint_of d ice options pc;
        pc1 = transport_call (Set_local_description desc) (pc\<lparr>pc_local_desc := Some desc\<rparr>);
        pc2 = fold (\<lambda>(n, cs). on_candidate_allocate_done n cs) gathered pc1 in
        (case pc_local_desc pc2 of None \<Rightarrow> [] | Some l \<Rightarrow> sd_to_string ntop l, pc2))"

text \<open>\<open>None\<close> is the uncaught exception.\<close>

definition set_remote_sdp :: "rtp_direction \<Rightarrow> string \<Rightarrow> peer_connection \<Rightarrow> (int \<times> peer_connection) option" where
  "set_remote_sdp d sdp pc = (case parse_answer d sdp of
       No_lines \<Rightarrow> Some (-1, pc)
     | Rejected desc \<Rightarrow> Some (-1, pc\<lparr>pc_remote_desc := Some desc\<rparr>)
     | Thrown desc \<Rightarrow> None
     | Accepted desc \<Rightarrow> Some (0, transport_call (Set_remote_description desc) (pc\<lparr>pc_remote_desc := Some desc\<rparr>)))"

definition pc_send_rtp :: "bytes \<Rightarrow> peer_connection \<Rightarrow> peer_connection" where
  "pc_send_rtp data pc = transport_call (Send_rtp ''audio'' data) pc"

definition pc_send_rtcp :: "bytes \<Rightarrow> peer_connection \<Rightarrow> peer_connection" where
  "pc_send_rtcp data pc = transport_call (Send_rtcp ''audio'' data) pc"

end
