(* ===== verification/Sdp_Roundtrip.thy ===== *)
theory Sdp_Roundtrip
  imports Peer_Connection
begin

text \<open>
  The text that \<open>SessionDescription::to_string\<close> writes is read back by
  \<open>PeerConnection::set_remote_sdp\<close>.  A line is classified by what it does to the current medium;
  most lines are neutral.  Streams come back without their ssrc groups: the writer leaves out the
  colon after \<open>a=ssrc-group\<close> that the reader looks for.
\<close>

subsection \<open>Reading an offer back\<close>

text \<open>What a line does to the transport and the ssrcs of the current medium.\<close>

type_synonym media_view = "transport_description \<times> ssrc_info list"

definition get_media :: "media_type \<Rightarrow> answer_state \<Rightarrow> media_view" where
  "get_media m s = (case m of MEDIA_TYPE_AUDIO \<Rightarrow> (as_audio_td s, as_audio_ssrc s) | MEDIA_TYPE_VIDEO \<Rightarrow> (as_video_td s, as_video_ssrc s))"

definition put_media :: "media_type \<Rightarrow> media_view \<Rightarrow> answer_state \<Rightarrow> answer_state" where
  "put_media m v s = (case m of MEDIA_TYPE_AUDIO \<Rightarrow> s\<lparr>as_audio_td := fst v, as_audio_ssrc := snd v\<rparr>
     | MEDIA_TYPE_VIDEO \<Rightarrow> s\<lparr>as_video_td := fst v, as_video_ssrc := snd v\<rparr>)"

fun media_step :: "string \<Rightarrow> media_view \<Rightarrow> media_view sdp_step" where
  "media_step l (td, infos) = and_then (parse_transport_info td l) (\<lambda>td1.
     and_then (parse_ssrc_info infos l) (\<lambda>infos1. Parsed (td1, infos1)))"

fun media_loop :: "string list \<Rightarrow> media_view \<Rightarrow> media_view sdp_step" where
  "media_loop [] v = Parsed v"
| "media_loop (l # ls) v = and_then (media_step l v) (media_loop ls)"

definition inner_line :: "string \<Rightarrow> bool" where
  "inner_line l \<longleftrightarrow> \<not> contains ''m='' l \<and> \<not> contains ''a=ssrc-group:'' l"

definition neutral :: "string \<Rightarrow> bool" where
  "neutral l \<longleftrightarrow> inner_line l \<and> \<not> contains ''a=ice-ufrag'' l \<and> \<not> contains ''a=ice-pwd'' l \<and>
     \<not> contains ''a=fingerprint'' l \<and> \<not> contains ''a=ssrc:'' l"

lemma media_loop_append: "media_loop (ls @ ls') v = and_then (media_loop ls v) (media_loop ls')"
proof (induction ls arbitrary: v)
  case (Cons l ls)
  then show ?case by (cases "media_step l v") simp_all
qed simp

lemma bundle_prefix: "contains ''m=group:BUNDLE'' l \<Longrightarrow> contains ''m='' l"
proof -
  have "sublist ''m='' ''m=group:BUNDLE''" by (simp add: sublist_Cons_right)
  then show "contains ''m=group:BUNDLE'' l \<Longrightarrow> contains ''m='' l"
    unfolding contains_sublist by (rule sublist_order.order_trans)
qed

lemma inner_answer_line:
  assumes "inner_line l" "as_media s = media_mid m" "media_step l (get_media m s) = Parsed v"
  shows "answer_line l s = (Parsed (put_media m v s), s)"
proof -
  have g: "group_or_media_line l s = Parsed s"
    using assms(1) bundle_prefix [of l] by (auto simp: group_or_media_line_def inner_line_def)
  show ?thesis
  proof (cases m)
    case MEDIA_TYPE_AUDIO
    with assms(3) obtain td infos where "parse_transport_info (as_audio_td s) l = Parsed td"
      "parse_ssrc_info (as_audio_ssrc s) l = Parsed infos" "v = (td, infos)"
      by (cases "parse_transport_info (as_audio_td s) l"; cases "parse_ssrc_info (as_audio_ssrc s) l") (auto simp: get_media_def)
    with g MEDIA_TYPE_AUDIO assms(2) show ?thesis
      by (simp add: answer_line_def audio_line_def put_media_def media_mid_def)
  next
    case MEDIA_TYPE_VIDEO
    with assms(3) obtain td infos where "parse_transport_info (as_video_td s) l = Parsed td"
      "parse_ssrc_info (as_video_ssrc s) l = Parsed infos" "v = (td, infos)"
      by (cases "parse_transport_info (as_video_td s) l"; cases "parse_ssrc_info (as_video_ssrc s) l") (auto simp: get_media_def)
    moreover have "parse_ssrc_group_info gs l = Parsed gs" for gs
      using assms(1) by (simp add: parse_ssrc_group_info_def inner_line_def)
    ultimately show ?thesis using g MEDIA_TYPE_VIDEO assms(2)
      by (simp add: answer_line_def video_line_def put_media_def media_mid_def)
  qed
qed

lemma get_put_media [simp]: "get_media m (put_media m v s) = v"
  by (cases m) (simp_all add: get_media_def put_media_def)

lemma as_media_put [simp]: "as_media (put_media m v s) = as_media s"
  by (cases m) (simp_all add: put_media_def)

lemma put_put_media [simp]: "put_media m v (put_media m u s) = put_media m v s"
  by (cases m) (simp_all add: put_media_def)

lemma put_get_media [simp]: "put_media m (get_media m s) s = s"
  by (cases m) (simp_all add: put_media_def get_media_def)

lemma inner_answer_loop:
  assumes "list_all inner_line ls" "as_media s = media_mid m" "media_loop ls (get_media m s) = Parsed v"
  shows "answer_loop False (ls @ rest) s = answer_loop False rest (put_media m v s)"
  using assms
proof (induction ls arbitrary: s)
  case Nil
  then show ?case by (metis append_Nil media_loop.simps(1) put_get_media sdp_step.inject)
next
  case (Cons l ls)
  then obtain u where u: "media_step l (get_media m s) = Parsed u" "media_loop ls u = Parsed v"
    by (cases "media_step l (get_media m s)") auto
  have "answer_line l s = (Parsed (put_media m u s), s)"
    by (rule inner_answer_line) (use Cons.prems u in simp_all)
  with Cons.IH [of "put_media m u s"] Cons.prems u show ?case by simp
qed

lemma neutral_loop: "list_all neutral ls \<Longrightarrow> media_loop ls v = Parsed v"
proof (induction ls)
  case (Cons l ls)
  moreover have "neutral l \<Longrightarrow> media_step l v = Parsed v"
    by (cases v) (simp add: neutral_def parse_transport_info_def parse_ssrc_info_def)
  ultimately show ?case by simp
qed simp

lemma neutral_inner: "list_all neutral ls \<Longrightarrow> list_all inner_line ls"
  by (auto simp: list_all_iff neutral_def)

text \<open>Lines with a single equals sign, after the first letter.\<close>

lemma neutral_a_line:
  assumes "CHR ''='' \<notin> set x" "\<not> prefix ''ice-'' x" "\<not> prefix ''fingerprint'' x" "\<not> prefix ''ssrc:'' x" "\<not> prefix ''ssrc-group:'' x"
  shows "neutral (''a='' @ x)"
  proof -
  have "\<not> prefix ''ice-ufrag'' x" "\<not> prefix ''ice-pwd'' x"
    using assms(2) append_prefixD [of "''ice-''" "''ufrag''" x] append_prefixD [of "''ice-''" "''pwd''" x] by auto
  with assms show ?thesis by (simp add: neutral_def inner_line_def a_line)
qed

definition plain :: "string \<Rightarrow> bool" where
  "plain s \<longleftrightarrow> CHR ''='' \<notin> set s \<and> CHR 0x0A \<notin> set s"

definition word_like :: "string \<Rightarrow> bool" where
  "word_like s \<longleftrightarrow> plain s \<and> s \<noteq> [] \<and> CHR '':'' \<notin> set s \<and> CHR '' '' \<notin> set s"

lemma to_upper_free: "(of_char c :: nat) < 65 \<Longrightarrow> c \<in> set (map to_upper s) \<Longrightarrow> c \<in> set s"
proof -
  assume c: "(of_char c :: nat) < 65" "c \<in> set (map to_upper s)"
  then obtain x where x: "x \<in> set s" "c = to_upper x" by auto
  with c(1) have "c = x" by (auto simp: to_upper_def Let_def split: if_splits)
  with x show "c \<in> set s" by simp
qed

lemma hex_byte_chars: "c \<in> set (hex_encode_byte b) \<Longrightarrow> c \<in> set HEX"
proof -
  have "hex_encode_nibble (v AND 0xF) \<in> set HEX" for v :: byte
  proof -
    have l: "v AND 0xF \<le> 0xF" by (rule word_and_le1)
    then have "v AND 0xF < 16" by (rule order_le_less_trans) simp
    moreover have "unat (v AND 0xF) < length HEX" using l by (simp add: HEX_def word_le_nat_alt)
    ultimately show ?thesis by (simp add: hex_encode_nibble_def nth_mem)
  qed
  then show "c \<in> set (hex_encode_byte b) \<Longrightarrow> c \<in> set HEX" by (auto simp: hex_encode_byte_def)
qed

lemma hex_chars: "c \<in> set (hex_encode_with_delimiter d bs) \<Longrightarrow> c \<in> set HEX \<or> d = Some c"
  by (induction d bs rule: hex_encode_with_delimiter.induct) (auto dest: hex_byte_chars split: option.splits)

lemma fingerprint_chars:
  assumes "(of_char c :: nat) < 65" "c \<notin> set HEX" "c \<noteq> CHR '':''"
  shows "c \<notin> set (GetRfc4572Fingerprint fp)"
proof
  assume "c \<in> set (GetRfc4572Fingerprint fp)"
  then have "c \<in> set (hex_encode_with_delimiter (Some (CHR '':'')) (fp_digest fp))"
    using to_upper_free [of c] assms(1) by (simp only: GetRfc4572Fingerprint_def)
  from hex_chars [OF this] show False using assms(2,3) by simp
qed

lemma fingerprint_plain: "CHR ''='' \<notin> set (GetRfc4572Fingerprint fp)" "CHR '' '' \<notin> set (GetRfc4572Fingerprint fp)"
  "CHR 0x0A \<notin> set (GetRfc4572Fingerprint fp)"
  by (rule fingerprint_chars; simp add: HEX_def)+

lemma sdp_get_attribute_line: "word_like v \<Longrightarrow> CHR '':'' \<notin> set k \<Longrightarrow> k \<noteq> [] \<Longrightarrow> sdp_get_attribute (k @ CHR '':'' # v) = v"
  using tokenize_pair [of "CHR '':''" k v] by (simp add: sdp_get_attribute_def word_like_def)

lemma fips_algorithm:
  assumes "IsFips180DigestAlgorithm alg"
  shows "map to_lower alg = alg" "word_like alg"
  using assms by (auto simp: IsFips180DigestAlgorithm_def to_lower_def word_like_def plain_def Let_def)

lemma fingerprint_line:
  assumes "IsFips180DigestAlgorithm (fp_algorithm fp)" "fp_digest fp \<noteq> []" "length (fp_digest fp) \<le> digest_kMaxSize"
  shows "parse_fingerprint td (''a=fingerprint:'' @ fp_algorithm fp @ '' '' @ GetRfc4572Fingerprint fp) = Parsed (td\<lparr>td_fingerprint := Some fp\<rparr>)"
proof -
  have "GetRfc4572Fingerprint fp \<noteq> []"
    using length_hex_encode [of "Some (CHR '':'')" "fp_digest fp"] assms(2)
    by (cases "fp_digest fp") (auto simp: GetRfc4572Fingerprint_def)
  then have "tokenize ((''a=fingerprint:'' @ fp_algorithm fp) @ CHR '' '' # GetRfc4572Fingerprint fp) (CHR '' '')
      = [''a=fingerprint:'' @ fp_algorithm fp, GetRfc4572Fingerprint fp]"
    using fips_algorithm [OF assms(1)] by (intro tokenize_pair) (auto simp: word_like_def fingerprint_plain)
  then show ?thesis using CreateUnique_Get [OF assms] fips_algorithm [OF assms(1)]
    by (simp add: parse_fingerprint_def substr_from_def)
qed

lemma transport_loop:
  assumes "IsFips180DigestAlgorithm (fp_algorithm fp)" "fp_digest fp \<noteq> []" "length (fp_digest fp) \<le> digest_kMaxSize"
    and "word_like (td_ice_ufrag t)" "word_like (td_ice_pwd t)" "td_fingerprint t = Some fp"
  shows "media_loop (transport_lines (Some t)) (td, infos) = Parsed (td\<lparr>td_ice_ufrag := td_ice_ufrag t,
      td_ice_pwd := td_ice_pwd t, td_fingerprint := Some fp\<rparr>, infos)"
    "list_all inner_line (transport_lines (Some t))"
proof -
  let ?u = "''ice-ufrag:'' @ td_ice_ufrag t" and ?p = "''ice-pwd:'' @ td_ice_pwd t"
    and ?f = "''fingerprint:'' @ fp_algorithm fp @ '' '' @ GetRfc4572Fingerprint fp"
    and ?r = "''setup:'' @ connection_role_to_string (td_role t)"
  have lines: "transport_lines (Some t) = [''a='' @ ?u, ''a='' @ ?p, ''a='' @ ?f, ''a='' @ ?r]"
    using assms(6) by (simp add: transport_lines_def)
  have r: "CHR ''='' \<notin> set ?r" by (simp add: connection_role_to_string_def split: connection_role.split)
  have f: "CHR ''='' \<notin> set ?f"
    using fips_algorithm(2) [OF assms(1)] fingerprint_plain [of fp] by (simp add: word_like_def plain_def)
  have p: "CHR ''='' \<notin> set ?p" "CHR ''='' \<notin> set ?u" using assms(4,5) by (simp_all add: word_like_def plain_def)
  show "list_all inner_line (transport_lines (Some t))"
    unfolding lines using r f p by (simp add: inner_line_def a_line)
  have a: "sdp_get_attribute (''a='' @ ?u) = td_ice_ufrag t" "sdp_get_attribute (''a='' @ ?p) = td_ice_pwd t"
    using sdp_get_attribute_line [OF assms(4), of "''a=ice-ufrag''"] sdp_get_attribute_line [OF assms(5), of "''a=ice-pwd''"] by simp_all
  have "parse_fingerprint td (''a='' @ ?f) = Parsed (td\<lparr>td_fingerprint := Some fp\<rparr>)" for td
    using fingerprint_line [OF assms(1-3)] by simp
  with a r f p show "media_loop (transport_lines (Some t)) (td, infos) = Parsed (td\<lparr>td_ice_ufrag := td_ice_ufrag t,
      td_ice_pwd := td_ice_pwd t, td_fingerprint := Some fp\<rparr>, infos)"
    unfolding lines by (simp add: parse_transport_info_def parse_ssrc_info_def a_line)
qed

text \<open>The lines of the streams.\<close>

definition value_ok :: "string \<Rightarrow> bool" where
  "value_ok s \<longleftrightarrow> plain s \<and> (s \<noteq> [] \<longrightarrow> hd s \<noteq> CHR '':'')"

definition track_ok :: "stream_params \<Rightarrow> bool" where
  "track_ok t \<longleftrightarrow> value_ok (sp_cname t) \<and> value_ok (sp_stream_id t) \<and> value_ok (sp_id t) \<and>
     CHR '' '' \<notin> set (sp_stream_id t) \<and> CHR '' '' \<notin> set (sp_id t) \<and> sp_ssrcs t \<noteq> [] \<and>
     list_all (\<lambda>g. plain (semantics g) \<and> (semantics g \<noteq> [] \<longrightarrow> hd (semantics g) \<noteq> CHR '':'')) (sp_ssrc_groups t)"

definition info_of :: "stream_params \<Rightarrow> u32 \<Rightarrow> ssrc_info" where
  "info_of t i = \<lparr>ssrc_id = i, cname = sp_cname t, stream_id = sp_stream_id t, track_id = sp_id t\<rparr>"

lemma tokenize_first_at:
  "d \<notin> set a \<Longrightarrow> (b \<noteq> [] \<Longrightarrow> hd b \<noteq> d) \<Longrightarrow> tokenize_first (a @ d # b) d = Some (a, b)"
proof -
  assume a: "d \<notin> set a" "b \<noteq> [] \<Longrightarrow> hd b \<noteq> d"
  have "takeWhile (\<lambda>c. c \<noteq> d) (a @ d # b) = a" "dropWhile (\<lambda>c. c \<noteq> d) (a @ d # b) = d # b"
    using a(1) by (auto simp: takeWhile_append dropWhile_append takeWhile_eq_all_conv dropWhile_eq_Nil_conv)
  moreover have "dropWhile (\<lambda>c. c = d) b = b" using a(2) by (cases b) auto
  ultimately show ?thesis by (simp add: tokenize_first_def)
qed

lemma parse_ssrc_line:
  assumes "k \<noteq> []" "CHR '' '' \<notin> set k" "CHR '':'' \<notin> set k" "v \<noteq> [] \<Longrightarrow> hd v \<noteq> CHR '':''"
  shows "parse_ssrc_info infos (add_ssrc_line i k v) = ssrc_attribute i k v infos"
proof -
  let ?n = "nat_to_string (unat i)"
  have n: "CHR '' '' \<notin> set (''ssrc:'' @ ?n)" using nat_to_string_set isdigit_neq by fastforce
  have "tokenize_first ((''ssrc:'' @ ?n) @ CHR '' '' # (k @ CHR '':'' # v)) (CHR '' '') = Some (''ssrc:'' @ ?n, k @ CHR '':'' # v)"
    by (rule tokenize_first_at [OF n]) (use assms(1,2) in \<open>cases k; auto\<close>)
  moreover have "tokenize_first (k @ CHR '':'' # v) (CHR '':'') = Some (k, v)"
    by (rule tokenize_first_at) (use assms in auto)
  moreover have "contains ''a=ssrc:'' (add_ssrc_line i k v)"
    unfolding contains_sublist add_ssrc_line_def by (rule prefix_imp_sublist) simp
  ultimately show ?thesis
    by (simp add: parse_ssrc_info_def add_ssrc_line_def substr_from_def FromString_to_string)
qed

lemma upd_ssrc_new: "i \<notin> set (map ssrc_id infos) \<Longrightarrow> upd_ssrc i f infos = infos @ [f (SsrcInfo i)]"
  by (induction infos) auto

lemma upd_ssrc_last: "i \<notin> set (map ssrc_id infos) \<Longrightarrow> ssrc_id x = i \<Longrightarrow> upd_ssrc i f (infos @ [x]) = infos @ [f x]"
  by (induction infos) auto

lemma add_ssrc_line_transport:
  assumes "plain v" "plain k"
  shows "parse_transport_info td (add_ssrc_line i k v) = Parsed td" "inner_line (add_ssrc_line i k v)"
proof -
  let ?x = "''ssrc:'' @ nat_to_string (unat i) @ '' '' @ k @ '':'' @ v"
  have x: "CHR ''='' \<notin> set ?x" using assms nat_to_string_set isdigit_neq by (fastforce simp: plain_def)
  have l: "add_ssrc_line i k v = ''a='' @ ?x" by (simp add: add_ssrc_line_def)
  show "parse_transport_info td (add_ssrc_line i k v) = Parsed td" "inner_line (add_ssrc_line i k v)"
    unfolding l using x by (simp_all add: parse_transport_info_def inner_line_def a_line)
qed

lemma ssrc_loop:
  assumes "track_ok t" "i \<notin> set (map ssrc_id infos)"
  shows "media_loop (ssrc_lines t i) (td, infos) = Parsed (td, infos @ [info_of t i])" "list_all inner_line (ssrc_lines t i)"
proof -
  have p: "plain (sp_cname t)" "plain (sp_stream_id t @ '' '' @ sp_id t)" "plain (sp_stream_id t)" "plain (sp_id t)"
    "plain ''cname''" "plain ''msid''" "plain ''mslabel''" "plain ''lable''"
    using assms(1) by (simp_all add: track_ok_def value_ok_def plain_def)
  note tr = add_ssrc_line_transport
  show "list_all inner_line (ssrc_lines t i)" using p by (simp add: ssrc_lines_def tr)
  let ?sid = "sp_stream_id t" and ?id = "sp_id t" and ?x = "(SsrcInfo i)\<lparr>cname := sp_cname t\<rparr>"
  have h: "sp_cname t \<noteq> [] \<Longrightarrow> hd (sp_cname t) \<noteq> CHR '':''" "?sid \<noteq> [] \<Longrightarrow> hd ?sid \<noteq> CHR '':''" "?id \<noteq> [] \<Longrightarrow> hd ?id \<noteq> CHR '':''"
    "hd (?sid @ '' '' @ ?id) \<noteq> CHR '':''"
    using assms(1) by (auto simp: track_ok_def value_ok_def hd_append)
  have "parse_ssrc_info infos (add_ssrc_line i ''cname'' (sp_cname t)) = Parsed (infos @ [?x])"
    using h(1) assms(2) by (subst parse_ssrc_line) (simp_all add: ssrc_attribute_def upd_ssrc_new)
  moreover have "parse_ssrc_info (infos @ [?x]) (add_ssrc_line i ''msid'' (?sid @ '' '' @ ?id)) = Parsed (infos @ [info_of t i])"
  proof -
    have "split (?sid @ CHR '' '' # ?id) (CHR '' '') = [?sid, ?id]" using assms(1) by (intro split_pair) (simp_all add: track_ok_def)
    moreover have "upd_ssrc i f (infos @ [?x]) = infos @ [f ?x]" for f
      by (rule upd_ssrc_last [OF assms(2)]) (simp add: SsrcInfo_def)
    ultimately show ?thesis using h(4) by (subst parse_ssrc_line) (simp_all add: ssrc_attribute_def info_of_def SsrcInfo_def)
  qed
  moreover have "parse_ssrc_info (infos @ [info_of t i]) (add_ssrc_line i k v) = Parsed (infos @ [info_of t i])"
    if "k = ''mslabel'' \<and> v = ?sid \<or> k = ''lable'' \<and> v = ?id" for k v
  proof -
    have "upd_ssrc i id (infos @ [info_of t i]) = infos @ [info_of t i]"
      by (subst upd_ssrc_last [OF assms(2)]) (simp_all add: info_of_def)
    then show ?thesis using that h by (subst parse_ssrc_line) (auto simp: ssrc_attribute_def)
  qed
  ultimately show "media_loop (ssrc_lines t i) (td, infos) = Parsed (td, infos @ [info_of t i])"
    unfolding ssrc_lines_def using p by (simp add: tr)
qed

definition infos_of :: "stream_params list \<Rightarrow> ssrc_info list" where
  "infos_of ts = concat (map (\<lambda>t. map (info_of t) (sp_ssrcs t)) ts)"

lemma ssrc_loops:
  assumes "track_ok t" "distinct is" "set is \<inter> set (map ssrc_id infos) = {}"
  shows "media_loop (concat (map (ssrc_lines t) is)) (td, infos) = Parsed (td, infos @ map (info_of t) is) \<and>
    list_all inner_line (concat (map (ssrc_lines t) is))"
  using assms(2,3)
proof (induction "is" arbitrary: infos)
  case (Cons i "is")
  from ssrc_loop [OF assms(1), of i infos] Cons.prems
  have i: "media_loop (ssrc_lines t i) (td, infos) = Parsed (td, infos @ [info_of t i])" "list_all inner_line (ssrc_lines t i)" by auto
  have "set is \<inter> set (map ssrc_id (infos @ [info_of t i])) = {}" using Cons.prems by (auto simp: info_of_def)
  with Cons.IH [of "infos @ [info_of t i]"] Cons.prems i show ?case by (simp add: media_loop_append)
qed simp

lemma group_line_neutral:
  assumes "plain (semantics g)" "semantics g \<noteq> [] \<Longrightarrow> hd (semantics g) \<noteq> CHR '':''" "group_ssrcs g \<noteq> []"
  shows "neutral (ssrc_group_line g)"
proof -
  let ?ids = "concat (map (\<lambda>s. '' '' @ nat_to_string (unat s)) (group_ssrcs g))"
  have "CHR ''='' \<notin> set (nat_to_string n)" for n using nat_to_string_set isdigit_neq by fastforce
  then have e: "CHR ''='' \<notin> set ?ids" by auto
  have "\<not> prefix ''ssrc-group:'' (''ssrc-group'' @ semantics g @ ?ids)"
    using assms(2,3) by (cases "semantics g"; cases "group_ssrcs g") auto
  then have "neutral (''a='' @ (''ssrc-group'' @ semantics g @ ?ids))"
    by (intro neutral_a_line) (use e assms(1) in \<open>auto simp: plain_def\<close>)
  then show ?thesis by (simp add: ssrc_group_line_def)
qed

lemma track_loop:
  assumes "track_ok t" "distinct (sp_ssrcs t)" "set (sp_ssrcs t) \<inter> set (map ssrc_id infos) = {}"
  shows "media_loop (track_lines t) (td, infos) = Parsed (td, infos @ map (info_of t) (sp_ssrcs t)) \<and>
    list_all inner_line (track_lines t)"
proof -
  let ?gs = "map ssrc_group_line (filter (\<lambda>g. group_ssrcs g \<noteq> []) (sp_ssrc_groups t))"
  have "list_all neutral ?gs" using assms(1) group_line_neutral by (auto simp: track_ok_def list_all_iff)
  with ssrc_loops [OF assms] show ?thesis
    by (simp add: track_lines_def media_loop_append neutral_loop neutral_inner)
qed

definition tracks_ok :: "stream_params list \<Rightarrow> bool" where
  "tracks_ok ts \<longleftrightarrow> list_all track_ok ts \<and> distinct (concat (map sp_ssrcs ts)) \<and> distinct (map sp_id ts)"

lemma tracks_loop:
  assumes "list_all track_ok ts" "distinct (concat (map sp_ssrcs ts))" "set (concat (map sp_ssrcs ts)) \<inter> set (map ssrc_id infos) = {}"
  shows "media_loop (concat (map track_lines ts)) (td, infos) = Parsed (td, infos @ infos_of ts) \<and>
    list_all inner_line (concat (map track_lines ts))"
  using assms
proof (induction ts arbitrary: infos)
  case (Cons t ts)
  from track_loop [of t infos td] Cons.prems have
    t: "media_loop (track_lines t) (td, infos) = Parsed (td, infos @ map (info_of t) (sp_ssrcs t))" "list_all inner_line (track_lines t)"
    by auto
  have "set (concat (map sp_ssrcs ts)) \<inter> set (map ssrc_id (infos @ map (info_of t) (sp_ssrcs t))) = {}"
    using Cons.prems(2,3) by (auto simp: info_of_def)
  with Cons.IH [of "infos @ map (info_of t) (sp_ssrcs t)"] Cons.prems t show ?case
    by (simp add: media_loop_append infos_of_def)
qed (simp add: infos_of_def)

lemma upd_track_new: "u \<notin> set (map sp_id ts) \<Longrightarrow> upd_track u f ts = ts @ [f (StreamParams\<lparr>sp_id := u\<rparr>)]"
  by (induction ts) auto

lemma upd_track_last: "u \<notin> set (map sp_id ts) \<Longrightarrow> sp_id p = u \<Longrightarrow> upd_track u f (ts @ [p]) = ts @ [f p]"
  by (induction ts) auto

lemma create_append: "create_track_from_ssrc_info (xs @ ys) ts = create_track_from_ssrc_info ys (create_track_from_ssrc_info xs ts)"
  by (simp add: create_track_from_ssrc_info_def)

lemma create_Cons: "create_track_from_ssrc_info (x # xs) ts = create_track_from_ssrc_info xs (upd_track (track_id x)
     (\<lambda>p. p\<lparr>sp_cname := cname x, sp_stream_id := stream_id x, sp_ssrcs := sp_ssrcs p @ [ssrc_id x]\<rparr>) ts)"
  by (simp add: create_track_from_ssrc_info_def)

definition track_with :: "stream_params \<Rightarrow> u32 list \<Rightarrow> stream_params" where
  "track_with t ids = \<lparr>sp_id = sp_id t, sp_ssrcs = ids, sp_ssrc_groups = [], sp_cname = sp_cname t, sp_stream_id = sp_stream_id t\<rparr>"

lemma create_same:
  assumes "sp_id t \<notin> set (map sp_id acc)"
  shows "create_track_from_ssrc_info (map (info_of t) is) (acc @ [track_with t js]) = acc @ [track_with t (js @ is)]"
proof (induction "is" arbitrary: js)
  case (Cons i "is")
  have "upd_track (sp_id t) f (acc @ [track_with t js]) = acc @ [f (track_with t js)]" for f
    by (rule upd_track_last [OF assms]) (simp add: track_with_def)
  then show ?case using Cons.IH [of "js @ [i]"] by (simp add: create_Cons info_of_def track_with_def)
qed (simp add: create_track_from_ssrc_info_def)

lemma create_track_of:
  assumes "sp_id t \<notin> set (map sp_id acc)" "sp_ssrcs t \<noteq> []"
  shows "create_track_from_ssrc_info (map (info_of t) (sp_ssrcs t)) acc = acc @ [t\<lparr>sp_ssrc_groups := []\<rparr>]"
proof -
  obtain i ids where i: "sp_ssrcs t = i # ids" using assms(2) by (cases "sp_ssrcs t") auto
  have "create_track_from_ssrc_info (map (info_of t) (i # ids)) acc
      = create_track_from_ssrc_info (map (info_of t) ids) (acc @ [track_with t [i]])"
    using upd_track_new [OF assms(1)] by (simp add: create_Cons info_of_def StreamParams_def track_with_def)
  with create_same [OF assms(1), of ids "[i]"] i show ?thesis by (cases t) (simp add: track_with_def)
qed

lemma create_tracks_of:
  assumes "list_all track_ok ts" "distinct (map sp_id (acc @ ts))"
  shows "create_track_from_ssrc_info (infos_of ts) acc = acc @ map (\<lambda>t. t\<lparr>sp_ssrc_groups := []\<rparr>) ts"
  using assms
proof (induction ts arbitrary: acc)
  case (Cons t ts)
  have "create_track_from_ssrc_info (map (info_of t) (sp_ssrcs t)) acc = acc @ [t\<lparr>sp_ssrc_groups := []\<rparr>]"
    by (rule create_track_of) (use Cons.prems in \<open>auto simp: track_ok_def\<close>)
  with Cons.IH [of "acc @ [t\<lparr>sp_ssrc_groups := []\<rparr>]"] Cons.prems show ?case
    by (simp add: infos_of_def create_append)
qed (simp add: infos_of_def create_track_from_ssrc_info_def)

text \<open>A medium of an offer.\<close>

definition cand_ok :: "(ip_address \<Rightarrow> string) \<Rightarrow> candidate \<Rightarrow> bool" where
  "cand_ok ntop c \<longleftrightarrow> plain (foundation c) \<and> plain (protocol c) \<and> plain (HostAsURIString ntop (address c)) \<and> plain (cand_type c)"

definition template :: "media_type \<Rightarrow> rtp_direction \<Rightarrow> media_content" where
  "template m d = (case m of MEDIA_TYPE_AUDIO \<Rightarrow> AudioContentDescription d | MEDIA_TYPE_VIDEO \<Rightarrow> VideoContentDescription d)"

definition offered_content :: "(ip_address \<Rightarrow> string) \<Rightarrow> media_type \<Rightarrow> media_content \<Rightarrow> bool" where
  "offered_content ntop m c \<longleftrightarrow> mc_type c = m \<and> mc_codecs c = mc_codecs (template m (mc_direction c)) \<and>
     list_all (cand_ok ntop) (mc_candidates c) \<and> tracks_ok (mc_streams c)"

definition transport_ok :: "ssl_fingerprint \<Rightarrow> transport_description \<Rightarrow> bool" where
  "transport_ok fp t \<longleftrightarrow> IsFips180DigestAlgorithm (fp_algorithm fp) \<and> fp_digest fp \<noteq> [] \<and> length (fp_digest fp) \<le> digest_kMaxSize \<and>
     word_like (td_ice_ufrag t) \<and> word_like (td_ice_pwd t) \<and> td_fingerprint t = Some fp"

lemma int_to_string_plain: "plain (int_to_string i)"
  using nat_to_string_set isdigit_neq by (fastforce simp: int_to_string_def plain_def)

lemma candidate_neutral:
  assumes "cand_ok ntop c"
  shows "neutral (candidate_line ntop c)"
proof -
  have n: "CHR ''='' \<notin> set (nat_to_string n)" for n using nat_to_string_set isdigit_neq by fastforce
  have "neutral (''a='' @ drop 2 (candidate_line ntop c))"
    by (rule neutral_a_line) (use assms n int_to_string_plain in \<open>auto simp: candidate_line_def cand_ok_def plain_def\<close>)
  then show ?thesis by (simp add: candidate_line_def)
qed

lemma codec_params:
  "codec_param opus_codec = [(''minptime'', ''10''), (''useinbandfec'', ''1'')]"
  "codec_param h264_codec = [(''level-asymmetry-allowed'', ''1''), (''packetization-mode'', ''1''), (''profile-level-id'', ''42e01f'')]"
  "codec_param rtx_codec = [(''apt'', ''107'')]"
  by code_simp+

lemma codec_ids: "nat_to_string 111 = ''111''" "nat_to_string 107 = ''107''" "nat_to_string 99 = ''99''"
  "nat_to_string 48000 = ''48000''" "nat_to_string 90000 = ''90000''" "nat_to_string 2 = ''2''"
  by (simp_all add: nat_to_string.simps char_of_eq_iff)

definition codec_lines :: "codec_info \<Rightarrow> string list" where
  "codec_lines codec = [''a=rtpmap:'' @ int_to_string (codec_id codec) @ '' '' @ codec_name codec @ ''/'' @ int_to_string (codec_clockrate codec) @
       (case codec_channels codec of Some n \<Rightarrow> ''/'' @ int_to_string n | None \<Rightarrow> [])]
     @ add_rtcp_fb_line codec @ add_fmtp_line codec"

lemma codec_lines:
  "codec_lines opus_codec = [''a=rtpmap:111 opus/48000/2'', ''a=rtcp-fd:111 transport-cc'', ''a=fmtp:111 minptime=10;useinbandfec=1'']"
  "codec_lines h264_codec = [''a=rtpmap:107 h264/90000'', ''a=rtcp-fd:107 goog-remb'', ''a=rtcp-fd:107 transport-cc'',
     ''a=rtcp-fd:107 ccm fir'', ''a=rtcp-fd:107 nack'', ''a=rtcp-fd:107 nack pli'',
     ''a=fmtp:107 level-asymmetry-allowed=1;packetization-mode=1;profile-level-id=42e01f'']"
  "codec_lines rtx_codec = [''a=rtpmap:99 rtx/90000'', ''a=fmtp:99 apt=107'']"
  unfolding codec_lines_def add_rtcp_fb_line_def add_fmtp_line_def codec_params
  by (simp_all add: opus_codec_def h264_codec_def rtx_codec_def feedback_def codec_ids int_to_string_def)

lemma codec_lines_neutral: "mc_codecs c = mc_codecs (template m d) \<Longrightarrow> list_all neutral (build_rtp_map c)"
proof -
  assume c: "mc_codecs c = mc_codecs (template m d)"
  have one: "list_all neutral (codec_lines opus_codec)" "list_all neutral (codec_lines h264_codec)" "list_all neutral (codec_lines rtx_codec)"
    unfolding codec_lines by (simp_all add: neutral_def inner_line_def contains.simps)
  have "list_all neutral (concat (map codec_lines (mc_codecs c)))"
    unfolding c using one by (cases m) (simp_all add: template_def AudioContentDescription_def VideoContentDescription_def)
  then show ?thesis by (simp add: build_rtp_map_def codec_lines_def [abs_def])
qed

lemma content_loop:
  assumes "offered_content ntop m c" "transport_ok fp t" "get_transport_info (mc_mid c) desc = Some t"
  shows "media_loop (tl (media_lines ntop desc c)) (td, []) = Parsed (td\<lparr>td_ice_ufrag := td_ice_ufrag t,
      td_ice_pwd := td_ice_pwd t, td_fingerprint := Some fp\<rparr>, infos_of (mc_streams c))"
    "list_all inner_line (tl (media_lines ntop desc c))"
proof -
  let ?td = "td\<lparr>td_ice_ufrag := td_ice_ufrag t, td_ice_pwd := td_ice_pwd t, td_fingerprint := Some fp\<rparr>"
  let ?pre = "[''c=IN IP4 0.0.0.0'', ''a=rtcp:9 IN IP4 0.0.0.0''] @ build_candidate ntop c"
  let ?mid = "[''a=mid:'' @ mc_mid c, build_rtp_direction c] @ (if mc_rtcp_mux c then [''a=rtcp-mux''] else []) @ build_rtp_map c"
  have lines: "tl (media_lines ntop desc c) = ?pre @ transport_lines (Some t) @ ?mid @ concat (map track_lines (mc_streams c))"
    using assms(3) by (simp add: media_lines_def build_ssrc_def)
  have pre: "list_all neutral ?pre"
    using assms(1) candidate_neutral
    by (auto simp: build_candidate_def offered_content_def list_all_iff neutral_def inner_line_def contains.simps)
  have "neutral (build_rtp_direction c)" "neutral (''a=mid:'' @ mc_mid c)" "neutral ''a=rtcp-mux''"
    by (simp_all add: build_rtp_direction_def mc_mid_def media_mid_def neutral_def inner_line_def contains.simps
        split: rtp_direction.split media_type.split)
  then have mid: "list_all neutral ?mid" using assms(1) codec_lines_neutral [of c m "mc_direction c"] by (simp add: offered_content_def)
  from assms(2) have t: "IsFips180DigestAlgorithm (fp_algorithm fp)" "fp_digest fp \<noteq> []" "length (fp_digest fp) \<le> digest_kMaxSize"
    "word_like (td_ice_ufrag t)" "word_like (td_ice_pwd t)" "td_fingerprint t = Some fp" by (simp_all add: transport_ok_def)
  have s: "media_loop (concat (map track_lines (mc_streams c))) (?td, []) = Parsed (?td, [] @ infos_of (mc_streams c)) \<and>
      list_all inner_line (concat (map track_lines (mc_streams c)))"
    by (rule tracks_loop) (use assms(1) in \<open>simp_all add: offered_content_def tracks_ok_def\<close>)
  show "media_loop (tl (media_lines ntop desc c)) (td, []) = Parsed (?td, infos_of (mc_streams c))"
    unfolding lines media_loop_append [of ?pre] media_loop_append [of ?mid] media_loop_append [of "transport_lines (Some t)"]
      neutral_loop [OF pre] neutral_loop [OF mid] and_then.simps
    using transport_loop(1) [OF t, of td "[]"] s by (simp only: and_then.simps neutral_loop [OF mid] append_Nil)
  show "list_all inner_line (tl (media_lines ntop desc c))"
    unfolding lines using transport_loop(2) [OF t] s neutral_inner [OF pre] neutral_inner [OF mid] by simp
qed

definition open_media :: "media_type \<Rightarrow> answer_state \<Rightarrow> answer_state" where
  "open_media m s = (case m of
       MEDIA_TYPE_AUDIO \<Rightarrow> s\<lparr>as_media := ''audio'', as_contents := as_contents s @ [m], as_audio_td := (as_audio_td s)\<lparr>td_mid := ''audio''\<rparr>\<rparr>
     | MEDIA_TYPE_VIDEO \<Rightarrow> s\<lparr>as_media := ''video'', as_contents := as_contents s @ [m], as_video_td := (as_video_td s)\<lparr>td_mid := ''video''\<rparr>\<rparr>)"

lemma m_line_text: "offered_content ntop m c \<Longrightarrow> hd (media_lines ntop desc c) = (case m of
    MEDIA_TYPE_AUDIO \<Rightarrow> ''m=audio 9 UDP/TLS/RTP/SAVPF 111'' | MEDIA_TYPE_VIDEO \<Rightarrow> ''m=video 9 UDP/TLS/RTP/SAVPF 107 99'')"
  by (cases m) (simp_all add: media_lines_def offered_content_def template_def AudioContentDescription_def
    VideoContentDescription_def opus_codec_def h264_codec_def rtx_codec_def mc_mid_def media_mid_def int_to_string_def codec_ids)

lemma m_line:
  assumes "offered_content ntop m c"
  shows "answer_line (hd (media_lines ntop desc c)) s = (Parsed (open_media m s), open_media m s)"
proof (cases m)
  case MEDIA_TYPE_AUDIO
  let ?l = "''m=audio 9 UDP/TLS/RTP/SAVPF 111''"
  have c: "\<not> contains ''m=group:BUNDLE'' ?l" "contains ''m='' ?l" "\<not> contains ''a=ice-ufrag'' ?l" "\<not> contains ''a=ice-pwd'' ?l"
    "\<not> contains ''a=fingerprint'' ?l" "\<not> contains ''a=ssrc:'' ?l" by (simp_all add: contains.simps)
  have "split ?l (CHR '' '') = [''m=audio'', ''9'', ''UDP/TLS/RTP/SAVPF'', ''111'']" by (simp add: split_def)
  with c show ?thesis unfolding m_line_text [OF assms] using MEDIA_TYPE_AUDIO
    by (simp add: answer_line_def group_or_media_line_def media_line_def substr_from_def audio_line_def parse_transport_info_def
        parse_ssrc_info_def open_media_def)
next
  case MEDIA_TYPE_VIDEO
  let ?l = "''m=video 9 UDP/TLS/RTP/SAVPF 107 99''"
  have c: "\<not> contains ''m=group:BUNDLE'' ?l" "contains ''m='' ?l" "\<not> contains ''a=ice-ufrag'' ?l" "\<not> contains ''a=ice-pwd'' ?l"
    "\<not> contains ''a=fingerprint'' ?l" "\<not> contains ''a=ssrc:'' ?l" "\<not> contains ''a=ssrc-group:'' ?l" by (simp_all add: contains.simps)
  have "split ?l (CHR '' '') = [''m=video'', ''9'', ''UDP/TLS/RTP/SAVPF'', ''107'', ''99'']" by (simp add: split_def)
  with c show ?thesis unfolding m_line_text [OF assms] using MEDIA_TYPE_VIDEO
    by (simp add: answer_line_def group_or_media_line_def media_line_def substr_from_def video_line_def parse_transport_info_def
        parse_ssrc_info_def parse_ssrc_group_info_def open_media_def)
qed

definition heard :: "media_type \<Rightarrow> transport_description \<Rightarrow> stream_params list \<Rightarrow> answer_state \<Rightarrow> answer_state" where
  "heard m t ts s = (let td = fst (get_media m (open_media m s)) in
     put_media m (td\<lparr>td_ice_ufrag := td_ice_ufrag t, td_ice_pwd := td_ice_pwd t, td_fingerprint := td_fingerprint t\<rparr>, infos_of ts)
       (open_media m s))"

lemma media_loop_heard:
  assumes "offered_content ntop m c" "transport_ok fp t" "get_transport_info (mc_mid c) desc = Some t" "snd (get_media m s) = []"
  shows "answer_loop False (media_lines ntop desc c @ rest) s = answer_loop False rest (heard m t (mc_streams c) s)"
proof -
  have e: "media_lines ntop desc c = hd (media_lines ntop desc c) # tl (media_lines ntop desc c)" by (simp add: media_lines_def)
  obtain td where td: "get_media m (open_media m s) = (td, [])" using assms(4)
    by (cases m) (simp_all add: get_media_def open_media_def)
  have m: "as_media (open_media m s) = media_mid m" by (cases m) (simp_all add: open_media_def media_mid_def)
  have "answer_loop False (tl (media_lines ntop desc c) @ rest) (open_media m s) =
      answer_loop False rest (heard m t (mc_streams c) s)"
    unfolding heard_def Let_def td fst_conv
    by (rule inner_answer_loop [OF content_loop(2) [OF assms(1-3)] m])
      (use content_loop(1) [OF assms(1-3), of td] td assms(2) in \<open>simp add: transport_ok_def\<close>)
  then show ?thesis by (subst e) (simp add: m_line [OF assms(1)])
qed

text \<open>From lines to text.\<close>

definition one_line :: "string \<Rightarrow> bool" where "one_line l \<longleftrightarrow> CHR 0x0A \<notin> set l"

lemma tokenize_sdp: "list_all one_line ls \<Longrightarrow> tokenize (sdp_text ls) (CHR 0x0A) = map (\<lambda>l. l @ [CHR 0x0D]) ls"
proof -
  have "list_all one_line ls \<Longrightarrow> split_loop (CHR 0x0A) [] (sdp_text ls) = map (\<lambda>l. l @ [CHR 0x0D]) ls @ [[]]"
  proof (induction ls)
    case (Cons l ls)
    then have "split_loop (CHR 0x0A) [] ((l @ [CHR 0x0D]) @ (CHR 0x0A # sdp_text ls)) = (l @ [CHR 0x0D]) # split_loop (CHR 0x0A) [] (sdp_text ls)"
      by (subst split_loop_field) (simp_all add: one_line_def)
    with Cons show ?case by (simp add: sdp_text_def)
  qed (simp add: sdp_text_def)
  then show "list_all one_line ls \<Longrightarrow> tokenize (sdp_text ls) (CHR 0x0A) = map (\<lambda>l. l @ [CHR 0x0D]) ls"
    by (simp add: tokenize_split split_def filter_map comp_def)
qed

lemma answer_loop_rn: "answer_loop True (map (\<lambda>l. l @ [CHR 0x0D]) ls) s = answer_loop False ls s"
  by (induction ls arbitrary: s) (auto simp: Let_def split: prod.split sdp_step.split)

lemma parse_sdp_text:
  assumes "list_all one_line ls" "ls \<noteq> []" "answer_loop False ls answer_start = (Parsed s, s1)"
  shows "parse_answer d (sdp_text ls) = Accepted (answer_description d s)"
proof -
  obtain l ls' where ls: "ls = l # ls'" using assms(2) by (cases ls) auto
  have "contains [CHR 0x0D, CHR 0x0A] (sdp_text ls)"
    unfolding contains_sublist ls sdp_text_def by (auto simp: sublist_def)
  then show ?thesis using assms by (simp add: parse_answer_def tokenize_sdp answer_loop_rn)
qed

lemma number_line: "CHR 0x0A \<notin> set (nat_to_string n)"
  using nat_to_string_set isdigit_neq by fastforce

lemma track_one_line: "track_ok t \<Longrightarrow> list_all one_line (track_lines t)"
  using number_line by (auto simp: track_lines_def ssrc_lines_def add_ssrc_line_def ssrc_group_line_def one_line_def list_all_iff
      track_ok_def value_ok_def plain_def)

lemma transport_one_line: "transport_ok fp t \<Longrightarrow> list_all one_line (transport_lines (Some t))"
  using fips_algorithm(2) [of "fp_algorithm fp"] fingerprint_plain [of fp]
  by (auto simp: transport_lines_def transport_ok_def one_line_def word_like_def plain_def connection_role_to_string_def
      split: connection_role.split)

lemma codec_one_line: "mc_codecs c = mc_codecs (template m d) \<Longrightarrow> list_all one_line (build_rtp_map c)"
proof -
  assume c: "mc_codecs c = mc_codecs (template m d)"
  have "list_all one_line (concat (map codec_lines (mc_codecs c)))"
    unfolding c by (cases m) (simp_all add: template_def AudioContentDescription_def VideoContentDescription_def codec_lines one_line_def)
  then show ?thesis by (simp add: build_rtp_map_def codec_lines_def [abs_def])
qed

lemma media_one_line:
  assumes "offered_content ntop m c" "transport_ok fp t" "get_transport_info (mc_mid c) desc = Some t"
  shows "list_all one_line (media_lines ntop desc c)"
proof -
  have e: "media_lines ntop desc c = hd (media_lines ntop desc c) # tl (media_lines ntop desc c)" by (simp add: media_lines_def)
  have h: "one_line (hd (media_lines ntop desc c))" unfolding m_line_text [OF assms(1)] by (simp add: one_line_def split: media_type.split)
  have cand: "list_all one_line (build_candidate ntop c)"
    using assms(1) number_line int_to_string_plain
    by (auto simp: build_candidate_def candidate_line_def offered_content_def cand_ok_def plain_def one_line_def list_all_iff)
  have "list_all one_line (concat (map track_lines (mc_streams c)))"
    using assms(1) track_one_line by (auto simp: offered_content_def tracks_ok_def list_all_iff)
  moreover have "one_line (build_rtp_direction c)" "one_line (''a=mid:'' @ mc_mid c)"
    by (simp_all add: build_rtp_direction_def mc_mid_def media_mid_def one_line_def split: rtp_direction.split media_type.split)
  moreover have "list_all one_line (build_rtp_map c)"
    using assms(1) codec_one_line [of c m "mc_direction c"] by (simp add: offered_content_def)
  ultimately have "list_all one_line (tl (media_lines ntop desc c))"
    using cand transport_one_line [OF assms(2)] assms(3)
    by (simp add: media_lines_def build_ssrc_def) (simp add: one_line_def)
  with h show ?thesis by (subst e) simp
qed

text \<open>The first lines of an offer say nothing the reader keeps.\<close>

definition bundle_ok :: "session_description \<Rightarrow> bool" where
  "bundle_ok desc \<longleftrightarrow> list_all (\<lambda>g. list_all plain (content_names g)) (sd_groups desc)"

lemma session_neutral: "bundle_ok desc \<Longrightarrow> list_all neutral (session_lines desc) \<and> list_all one_line (session_lines desc)"
proof -
  assume b: "bundle_ok desc"
  define n where "n = concat (map (\<lambda>n. '' '' @ n) (concat (map content_names (get_group_by_name ''BUNDLE'' desc))))"
  have n: "plain n" using b by (auto simp: n_def bundle_ok_def plain_def list_all_iff get_group_by_name_def)
  then have g: "neutral (''a='' @ ''group:BUNDLE'' @ n)" by (intro neutral_a_line) (auto simp: plain_def)
  have o: "one_line (''a='' @ ''group:BUNDLE'' @ n)" using n by (simp add: one_line_def plain_def)
  have l: "session_lines desc = [''v=0'', ''o=- 0 2 IN IP4 127.0.0.1'', ''s=-'', ''t=0 0''] @
      (if get_group_by_name ''BUNDLE'' desc \<noteq> [] then [''a='' @ ''group:BUNDLE'' @ n] else []) @ [''a=msid-semantic: WMS'']"
  proof -
    have "(@) '' '' = (#) (CHR '' '')" by (rule ext) simp
    then show ?thesis by (simp add: session_lines_def n_def)
  qed
  have "list_all neutral [''v=0'', ''o=- 0 2 IN IP4 127.0.0.1'', ''s=-'', ''t=0 0''] \<and> list_all neutral [''a=msid-semantic: WMS'']"
    by (simp add: neutral_def inner_line_def contains.simps)
  moreover have "list_all one_line [''v=0'', ''o=- 0 2 IN IP4 127.0.0.1'', ''s=-'', ''t=0 0''] \<and> list_all one_line [''a=msid-semantic: WMS'']"
    by (simp add: one_line_def)
  ultimately show ?thesis unfolding l list_all_append using g o by simp
qed

lemma session_loop:
  assumes "list_all neutral ls" "as_media s = []"
  shows "answer_loop False (ls @ rest) s = answer_loop False rest s"
  using assms(1)
proof (induction ls)
  case (Cons l ls)
  have "answer_line l s = (Parsed s, s)"
    using Cons.prems assms(2) bundle_prefix [of l]
    by (auto simp: answer_line_def group_or_media_line_def neutral_def inner_line_def)
  with Cons show ?case by simp
qed simp

text \<open>A description with one or both media.\<close>

definition offered :: "(ip_address \<Rightarrow> string) \<Rightarrow> ssl_fingerprint \<Rightarrow> transport_description \<Rightarrow> session_description \<Rightarrow> media_type \<Rightarrow> media_content \<Rightarrow> bool" where
  "offered ntop fp t desc m c \<longleftrightarrow> offered_content ntop m c \<and> transport_ok fp t \<and>
     (\<exists>t'. get_transport_info (mc_mid c) desc = Some t' \<and> td_ice_ufrag t' = td_ice_ufrag t \<and> td_ice_pwd t' = td_ice_pwd t \<and> td_fingerprint t' = td_fingerprint t)"

lemma media_read:
  assumes "offered ntop fp t desc m c" "snd (get_media m s) = []"
  shows "answer_loop False (media_lines ntop desc c @ rest) s = answer_loop False rest (heard m t (mc_streams c) s)"
    "list_all one_line (media_lines ntop desc c)"
proof -
  from assms(1) obtain t' where t': "get_transport_info (mc_mid c) desc = Some t'" "td_ice_ufrag t' = td_ice_ufrag t"
    "td_ice_pwd t' = td_ice_pwd t" "td_fingerprint t' = td_fingerprint t" "offered_content ntop m c" "transport_ok fp t"
    by (auto simp: offered_def)
  have ok: "transport_ok fp t'" using t' by (simp add: transport_ok_def)
  have "heard m t' (mc_streams c) s = heard m t (mc_streams c) s" using t' by (simp add: heard_def)
  with media_loop_heard [OF t'(5) ok t'(1) assms(2)]
  show "answer_loop False (media_lines ntop desc c @ rest) s = answer_loop False rest (heard m t (mc_streams c) s)" by simp
  show "list_all one_line (media_lines ntop desc c)" by (rule media_one_line [OF t'(5) ok t'(1)])
qed

text \<open>Candidates that arrive change nothing else of the contents.\<close>

definition same_media :: "(ip_address \<Rightarrow> string) \<Rightarrow> media_content \<Rightarrow> media_content \<Rightarrow> bool" where
  "same_media ntop c c' \<longleftrightarrow> mc_type c' = mc_type c \<and> mc_codecs c' = mc_codecs c \<and> mc_streams c' = mc_streams c \<and>
     (list_all (cand_ok ntop) (mc_candidates c) \<longrightarrow> list_all (cand_ok ntop) (mc_candidates c'))"

lemma set_candidates_same: "list_all (cand_ok ntop) cs \<Longrightarrow> list_all2 (same_media ntop) l (set_candidates n cs l)"
proof (induction l)
  case (Cons c l)
  moreover have "list_all2 (same_media ntop) l l" by (rule list.rel_refl) (simp add: same_media_def)
  moreover have "same_media ntop c (mc_add_candidates cs c)" "same_media ntop c c"
    using Cons.prems by (simp_all add: same_media_def mc_add_candidates_def)
  ultimately show ?case by simp
qed simp

lemma codecs_template: "same_media ntop c c' \<Longrightarrow> mc_codecs c = mc_codecs (template m d) \<Longrightarrow> mc_codecs c' = mc_codecs (template m d')"
  by (cases m) (simp_all add: same_media_def template_def AudioContentDescription_def VideoContentDescription_def)

lemma gathered_desc:
  assumes "list_all (\<lambda>(n, cs). list_all (cand_ok ntop) cs) gathered" "pc_local_desc pc = Some desc"
  shows "\<exists>cs'. pc_local_desc (fold (\<lambda>(n, cs). on_candidate_allocate_done n cs) gathered pc) = Some (desc\<lparr>sd_contents := cs'\<rparr>) \<and>
    list_all2 (same_media ntop) (sd_contents desc) cs'"
  using assms
proof (induction gathered arbitrary: pc desc)
  case Nil
  have "list_all2 (same_media ntop) l l" for l by (rule list.rel_refl) (simp add: same_media_def)
  with Nil show ?case by (auto intro!: exI [of _ "sd_contents desc"])
next
  case (Cons g gathered)
  obtain n cs where g: "g = (n, cs)" by force
  let ?d = "desc\<lparr>sd_contents := set_candidates n cs (sd_contents desc)\<rparr>"
  have "pc_local_desc (on_candidate_allocate_done n cs pc) = Some ?d"
    using Cons.prems(2) by (simp add: on_candidate_allocate_done_def)
  from Cons.IH [OF _ this] Cons.prems(1) g obtain cs' where
    cs': "pc_local_desc (fold (\<lambda>(n, cs). on_candidate_allocate_done n cs) gathered (on_candidate_allocate_done n cs pc))
      = Some (?d\<lparr>sd_contents := cs'\<rparr>)" "list_all2 (same_media ntop) (sd_contents ?d) cs'" by auto
  have "list_all2 (same_media ntop) (sd_contents desc) cs'"
  proof (rule list_all2_trans [OF _ _ cs'(2)])
    show "list_all2 (same_media ntop) (sd_contents desc) (sd_contents ?d)"
      using set_candidates_same [of ntop cs] Cons.prems(1) g by simp
  qed (auto simp: same_media_def)
  with cs'(1) g show ?case by auto
qed

lemma fold_add_stream: "fold mc_add_stream ts c = c\<lparr>mc_streams := mc_streams c @ ts\<rparr>"
  by (induction ts arbitrary: c) (simp_all add: mc_add_stream_def)

lemma base64_word: "random \<noteq> [] \<Longrightarrow> word_like (string_of_bytes (CreateRandomString random))"
proof -
  assume r: "random \<noteq> []"
  have "char_of (unat (of_char c :: byte)) = c" for c
  proof -
    define n where "n = (of_char c :: nat)"
    have n: "(of_char c :: byte) = of_nat n" "n < 256" by (simp_all add: n_def of_nat_of_char)
    then have "unat (of_char c :: byte) = n" by (simp add: unat_of_nat)
    then show ?thesis by (simp add: n_def)
  qed
  then have "string_of_bytes (CreateRandomString random) = map (\<lambda>b. kBase64 ! (unat b mod 64)) random"
    by (simp add: string_of_bytes_def CreateRandomString_def)
  moreover have "kBase64 ! (unat b mod 64) \<in> set kBase64" for b :: byte
    by (rule nth_mem) (simp add: kBase64_def)
  ultimately have "set (string_of_bytes (CreateRandomString random)) \<subseteq> set kBase64" by auto
  moreover have "string_of_bytes (CreateRandomString random) \<noteq> []" using r by (simp add: string_of_bytes_def CreateRandomString_def)
  ultimately show ?thesis by (auto simp: word_like_def plain_def kBase64_def)
qed

definition offered_types :: "offer_options \<Rightarrow> media_type list" where
  "offered_types options = (if recv_audio options \<or> send_audio options then [MEDIA_TYPE_AUDIO] else []) @
     (if recv_video options \<or> send_video options then [MEDIA_TYPE_VIDEO] else [])"

definition offer_streams :: "offer_options \<Rightarrow> peer_connection \<Rightarrow> media_type \<Rightarrow> stream_params list" where
  "offer_streams options pc m = (case m of MEDIA_TYPE_AUDIO \<Rightarrow> if send_audio options then pc_audio_source pc else []
     | MEDIA_TYPE_VIDEO \<Rightarrow> if send_video options then pc_video_source pc else [])"

lemma offer_media_is:
  assumes "fingerprint_of cert = Some fp"
  shows "offer_media fingerprint_of (Some cert) ice send recv mux source content desc = (if recv \<or> send
     then desc\<lparr>sd_contents := sd_contents desc @ [content\<lparr>mc_direction := get_direction send recv, mc_rtcp_mux := mux,
         mc_streams := mc_streams content @ (if send then source else [])\<rparr>],
       sd_transports := sd_transports desc @ [\<lparr>td_mid = mc_mid content, td_ice_ufrag = string_of_bytes (ice_ufrag ice),
         td_ice_pwd = string_of_bytes (ice_pwd ice), td_fingerprint = Some fp,
         td_role = (if sd_type desc = K_offer then ACTPASS else ACTIVE)\<rparr>]\<rparr>
     else desc)"
  using assms by (simp add: offer_media_def Let_def add_transport_info_def add_transport_description_def add_content_def
      fold_add_stream mc_mid_def)

lemma fold_names_plain: "list_all plain (content_names g) \<Longrightarrow> list_all plain (content_names (fold (\<lambda>c. add_content_name (mc_mid c)) cs g))"
proof (induction cs arbitrary: g)
  case (Cons c cs)
  have "plain (mc_mid c)" by (simp add: mc_mid_def media_mid_def plain_def split: media_type.split)
  with Cons.prems have "list_all plain (content_names (add_content_name (mc_mid c) g))" by (simp add: add_content_name_def)
  from Cons.IH [OF this] show ?case by simp
qed simp

lemma offer_description_is:
  assumes "pc_certificate pc = Some cert" "fingerprint_of cert = Some fp"
    and u: "u = string_of_bytes (ice_ufrag ice)" "p = string_of_bytes (ice_pwd ice)"
  shows "map mc_type (sd_contents (offer_description fingerprint_of d ice options pc)) = offered_types options"
    "\<forall>c \<in> set (sd_contents (offer_description fingerprint_of d ice options pc)).
       mc_codecs c = mc_codecs (template (mc_type c) d) \<and> mc_candidates c = [] \<and> mc_streams c = offer_streams options pc (mc_type c) \<and>
       get_transport_info (mc_mid c) (offer_description fingerprint_of d ice options pc) =
         Some \<lparr>td_mid = mc_mid c, td_ice_ufrag = u, td_ice_pwd = p, td_fingerprint = Some fp, td_role = ACTPASS\<rparr>"
    "bundle_ok (offer_description fingerprint_of d ice options pc)"
proof -
  let ?A = "recv_audio options \<or> send_audio options" and ?V = "recv_video options \<or> send_video options"
  let ?t = "\<lambda>m. \<lparr>td_mid = media_mid m, td_ice_ufrag = u, td_ice_pwd = p, td_fingerprint = Some fp, td_role = ACTPASS\<rparr>"
  define ca where "ca = (AudioContentDescription d)\<lparr>mc_direction := get_direction (send_audio options) (recv_audio options),
      mc_rtcp_mux := use_rtcp_mux options, mc_streams := offer_streams options pc MEDIA_TYPE_AUDIO\<rparr>"
  define cv where "cv = (VideoContentDescription d)\<lparr>mc_direction := get_direction (send_video options) (recv_video options),
      mc_rtcp_mux := use_rtcp_mux options, mc_streams := offer_streams options pc MEDIA_TYPE_VIDEO\<rparr>"
  define cs where "cs = (if ?A then [ca] else []) @ (if ?V then [cv] else [])"
  have ca: "mc_type ca = MEDIA_TYPE_AUDIO" "mc_codecs ca = mc_codecs (template (mc_type ca) d)" "mc_candidates ca = []"
    "mc_streams ca = offer_streams options pc (mc_type ca)" "mc_mid ca = ''audio''"
    by (simp_all add: ca_def template_def AudioContentDescription_def mc_mid_def media_mid_def)
  have cv: "mc_type cv = MEDIA_TYPE_VIDEO" "mc_codecs cv = mc_codecs (template (mc_type cv) d)" "mc_candidates cv = []"
    "mc_streams cv = offer_streams options pc (mc_type cv)" "mc_mid cv = ''video''"
    by (simp_all add: cv_def template_def VideoContentDescription_def mc_mid_def media_mid_def)
  have off: "offer_media fingerprint_of (pc_certificate pc) ice (send_video options) (recv_video options) (use_rtcp_mux options)
        (pc_video_source pc) (VideoContentDescription d)
      (offer_media fingerprint_of (pc_certificate pc) ice (send_audio options) (recv_audio options) (use_rtcp_mux options)
        (pc_audio_source pc) (AudioContentDescription d) (SessionDescription K_offer)) =
      (SessionDescription K_offer)\<lparr>sd_contents := cs, sd_transports := map (\<lambda>c. ?t (mc_type c)) cs\<rparr>"
    unfolding assms(1) offer_media_is [of fingerprint_of, OF assms(2)]
    by (simp add: cs_def ca_def cv_def u offer_streams_def SessionDescription_def AudioContentDescription_def
        VideoContentDescription_def mc_mid_def)
  obtain gs where gs: "offer_description fingerprint_of d ice options pc =
      (SessionDescription K_offer)\<lparr>sd_contents := cs, sd_transports := map (\<lambda>c. ?t (mc_type c)) cs, sd_groups := gs\<rparr>"
    "list_all (\<lambda>g. list_all plain (content_names g)) gs"
  proof -
    let ?g = "fold (\<lambda>c. add_content_name (mc_mid c)) cs \<lparr>content_names = [], cg_semantics = ''BUNDLE''\<rparr>"
    have "list_all plain (content_names ?g)" by (rule fold_names_plain) simp
    then show ?thesis
      by (intro that [of "if use_rtp_mux options \<and> content_names ?g \<noteq> [] then [?g] else []"])
        (unfold offer_description_def off, simp_all add: offer_bundle_def Let_def add_group_def SessionDescription_def)
  qed
  show "map mc_type (sd_contents (offer_description fingerprint_of d ice options pc)) = offered_types options"
    unfolding gs(1) by (simp add: cs_def ca cv offered_types_def)
  show "bundle_ok (offer_description fingerprint_of d ice options pc)"
    unfolding gs(1) using gs(2) by (simp add: bundle_ok_def)
  show "\<forall>c \<in> set (sd_contents (offer_description fingerprint_of d ice options pc)).
       mc_codecs c = mc_codecs (template (mc_type c) d) \<and> mc_candidates c = [] \<and> mc_streams c = offer_streams options pc (mc_type c) \<and>
       get_transport_info (mc_mid c) (offer_description fingerprint_of d ice options pc) =
         Some \<lparr>td_mid = mc_mid c, td_ice_ufrag = u, td_ice_pwd = p, td_fingerprint = Some fp, td_role = ACTPASS\<rparr>"
    unfolding gs(1) using ca cv by (auto simp: cs_def get_transport_info_def mc_mid_def media_mid_def split: if_splits)
qed

text \<open>What the reader makes of it.\<close>

definition read_state :: "offer_options \<Rightarrow> peer_connection \<Rightarrow> transport_description \<Rightarrow> answer_state" where
  "read_state options pc t = fold (\<lambda>m. heard m t (offer_streams options pc m)) (offered_types options) answer_start"

lemma read_state_description:
  fixes options :: offer_options and pc :: peer_connection and t :: transport_description and d :: rtp_direction
  assumes "tracks_ok (pc_audio_source pc)"
  defines "desc \<equiv> answer_description d (read_state options pc t)"
  shows "map mc_type (sd_contents desc) = offered_types options"
    "m \<in> set (offered_types options) \<Longrightarrow> get_transport_info (media_mid m) desc = Some \<lparr>td_mid = media_mid m,
       td_ice_ufrag = td_ice_ufrag t, td_ice_pwd = td_ice_pwd t, td_fingerprint = td_fingerprint t, td_role = Role_NONE\<rparr>"
    "get_content ''audio'' desc = Some c \<Longrightarrow>
       mc_streams c = map (\<lambda>t. t\<lparr>sp_ssrc_groups := []\<rparr>) (offer_streams options pc MEDIA_TYPE_AUDIO)"
proof -
  have ct: "mc_type (content_of d a v m) = m" for a v m
    by (cases m) (simp_all add: content_of_def fold_add_stream AudioContentDescription_def VideoContentDescription_def)
  let ?s = "read_state options pc t"
  have s: "as_contents ?s = offered_types options" "MEDIA_TYPE_AUDIO \<in> set (offered_types options) \<Longrightarrow>
      as_audio_ssrc ?s = infos_of (offer_streams options pc MEDIA_TYPE_AUDIO)"
    by (auto simp: read_state_def offered_types_def heard_def open_media_def put_media_def get_media_def answer_start_def Let_def)
  have td: "as_audio_td ?s = (if MEDIA_TYPE_AUDIO \<in> set (offered_types options) then \<lparr>td_mid = ''audio'',
       td_ice_ufrag = td_ice_ufrag t, td_ice_pwd = td_ice_pwd t, td_fingerprint = td_fingerprint t, td_role = Role_NONE\<rparr> else TransportDescription)"
    "as_video_td ?s = (if MEDIA_TYPE_VIDEO \<in> set (offered_types options) then \<lparr>td_mid = ''video'',
       td_ice_ufrag = td_ice_ufrag t, td_ice_pwd = td_ice_pwd t, td_fingerprint = td_fingerprint t, td_role = Role_NONE\<rparr> else TransportDescription)"
    by (auto simp: read_state_def offered_types_def heard_def open_media_def put_media_def get_media_def answer_start_def Let_def TransportDescription_def)
  have sd: "sd_contents desc = map (content_of d (create_track_from_ssrc_info (as_audio_ssrc ?s) []) (video_streams (as_video_ssrc ?s) (as_video_groups ?s))) (as_contents ?s)"
    "sd_transports desc = [as_audio_td ?s, as_video_td ?s]"
    by (simp_all add: desc_def answer_description_def Let_def add_transport_description_def SessionDescription_def)
  show "map mc_type (sd_contents desc) = offered_types options" unfolding sd s(1) by (simp add: ct comp_def)
  show "m \<in> set (offered_types options) \<Longrightarrow> get_transport_info (media_mid m) desc = Some \<lparr>td_mid = media_mid m,
       td_ice_ufrag = td_ice_ufrag t, td_ice_pwd = td_ice_pwd t, td_fingerprint = td_fingerprint t, td_role = Role_NONE\<rparr>"
    by (cases m) (simp_all add: get_transport_info_def sd td media_mid_def TransportDescription_def)
  show "mc_streams c = map (\<lambda>t. t\<lparr>sp_ssrc_groups := []\<rparr>) (offer_streams options pc MEDIA_TYPE_AUDIO)"
    if "get_content ''audio'' desc = Some c"
  proof -
    from that obtain m where m: "m \<in> set (offered_types options)" "c = content_of d (create_track_from_ssrc_info (as_audio_ssrc ?s) [])
        (video_streams (as_video_ssrc ?s) (as_video_groups ?s)) m" "mc_mid c = ''audio''"
      unfolding get_content_def find_Some_iff sd s(1) by (metis (no_types, lifting) length_map nth_map nth_mem)
    have "media_mid m = ''audio''" using m(2,3) by (simp add: mc_mid_def ct)
    then have "m = MEDIA_TYPE_AUDIO" by (cases m) (simp_all add: media_mid_def)
    with m s(2) create_tracks_of [of "offer_streams options pc MEDIA_TYPE_AUDIO" "[]"] assms(1) show ?thesis
      by (auto simp: content_of_def fold_add_stream AudioContentDescription_def tracks_ok_def offer_streams_def)
  qed
qed

lemma offer_loop:
  assumes "bundle_ok desc" "map mc_type (sd_contents desc) = offered_types options"
    "\<forall>c \<in> set (sd_contents desc). offered ntop fp t desc (mc_type c) c \<and> mc_streams c = offer_streams options pc (mc_type c)"
  shows "answer_loop False (session_lines desc @ concat (map (media_lines ntop desc) (sd_contents desc))) answer_start =
     (Parsed (read_state options pc t), read_state options pc t)"
    "list_all one_line (session_lines desc @ concat (map (media_lines ntop desc) (sd_contents desc)))"
proof -
  have "\<forall>c \<in> set cs. offered ntop fp t desc (mc_type c) c \<and> mc_streams c = offer_streams options pc (mc_type c) \<Longrightarrow>
      distinct (map mc_type cs) \<Longrightarrow> \<forall>m \<in> set (map mc_type cs). snd (get_media m s) = [] \<Longrightarrow>
      answer_loop False (concat (map (media_lines ntop desc) cs)) s =
       (Parsed (fold (\<lambda>m. heard m t (offer_streams options pc m)) (map mc_type cs) s),
        fold (\<lambda>m. heard m t (offer_streams options pc m)) (map mc_type cs) s)" for cs s
  proof (induction cs arbitrary: s)
    case (Cons c cs)
    have "snd (get_media m (heard (mc_type c) t ts s)) = snd (get_media m s)" if "m \<noteq> mc_type c" for m ts
      using that by (cases m; cases "mc_type c") (simp_all add: heard_def Let_def put_media_def get_media_def open_media_def)
    with Cons.prems have "\<forall>m \<in> set (map mc_type cs). snd (get_media m (heard (mc_type c) t (mc_streams c) s)) = []"
      by (metis distinct.simps(2) list.set_intros(2) list.simps(9))
    with Cons.IH Cons.prems media_read(1) [of ntop fp t desc "mc_type c" c s] show ?case by simp
  qed simp
  note loop = this [OF assms(3)]
  have "distinct (offered_types options)" "\<forall>m. snd (get_media m answer_start) = []"
    by (auto simp: offered_types_def answer_start_def get_media_def split: media_type.split)
  with loop [of answer_start] assms(2) show "answer_loop False (session_lines desc @ concat (map (media_lines ntop desc) (sd_contents desc))) answer_start =
     (Parsed (read_state options pc t), read_state options pc t)"
    using session_loop [of "session_lines desc" answer_start] session_neutral [OF assms(1)]
    by (simp add: read_state_def answer_start_def)
  have "list_all one_line (media_lines ntop desc c)" if "c \<in> set (sd_contents desc)" for c
  proof -
    have "snd (get_media (mc_type c) answer_start) = []" by (cases "mc_type c") (simp_all add: answer_start_def get_media_def)
    from media_read(2) [OF _ this] assms(3) that show ?thesis by blast
  qed
  then show "list_all one_line (session_lines desc @ concat (map (media_lines ntop desc) (sd_contents desc)))"
    using session_neutral [OF assms(1)] by (auto simp: list_all_iff)
qed


definition demo_track :: stream_params where
  "demo_track = \<lparr>sp_id = ''mic'', sp_ssrcs = [1001, 1002], sp_ssrc_groups = [\<lparr>semantics = ''FID'', group_ssrcs = [1001, 1002]\<rparr>],
     sp_cname = ''c0'', sp_stream_id = ''live''\<rparr>"

definition demo_puller :: peer_connection where
  "demo_puller = PeerConnection\<lparr>pc_certificate := Some 1, pc_audio_source := [demo_track]\<rparr>"


end
