(* ===== verification/Stream_Manager.thy ===== *)
theory Stream_Manager
  imports Peer_Connection
begin

text \<open>
  The streams of a worker and their manager (\<open>stream/rtc_stream.*\<close>, \<open>push_stream.*\<close>,
  \<open>pull_stream.*\<close>, \<open>rtc_stream_manager.*\<close>).  Streams are objects: they live in a store, and the
  two tables of the manager hold their identifiers.  A result \<open>None\<close> is the use of a deleted
  stream, or the exception that a malformed answer raises.

  What the environment decides while an offer is made (credentials, candidates, fingerprints) is
  collected in \<open>offer_env\<close>.
\<close>


datatype stream_kind = K_push | K_pull

record rtc_stream =
  rs_kind :: stream_kind
  rs_uid :: u64
  rs_name :: bytes
  rs_audio :: bool
  rs_video :: bool
  rs_log_id :: u32
  rs_pc :: peer_connection
  rs_state :: pc_state
  rs_timeout_timer :: bool
  rs_listening :: bool

record offer_env =
  env_fingerprint :: "nat \<Rightarrow> ssl_fingerprint option"
  env_ntop :: "ip_address \<Rightarrow> string"
  env_direction :: rtp_direction
  env_ice :: ice_parameters
  env_gathered :: "(string \<times> candidate list) list"

definition RtcStream :: "stream_kind \<Rightarrow> u64 \<Rightarrow> bytes \<Rightarrow> bool \<Rightarrow> bool \<Rightarrow> u32 \<Rightarrow> rtc_stream" where
  "RtcStream k uid name au vi lid = \<lparr>rs_kind = k, rs_uid = uid, rs_name = name, rs_audio = au, rs_video = vi,
     rs_log_id = lid, rs_pc = PeerConnection, rs_state = Pc_new, rs_timeout_timer = False, rs_listening = False\<rparr>"

definition register_listener :: "rtc_stream \<Rightarrow> rtc_stream" where
  "register_listener s = s\<lparr>rs_listening := True\<rparr>"

definition upd_pc :: "(peer_connection \<Rightarrow> peer_connection) \<Rightarrow> rtc_stream \<Rightarrow> rtc_stream" where
  "upd_pc f s = s\<lparr>rs_pc := f (rs_pc s)\<rparr>"

definition stream_start :: "nat option \<Rightarrow> rtc_stream \<Rightarrow> rtc_stream" where
  "stream_start cert s = upd_pc (\<lambda>pc. snd (pc_init cert pc)) (s\<lparr>rs_timeout_timer := True\<rparr>)"

text \<open>\<open>PushStream::create_offer\<close> and \<open>PullStream::create_offer\<close>.\<close>

definition push_options :: "rtc_stream \<Rightarrow> offer_options" where
  "push_options s = RTCOfferAnswerOptions\<lparr>send_audio := False, send_video := False,
     recv_audio := rs_audio s, recv_video := rs_video s\<rparr>"

definition pull_options :: "rtc_stream \<Rightarrow> offer_options" where
  "pull_options s = RTCOfferAnswerOptions\<lparr>send_audio := rs_audio s, send_video := rs_video s,
     recv_audio := False, recv_video := False\<rparr>"

definition stream_create_offer :: "offer_env \<Rightarrow> rtc_stream \<Rightarrow> string \<times> rtc_stream" where
  "stream_create_offer env s = (let
     options = (case rs_kind s of K_push \<Rightarrow> push_options s | K_pull \<Rightarrow> pull_options s);
     r = create_offer (env_fingerprint env) (env_ntop env) (env_direction env) (env_ice env) (env_gathered env) options (rs_pc s) in
     (fst r, s\<lparr>rs_pc := snd r\<rparr>))"

text \<open>\<open>PushStream::_get_source\<close>: the vector stays empty when there is no answer yet.\<close>

definition get_source :: "string \<Rightarrow> rtc_stream \<Rightarrow> stream_params list" where
  "get_source mid s = (case pc_remote_desc (rs_pc s) of None \<Rightarrow> []
     | Some desc \<Rightarrow> (case get_content mid desc of None \<Rightarrow> [] | Some c \<Rightarrow> mc_streams c))"

definition get_audio_source :: "rtc_stream \<Rightarrow> stream_params list" where
  "get_audio_source s = get_source ''audio'' s"

definition get_video_source :: "rtc_stream \<Rightarrow> stream_params list" where
  "get_video_source s = get_source ''video'' s"

definition add_audio_source :: "stream_params list \<Rightarrow> rtc_stream \<Rightarrow> rtc_stream" where
  "add_audio_source source s = upd_pc (pc_add_audio_source source) s"

definition add_video_source :: "stream_params list \<Rightarrow> rtc_stream \<Rightarrow> rtc_stream" where
  "add_video_source source s = upd_pc (pc_add_video_source source) s"

definition stream_set_remote_sdp :: "rtp_direction \<Rightarrow> string \<Rightarrow> rtc_stream \<Rightarrow> rtc_stream option" where
  "stream_set_remote_sdp d answer s = map_option (\<lambda>r. s\<lparr>rs_pc := snd r\<rparr>) (set_remote_sdp d answer (rs_pc s))"

definition stream_send_rtp :: "bytes \<Rightarrow> rtc_stream \<Rightarrow> rtc_stream" where
  "stream_send_rtp data s = upd_pc (pc_send_rtp data) s"

definition stream_send_rtcp :: "bytes \<Rightarrow> rtc_stream \<Rightarrow> rtc_stream" where
  "stream_send_rtcp data s = upd_pc (pc_send_rtcp data) s"

subsection \<open>The manager\<close>

record stream_manager =
  sm_streams :: "nat \<Rightarrow> rtc_stream option"
  sm_next :: nat
  sm_push :: "bytes \<Rightarrow> nat option"
  sm_pull :: "bytes \<Rightarrow> nat option"
  sm_destroyed :: "peer_connection list"

definition RtcStreamManager :: stream_manager where
  "RtcStreamManager = \<lparr>sm_streams = (\<lambda>_. None), sm_next = 0, sm_push = (\<lambda>_. None), sm_pull = (\<lambda>_. None), sm_destroyed = []\<rparr>"

definition get_stream :: "nat \<Rightarrow> stream_manager \<Rightarrow> rtc_stream option" where
  "get_stream i m = sm_streams m i"

definition upd_stream :: "nat \<Rightarrow> rtc_stream \<Rightarrow> stream_manager \<Rightarrow> stream_manager" where
  "upd_stream i s m = m\<lparr>sm_streams := (sm_streams m)(i := Some s)\<rparr>"

text \<open>The destructor of a stream deletes its timer and destroys its peer connection.\<close>

definition delete_stream :: "nat \<Rightarrow> stream_manager \<Rightarrow> stream_manager option" where
  "delete_stream i m = do {
     s \<leftarrow> get_stream i m;
     Some (m\<lparr>sm_streams := (sm_streams m)(i := None), sm_destroyed := sm_destroyed m @ [pc_destroy (rs_pc s)]\<rparr>)
   }"

definition new_stream :: "rtc_stream \<Rightarrow> stream_manager \<Rightarrow> nat \<times> stream_manager" where
  "new_stream s m = (sm_next m, upd_stream (sm_next m) s (m\<lparr>sm_next := Suc (sm_next m)\<rparr>))"

definition find_push_stream :: "bytes \<Rightarrow> stream_manager \<Rightarrow> nat option" where
  "find_push_stream name m = sm_push m name"

definition find_pull_stream :: "bytes \<Rightarrow> stream_manager \<Rightarrow> nat option" where
  "find_pull_stream name m = sm_pull m name"

definition remove_push_stream :: "u64 \<Rightarrow> bytes \<Rightarrow> stream_manager \<Rightarrow> stream_manager option" where
  "remove_push_stream uid name m = (case find_push_stream name m of None \<Rightarrow> Some m
     | Some i \<Rightarrow> do {
         s \<leftarrow> get_stream i m;
         if uid = rs_uid s then delete_stream i (m\<lparr>sm_push := (sm_push m)(name := None)\<rparr>) else Some m
       })"

definition remove_pull_stream :: "u64 \<Rightarrow> bytes \<Rightarrow> stream_manager \<Rightarrow> stream_manager option" where
  "remove_pull_stream uid name m = (case find_pull_stream name m of None \<Rightarrow> Some m
     | Some i \<Rightarrow> do {
         s \<leftarrow> get_stream i m;
         if uid = rs_uid s then delete_stream i (m\<lparr>sm_pull := (sm_pull m)(name := None)\<rparr>) else Some m
       })"

definition remove_push_of :: "nat \<Rightarrow> stream_manager \<Rightarrow> stream_manager option" where
  "remove_push_of i m = do { s \<leftarrow> get_stream i m; remove_push_stream (rs_uid s) (rs_name s) m }"

definition remove_pull_of :: "nat \<Rightarrow> stream_manager \<Rightarrow> stream_manager option" where
  "remove_pull_of i m = do { s \<leftarrow> get_stream i m; remove_pull_stream (rs_uid s) (rs_name s) m }"

definition answer_stream :: "rtp_direction \<Rightarrow> u64 \<Rightarrow> string \<Rightarrow> nat option \<Rightarrow> stream_manager \<Rightarrow> (int \<times> stream_manager) option" where
  "answer_stream d uid answer found m = (case found of None \<Rightarrow> Some (-1, m)
     | Some i \<Rightarrow> do {
         s \<leftarrow> get_stream i m;
         if uid \<noteq> rs_uid s then Some (-1, m)
         else do { s1 \<leftarrow> stream_set_remote_sdp d answer s; Some (0, upd_stream i s1 m) }
       })"

definition set_answer ::
  "rtp_direction \<Rightarrow> u64 \<Rightarrow> bytes \<Rightarrow> string \<Rightarrow> bytes \<Rightarrow> stream_manager \<Rightarrow> (int \<times> stream_manager) option" where
  "set_answer d uid name answer type m =
     (if type = bytes_of_string ''push'' then answer_stream d uid answer (find_push_stream name m) m
      else if type = bytes_of_string ''pull'' then answer_stream d uid answer (find_pull_stream name m) m
      else Some (0, m))"

definition stop_push :: "u64 \<Rightarrow> bytes \<Rightarrow> stream_manager \<Rightarrow> (int \<times> stream_manager) option" where
  "stop_push uid name m = map_option (Pair 0) (remove_push_stream uid name m)"

definition stop_pull :: "u64 \<Rightarrow> bytes \<Rightarrow> stream_manager \<Rightarrow> (int \<times> stream_manager) option" where
  "stop_pull uid name m = map_option (Pair 0) (remove_pull_stream uid name m)"

definition create_push_stream ::
  "offer_env \<Rightarrow> u64 \<Rightarrow> bytes \<Rightarrow> bool \<Rightarrow> bool \<Rightarrow> u32 \<Rightarrow> nat option \<Rightarrow> stream_manager
     \<Rightarrow> (int \<times> string \<times> stream_manager) option" where
  "create_push_stream env uid name au vi lid cert m = do {
     m1 \<leftarrow> (case find_push_stream name m of None \<Rightarrow> Some m
       | Some i \<Rightarrow> delete_stream i (m\<lparr>sm_push := (sm_push m)(name := None)\<rparr>));
     let r = stream_create_offer env (stream_start cert (register_listener (RtcStream K_push uid name au vi lid)));
     let (i, m2) = new_stream (snd r) m1;
     Some (0, fst r, m2\<lparr>sm_push := (sm_push m2)(name := Some i)\<rparr>)
   }"

definition create_pull_stream ::
  "offer_env \<Rightarrow> u64 \<Rightarrow> bytes \<Rightarrow> bool \<Rightarrow> bool \<Rightarrow> u32 \<Rightarrow> nat option \<Rightarrow> stream_manager
     \<Rightarrow> (int \<times> string \<times> stream_manager) option" where
  "create_pull_stream env uid name au vi lid cert m = (case find_push_stream name m of None \<Rightarrow> Some (-1, [], m)
     | Some p \<Rightarrow> do {
         m1 \<leftarrow> remove_pull_stream uid name m;
         push \<leftarrow> get_stream p m1;
         let r = stream_create_offer env (stream_start cert (add_video_source (get_video_source push)
           (add_audio_source (get_audio_source push) (register_listener (RtcStream K_pull uid name au vi lid)))));
         let (i, m2) = new_stream (snd r) m1;
         Some (0, fst r, m2\<lparr>sm_pull := (sm_pull m2)(name := Some i)\<rparr>)
       })"

subsection \<open>Signals\<close>

text \<open>The slots of the manager.\<close>

definition on_connection_state :: "nat \<Rightarrow> pc_state \<Rightarrow> stream_manager \<Rightarrow> stream_manager option" where
  "on_connection_state i state m = (if state = Pc_failed then remove_push_of i m else Some m)"

definition on_rtp_packet_received :: "nat \<Rightarrow> bytes \<Rightarrow> stream_manager \<Rightarrow> stream_manager option" where
  "on_rtp_packet_received i data m = do {
     s \<leftarrow> get_stream i m;
     if rs_kind s = K_push then (case find_pull_stream (rs_name s) m of None \<Rightarrow> Some m
       | Some j \<Rightarrow> do { p \<leftarrow> get_stream j m; Some (upd_stream j (stream_send_rtp data p) m) })
     else Some m
   }"

definition on_rtcp_packet_received :: "nat \<Rightarrow> bytes \<Rightarrow> stream_manager \<Rightarrow> stream_manager option" where
  "on_rtcp_packet_received i data m = do {
     s \<leftarrow> get_stream i m;
     case (if rs_kind s = K_push then find_pull_stream (rs_name s) m else find_push_stream (rs_name s) m) of None \<Rightarrow> Some m
       | Some j \<Rightarrow> do { p \<leftarrow> get_stream j m; Some (upd_stream j (stream_send_rtcp data p) m) }
   }"

definition on_stream_exception :: "nat \<Rightarrow> stream_manager \<Rightarrow> stream_manager option" where
  "on_stream_exception i m = do {
     s \<leftarrow> get_stream i m;
     case rs_kind s of K_push \<Rightarrow> remove_push_of i m | K_pull \<Rightarrow> remove_pull_of i m
   }"

text \<open>The slots of a stream: what its peer connection and its timer signal.\<close>

definition stream_connection_state :: "nat \<Rightarrow> pc_state \<Rightarrow> stream_manager \<Rightarrow> stream_manager option" where
  "stream_connection_state i state m = do {
     s \<leftarrow> get_stream i m;
     if rs_state s = state then Some m
     else let s1 = s\<lparr>rs_state := state\<rparr>;
              s2 = (if state = Pc_connected then s1\<lparr>rs_timeout_timer := False\<rparr> else s1);
              m1 = upd_stream i s2 m in
       if rs_listening s2 then on_connection_state i state m1 else Some m1
   }"

definition stream_rtp_packet :: "nat \<Rightarrow> bytes \<Rightarrow> stream_manager \<Rightarrow> stream_manager option" where
  "stream_rtp_packet i data m = do {
     s \<leftarrow> get_stream i m;
     if rs_listening s then on_rtp_packet_received i data m else Some m
   }"

definition stream_rtcp_packet :: "nat \<Rightarrow> bytes \<Rightarrow> stream_manager \<Rightarrow> stream_manager option" where
  "stream_rtcp_packet i data m = do {
     s \<leftarrow> get_stream i m;
     if rs_listening s then on_rtcp_packet_received i data m else Some m
   }"

definition ice_timeout_cb :: "nat \<Rightarrow> stream_manager \<Rightarrow> stream_manager option" where
  "ice_timeout_cb i m = do {
     s \<leftarrow> get_stream i m;
     if rs_state s \<noteq> Pc_connected \<and> rs_listening s then on_stream_exception i m else Some m
   }"

subsection \<open>The tables and the streams\<close>

text \<open>Every entry of a table is a live stream of its kind and name, and every live push stream is in
  its table.\<close>

definition sm_inv :: "stream_manager \<Rightarrow> bool" where
  "sm_inv m \<longleftrightarrow>
     (\<forall>name i. sm_push m name = Some i \<longrightarrow> (\<exists>s. sm_streams m i = Some s \<and> rs_kind s = K_push \<and> rs_name s = name)) \<and>
     (\<forall>name i. sm_pull m name = Some i \<longrightarrow> (\<exists>s. sm_streams m i = Some s \<and> rs_kind s = K_pull \<and> rs_name s = name)) \<and>
     (\<forall>i s. sm_streams m i = Some s \<longrightarrow> i < sm_next m) \<and>
     (\<forall>i s. sm_streams m i = Some s \<longrightarrow> rs_kind s = K_push \<longrightarrow> sm_push m (rs_name s) = Some i)"

lemma sm_invI:
  assumes "\<And>name i. sm_push m name = Some i \<Longrightarrow> \<exists>s. sm_streams m i = Some s \<and> rs_kind s = K_push \<and> rs_name s = name"
    "\<And>name i. sm_pull m name = Some i \<Longrightarrow> \<exists>s. sm_streams m i = Some s \<and> rs_kind s = K_pull \<and> rs_name s = name"
    "\<And>i s. sm_streams m i = Some s \<Longrightarrow> i < sm_next m"
    "\<And>i s. sm_streams m i = Some s \<Longrightarrow> rs_kind s = K_push \<Longrightarrow> sm_push m (rs_name s) = Some i"
  shows "sm_inv m"
  using assms by (simp add: sm_inv_def)

lemma sm_invD:
  assumes "sm_inv m"
  shows "find_push_stream name m = Some i \<Longrightarrow> \<exists>s. get_stream i m = Some s \<and> rs_kind s = K_push \<and> rs_name s = name"
    "find_pull_stream name m = Some i \<Longrightarrow> \<exists>s. get_stream i m = Some s \<and> rs_kind s = K_pull \<and> rs_name s = name"
    "get_stream i m = Some s \<Longrightarrow> i < sm_next m"
    "get_stream i m = Some s \<Longrightarrow> rs_kind s = K_push \<Longrightarrow> find_push_stream (rs_name s) m = Some i"
  using assms by (simp_all add: sm_inv_def find_push_stream_def find_pull_stream_def get_stream_def)

lemma sm_inv_raw:
  assumes "sm_inv m"
  shows "sm_push m name = Some i \<Longrightarrow> \<exists>s. sm_streams m i = Some s \<and> rs_kind s = K_push \<and> rs_name s = name"
    "sm_pull m name = Some i \<Longrightarrow> \<exists>s. sm_streams m i = Some s \<and> rs_kind s = K_pull \<and> rs_name s = name"
    "sm_streams m i = Some s \<Longrightarrow> i < sm_next m"
    "sm_streams m i = Some s \<Longrightarrow> rs_kind s = K_push \<Longrightarrow> sm_push m (rs_name s) = Some i"
  using assms by (simp_all add: sm_inv_def)

lemma sm_inv_start: "sm_inv RtcStreamManager"
  by (simp add: sm_inv_def RtcStreamManager_def)

lemma sm_inv_upd [inv_intros]:
  assumes "sm_inv m" "get_stream i m = Some s" "rs_kind s' = rs_kind s" "rs_name s' = rs_name s"
  shows "sm_inv (upd_stream i s' m)"
proof (rule sm_invI)
  fix n j assume "sm_push (upd_stream i s' m) n = Some j"
  then show "\<exists>s. sm_streams (upd_stream i s' m) j = Some s \<and> rs_kind s = K_push \<and> rs_name s = n"
    using sm_inv_raw(1) [OF assms(1), of n j] assms(2-4) by (auto simp: upd_stream_def get_stream_def)
next
  fix n j assume "sm_pull (upd_stream i s' m) n = Some j"
  then show "\<exists>s. sm_streams (upd_stream i s' m) j = Some s \<and> rs_kind s = K_pull \<and> rs_name s = n"
    using sm_inv_raw(2) [OF assms(1), of n j] assms(2-4) by (auto simp: upd_stream_def get_stream_def)
next
  fix j t assume "sm_streams (upd_stream i s' m) j = Some t"
  then show "j < sm_next (upd_stream i s' m)"
    using sm_inv_raw(3) [OF assms(1)] assms(2) by (auto simp: upd_stream_def get_stream_def split: if_splits)
next
  fix j t assume "sm_streams (upd_stream i s' m) j = Some t" "rs_kind t = K_push"
  then show "sm_push (upd_stream i s' m) (rs_name t) = Some j"
    using sm_inv_raw(4) [OF assms(1)] assms(2-4) by (auto simp: upd_stream_def get_stream_def split: if_splits)
qed

lemma sm_inv_drop_push:
  assumes "sm_inv m" "find_push_stream name m = Some i"
  shows "\<exists>m'. delete_stream i (m\<lparr>sm_push := (sm_push m)(name := None)\<rparr>) = Some m' \<and> sm_inv m' \<and> sm_pull m' = sm_pull m \<and>
    find_push_stream name m' = None \<and> sm_next m' = sm_next m \<and> sm_streams m' = (sm_streams m)(i := None)"
proof -
  from sm_invD(1) [OF assms] obtain s where s: "get_stream i m = Some s" "rs_kind s = K_push" "rs_name s = name" by blast
  let ?m = "m\<lparr>sm_push := (sm_push m)(name := None), sm_streams := (sm_streams m)(i := None),
      sm_destroyed := sm_destroyed m @ [pc_destroy (rs_pc s)]\<rparr>"
  have d: "delete_stream i (m\<lparr>sm_push := (sm_push m)(name := None)\<rparr>) = Some ?m"
    using s(1) by (simp add: delete_stream_def get_stream_def)
  have "sm_inv ?m"
  proof (rule sm_invI)
    fix n j assume "sm_push ?m n = Some j"
    then have "sm_push m n = Some j" "n \<noteq> name" by (simp_all split: if_splits)
    with sm_inv_raw(1) [OF assms(1), of n j] obtain s' where "sm_streams m j = Some s'" "rs_kind s' = K_push" "rs_name s' = n" by auto
    moreover have "j \<noteq> i" using s \<open>n \<noteq> name\<close> calculation by (auto simp: get_stream_def)
    ultimately show "\<exists>s. sm_streams ?m j = Some s \<and> rs_kind s = K_push \<and> rs_name s = n" by simp
  next
    fix n j assume "sm_pull ?m n = Some j"
    with sm_inv_raw(2) [OF assms(1), of n j] obtain s' where "sm_streams m j = Some s'" "rs_kind s' = K_pull" "rs_name s' = n" by auto
    with s show "\<exists>s. sm_streams ?m j = Some s \<and> rs_kind s = K_pull \<and> rs_name s = n" by (auto simp: get_stream_def)
  next
    fix j s' assume "sm_streams ?m j = Some s'"
    with assms(1) show "j < sm_next ?m" by (auto simp: sm_inv_def split: if_splits)
  next
    fix j s' assume a: "sm_streams ?m j = Some s'" "rs_kind s' = K_push"
    then have j: "j \<noteq> i" "sm_streams m j = Some s'" by (simp_all split: if_splits)
    with assms(1) a(2) have "sm_push m (rs_name s') = Some j" by (auto simp: sm_inv_def)
    with j assms(2) show "sm_push ?m (rs_name s') = Some j" by (auto simp: find_push_stream_def)
  qed
  with d show ?thesis by (simp add: find_push_stream_def)
qed

lemma sm_inv_drop_pull:
  assumes "sm_inv m" "find_pull_stream name m = Some i"
  shows "\<exists>m'. delete_stream i (m\<lparr>sm_pull := (sm_pull m)(name := None)\<rparr>) = Some m' \<and> sm_inv m' \<and> sm_push m' = sm_push m \<and>
    find_pull_stream name m' = None \<and> sm_next m' = sm_next m \<and> sm_streams m' = (sm_streams m)(i := None)"
proof -
  from sm_invD(2) [OF assms] obtain s where s: "get_stream i m = Some s" "rs_kind s = K_pull" "rs_name s = name" by blast
  let ?m = "m\<lparr>sm_pull := (sm_pull m)(name := None), sm_streams := (sm_streams m)(i := None),
      sm_destroyed := sm_destroyed m @ [pc_destroy (rs_pc s)]\<rparr>"
  have d: "delete_stream i (m\<lparr>sm_pull := (sm_pull m)(name := None)\<rparr>) = Some ?m"
    using s(1) by (simp add: delete_stream_def get_stream_def)
  have "sm_inv ?m"
  proof (rule sm_invI)
    fix n j assume "sm_push ?m n = Some j"
    with sm_inv_raw(1) [OF assms(1), of n j] obtain s' where "sm_streams m j = Some s'" "rs_kind s' = K_push" "rs_name s' = n" by auto
    with s show "\<exists>s. sm_streams ?m j = Some s \<and> rs_kind s = K_push \<and> rs_name s = n" by (auto simp: get_stream_def)
  next
    fix n j assume "sm_pull ?m n = Some j"
    then have "sm_pull m n = Some j" "n \<noteq> name" by (simp_all split: if_splits)
    with sm_inv_raw(2) [OF assms(1), of n j] obtain s' where "sm_streams m j = Some s'" "rs_kind s' = K_pull" "rs_name s' = n" by auto
    moreover have "j \<noteq> i" using s \<open>n \<noteq> name\<close> calculation by (auto simp: get_stream_def)
    ultimately show "\<exists>s. sm_streams ?m j = Some s \<and> rs_kind s = K_pull \<and> rs_name s = n" by simp
  next
    fix j s' assume "sm_streams ?m j = Some s'"
    with assms(1) show "j < sm_next ?m" by (auto simp: sm_inv_def split: if_splits)
  next
    fix j s' assume a: "sm_streams ?m j = Some s'" "rs_kind s' = K_push"
    with assms(1) show "sm_push ?m (rs_name s') = Some j" by (auto simp: sm_inv_def split: if_splits)
  qed
  with d show ?thesis by (simp add: find_pull_stream_def)
qed

lemma remove_push_inv:
  assumes "sm_inv m"
  shows "\<exists>m'. remove_push_stream uid name m = Some m' \<and> sm_inv m'"
proof (cases "find_push_stream name m")
  case (Some i)
  from sm_invD(1) [OF assms Some] sm_inv_drop_push [OF assms Some] Some assms show ?thesis
    by (auto simp: remove_push_stream_def)
qed (simp add: remove_push_stream_def assms)

lemma remove_pull_inv:
  assumes "sm_inv m"
  shows "\<exists>m'. remove_pull_stream uid name m = Some m' \<and> sm_inv m' \<and> sm_push m' = sm_push m"
proof (cases "find_pull_stream name m")
  case (Some i)
  from sm_invD(2) [OF assms Some] sm_inv_drop_pull [OF assms Some] Some assms show ?thesis
    by (auto simp: remove_pull_stream_def)
qed (simp add: remove_pull_stream_def assms)

lemma stream_create_offer_keeps [simp]:
  "rs_kind (snd (stream_create_offer env s)) = rs_kind s" "rs_name (snd (stream_create_offer env s)) = rs_name s"
  "rs_uid (snd (stream_create_offer env s)) = rs_uid s" "rs_listening (snd (stream_create_offer env s)) = rs_listening s"
  "rs_state (snd (stream_create_offer env s)) = rs_state s"
  by (simp_all add: stream_create_offer_def Let_def)

lemma create_push_inv:
  assumes "sm_inv m"
  shows "\<exists>r m' s. create_push_stream env uid name au vi lid cert m = Some (0, r, m') \<and> sm_inv m' \<and>
    find_push_stream name m' = Some (sm_next m) \<and> get_stream (sm_next m) m' = Some s \<and> rs_uid s = uid"
proof -
  obtain m1 where m1: "(case find_push_stream name m of None \<Rightarrow> Some m
      | Some i \<Rightarrow> delete_stream i (m\<lparr>sm_push := (sm_push m)(name := None)\<rparr>)) = Some m1" "sm_inv m1"
    "find_push_stream name m1 = None" "sm_next m1 = sm_next m"
  proof (cases "find_push_stream name m")
    case (Some i)
    from sm_inv_drop_push [OF assms Some] that Some show thesis by auto
  qed (use that assms in simp)
  let ?r = "stream_create_offer env (stream_start cert (register_listener (RtcStream K_push uid name au vi lid)))"
  define t where "t = snd ?r"
  have t: "rs_kind t = K_push" "rs_name t = name" "rs_uid t = uid"
    by (simp_all add: t_def stream_start_def upd_pc_def register_listener_def RtcStream_def)
  let ?m = "m1\<lparr>sm_next := Suc (sm_next m1), sm_streams := (sm_streams m1)(sm_next m1 := Some t),
      sm_push := (sm_push m1)(name := Some (sm_next m1))\<rparr>"
  have c: "create_push_stream env uid name au vi lid cert m = Some (0, fst ?r, ?m)"
    using m1(1) by (simp add: create_push_stream_def new_stream_def upd_stream_def Let_def t_def)
  note raw = sm_inv_raw [OF m1(2)]
  have "sm_inv ?m"
  proof (rule sm_invI)
    fix n j assume "sm_push ?m n = Some j"
    then show "\<exists>s. sm_streams ?m j = Some s \<and> rs_kind s = K_push \<and> rs_name s = n"
      using raw(1) [of n j] raw(3) [of j] t by (auto split: if_splits)
  next
    fix n j assume "sm_pull ?m n = Some j"
    then show "\<exists>s. sm_streams ?m j = Some s \<and> rs_kind s = K_pull \<and> rs_name s = n"
      using raw(2) [of n j] raw(3) [of j] by auto
  next
    fix j s' assume "sm_streams ?m j = Some s'"
    then show "j < sm_next ?m" using raw(3) [of j] by (auto simp: less_Suc_eq split: if_splits)
  next
    fix j s' assume "sm_streams ?m j = Some s'" "rs_kind s' = K_push"
    then show "sm_push ?m (rs_name s') = Some j"
      using raw(4) [of j s'] m1(3) t by (auto simp: find_push_stream_def split: if_splits)
  qed
  with c t m1(4) show ?thesis by (simp add: find_push_stream_def get_stream_def)
qed

lemma create_pull_inv:
  assumes "sm_inv m"
  shows "\<exists>ret r m'. create_pull_stream env uid name au vi lid cert m = Some (ret, r, m') \<and> sm_inv m'"
proof (cases "find_push_stream name m")
  case None
  then show ?thesis using assms by (simp add: create_pull_stream_def)
next
  case (Some p)
  from remove_pull_inv [OF assms] obtain m1 where m1: "remove_pull_stream uid name m = Some m1" "sm_inv m1" "sm_push m1 = sm_push m"
    by blast
  with Some have "find_push_stream name m1 = Some p" by (simp add: find_push_stream_def)
  from sm_invD(1) [OF m1(2) this] obtain push where push: "get_stream p m1 = Some push" by blast
  let ?r = "stream_create_offer env (stream_start cert (add_video_source (get_video_source push)
      (add_audio_source (get_audio_source push) (register_listener (RtcStream K_pull uid name au vi lid)))))"
  define t where "t = snd ?r"
  have t: "rs_kind t = K_pull" "rs_name t = name"
    by (simp_all add: t_def stream_start_def upd_pc_def register_listener_def RtcStream_def add_video_source_def add_audio_source_def)
  let ?m = "m1\<lparr>sm_next := Suc (sm_next m1), sm_streams := (sm_streams m1)(sm_next m1 := Some t),
      sm_pull := (sm_pull m1)(name := Some (sm_next m1))\<rparr>"
  have c: "create_pull_stream env uid name au vi lid cert m = Some (0, fst ?r, ?m)"
    using m1(1) push Some by (simp add: create_pull_stream_def new_stream_def upd_stream_def Let_def t_def)
  note raw = sm_inv_raw [OF m1(2)]
  have "sm_inv ?m"
  proof (rule sm_invI)
    fix n j assume "sm_push ?m n = Some j"
    then show "\<exists>s. sm_streams ?m j = Some s \<and> rs_kind s = K_push \<and> rs_name s = n"
      using raw(1) [of n j] raw(3) [of j] by auto
  next
    fix n j assume "sm_pull ?m n = Some j"
    then show "\<exists>s. sm_streams ?m j = Some s \<and> rs_kind s = K_pull \<and> rs_name s = n"
      using raw(2) [of n j] raw(3) [of j] t by (auto split: if_splits)
  next
    fix j s' assume "sm_streams ?m j = Some s'"
    then show "j < sm_next ?m" using raw(3) [of j] by (auto simp: less_Suc_eq split: if_splits)
  next
    fix j s' assume "sm_streams ?m j = Some s'" "rs_kind s' = K_push"
    then show "sm_push ?m (rs_name s') = Some j" using raw(4) [of j s'] t by (auto split: if_splits)
  qed
  with c show ?thesis by simp
qed

subsection \<open>Every sequence of events\<close>

datatype manager_event =
    Push u64 bytes bool bool u32 "nat option"
  | Pull u64 bytes bool bool u32 "nat option"
  | Answer u64 bytes string bytes
  | Stop_push u64 bytes
  | Stop_pull u64 bytes
  | Connection_state nat pc_state
  | Rtp_packet nat bytes
  | Rtcp_packet nat bytes
  | Ice_timeout nat

text \<open>A deleted stream is disconnected from its peer connection and its timer: only live ones signal.\<close>

definition event_possible :: "manager_event \<Rightarrow> stream_manager \<Rightarrow> bool" where
  "event_possible e m \<longleftrightarrow> (case e of Connection_state i _ \<Rightarrow> get_stream i m \<noteq> None | Rtp_packet i _ \<Rightarrow> get_stream i m \<noteq> None
     | Rtcp_packet i _ \<Rightarrow> get_stream i m \<noteq> None | Ice_timeout i \<Rightarrow> get_stream i m \<noteq> None | _ \<Rightarrow> True)"

definition manager_step :: "offer_env \<Rightarrow> manager_event \<Rightarrow> stream_manager \<Rightarrow> stream_manager option" where
  "manager_step env e m = (case e of
       Push uid name au vi lid cert \<Rightarrow> map_option (snd \<circ> snd) (create_push_stream env uid name au vi lid cert m)
     | Pull uid name au vi lid cert \<Rightarrow> map_option (snd \<circ> snd) (create_pull_stream env uid name au vi lid cert m)
     | Answer uid name answer type \<Rightarrow> map_option snd (set_answer (env_direction env) uid name answer type m)
     | Stop_push uid name \<Rightarrow> map_option snd (stop_push uid name m)
     | Stop_pull uid name \<Rightarrow> map_option snd (stop_pull uid name m)
     | Connection_state i st \<Rightarrow> stream_connection_state i st m
     | Rtp_packet i data \<Rightarrow> stream_rtp_packet i data m
     | Rtcp_packet i data \<Rightarrow> stream_rtcp_packet i data m
     | Ice_timeout i \<Rightarrow> ice_timeout_cb i m)"

inductive manager_reach :: "stream_manager \<Rightarrow> bool" where
  manager_start: "manager_reach RtcStreamManager"
| manager_event: "manager_reach m \<Longrightarrow> event_possible e m \<Longrightarrow> manager_step env e m = Some m' \<Longrightarrow> manager_reach m'"

lemma upd_pc_keeps [simp]: "rs_kind (upd_pc f s) = rs_kind s" "rs_name (upd_pc f s) = rs_name s" "rs_uid (upd_pc f s) = rs_uid s"
  by (simp_all add: upd_pc_def)

lemma remove_of_inv:
  assumes "sm_inv m" "get_stream i m = Some s"
  shows "\<exists>m'. remove_push_of i m = Some m' \<and> sm_inv m'" "\<exists>m'. remove_pull_of i m = Some m' \<and> sm_inv m'"
  using remove_push_inv [OF assms(1)] remove_pull_inv [OF assms(1)] assms(2)
  by (simp add: remove_push_of_def, simp add: remove_pull_of_def) blast

lemma state_inv:
  assumes "sm_inv m" "get_stream i m = Some s"
  shows "\<exists>m'. stream_connection_state i st m = Some m' \<and> sm_inv m'"
proof -
  let ?s = "if st = Pc_connected then s\<lparr>rs_state := st, rs_timeout_timer := False\<rparr> else s\<lparr>rs_state := st\<rparr>"
  have u: "sm_inv (upd_stream i ?s m)" by (rule sm_inv_upd [OF assms]) simp_all
  have g: "get_stream i (upd_stream i ?s m) = Some ?s" by (simp add: get_stream_def upd_stream_def)
  from remove_of_inv(1) [OF u g] u assms show ?thesis
    by (auto simp: stream_connection_state_def Let_def on_connection_state_def split: if_splits)
qed

lemma answer_stream_step:
  assumes "sm_inv m" "found = None \<or> (\<exists>i s. found = Some i \<and> get_stream i m = Some s)"
  shows "case answer_stream d uid answer found m of Some (r, m') \<Rightarrow> sm_inv m' | None \<Rightarrow> \<exists>desc. parse_answer d answer = Thrown desc"
proof (cases found)
  case (Some i)
  with assms(2) obtain s where s: "get_stream i m = Some s" by auto
  show ?thesis
  proof (cases "stream_set_remote_sdp d answer s")
    case None
    then have "\<exists>desc. parse_answer d answer = Thrown desc"
      by (auto simp: stream_set_remote_sdp_def set_remote_sdp_def split: answer_result.splits)
    with None s Some assms(1) show ?thesis by (auto simp: answer_stream_def)
  next
    case (Some s1)
    then have "rs_kind s1 = rs_kind s" "rs_name s1 = rs_name s" by (auto simp: stream_set_remote_sdp_def)
    from sm_inv_upd [OF assms(1) s this] Some s \<open>found = Some i\<close> assms(1) show ?thesis by (auto simp: answer_stream_def)
  qed
qed (use assms(1) in \<open>simp add: answer_stream_def\<close>)

lemma packet_inv:
  assumes "sm_inv m" "get_stream i m = Some s"
  shows "\<exists>m'. stream_rtp_packet i data m = Some m' \<and> sm_inv m'" "\<exists>m'. stream_rtcp_packet i data m = Some m' \<and> sm_inv m'"
proof -
  have u: "sm_inv (upd_stream j (upd_pc f p) m)" if "get_stream j m = Some p" for j p f
    by (rule sm_inv_upd [OF assms(1) that]) simp_all
  have live: "\<exists>p. get_stream j m = Some p" if "find_push_stream n m = Some j \<or> find_pull_stream n m = Some j" for n j
    using that sm_invD(1,2) [OF assms(1)] by blast
  show "\<exists>m'. stream_rtp_packet i data m = Some m' \<and> sm_inv m'"
    using assms live [of "rs_name s"] u
    by (fastforce simp: stream_rtp_packet_def on_rtp_packet_received_def stream_send_rtp_def split: option.split)
  show "\<exists>m'. stream_rtcp_packet i data m = Some m' \<and> sm_inv m'"
    using assms live [of "rs_name s"] u
    by (fastforce simp: stream_rtcp_packet_def on_rtcp_packet_received_def stream_send_rtcp_def split: option.split)
qed

lemma manager_step_inv:
  assumes "sm_inv m" "event_possible e m"
  shows "case manager_step env e m of Some m' \<Rightarrow> sm_inv m'
    | None \<Rightarrow> \<exists>uid name answer type desc. e = Answer uid name answer type \<and> parse_answer (env_direction env) answer = Thrown desc"
proof (cases e)
  case (Push uid name au vi lid cert)
  from create_push_inv [OF assms(1), of env uid name au vi lid cert] Push show ?thesis by (auto simp: manager_step_def)
next
  case (Pull uid name au vi lid cert)
  from create_pull_inv [OF assms(1), of env uid name au vi lid cert] Pull show ?thesis by (auto simp: manager_step_def)
next
  case (Answer uid name answer type)
  let ?d = "env_direction env"
  have f: "f = None \<or> (\<exists>i s. f = Some i \<and> get_stream i m = Some s)" if "f = find_push_stream name m \<or> f = find_pull_stream name m" for f
    using that sm_invD(1,2) [OF assms(1), of name] by (metis not_None_eq)
  have "case set_answer ?d uid name answer type m of Some (r, m') \<Rightarrow> sm_inv m' | None \<Rightarrow> \<exists>desc. parse_answer ?d answer = Thrown desc"
    using answer_stream_step [OF assms(1) f, where found = "find_push_stream name m" and d = ?d and uid = uid and answer = answer]
      answer_stream_step [OF assms(1) f, where found = "find_pull_stream name m" and d = ?d and uid = uid and answer = answer] assms(1)
    by (simp add: set_answer_def)
  then show ?thesis unfolding Answer manager_step_def
    by (cases "set_answer ?d uid name answer type m") auto
next
  case (Stop_push uid name)
  with remove_push_inv [OF assms(1), of uid name] show ?thesis by (auto simp: manager_step_def stop_push_def)
next
  case (Stop_pull uid name)
  with remove_pull_inv [OF assms(1), of uid name] show ?thesis by (auto simp: manager_step_def stop_pull_def)
next
  case (Connection_state i st)
  with assms(2) obtain s where "get_stream i m = Some s" by (auto simp: event_possible_def)
  from state_inv [OF assms(1) this, of st] Connection_state show ?thesis by (auto simp: manager_step_def)
next
  case (Rtp_packet i data)
  with assms(2) obtain s where "get_stream i m = Some s" by (auto simp: event_possible_def)
  from packet_inv(1) [OF assms(1) this, of data] Rtp_packet show ?thesis by (auto simp: manager_step_def)
next
  case (Rtcp_packet i data)
  with assms(2) obtain s where "get_stream i m = Some s" by (auto simp: event_possible_def)
  from packet_inv(2) [OF assms(1) this, of data] Rtcp_packet show ?thesis by (auto simp: manager_step_def)
next
  case (Ice_timeout i)
  with assms(2) obtain s where s: "get_stream i m = Some s" by (auto simp: event_possible_def)
  from remove_of_inv [OF assms(1) s] s assms(1) Ice_timeout show ?thesis
    by (auto simp: manager_step_def ice_timeout_cb_def on_stream_exception_def split: stream_kind.split)
qed

lemma manager_reach_inv: "manager_reach m \<Longrightarrow> sm_inv m"
proof (induction rule: manager_reach.induct)
  case manager_start
  then show ?case by (rule sm_inv_start)
next
  case (manager_event m e env m')
  with manager_step_inv [OF manager_event.IH manager_event.hyps(2), of env] show ?case by simp
qed


theorem one_push_per_name:
  assumes "manager_reach m" "get_stream i m = Some s" "get_stream j m = Some t"
    "rs_kind s = K_push" "rs_kind t = K_push" "rs_name s = rs_name t"
  shows "i = j \<and> find_push_stream (rs_name s) m = Some i"
  using sm_invD(4) [OF manager_reach_inv [OF assms(1)] assms(2,4)] sm_invD(4) [OF manager_reach_inv [OF assms(1)] assms(3,5)] assms(6)
  by simp

text \<open>A second puller of the same stream takes the place of the first in the table; the first stays
  alive and is in no table any more, so no request can stop it.\<close>

theorem pull_overwritten:
  assumes "manager_reach m" "find_push_stream name m = Some p" "find_pull_stream name m = Some i" "get_stream i m = Some s" "uid \<noteq> rs_uid s"
  shows "\<exists>offer m'. create_pull_stream env uid name au vi lid cert m = Some (0, offer, m') \<and> get_stream i m' = Some s \<and>
    (\<forall>n. find_pull_stream n m' \<noteq> Some i \<and> find_push_stream n m' \<noteq> Some i)"
proof -
  note inv = manager_reach_inv [OF assms(1)]
  have r: "remove_pull_stream uid name m = Some m" using assms(3-5) by (simp add: remove_pull_stream_def)
  obtain push where push: "get_stream p m = Some push" using sm_invD(1) [OF inv assms(2)] by blast
  let ?r = "stream_create_offer env (stream_start cert (add_video_source (get_video_source push)
      (add_audio_source (get_audio_source push) (register_listener (RtcStream K_pull uid name au vi lid)))))"
  let ?m = "m\<lparr>sm_next := Suc (sm_next m), sm_streams := (sm_streams m)(sm_next m := Some (snd ?r)),
      sm_pull := (sm_pull m)(name := Some (sm_next m))\<rparr>"
  have c: "create_pull_stream env uid name au vi lid cert m = Some (0, fst ?r, ?m)"
    using r push assms(2) by (simp add: create_pull_stream_def new_stream_def upd_stream_def Let_def)
  have i: "i < sm_next m" using sm_invD(3) [OF inv assms(4)] .
  have k: "rs_kind s = K_pull" "rs_name s = name" using sm_invD(2) [OF inv assms(3)] assms(4) by auto
  have "find_pull_stream n ?m \<noteq> Some i" for n
    using i k sm_invD(2) [OF inv, of n i] assms(4) by (auto simp: find_pull_stream_def)
  moreover have "find_push_stream n ?m \<noteq> Some i" for n
    using k sm_invD(1) [OF inv, of n i] assms(4) by (auto simp: find_push_stream_def)
  ultimately show ?thesis using c i assms(4) by (simp add: get_stream_def)
qed

text \<open>When the peer connection of a puller fails, the handler removes the push stream of the same name
  and user, and leaves the failed pull stream where it is.\<close>

text \<open>C36: When the peer connection of a puller fails, the push stream of the same name
  and user is deleted, and the failed pull stream stays in its table.\<close>
theorem failed_pull_removes_push:
  assumes "manager_reach m" "get_stream i m = Some s" "rs_kind s = K_pull" "rs_listening s" "rs_state s \<noteq> Pc_failed"
    "find_push_stream (rs_name s) m = Some p" "get_stream p m = Some t" "rs_uid t = rs_uid s"
  shows "\<exists>m'. stream_connection_state i Pc_failed m = Some m' \<and> get_stream p m' = None \<and>
    find_push_stream (rs_name s) m' = None \<and> get_stream i m' \<noteq> None \<and> sm_pull m' = sm_pull m"
proof -
  note inv = manager_reach_inv [OF assms(1)]
  let ?s = "s\<lparr>rs_state := Pc_failed\<rparr>"
  let ?m = "upd_stream i ?s m"
  have "rs_kind t = K_push" using sm_invD(1) [OF inv assms(6)] assms(7) by auto
  then have ip: "i \<noteq> p" using assms(2,3,7) by auto
  have u: "sm_inv ?m" by (rule sm_inv_upd [OF inv assms(2)]) simp_all
  have f: "find_push_stream (rs_name s) ?m = Some p" using assms(6) by (simp add: find_push_stream_def upd_stream_def)
  from sm_inv_drop_push [OF u f] obtain m' where
    m': "delete_stream p (?m\<lparr>sm_push := (sm_push ?m)(rs_name s := None)\<rparr>) = Some m'" "sm_pull m' = sm_pull ?m"
      "find_push_stream (rs_name s) m' = None" "sm_streams m' = (sm_streams ?m)(p := None)" by blast
  have "stream_connection_state i Pc_failed m = remove_push_of i ?m"
    using assms(2,4,5) by (simp add: stream_connection_state_def on_connection_state_def Let_def)
  also have "\<dots> = Some m'"
    using m'(1) f ip assms(7,8) by (simp add: remove_push_of_def remove_push_stream_def get_stream_def upd_stream_def)
  finally show ?thesis using m' ip by (simp add: get_stream_def upd_stream_def)
qed

text \<open>A packet of a push stream goes to the puller registered under its name, and to nothing else.\<close>

theorem rtp_forwarded:
  assumes "manager_reach m" "get_stream i m = Some s" "rs_kind s = K_push" "rs_listening s" "find_pull_stream (rs_name s) m = Some j"
  shows "\<exists>t. get_stream j m = Some t \<and> stream_rtp_packet i data m = Some (upd_stream j (t\<lparr>rs_pc := (rs_pc t)\<lparr>pc_transport_calls :=
      pc_transport_calls (rs_pc t) @ [Send_rtp ''audio'' data]\<rparr>\<rparr>) m)"
proof -
  from sm_invD(2) [OF manager_reach_inv [OF assms(1)] assms(5)] obtain t where t: "get_stream j m = Some t" by blast
  with assms show ?thesis
    by (simp add: stream_rtp_packet_def on_rtp_packet_received_def stream_send_rtp_def upd_pc_def pc_send_rtp_def transport_call_def)
qed

subsection \<open>A stream with one puller\<close>

definition demo_env :: offer_env where
  "demo_env = \<lparr>env_fingerprint = (\<lambda>_. None), env_ntop = (\<lambda>_. []), env_direction = K_inactive,
     env_ice = \<lparr>ice_ufrag = [], ice_pwd = []\<rparr>, env_gathered = []\<rparr>"

definition demo_pushed :: stream_manager where
  "demo_pushed = the (manager_step demo_env (Push 7 [1] True True 0 None) RtcStreamManager)"

definition demo_pulled :: stream_manager where
  "demo_pulled = the (manager_step demo_env (Pull 7 [1] True True 0 None) demo_pushed)"

definition demo_stream :: "stream_kind \<Rightarrow> rtc_stream" where
  "demo_stream k = stream_start None (register_listener (RtcStream k 7 [1] True True 0))"

lemma demo_no_offer: "stream_create_offer demo_env (demo_stream k) = ([], demo_stream k)"
  by (cases k) (simp_all add: stream_create_offer_def demo_stream_def stream_start_def register_listener_def RtcStream_def upd_pc_def
      pc_init_def PeerConnection_def create_offer_def push_options_def pull_options_def RTCOfferAnswerOptions_def transport_call_def)

lemma demo_pushed: "manager_step demo_env (Push 7 [1] True True 0 None) RtcStreamManager = Some demo_pushed"
  "demo_pushed = RtcStreamManager\<lparr>sm_next := 1, sm_streams := [0 \<mapsto> demo_stream K_push], sm_push := [[1] \<mapsto> 0]\<rparr>"
  using demo_no_offer [of K_push]
  by (simp_all add: demo_pushed_def manager_step_def create_push_stream_def find_push_stream_def new_stream_def upd_stream_def
      Let_def RtcStreamManager_def demo_stream_def)

lemma demo_pulled: "manager_step demo_env (Pull 7 [1] True True 0 None) demo_pushed = Some demo_pulled"
  "demo_pulled = demo_pushed\<lparr>sm_next := 2, sm_streams := [0 \<mapsto> demo_stream K_push, 1 \<mapsto> demo_stream K_pull], sm_pull := [[1] \<mapsto> 1]\<rparr>"
proof -
  have s: "stream_start None (add_video_source [] (add_audio_source [] (register_listener (RtcStream K_pull 7 [1] True True 0)))) = demo_stream K_pull"
    by (simp add: demo_stream_def stream_start_def add_video_source_def add_audio_source_def pc_add_audio_source_def pc_add_video_source_def
        upd_pc_def register_listener_def RtcStream_def PeerConnection_def pc_init_def transport_call_def)
  have g: "get_audio_source (demo_stream K_push) = []" "get_video_source (demo_stream K_push) = []"
    by (simp_all add: get_audio_source_def get_video_source_def get_source_def demo_stream_def stream_start_def upd_pc_def
        register_listener_def RtcStream_def PeerConnection_def pc_init_def transport_call_def)
  have "create_pull_stream demo_env 7 [1] True True 0 None demo_pushed = Some (0, [],
      demo_pushed\<lparr>sm_next := 2, sm_streams := [0 \<mapsto> demo_stream K_push, 1 \<mapsto> demo_stream K_pull], sm_pull := [[1] \<mapsto> 1]\<rparr>)"
    using demo_no_offer [of K_pull]
    by (simp add: create_pull_stream_def demo_pushed(2) find_push_stream_def find_pull_stream_def remove_pull_stream_def get_stream_def
        new_stream_def upd_stream_def RtcStreamManager_def g s)
  then show "manager_step demo_env (Pull 7 [1] True True 0 None) demo_pushed = Some demo_pulled"
    "demo_pulled = demo_pushed\<lparr>sm_next := 2, sm_streams := [0 \<mapsto> demo_stream K_push, 1 \<mapsto> demo_stream K_pull], sm_pull := [[1] \<mapsto> 1]\<rparr>"
    by (simp_all add: demo_pulled_def manager_step_def)
qed

lemma demo_reach: "manager_reach demo_pulled"
  by (rule manager_event [OF manager_event [OF manager_start _ demo_pushed(1)] _ demo_pulled(1)]) (simp_all add: event_possible_def)

lemma demo_tables:
  "get_stream 0 demo_pulled = Some (demo_stream K_push)" "get_stream 1 demo_pulled = Some (demo_stream K_pull)"
  "find_push_stream [1] demo_pulled = Some 0" "find_pull_stream [1] demo_pulled = Some 1"
  "rs_kind (demo_stream k) = k" "rs_name (demo_stream k) = [1]" "rs_uid (demo_stream k) = 7" "rs_listening (demo_stream k)"
  "rs_state (demo_stream k) = Pc_new"
  by (simp_all add: demo_pulled(2) demo_pushed(2) get_stream_def find_push_stream_def find_pull_stream_def demo_stream_def
      stream_start_def register_listener_def RtcStream_def upd_pc_def)


theorem one_push_per_name_witness: "(0 :: nat) = 0 \<and> find_push_stream [1] demo_pulled = Some 0"
  using one_push_per_name [OF demo_reach demo_tables(1) demo_tables(1)] by (simp add: demo_tables)

theorem pull_overwritten_witness:
  "\<exists>offer m'. create_pull_stream demo_env 8 [1] True True 0 None demo_pulled = Some (0, offer, m') \<and>
     get_stream 1 m' = Some (demo_stream K_pull) \<and> (\<forall>n. find_pull_stream n m' \<noteq> Some 1 \<and> find_push_stream n m' \<noteq> Some 1)"
  by (rule pull_overwritten [OF demo_reach demo_tables(3,4,2)]) (simp add: demo_tables)

theorem failed_pull_removes_push_witness:
  "\<exists>m'. stream_connection_state 1 Pc_failed demo_pulled = Some m' \<and> get_stream 0 m' = None \<and>
     find_push_stream (rs_name (demo_stream K_pull)) m' = None \<and> get_stream 1 m' \<noteq> None \<and> sm_pull m' = sm_pull demo_pulled"
  by (rule failed_pull_removes_push [OF demo_reach demo_tables(2) _ _ _ _ demo_tables(1)]) (simp_all add: demo_tables)

theorem rtp_forwarded_witness:
  "\<exists>t. get_stream 1 demo_pulled = Some t \<and> stream_rtp_packet 0 [0x80] demo_pulled =
     Some (upd_stream 1 (t\<lparr>rs_pc := (rs_pc t)\<lparr>pc_transport_calls := pc_transport_calls (rs_pc t) @ [Send_rtp ''audio'' [0x80]]\<rparr>\<rparr>) demo_pulled)"
  by (rule rtp_forwarded [OF demo_reach demo_tables(1)]) (simp_all add: demo_tables)

end
