(* ===== verification/Rtc_Worker.thy ===== *)
theory Rtc_Worker
  imports Stream_Manager Signaling_Worker
begin

text \<open>
  A worker of the RTC server (\<open>server/rtc_worker.cpp\<close>): the queue of requests, the manager of its
  streams and the messages it hands back to signaling workers.  Whether a write to a pipe
  succeeds is an argument.  \<open>None\<close> is a use of deleted memory or an uncaught exception.
\<close>

record rtc_worker =
  rw_id :: nat
  rw_q :: "rtc_msg lfq"
  rw_pipe :: "int list"
  rw_thread :: bool
  rw_loop :: bool
  rw_mgr :: stream_manager
  rw_replies :: "(nat \<times> rtc_msg) list"

definition RTC_WORKER_QUIT :: int where "RTC_WORKER_QUIT = 0"
definition RTC_WORKER_RTC_MSG :: int where "RTC_WORKER_RTC_MSG = 1"

definition RtcWorker :: "nat \<Rightarrow> rtc_worker" where
  "RtcWorker i = \<lparr>rw_id = i, rw_q = LockFreeQueue RtcMsg, rw_pipe = [], rw_thread = False, rw_loop = False,
     rw_mgr = RtcStreamManager, rw_replies = []\<rparr>"

definition rw_start :: "rtc_worker \<Rightarrow> int \<times> rtc_worker" where
  "rw_start w = (if rw_thread w then (-1, w) else (0, w\<lparr>rw_thread := True, rw_loop := True\<rparr>))"

definition rw_notify :: "bool \<Rightarrow> int \<Rightarrow> rtc_worker \<Rightarrow> int \<times> rtc_worker" where
  "rw_notify ok m w = (if ok then (0, w\<lparr>rw_pipe := rw_pipe w @ [m]\<rparr>) else (-1, w))"

definition rw_stop :: "rtc_worker \<Rightarrow> rtc_worker" where
  "rw_stop w = (if \<not> rw_thread w then w else w\<lparr>rw_loop := False\<rparr>)"

definition rw_push_msg :: "rtc_msg \<Rightarrow> rtc_worker \<Rightarrow> rtc_worker option" where
  "rw_push_msg m w = map_option (\<lambda>q. w\<lparr>rw_q := q\<rparr>) (produce m (rw_q w))"

definition rw_pop_msg :: "rtc_worker \<Rightarrow> (rtc_msg option \<times> rtc_worker) option" where
  "rw_pop_msg w = map_option (\<lambda>(r, q). (r, w\<lparr>rw_q := q\<rparr>)) (consume (rw_q w))"

definition rw_send_rtc_msg :: "bool \<Rightarrow> rtc_msg \<Rightarrow> rtc_worker \<Rightarrow> (int \<times> rtc_worker) option" where
  "rw_send_rtc_msg ok m w = map_option (\<lambda>w1. (0, snd (rw_notify ok RTC_WORKER_RTC_MSG w1))) (rw_push_msg m w)"

subsection \<open>Requests\<close>

definition hand_back :: "rtc_msg \<Rightarrow> rtc_worker \<Rightarrow> rtc_worker" where
  "hand_back m w = (case msg_worker m of None \<Rightarrow> w | Some sw \<Rightarrow> w\<lparr>rw_replies := rw_replies w @ [(sw, m)]\<rparr>)"

definition rw_process_push :: "offer_env \<Rightarrow> rtc_msg \<Rightarrow> rtc_worker \<Rightarrow> rtc_worker option" where
  "rw_process_push env m w = do {
     (ret, offer, mgr) \<leftarrow> create_push_stream env (uid m) (stream_name m) (audio m \<noteq> 0) (video m \<noteq> 0) (log_id m) (certificate m) (rw_mgr w);
     let m1 = m\<lparr>sdp := bytes_of_string offer\<rparr>;
     let m2 = (if ret \<noteq> 0 then m1\<lparr>err_no := -1\<rparr> else m1);
     Some (hand_back m2 (w\<lparr>rw_mgr := mgr\<rparr>))
   }"

definition rw_process_pull :: "offer_env \<Rightarrow> rtc_msg \<Rightarrow> rtc_worker \<Rightarrow> rtc_worker option" where
  "rw_process_pull env m w = do {
     (ret, offer, mgr) \<leftarrow> create_pull_stream env (uid m) (stream_name m) (audio m \<noteq> 0) (video m \<noteq> 0) (log_id m) (certificate m) (rw_mgr w);
     let m1 = m\<lparr>sdp := bytes_of_string offer\<rparr>;
     let m2 = (if ret \<noteq> 0 then m1\<lparr>err_no := -1\<rparr> else m1);
     Some (hand_back m2 (w\<lparr>rw_mgr := mgr\<rparr>))
   }"

definition rw_process_answer :: "offer_env \<Rightarrow> rtc_msg \<Rightarrow> rtc_worker \<Rightarrow> rtc_worker option" where
  "rw_process_answer env m w = map_option (\<lambda>(ret, mgr). w\<lparr>rw_mgr := mgr\<rparr>)
     (set_answer (env_direction env) (uid m) (stream_name m) (string_of_bytes (sdp m)) (stream_type m) (rw_mgr w))"

definition rw_process_stop_push :: "rtc_msg \<Rightarrow> rtc_worker \<Rightarrow> rtc_worker option" where
  "rw_process_stop_push m w = map_option (\<lambda>(ret, mgr). w\<lparr>rw_mgr := mgr\<rparr>) (stop_push (uid m) (stream_name m) (rw_mgr w))"

definition rw_process_stop_pull :: "rtc_msg \<Rightarrow> rtc_worker \<Rightarrow> rtc_worker option" where
  "rw_process_stop_pull m w = map_option (\<lambda>(ret, mgr). w\<lparr>rw_mgr := mgr\<rparr>) (stop_pull (uid m) (stream_name m) (rw_mgr w))"

definition rw_dispatch :: "offer_env \<Rightarrow> rtc_msg \<Rightarrow> rtc_worker \<Rightarrow> rtc_worker option" where
  "rw_dispatch env m w =
     (if cmdno m = CMDNO_PUSH then rw_process_push env m w
      else if cmdno m = CMDNO_PULL then rw_process_pull env m w
      else if cmdno m = CMDNO_STOP_PUSH then rw_process_stop_push m w
      else if cmdno m = CMDNO_STOPPULL then rw_process_stop_pull m w
      else if cmdno m = CMDNO_ANSWER then rw_process_answer env m w
      else Some w)"

definition rw_process_rtc_msg :: "offer_env \<Rightarrow> rtc_worker \<Rightarrow> rtc_worker option" where
  "rw_process_rtc_msg env w = do {
     (r, w1) \<leftarrow> rw_pop_msg w;
     case r of None \<Rightarrow> Some w1 | Some m \<Rightarrow> rw_dispatch env m w1
   }"

definition rw_process_notify :: "offer_env \<Rightarrow> int \<Rightarrow> rtc_worker \<Rightarrow> rtc_worker option" where
  "rw_process_notify env msg w = (if msg = RTC_WORKER_QUIT then Some (rw_stop w)
     else if msg = RTC_WORKER_RTC_MSG then rw_process_rtc_msg env w else Some w)"

end
