(* ===== verification/Rtc_Server.thy ===== *)
theory Rtc_Server
  imports Rtc_Worker
begin

text \<open>
  The RTC server (\<open>server/rtc_server.cpp\<close>): it takes the requests of the signaling workers and
  gives each to the worker that the CRC-32 of the stream's name selects.  The certificate library
  is a parameter: \<open>expired\<close> and the certificate a generation returns, if any.
\<close>

record rtc_server =
  rsv_worker_num :: int
  rsv_q_msg :: "rtc_msg list"
  rsv_pipe :: "int list"
  rsv_thread :: bool
  rsv_loop :: bool
  rsv_workers :: "rtc_worker list"
  rsv_certificate :: "nat option"

definition RTC_SERVER_QUIT :: int where "RTC_SERVER_QUIT = 0"
definition RTC_SERVER_RTC_MSG :: int where "RTC_SERVER_RTC_MSG = 1"

definition RtcServer :: rtc_server where
  "RtcServer = \<lparr>rsv_worker_num = 0, rsv_q_msg = [], rsv_pipe = [], rsv_thread = False, rsv_loop = False,
     rsv_workers = [], rsv_certificate = None\<rparr>"

definition generate_and_check_certificate :: "(nat \<Rightarrow> bool) \<Rightarrow> nat option \<Rightarrow> rtc_server \<Rightarrow> int \<times> rtc_server" where
  "generate_and_check_certificate expired generated s = (let
     c = (case rsv_certificate s of None \<Rightarrow> generated | Some c \<Rightarrow> if expired c then generated else Some c) in
     (if c = None then -1 else 0, s\<lparr>rsv_certificate := c\<rparr>))"

definition rsv_create_worker :: "bool \<Rightarrow> nat \<Rightarrow> rtc_server \<Rightarrow> int \<times> rtc_server" where
  "rsv_create_worker pipe_ok i s = (let r = rw_start (RtcWorker i) in
     if \<not> pipe_ok \<or> fst r \<noteq> 0 then (-1, s) else (0, s\<lparr>rsv_workers := rsv_workers s @ [snd r]\<rparr>))"

fun rsv_create_workers :: "(nat \<Rightarrow> bool) \<Rightarrow> nat \<Rightarrow> nat \<Rightarrow> rtc_server \<Rightarrow> int \<times> rtc_server" where
  "rsv_create_workers pipe_ok i 0 s = (0, s)"
| "rsv_create_workers pipe_ok i (Suc k) s = (let r = rsv_create_worker (pipe_ok i) i s in
     if fst r \<noteq> 0 then (-1, snd r) else rsv_create_workers pipe_ok (Suc i) k (snd r))"

text \<open>\<open>config\<close> is the number of workers the file gives, if it can be read.\<close>

definition rsv_init ::
  "int option \<Rightarrow> (nat \<Rightarrow> bool) \<Rightarrow> nat option \<Rightarrow> bool \<Rightarrow> (nat \<Rightarrow> bool) \<Rightarrow> rtc_server \<Rightarrow> int \<times> rtc_server" where
  "rsv_init config expired generated pipe_ok workers_ok s = (case config of None \<Rightarrow> (-1, s)
     | Some n \<Rightarrow> let r = generate_and_check_certificate expired generated (s\<lparr>rsv_worker_num := n\<rparr>) in
         if fst r \<noteq> 0 then (-1, snd r)
         else if \<not> pipe_ok then (-1, snd r)
         else rsv_create_workers workers_ok 0 (nat n) (snd r))"

definition rsv_start :: "rtc_server \<Rightarrow> int \<times> rtc_server" where
  "rsv_start s = (if rsv_thread s then (-1, s) else (0, s\<lparr>rsv_thread := True, rsv_loop := True\<rparr>))"

definition rsv_notify :: "bool \<Rightarrow> int \<Rightarrow> rtc_server \<Rightarrow> int \<times> rtc_server" where
  "rsv_notify ok m s = (if ok then (0, s\<lparr>rsv_pipe := rsv_pipe s @ [m]\<rparr>) else (-1, s))"

definition rsv_push_msg :: "rtc_msg \<Rightarrow> rtc_server \<Rightarrow> rtc_server" where
  "rsv_push_msg m s = s\<lparr>rsv_q_msg := rsv_q_msg s @ [m]\<rparr>"

definition rsv_pop_msg :: "rtc_server \<Rightarrow> rtc_msg option \<times> rtc_server" where
  "rsv_pop_msg s = (case rsv_q_msg s of [] \<Rightarrow> (None, s) | m # ms \<Rightarrow> (Some m, s\<lparr>rsv_q_msg := ms\<rparr>))"

definition rsv_send_rtc_msg :: "bool \<Rightarrow> rtc_msg \<Rightarrow> rtc_server \<Rightarrow> int \<times> rtc_server" where
  "rsv_send_rtc_msg ok m s = rsv_notify ok RTC_SERVER_RTC_MSG (rsv_push_msg m s)"

text \<open>The index of the worker of a stream; \<open>None\<close> is the null pointer.  The remainder is unsigned.\<close>

definition get_worker :: "bytes \<Rightarrow> rtc_server \<Rightarrow> nat option" where
  "get_worker name s = (if rsv_workers s = [] \<or> length (rsv_workers s) \<noteq> nat (rsv_worker_num s mod 2 ^ 64) then None
     else Some (unat (ComputeCrc32 name) mod nat (rsv_worker_num s mod 2 ^ 32)))"

definition rsv_process_rtc_msg :: "(nat \<Rightarrow> bool) \<Rightarrow> nat option \<Rightarrow> bool \<Rightarrow> rtc_server \<Rightarrow> rtc_server option" where
  "rsv_process_rtc_msg expired generated ok s = (case rsv_pop_msg s of (None, s1) \<Rightarrow> Some s1
     | (Some m, s1) \<Rightarrow> let r = generate_and_check_certificate expired generated s1; s2 = snd r in
         if fst r \<noteq> 0 then Some s2
         else let m1 = m\<lparr>certificate := rsv_certificate s2\<rparr> in
           (case get_worker (stream_name m1) s2 of None \<Rightarrow> Some s2
           | Some i \<Rightarrow> if i < length (rsv_workers s2) then do {
                 (_, w) \<leftarrow> rw_send_rtc_msg ok m1 (rsv_workers s2 ! i);
                 Some (s2\<lparr>rsv_workers := (rsv_workers s2)[i := w]\<rparr>)
               } else None))"

text \<open>Stopping waits for every worker: it does not end when a worker misses its message.\<close>

definition rw_quit :: "bool \<Rightarrow> rtc_worker \<Rightarrow> rtc_worker option" where
  "rw_quit ok w = (if ok \<or> \<not> rw_thread w then Some (rw_stop (snd (rw_notify ok RTC_WORKER_QUIT w))) else None)"

fun rw_quit_all :: "(nat \<Rightarrow> bool) \<Rightarrow> nat \<Rightarrow> rtc_worker list \<Rightarrow> rtc_worker list option" where
  "rw_quit_all ok i [] = Some []"
| "rw_quit_all ok i (w # ws) = do { w1 \<leftarrow> rw_quit (ok i) w; ws1 \<leftarrow> rw_quit_all ok (Suc i) ws; Some (w1 # ws1) }"

definition rsv_stop :: "(nat \<Rightarrow> bool) \<Rightarrow> rtc_server \<Rightarrow> rtc_server option" where
  "rsv_stop ok s = do {
     ws \<leftarrow> rw_quit_all ok 0 (rsv_workers s);
     Some (s\<lparr>rsv_loop := False, rsv_workers := ws\<rparr>) }"

definition rsv_process_notify ::
  "(nat \<Rightarrow> bool) \<Rightarrow> nat option \<Rightarrow> bool \<Rightarrow> (nat \<Rightarrow> bool) \<Rightarrow> int \<Rightarrow> rtc_server \<Rightarrow> rtc_server option" where
  "rsv_process_notify expired generated ok quit_ok msg s =
     (if msg = RTC_SERVER_QUIT then rsv_stop quit_ok s
      else if msg = RTC_SERVER_RTC_MSG then rsv_process_rtc_msg expired generated ok s else Some s)"

subsection \<open>Requests of one stream meet in one worker\<close>

fun serve_all :: "(nat \<Rightarrow> bool) \<Rightarrow> nat option \<Rightarrow> rtc_msg list \<Rightarrow> rtc_server \<Rightarrow> rtc_server option" where
  "serve_all expired generated [] s = Some s"
| "serve_all expired generated (m # ms) s = do {
     s1 \<leftarrow> rsv_process_rtc_msg expired generated True (snd (rsv_send_rtc_msg True m s));
     serve_all expired generated ms s1 }"

definition rsv_ready :: "nat \<Rightarrow> nat \<Rightarrow> (nat \<Rightarrow> rtc_msg list) \<Rightarrow> rtc_server \<Rightarrow> bool" where
  "rsv_ready n c q s \<longleftrightarrow> length (rsv_workers s) = n \<and> rsv_worker_num s = int n \<and> rsv_q_msg s = [] \<and>
     rsv_certificate s = Some c \<and> (\<forall>i < n. lfq_rel (rw_q (rsv_workers s ! i)) (q i))"

definition worker_of :: "nat \<Rightarrow> rtc_msg \<Rightarrow> nat" where
  "worker_of n m = unat (ComputeCrc32 (stream_name m)) mod n"

lemma get_worker_is:
  assumes "length (rsv_workers s) = n" "rsv_worker_num s = int n" "0 < n" "n < 2 ^ 31"
  shows "get_worker (stream_name m) s = Some (worker_of n m)"
proof -
  have "rsv_workers s \<noteq> []" using assms(1,3) by auto
  then show ?thesis using assms by (simp add: get_worker_def worker_of_def)
qed

lemma serve_one:
  assumes "rsv_ready n c q s" "0 < n" "n < 2 ^ 31" "\<not> expired c"
  shows "\<exists>s1. rsv_process_rtc_msg expired generated True (snd (rsv_send_rtc_msg True m s)) = Some s1 \<and>
    rsv_ready n c (q(worker_of n m := q (worker_of n m) @ [m\<lparr>certificate := Some c\<rparr>])) s1 \<and>
    rw_mgr (rsv_workers s1 ! worker_of n m) = rw_mgr (rsv_workers s ! worker_of n m)"
proof -
  let ?i = "worker_of n m" and ?m = "m\<lparr>certificate := Some c\<rparr>"
  let ?s = "s\<lparr>rsv_pipe := rsv_pipe s @ [RTC_SERVER_RTC_MSG]\<rparr>"
  have i: "?i < n" using assms(2) by (simp add: worker_of_def)
  have r: "length (rsv_workers s) = n" "rsv_worker_num s = int n" "rsv_q_msg s = []" "rsv_certificate s = Some c"
    "\<forall>i < n. lfq_rel (rw_q (rsv_workers s ! i)) (q i)" using assms(1) by (simp_all add: rsv_ready_def)
  from produce_rel [OF r(5) [rule_format, OF i], of ?m] obtain qq where
    qq: "produce ?m (rw_q (rsv_workers s ! ?i)) = Some qq" "lfq_rel qq (q ?i @ [?m])" by blast
  let ?w = "(rsv_workers s ! ?i)\<lparr>rw_q := qq, rw_pipe := rw_pipe (rsv_workers s ! ?i) @ [RTC_WORKER_RTC_MSG]\<rparr>"
  have e: "snd (rsv_send_rtc_msg True m s) = ?s\<lparr>rsv_q_msg := [m]\<rparr>"
    using r(3) by (simp add: rsv_send_rtc_msg_def rsv_notify_def rsv_push_msg_def)
  have "rw_send_rtc_msg True ?m (rsv_workers s ! ?i) = Some (0, ?w)"
    using qq(1) by (simp add: rw_send_rtc_msg_def rw_push_msg_def rw_notify_def)
  let ?t = "?s\<lparr>rsv_q_msg := [], rsv_certificate := Some c\<rparr>"
  have g: "get_worker (stream_name m) ?t = Some ?i" by (rule get_worker_is) (use r assms(2,3) in simp_all)
  have c: "generate_and_check_certificate expired generated (?s\<lparr>rsv_q_msg := []\<rparr>) = (0, ?t)"
    using r(4) assms(4) by (simp add: generate_and_check_certificate_def)
  note w = \<open>rw_send_rtc_msg True ?m (rsv_workers s ! ?i) = Some (0, ?w)\<close>
  have "rsv_process_rtc_msg expired generated True (snd (rsv_send_rtc_msg True m s)) = Some (?t\<lparr>rsv_workers := (rsv_workers s)[?i := ?w]\<rparr>)"
    unfolding e using r(1) i g w c by (simp add: rsv_process_rtc_msg_def rsv_pop_msg_def)
  moreover have "rsv_ready n c (q(?i := q ?i @ [?m])) (?t\<lparr>rsv_workers := (rsv_workers s)[?i := ?w]\<rparr>)"
    using r qq(2) i by (simp add: rsv_ready_def nth_list_update)
  moreover have "rw_mgr (rsv_workers (?t\<lparr>rsv_workers := (rsv_workers s)[?i := ?w]\<rparr>) ! ?i) = rw_mgr (rsv_workers s ! ?i)"
    using r(1) i by simp
  ultimately show ?thesis by blast
qed

lemma serve_ready:
  assumes "rsv_ready n c q s" "0 < n" "n < 2 ^ 31" "\<not> expired c"
  shows "\<exists>s1. serve_all expired generated ms s = Some s1 \<and>
    rsv_ready n c (\<lambda>i. q i @ map (\<lambda>m. m\<lparr>certificate := Some c\<rparr>) (filter (\<lambda>m. worker_of n m = i) ms)) s1"
  using assms(1)
proof (induction ms arbitrary: q s)
  case (Cons m ms)
  from serve_one [of n c q s expired generated m, OF Cons.prems assms(2-4)] obtain s1 where
    s1: "rsv_process_rtc_msg expired generated True (snd (rsv_send_rtc_msg True m s)) = Some s1"
      "rsv_ready n c (q(worker_of n m := q (worker_of n m) @ [m\<lparr>certificate := Some c\<rparr>])) s1" by blast
  have "(\<lambda>i. (q(worker_of n m := q (worker_of n m) @ [m\<lparr>certificate := Some c\<rparr>])) i @
      map (\<lambda>m. m\<lparr>certificate := Some c\<rparr>) (filter (\<lambda>m. worker_of n m = i) ms)) =
    (\<lambda>i. q i @ map (\<lambda>m. m\<lparr>certificate := Some c\<rparr>) (filter (\<lambda>m'. worker_of n m' = i) (m # ms)))"
    by (auto simp: fun_eq_iff)
  with Cons.IH [OF s1(2)] s1(1) show ?case by auto
qed simp

text \<open>The server after a successful \<open>init\<close> with \<open>n\<close> workers and the certificate \<open>c\<close>.\<close>

definition rsv_started :: "nat \<Rightarrow> nat \<Rightarrow> rtc_server" where
  "rsv_started n c = snd (rsv_init (Some (int n)) (\<lambda>_. False) (Some c) True (\<lambda>_. True) RtcServer)"

lemma rsv_create_workers_ready:
  assumes "rsv_ready k c (\<lambda>_. []) (s\<lparr>rsv_worker_num := int k\<rparr>)"
  shows "\<exists>s1. rsv_create_workers (\<lambda>_. True) i j s = (0, s1) \<and> rsv_worker_num s1 = rsv_worker_num s \<and>
    rsv_ready (k + j) c (\<lambda>_. []) (s1\<lparr>rsv_worker_num := int (k + j)\<rparr>)"
  using assms
proof (induction j arbitrary: i k s)
  case (Suc j)
  let ?w = "snd (rw_start (RtcWorker i))"
  let ?s = "s\<lparr>rsv_workers := rsv_workers s @ [?w]\<rparr>"
  have w: "lfq_rel (rw_q ?w) []" "fst (rw_start (RtcWorker i)) = 0"
    using shape_init [of RtcMsg] by (fastforce simp: rw_start_def RtcWorker_def lfq_rel_def chain_values_def LockFreeQueue_def)+
  have c: "rsv_create_worker True i s = (0, ?s)" using w(2) by (simp add: rsv_create_worker_def Let_def)
  have "rsv_ready (Suc k) c (\<lambda>_. []) (?s\<lparr>rsv_worker_num := int (Suc k)\<rparr>)"
    using Suc.prems w(1) by (auto simp: rsv_ready_def nth_append less_Suc_eq)
  from Suc.IH [OF this, of "Suc i"] c show ?case by simp
qed (use assms in auto)

lemma rsv_started_ready: "rsv_ready n c (\<lambda>_. []) (rsv_started n c)"
proof -
  let ?s = "RtcServer\<lparr>rsv_worker_num := int n, rsv_certificate := Some c\<rparr>"
  have "rsv_ready 0 c (\<lambda>_. []) (?s\<lparr>rsv_worker_num := int 0\<rparr>)" by (simp add: rsv_ready_def RtcServer_def)
  from rsv_create_workers_ready [OF this, of 0 n] obtain s1 where
    "rsv_create_workers (\<lambda>_. True) 0 n ?s = (0, s1)" "rsv_worker_num s1 = int n" "rsv_ready n c (\<lambda>_. []) (s1\<lparr>rsv_worker_num := int n\<rparr>)"
    by auto
  moreover have "rsv_started n c = snd (rsv_create_workers (\<lambda>_. True) 0 n ?s)"
    by (simp add: rsv_started_def rsv_init_def generate_and_check_certificate_def Let_def RtcServer_def)
  ultimately show ?thesis by (simp add: rsv_ready_def)
qed

text \<open>C15: Whatever requests arrive, each goes to the worker selected by the CRC-32 of its
  stream name, so all requests of one stream meet in one worker, in the order of their arrival and
  with the server's certificate.\<close>
theorem stream_affinity:
  assumes "0 < n" "n < 2 ^ 31" "\<not> expired c"
  shows "\<exists>s. serve_all expired generated ms (rsv_started n c) = Some s \<and> length (rsv_workers s) = n \<and>
    (\<forall>i < n. lfq_rel (rw_q (rsv_workers s ! i)) (map (\<lambda>m. m\<lparr>certificate := Some c\<rparr>) (filter (\<lambda>m. worker_of n m = i) ms)))"
  using serve_ready [of n c "\<lambda>_. []" "rsv_started n c" expired generated ms, OF rsv_started_ready assms] by (auto simp: rsv_ready_def)

theorem stream_affinity_witness:
  "\<exists>s. serve_all (\<lambda>_. False) None [RtcMsg, RtcMsg\<lparr>cmdno := 3\<rparr>] (rsv_started 1 5) = Some s \<and> length (rsv_workers s) = 1 \<and>
    lfq_rel (rw_q (rsv_workers s ! 0)) [RtcMsg\<lparr>certificate := Some 5\<rparr>, RtcMsg\<lparr>cmdno := 3, certificate := Some 5\<rparr>]"
  using stream_affinity [of 1 "\<lambda>_. False" 5 None "[RtcMsg, RtcMsg\<lparr>cmdno := 3\<rparr>]"] by (auto simp: worker_of_def)

subsection \<open>The answer to a push\<close>

lemma rw_push_reply:
  assumes "sm_inv (rw_mgr w)" "msg_worker m = Some sw" "cmdno m = CMDNO_PUSH"
  shows "\<exists>offer mgr. rw_dispatch env m w = Some (w\<lparr>rw_mgr := mgr, rw_replies := rw_replies w @ [(sw, m\<lparr>sdp := bytes_of_string offer\<rparr>)]\<rparr>) \<and>
    sm_inv mgr \<and> create_push_stream env (uid m) (stream_name m) (audio m \<noteq> 0) (video m \<noteq> 0) (log_id m) (certificate m) (rw_mgr w) = Some (0, offer, mgr) \<and>
    (\<exists>i s. find_push_stream (stream_name m) mgr = Some i \<and> get_stream i mgr = Some s \<and> rs_uid s = uid m)"
proof -
  from create_push_inv [OF assms(1), of env "uid m" "stream_name m" "audio m \<noteq> 0" "video m \<noteq> 0" "log_id m" "certificate m"]
  obtain offer mgr s where c: "create_push_stream env (uid m) (stream_name m) (audio m \<noteq> 0) (video m \<noteq> 0) (log_id m) (certificate m) (rw_mgr w)
      = Some (0, offer, mgr)" "sm_inv mgr" "find_push_stream (stream_name m) mgr = Some (sm_next (rw_mgr w))"
    "get_stream (sm_next (rw_mgr w)) mgr = Some s" "rs_uid s = uid m" by blast
  then show ?thesis using assms(2,3)
    by (auto simp: rw_dispatch_def rw_process_push_def hand_back_def)
qed

end
