(* ===== verification/Buffer_Queue.thy ===== *)
theory Buffer_Queue
  imports Xrtc_Prelude
begin

text \<open>
  \<open>rtc_base/buffer_queue.*\<close>: a queue of packets with a fixed capacity that recycles its buffers.
  Buffers are the packets they hold.  The contract of a bounded queue of packets is a locale, and the
  class is an instance of it.
\<close>

record buffer_queue =
  bq_capacity :: nat
  bq_default_size :: nat
  bq_queue :: "bytes list"
  bq_free :: "bytes list"

definition BufferQueue :: "nat \<Rightarrow> nat \<Rightarrow> buffer_queue" where
  "BufferQueue capacity default_size = \<lparr>bq_capacity = capacity, bq_default_size = default_size, bq_queue = [], bq_free = []\<rparr>"

definition bq_size :: "buffer_queue \<Rightarrow> nat" where
  "bq_size q = length (bq_queue q)"

definition bq_Clear :: "buffer_queue \<Rightarrow> buffer_queue" where
  "bq_Clear q = q\<lparr>bq_queue := [], bq_free := bq_free q @ bq_queue q\<rparr>"

definition ReadFront :: "nat \<Rightarrow> buffer_queue \<Rightarrow> bytes option \<times> buffer_queue" where
  "ReadFront n q = (case bq_queue q of [] \<Rightarrow> (None, q)
     | p # ps \<Rightarrow> (Some (take (min n (length p)) p), q\<lparr>bq_queue := ps, bq_free := bq_free q @ [p]\<rparr>))"

text \<open>A recycled buffer is overwritten.\<close>

definition WriteBack :: "bytes \<Rightarrow> buffer_queue \<Rightarrow> bool \<times> buffer_queue" where
  "WriteBack data q = (if length (bq_queue q) = bq_capacity q then (False, q)
     else let q1 = (if bq_free q \<noteq> [] then q\<lparr>bq_free := butlast (bq_free q)\<rparr> else q) in
       (True, q1\<lparr>bq_queue := bq_queue q1 @ [data]\<rparr>))"

definition bq_wf :: "buffer_queue \<Rightarrow> bool" where
  "bq_wf q \<longleftrightarrow> length (bq_queue q) + length (bq_free q) \<le> bq_capacity q"

text \<open>A first-in first-out queue that refuses what exceeds its capacity.\<close>

locale bounded_fifo =
  fixes put :: "'a \<Rightarrow> 'q \<Rightarrow> bool \<times> 'q" and get :: "nat \<Rightarrow> 'q \<Rightarrow> 'a option \<times> 'q"
    and cut :: "nat \<Rightarrow> 'a \<Rightarrow> 'a" and contents :: "'q \<Rightarrow> 'a list" and room :: "'q \<Rightarrow> nat" and ok :: "'q \<Rightarrow> bool"
  assumes put_full: "ok q \<Longrightarrow> length (contents q) = room q \<Longrightarrow> put x q = (False, q)"
    and put_room: "ok q \<Longrightarrow> length (contents q) \<noteq> room q \<Longrightarrow> fst (put x q) \<and> contents (snd (put x q)) = contents q @ [x]"
    and get_empty: "ok q \<Longrightarrow> contents q = [] \<Longrightarrow> get n q = (None, q)"
    and get_first: "ok q \<Longrightarrow> contents q = x # xs \<Longrightarrow> fst (get n q) = Some (cut n x) \<and> contents (snd (get n q)) = xs"
    and put_ok: "ok q \<Longrightarrow> ok (snd (put x q)) \<and> room (snd (put x q)) = room q"
    and get_ok: "ok q \<Longrightarrow> ok (snd (get n q)) \<and> room (snd (get n q)) = room q"
    and ok_room: "ok q \<Longrightarrow> length (contents q) \<le> room q"
begin

fun put_all :: "'a list \<Rightarrow> 'q \<Rightarrow> 'q" where
  "put_all [] q = q"
| "put_all (x # xs) q = put_all xs (snd (put x q))"

lemma put_take: "ok q \<Longrightarrow> contents (snd (put x q)) = take (room q) (contents q @ [x])"
  using put_full [of q x] put_room [of q x] ok_room [of q] by (cases "length (contents q) = room q") auto

text \<open>Writing many keeps the first ones that fit.\<close>

lemma put_all_take: "ok q \<Longrightarrow> contents (put_all xs q) = take (room q) (contents q @ xs) \<and> ok (put_all xs q)"
proof (induction xs arbitrary: q)
  case Nil
  then show ?case using ok_room [of q] by simp
next
  case (Cons x xs)
  have s: "ok (snd (put x q))" "room (snd (put x q)) = room q" using put_ok [OF Cons.prems] by auto
  have "take (room q) (take (room q) (contents q @ [x]) @ xs) = take (room q) (contents q @ x # xs)"
    using ok_room [OF Cons.prems] by (cases "length (contents q) = room q") auto
  then show ?case using Cons.IH [OF s(1)] s put_take [OF Cons.prems] by simp
qed

lemma get_hd: "ok q \<Longrightarrow> fst (get n q) = map_option (cut n) (if contents q = [] then None else Some (hd (contents q)))"
  using get_empty [of q n] get_first [of q _ _ n] by (cases "contents q") auto

end

interpretation bq: bounded_fifo WriteBack ReadFront take bq_queue bq_capacity bq_wf
  by unfold_locales
    (auto simp: WriteBack_def ReadFront_def bq_wf_def Let_def min_def split: list.splits)

end
