(* ===== verification/Ssl_Adapter.thy ===== *)
theory Ssl_Adapter
  imports Buffer_Queue
begin

text \<open>
  The stream below the DTLS library (\<open>StreamInterfaceChannel\<close> of \<open>pc/dtls_transport.cpp\<close>) and the
  adapter above it (\<open>rtc_base/openssl_stream_adapter.cc\<close>), in the configuration of the server: one
  adapter over one stream.  OpenSSL is the parameter \<open>openssl\<close>: what a call returns, which
  certificate it hands to the verification callback, how many packets it reads from the stream, what
  it writes, and the session it leaves.  A callback is given to the call as the answer it would give.
  Signals of the adapter are returned in order; all of them are raised when the operation has no more
  to do.  \<open>None\<close> is the use of a session that is not there.
\<close>

subsection \<open>The stream\<close>

datatype stream_state = SS_CLOSED | SS_OPENING | SS_OPEN
datatype stream_result = SR_ERROR int | SR_SUCCESS nat | SR_BLOCK | SR_EOS
datatype stream_event = SE_OPEN | SE_READ | SE_WRITE | SE_CLOSE

definition k_dtls_record_header_len :: nat where "k_dtls_record_header_len = 13"
definition k_max_dtls_packet_len :: nat where "k_max_dtls_packet_len = 2048"
definition k_max_pending_packets :: nat where "k_max_pending_packets = 2"

text \<open>\<open>st_out\<close> holds what was written, the packets given to the ICE channel.\<close>

record stream_channel =
  st_state :: stream_state
  st_packets :: buffer_queue
  st_out :: "bytes list"

definition StreamInterfaceChannel :: stream_channel where
  "StreamInterfaceChannel = \<lparr>st_state = SS_OPEN, st_packets = BufferQueue k_max_pending_packets k_max_dtls_packet_len, st_out = []\<rparr>"

definition stream_Read :: "nat \<Rightarrow> stream_channel \<Rightarrow> stream_result \<times> bytes \<times> stream_channel" where
  "stream_Read n st = (if st_state st = SS_CLOSED then (SR_EOS, [], st)
     else if st_state st = SS_OPENING then (SR_BLOCK, [], st)
     else (case ReadFront n (st_packets st) of
         (None, q) \<Rightarrow> (SR_BLOCK, [], st\<lparr>st_packets := q\<rparr>)
       | (Some d, q) \<Rightarrow> (SR_SUCCESS (length d), d, st\<lparr>st_packets := q\<rparr>)))"

definition stream_Write :: "bytes \<Rightarrow> stream_channel \<Rightarrow> stream_result \<times> stream_channel" where
  "stream_Write data st = (SR_SUCCESS (length data), st\<lparr>st_out := st_out st @ [data]\<rparr>)"

definition stream_Close :: "stream_channel \<Rightarrow> stream_channel" where
  "stream_Close st = st\<lparr>st_state := SS_CLOSED, st_packets := bq_Clear (st_packets st)\<rparr>"

text \<open>The queue part of \<open>on_received_packet\<close>; the signal that follows is \<open>sa_OnEvent\<close> of the adapter.\<close>

definition stream_enqueue :: "bytes \<Rightarrow> stream_channel \<Rightarrow> stream_channel" where
  "stream_enqueue data st = st\<lparr>st_packets := snd (WriteBack data (st_packets st))\<rparr>"

definition stream_wf :: "stream_channel \<Rightarrow> bool" where
  "stream_wf st \<longleftrightarrow> bq_wf (st_packets st) \<and> bq_capacity (st_packets st) = k_max_pending_packets"

subsection \<open>OpenSSL\<close>

definition SSL_ERROR_NONE :: int where "SSL_ERROR_NONE = 0"
definition SSL_ERROR_WANT_READ :: int where "SSL_ERROR_WANT_READ = 2"
definition SSL_ERROR_WANT_WRITE :: int where "SSL_ERROR_WANT_WRITE = 3"
definition SSL_ERROR_ZERO_RETURN :: int where "SSL_ERROR_ZERO_RETURN = 6"
definition SSE_MSG_TRUNC :: int where "SSE_MSG_TRUNC = 0xff0001"

datatype ssl_role = SSL_CLIENT | SSL_SERVER
datatype ssl_mode = SSL_MODE_TLS | SSL_MODE_DTLS
datatype digest_error = Digest_NONE | UNKNOWN_ALGORITHM | INVALID_LENGTH | VERIFICATION_FAILED

record 's ssl_call =
  so_error :: int
  so_code :: nat
  so_cert :: "bytes option"
  so_taken :: nat
  so_written :: "bytes list"
  so_ssl :: 's

record 's openssl =
  os_new :: "ssl_mode \<Rightarrow> nat option \<Rightarrow> string \<Rightarrow> 's option"
  os_handshake :: "ssl_role \<Rightarrow> (bytes \<Rightarrow> bool) \<Rightarrow> bytes list \<Rightarrow> 's \<Rightarrow> 's ssl_call"
  os_read :: "nat \<Rightarrow> (bytes \<Rightarrow> bool) \<Rightarrow> bytes list \<Rightarrow> 's \<Rightarrow> 's ssl_call"
  os_pending :: "'s \<Rightarrow> nat"
  os_get_timeout :: "'s \<Rightarrow> int option"
  os_handle_timeout :: "'s \<Rightarrow> bytes list \<times> 's"
  os_shutdown :: "'s \<Rightarrow> bytes list"
  os_srtp_profile :: "'s \<Rightarrow> int option"
  os_export :: "string \<Rightarrow> nat \<Rightarrow> 's \<Rightarrow> bytes option"
  os_cert_digest :: "string \<Rightarrow> bytes \<Rightarrow> bytes option"

text \<open>The digests the library knows (\<open>rtc_base/openssl_digest.cc\<close>).\<close>

definition GetDigestSize :: "string \<Rightarrow> nat option" where
  "GetDigestSize algorithm = (if algorithm = ''md5'' then Some 16 else if algorithm = ''sha-1'' then Some 20
     else if algorithm = ''sha-224'' then Some 28 else if algorithm = ''sha-256'' then Some 32
     else if algorithm = ''sha-384'' then Some 48 else if algorithm = ''sha-512'' then Some 64 else None)"

subsection \<open>The thread of an adapter\<close>

text \<open>\<open>Thread::Current\<close> of \<open>rtc_base/thread.cc\<close>: the thread that first asks instantiates the thread manager
  and is given a wrapper, every other thread that is not one of \<open>rtc\<close> gets null.\<close>

record thread_manager =
  tm_main :: "nat option"
  tm_threads :: "nat list"

definition ThreadManager_Instance :: "nat \<Rightarrow> thread_manager \<Rightarrow> thread_manager" where
  "ThreadManager_Instance self m = (if tm_main m = None then m\<lparr>tm_main := Some self\<rparr> else m)"

definition Thread_Current :: "nat \<Rightarrow> thread_manager \<Rightarrow> bool \<times> thread_manager" where
  "Thread_Current self m = (let m1 = ThreadManager_Instance self m in
     if self \<in> set (tm_threads m1) then (True, m1)
     else if tm_main m1 = Some self then (True, m1\<lparr>tm_threads := tm_threads m1 @ [self]\<rparr>)
     else (False, m1))"

subsection \<open>State of the adapter\<close>

datatype ssl_state = SSL_NONE | SSL_WAIT | SSL_CONNECTING | SSL_CONNECTED | SSL_ERROR | SSL_CLOSED

text \<open>\<open>sa_owner\<close> is whether \<open>owner_\<close> is not null, \<open>sa_posted\<close> are the events handed to its message queue,
  \<open>sa_timeout\<close> the delay of the retransmission task when one is set.\<close>

record 's ssl_adapter =
  sa_stream :: stream_channel
  sa_owner :: bool
  sa_state :: ssl_state
  sa_role :: ssl_role
  sa_mode :: ssl_mode
  sa_error_code :: int
  sa_read_needs_write :: bool
  sa_write_needs_read :: bool
  sa_ssl :: "'s option"
  sa_identity :: "nat option"
  sa_chain :: "bytes option"
  sa_verified :: bool
  sa_digest_value :: bytes
  sa_digest_alg :: string
  sa_ciphers :: string
  sa_client_auth :: bool
  sa_timeout :: "int option"
  sa_posted :: "(stream_event list \<times> int) list"

type_synonym 's adapter_result = "int \<times> (stream_event list \<times> int) list \<times> 's ssl_adapter"

definition SSLStreamAdapter :: "bool \<Rightarrow> stream_channel \<Rightarrow> 's ssl_adapter" where
  "SSLStreamAdapter owner st = \<lparr>sa_stream = st, sa_owner = owner, sa_state = SSL_NONE, sa_role = SSL_CLIENT, sa_mode = SSL_MODE_TLS,
     sa_error_code = 0, sa_read_needs_write = False, sa_write_needs_read = False, sa_ssl = None, sa_identity = None,
     sa_chain = None, sa_verified = False, sa_digest_value = [], sa_digest_alg = [], sa_ciphers = [],
     sa_client_auth = True, sa_timeout = None, sa_posted = []\<rparr>"

definition SetIdentity :: "nat option \<Rightarrow> 's ssl_adapter \<Rightarrow> 's ssl_adapter" where
  "SetIdentity i a = a\<lparr>sa_identity := i\<rparr>"

definition SetMode :: "ssl_mode \<Rightarrow> 's ssl_adapter \<Rightarrow> 's ssl_adapter" where
  "SetMode m a = a\<lparr>sa_mode := m\<rparr>"

definition SetServerRole :: "ssl_role \<Rightarrow> 's ssl_adapter \<Rightarrow> 's ssl_adapter" where
  "SetServerRole r a = a\<lparr>sa_role := r\<rparr>"

definition WaitingToVerifyPeerCertificate :: "'s ssl_adapter \<Rightarrow> bool" where
  "WaitingToVerifyPeerCertificate a \<longleftrightarrow> sa_client_auth a \<and> \<not> sa_verified a"

definition HasPeerCertificateDigest :: "'s ssl_adapter \<Rightarrow> bool" where
  "HasPeerCertificateDigest a \<longleftrightarrow> sa_digest_alg a \<noteq> [] \<and> sa_digest_value a \<noteq> []"

subsection \<open>The certificate of the peer\<close>

definition VerifyPeerCertificate :: "'s openssl \<Rightarrow> 's ssl_adapter \<Rightarrow> bool \<times> 's ssl_adapter" where
  "VerifyPeerCertificate L a = (case sa_chain a of
       None \<Rightarrow> (False, a)
     | Some cert \<Rightarrow>
         if \<not> HasPeerCertificateDigest a then (False, a)
         else if os_cert_digest L (sa_digest_alg a) cert = Some (sa_digest_value a) then (True, a\<lparr>sa_verified := True\<rparr>)
         else (False, a))"

definition SSLVerifyCallback :: "'s openssl \<Rightarrow> bytes \<Rightarrow> 's ssl_adapter \<Rightarrow> bool \<times> 's ssl_adapter" where
  "SSLVerifyCallback L cert a = (let a1 = a\<lparr>sa_chain := Some cert\<rparr> in
     if sa_digest_alg a1 = [] then (True, a1) else VerifyPeerCertificate L a1)"

text \<open>What a call of the library does to the adapter: the callback, the packets it reads through the
  stream, and those it writes.\<close>

definition stream_take :: "nat \<Rightarrow> stream_channel \<Rightarrow> stream_channel" where
  "stream_take k st = ((\<lambda>s. snd (snd (stream_Read k_max_dtls_packet_len s))) ^^ k) st"

definition stream_waiting :: "stream_channel \<Rightarrow> bytes list" where
  "stream_waiting st = (if st_state st = SS_OPEN then bq_queue (st_packets st) else [])"

definition stream_write_all :: "bytes list \<Rightarrow> stream_channel \<Rightarrow> stream_channel" where
  "stream_write_all ds st = fold (\<lambda>d s. snd (stream_Write d s)) ds st"

definition absorb :: "'s openssl \<Rightarrow> 's ssl_call \<Rightarrow> 's ssl_adapter \<Rightarrow> 's ssl_adapter" where
  "absorb L out a = (let
     a1 = (case so_cert out of None \<Rightarrow> a | Some cert \<Rightarrow> snd (SSLVerifyCallback L cert a)) in
     a1\<lparr>sa_ssl := Some (so_ssl out), sa_stream := stream_write_all (so_written out) (stream_take (so_taken out) (sa_stream a1))\<rparr>)"

definition callback_of :: "'s openssl \<Rightarrow> 's ssl_adapter \<Rightarrow> bytes \<Rightarrow> bool" where
  "callback_of L a cert = fst (SSLVerifyCallback L cert a)"

subsection \<open>Closing\<close>

definition sa_Cleanup :: "'s openssl \<Rightarrow> 's ssl_adapter \<Rightarrow> 's ssl_adapter" where
  "sa_Cleanup L a = (let
     a1 = (if sa_state a \<noteq> SSL_ERROR then a\<lparr>sa_state := SSL_CLOSED, sa_error_code := 0\<rparr> else a);
     a2 = (case sa_ssl a1 of None \<Rightarrow> a1
       | Some s \<Rightarrow> a1\<lparr>sa_stream := stream_write_all (os_shutdown L s) (sa_stream a1), sa_ssl := None\<rparr>) in
     a2\<lparr>sa_identity := None, sa_chain := None, sa_timeout := None\<rparr>)"

definition sa_Error :: "'s openssl \<Rightarrow> int \<Rightarrow> bool \<Rightarrow> 's ssl_adapter \<Rightarrow> (stream_event list \<times> int) list \<times> 's ssl_adapter" where
  "sa_Error L err signal a = (if signal then [([SE_CLOSE], err)] else [],
     sa_Cleanup L (a\<lparr>sa_state := SSL_ERROR, sa_error_code := err\<rparr>))"

definition sa_Close :: "'s openssl \<Rightarrow> 's ssl_adapter \<Rightarrow> 's ssl_adapter" where
  "sa_Close L a = (let a1 = sa_Cleanup L a in a1\<lparr>sa_stream := stream_Close (sa_stream a1)\<rparr>)"

subsection \<open>The handshake\<close>

text \<open>Both hand a task to \<open>owner_\<close>.\<close>

definition SetTimeout :: "int \<Rightarrow> 's ssl_adapter \<Rightarrow> 's ssl_adapter option" where
  "SetTimeout delay_ms a = (if sa_owner a then Some (a\<lparr>sa_timeout := Some delay_ms\<rparr>) else None)"

definition PostEvent :: "stream_event list \<Rightarrow> int \<Rightarrow> 's ssl_adapter \<Rightarrow> 's ssl_adapter option" where
  "PostEvent events err a = (if sa_owner a then Some (a\<lparr>sa_posted := sa_posted a @ [(events, err)]\<rparr>) else None)"

definition ContinueSSL :: "'s openssl \<Rightarrow> 's ssl_adapter \<Rightarrow> 's adapter_result option" where
  "ContinueSSL L a = do {
     let a0 = a\<lparr>sa_timeout := None\<rparr>;
     s \<leftarrow> sa_ssl a0;
     let out = os_handshake L (sa_role a0) (callback_of L a0) (stream_waiting (sa_stream a0)) s;
     let a1 = absorb L out a0;
     if so_error out = SSL_ERROR_NONE then
       (let a2 = a1\<lparr>sa_state := SSL_CONNECTED\<rparr> in
        Some (0, if \<not> WaitingToVerifyPeerCertificate a2 then [([SE_OPEN, SE_READ, SE_WRITE], 0)] else [], a2))
     else if so_error out = SSL_ERROR_WANT_READ then
       map_option (\<lambda>a2. (0, [], a2)) (case os_get_timeout L (so_ssl out) of None \<Rightarrow> Some a1 | Some d \<Rightarrow> SetTimeout d a1)
     else if so_error out = SSL_ERROR_WANT_WRITE then Some (0, [], a1)
     else Some (so_error out, [], a1)
   }"

definition BeginSSL :: "'s openssl \<Rightarrow> 's ssl_adapter \<Rightarrow> 's adapter_result option" where
  "BeginSSL L a = (case os_new L (sa_mode a) (sa_identity a) (sa_ciphers a) of
       None \<Rightarrow> Some (-1, [], a)
     | Some s \<Rightarrow> ContinueSSL L (a\<lparr>sa_ssl := Some s\<rparr>))"

definition StartSSL :: "'s openssl \<Rightarrow> 's ssl_adapter \<Rightarrow> 's adapter_result option" where
  "StartSSL L a = (if sa_state a \<noteq> SSL_NONE then Some (-1, [], a)
     else if st_state (sa_stream a) \<noteq> SS_OPEN then Some (0, [], a\<lparr>sa_state := SSL_WAIT\<rparr>)
     else do {
       (err, evs, a1) \<leftarrow> BeginSSL L (a\<lparr>sa_state := SSL_CONNECTING\<rparr>);
       if err \<noteq> 0 then Some (err, evs @ fst (sa_Error L err False a1), snd (sa_Error L err False a1))
       else Some (0, evs, a1)
     })"

definition SetPeerCertificateDigest ::
  "'s openssl \<Rightarrow> string \<Rightarrow> bytes \<Rightarrow> 's ssl_adapter \<Rightarrow> (bool \<times> digest_error \<times> 's ssl_adapter) option" where
  "SetPeerCertificateDigest L alg val a = (case GetDigestSize alg of
       None \<Rightarrow> Some (False, UNKNOWN_ALGORITHM, a)
     | Some expected \<Rightarrow>
         if expected \<noteq> length val then Some (False, INVALID_LENGTH, a)
         else let a1 = a\<lparr>sa_digest_value := val, sa_digest_alg := alg\<rparr> in
           if sa_chain a1 = None then Some (True, Digest_NONE, a1)
           else (case VerifyPeerCertificate L a1 of
               (False, a2) \<Rightarrow> Some (False, VERIFICATION_FAILED, snd (sa_Error L (-1) False a2))
             | (True, a2) \<Rightarrow> map_option (\<lambda>a3. (True, Digest_NONE, a3))
                 (if sa_state a2 = SSL_CONNECTED then PostEvent [SE_OPEN, SE_READ, SE_WRITE] 0 a2 else Some a2)))"

text \<open>The retransmission task.  It forgets what \<open>ContinueSSL\<close> returns.\<close>

definition timeout_expired :: "'s openssl \<Rightarrow> 's ssl_adapter \<Rightarrow> ((stream_event list \<times> int) list \<times> 's ssl_adapter) option" where
  "timeout_expired L a = do {
     s \<leftarrow> sa_ssl a;
     let (ws, s1) = os_handle_timeout L s;
     (_, evs, a1) \<leftarrow> ContinueSSL L (a\<lparr>sa_timeout := None, sa_ssl := Some s1, sa_stream := stream_write_all ws (sa_stream a)\<rparr>);
     Some (evs, a1)
   }"

subsection \<open>Reading\<close>

partial_function (option) FlushInput :: "'s openssl \<Rightarrow> nat \<Rightarrow> 's ssl_adapter \<Rightarrow> 's ssl_adapter option" where
  "FlushInput L left a = (if left = 0 then Some a else do {
     s \<leftarrow> sa_ssl a;
     let out = os_read L (min 2048 left) (callback_of L a) (stream_waiting (sa_stream a)) s;
     let a1 = absorb L out a;
     if so_error out \<noteq> SSL_ERROR_NONE then Some (snd (sa_Error L (so_error out) False a1))
     else FlushInput L (left - so_code out) a1
   })"

declare FlushInput.simps [code]

definition sa_Read :: "'s openssl \<Rightarrow> nat \<Rightarrow> 's ssl_adapter \<Rightarrow> (stream_result \<times> 's ssl_adapter) option" where
  "sa_Read L n a = (case sa_state a of
       SSL_NONE \<Rightarrow> (let (r, d, st) = stream_Read n (sa_stream a) in Some (r, a\<lparr>sa_stream := st\<rparr>))
     | SSL_WAIT \<Rightarrow> Some (SR_BLOCK, a)
     | SSL_CONNECTING \<Rightarrow> Some (SR_BLOCK, a)
     | SSL_CLOSED \<Rightarrow> Some (SR_EOS, a)
     | SSL_ERROR \<Rightarrow> Some (SR_ERROR (sa_error_code a), a)
     | SSL_CONNECTED \<Rightarrow>
         if WaitingToVerifyPeerCertificate a then Some (SR_BLOCK, a)
         else if n = 0 then Some (SR_SUCCESS 0, a)
         else do {
           let a0 = a\<lparr>sa_read_needs_write := False\<rparr>;
           s \<leftarrow> sa_ssl a0;
           let out = os_read L n (callback_of L a0) (stream_waiting (sa_stream a0)) s;
           let a1 = absorb L out a0;
           if so_error out = SSL_ERROR_NONE then
             (if sa_mode a1 = SSL_MODE_DTLS \<and> os_pending L (so_ssl out) \<noteq> 0
              then map_option (\<lambda>a2. (SR_ERROR SSE_MSG_TRUNC, a2)) (FlushInput L (os_pending L (so_ssl out)) a1)
              else Some (SR_SUCCESS (so_code out), a1))
           else if so_error out = SSL_ERROR_WANT_READ then Some (SR_BLOCK, a1)
           else if so_error out = SSL_ERROR_WANT_WRITE then Some (SR_BLOCK, a1\<lparr>sa_read_needs_write := True\<rparr>)
           else if so_error out = SSL_ERROR_ZERO_RETURN then Some (SR_EOS, sa_Close L a1)
           else (let a2 = snd (sa_Error L (so_error out) False a1) in Some (SR_ERROR (sa_error_code a2), a2))
         })"

subsection \<open>Events of the stream\<close>

definition sa_OnEvent ::
  "'s openssl \<Rightarrow> stream_event list \<Rightarrow> int \<Rightarrow> 's ssl_adapter \<Rightarrow> ((stream_event list \<times> int) list \<times> 's ssl_adapter) option" where
  "sa_OnEvent L events err a = do {
     (stop1, sig1, evs1, a1) \<leftarrow>
       (if SE_OPEN \<in> set events then
          if sa_state a \<noteq> SSL_WAIT then Some (False, [SE_OPEN], [], a)
          else do {
            (e, evs, b) \<leftarrow> BeginSSL L (a\<lparr>sa_state := SSL_CONNECTING\<rparr>);
            if e \<noteq> 0 then Some (True, [], evs @ fst (sa_Error L e True b), snd (sa_Error L e True b))
            else Some (False, [], evs, b)
          }
        else Some (False, [], [], a));
     if stop1 then Some (evs1, a1) else do {
       (stop2, sig2, evs2, a2) \<leftarrow>
         (if SE_READ \<in> set events \<or> SE_WRITE \<in> set events then
            if sa_state a1 = SSL_NONE then Some (False, filter (\<lambda>e. e = SE_READ \<or> e = SE_WRITE) events, [], a1)
            else if sa_state a1 = SSL_CONNECTING then do {
              (e, evs, b) \<leftarrow> ContinueSSL L a1;
              if e \<noteq> 0 then Some (True, [], evs @ fst (sa_Error L e True b), snd (sa_Error L e True b))
              else Some (False, [], evs, b)
            }
            else if sa_state a1 = SSL_CONNECTED then
              Some (False,
                (if (SE_READ \<in> set events \<and> sa_write_needs_read a1) \<or> SE_WRITE \<in> set events then [SE_WRITE] else []) @
                (if (SE_WRITE \<in> set events \<and> sa_read_needs_write a1) \<or> SE_READ \<in> set events then [SE_READ] else []), [], a1)
            else Some (False, [], [], a1)
          else Some (False, [], [], a1));
       if stop2 then Some (evs1 @ evs2, a2) else (let
         a3 = (if SE_CLOSE \<in> set events then sa_Cleanup L a2 else a2);
         sig = sig1 @ sig2 @ (if SE_CLOSE \<in> set events then [SE_CLOSE] else []);
         serr = (if SE_CLOSE \<in> set events then err else 0) in
         Some (evs1 @ evs2 @ (if sig \<noteq> [] then [(sig, serr)] else []), a3))
     }}"

subsection \<open>DTLS-SRTP\<close>

definition kSrtpAes128CmSha1_80 :: int where "kSrtpAes128CmSha1_80 = 1"
definition kSrtpAes128CmSha1_32 :: int where "kSrtpAes128CmSha1_32 = 2"
definition kSrtpAeadAes128Gcm :: int where "kSrtpAeadAes128Gcm = 7"
definition kSrtpAeadAes256Gcm :: int where "kSrtpAeadAes256Gcm = 8"

definition kSrtpCipherMap :: "(string \<times> int) list" where
  "kSrtpCipherMap = [(''SRTP_AES128_CM_SHA1_80'', kSrtpAes128CmSha1_80), (''SRTP_AES128_CM_SHA1_32'', kSrtpAes128CmSha1_32),
     (''SRTP_AEAD_AES_128_GCM'', kSrtpAeadAes128Gcm), (''SRTP_AEAD_AES_256_GCM'', kSrtpAeadAes256Gcm)]"

fun cipher_names :: "int list \<Rightarrow> string \<Rightarrow> string option" where
  "cipher_names [] acc = Some acc"
| "cipher_names (c # cs) acc = (case find (\<lambda>e. snd e = c) kSrtpCipherMap of
       None \<Rightarrow> None
     | Some e \<Rightarrow> cipher_names cs (acc @ (if acc \<noteq> [] then '':'' else []) @ fst e))"

definition SetDtlsSrtpCryptoSuites :: "int list \<Rightarrow> 's ssl_adapter \<Rightarrow> bool \<times> 's ssl_adapter" where
  "SetDtlsSrtpCryptoSuites ciphers a = (if sa_state a \<noteq> SSL_NONE then (False, a)
     else (case cipher_names ciphers [] of None \<Rightarrow> (False, a)
       | Some names \<Rightarrow> if names = [] then (False, a) else (True, a\<lparr>sa_ciphers := names\<rparr>)))"

definition GetDtlsSrtpCryptoSuite :: "'s openssl \<Rightarrow> 's ssl_adapter \<Rightarrow> int option option" where
  "GetDtlsSrtpCryptoSuite L a = (if sa_state a \<noteq> SSL_CONNECTED then Some None
     else map_option (os_srtp_profile L) (sa_ssl a))"

definition ExportKeyingMaterial :: "'s openssl \<Rightarrow> string \<Rightarrow> nat \<Rightarrow> 's ssl_adapter \<Rightarrow> bytes option option" where
  "ExportKeyingMaterial L label n a = map_option (os_export L label n) (sa_ssl a)"

definition SrtpCryptoSuiteToName :: "int \<Rightarrow> string" where
  "SrtpCryptoSuiteToName suite = (if suite = kSrtpAes128CmSha1_32 then ''AES_CM_128_HMAC_SHA1_32''
     else if suite = kSrtpAes128CmSha1_80 then ''AES_CM_128_HMAC_SHA1_80''
     else if suite = kSrtpAeadAes128Gcm then ''AEAD_AES_128_GCM''
     else if suite = kSrtpAeadAes256Gcm then ''AEAD_AES_256_GCM'' else [])"

definition GetSrtpKeyAndSaltLengths :: "int \<Rightarrow> (nat \<times> nat) option" where
  "GetSrtpKeyAndSaltLengths suite = (if suite = kSrtpAes128CmSha1_32 \<or> suite = kSrtpAes128CmSha1_80 then Some (16, 14)
     else if suite = kSrtpAeadAes128Gcm then Some (16, 12)
     else if suite = kSrtpAeadAes256Gcm then Some (32, 12) else None)"

end
