(* ===== verification/Dtls_Transport.thy ===== *)
theory Dtls_Transport
  imports Ssl_Adapter
begin

text \<open>
  \<open>pc/dtls_transport.cpp\<close>: the DTLS transport of a medium, between an ICE channel and the SRTP
  transport.  The adapter is owned by the transport and owns the stream; \<open>dt_downward\<close> is a pointer
  to that stream, so streams have numbers and a use of a stream that is gone is \<open>None\<close>.  A handler
  takes and returns the transport with the signals it has raised, each with the transport as the
  slots saw it.  \<open>w\<close> is whether the ICE channel is writable, \<open>L\<close> the library, \<open>owner\<close> what
  \<open>Thread::Current\<close> returns on the thread of the transport.
\<close>

datatype dtls_state = K_new | K_connecting | K_connected | K_closed | K_failed | K_num_values

datatype dtls_signal =
    Dtls_state dtls_state
  | Dtls_read_packet bytes int
  | Dtls_receiving
  | Dtls_writable
  | Dtls_closed

record 's dtls_transport =
  dt_name :: string
  dt_state :: dtls_state
  dt_receiving :: bool
  dt_writable :: bool
  dt_dtls :: "(nat \<times> 's ssl_adapter) option"
  dt_downward :: "nat option"
  dt_next_stream :: nat
  dt_cached_client_hello :: bytes
  dt_local_certificate :: "nat option"
  dt_fp_value :: bytes
  dt_fp_alg :: string
  dt_active :: bool
  dt_srtp_ciphers :: "int list"
  dt_out :: "bytes list"

type_synonym 's dtls_sys = "'s dtls_transport \<times> (dtls_signal \<times> 's dtls_transport) list"

definition k_min_rtp_packet_len :: nat where "k_min_rtp_packet_len = 12"

record crypto_options =
  enable_gcm_crypto_suites :: bool
  enable_aes128_sha1_32_crypto_cipher :: bool
  enable_aes128_sha1_80_crypto_cipher :: bool

definition CryptoOptions :: crypto_options where
  "CryptoOptions = \<lparr>enable_gcm_crypto_suites = False, enable_aes128_sha1_32_crypto_cipher = False,
     enable_aes128_sha1_80_crypto_cipher = True\<rparr>"

definition GetSupportedDtlsSrtpCryptoSuites :: "crypto_options \<Rightarrow> int list" where
  "GetSupportedDtlsSrtpCryptoSuites opt =
     (if enable_aes128_sha1_32_crypto_cipher opt then [kSrtpAes128CmSha1_32] else []) @
     (if enable_aes128_sha1_80_crypto_cipher opt then [kSrtpAes128CmSha1_80] else []) @
     (if enable_gcm_crypto_suites opt then [kSrtpAeadAes256Gcm, kSrtpAeadAes128Gcm] else [])"

definition DtlsTransport :: "string \<Rightarrow> 's dtls_transport" where
  "DtlsTransport nm = \<lparr>dt_name = nm, dt_state = K_new, dt_receiving = False, dt_writable = False, dt_dtls = None,
     dt_downward = None, dt_next_stream = 0, dt_cached_client_hello = [], dt_local_certificate = None, dt_fp_value = [],
     dt_fp_alg = [], dt_active = False, dt_srtp_ciphers = GetSupportedDtlsSrtpCryptoSuites CryptoOptions, dt_out = []\<rparr>"

subsection \<open>Classification of packets\<close>

definition is_dtls_packet :: "bytes \<Rightarrow> bool" where
  "is_dtls_packet u \<longleftrightarrow> k_dtls_record_header_len \<le> length u \<and> 19 < u ! 0 \<and> u ! 0 < 64"

definition is_dtls_client_hello_packet :: "bytes \<Rightarrow> bool" where
  "is_dtls_client_hello_packet u \<longleftrightarrow> is_dtls_packet u \<and> 17 < length u \<and> u ! 0 = 22 \<and> u ! 13 = 1"

definition is_rtp_like :: "bytes \<Rightarrow> bool" where
  "is_rtp_like u \<longleftrightarrow> k_min_rtp_packet_len \<le> length u \<and> u ! 0 AND 0xC0 = 0x80"

subsection \<open>State changes and their signals\<close>

definition dt_emit :: "dtls_signal \<Rightarrow> 's dtls_sys \<Rightarrow> 's dtls_sys" where
  "dt_emit sig x = (fst x, snd x @ [(sig, fst x)])"

definition set_receiving_state :: "bool \<Rightarrow> 's dtls_sys \<Rightarrow> 's dtls_sys" where
  "set_receiving_state r x = (if dt_receiving (fst x) = r then x
     else dt_emit Dtls_receiving ((fst x)\<lparr>dt_receiving := r\<rparr>, snd x))"

definition set_writable_state :: "bool \<Rightarrow> 's dtls_sys \<Rightarrow> 's dtls_sys" where
  "set_writable_state w x = (if dt_writable (fst x) = w then x
     else dt_emit Dtls_writable ((fst x)\<lparr>dt_writable := w\<rparr>, snd x))"

definition set_dtls_state :: "dtls_state \<Rightarrow> 's dtls_sys \<Rightarrow> 's dtls_sys" where
  "set_dtls_state s x = (if dt_state (fst x) = s then x
     else dt_emit (Dtls_state s) ((fst x)\<lparr>dt_state := s\<rparr>, snd x))"

text \<open>What the adapter wrote to the stream has been sent to the ICE channel.\<close>

definition put_adapter :: "nat \<Rightarrow> 's ssl_adapter \<Rightarrow> 's dtls_sys \<Rightarrow> 's dtls_sys" where
  "put_adapter k a x = ((fst x)\<lparr>dt_dtls := Some (k, a\<lparr>sa_stream := (sa_stream a)\<lparr>st_out := []\<rparr>\<rparr>),
     dt_out := dt_out (fst x) @ st_out (sa_stream a)\<rparr>, snd x)"

text \<open>The destructor of the adapter shuts the session down; the stream goes with it, the pointer stays.\<close>

definition reset_dtls :: "'s openssl \<Rightarrow> 's dtls_sys \<Rightarrow> 's dtls_sys" where
  "reset_dtls L x = (case dt_dtls (fst x) of None \<Rightarrow> x
     | Some (k, a) \<Rightarrow> ((fst x)\<lparr>dt_dtls := None, dt_out := dt_out (fst x) @ st_out (sa_stream (sa_Cleanup L a))\<rparr>, snd x))"

subsection \<open>Events of the adapter\<close>

partial_function (option) read_loop :: "'s openssl \<Rightarrow> 's dtls_sys \<Rightarrow> 's dtls_sys option" where
  "read_loop L x = do {
     (k, a) \<leftarrow> dt_dtls (fst x);
     (ret, a1) \<leftarrow> sa_Read L k_max_dtls_packet_len a;
     let x1 = put_adapter k a1 x;
     case ret of
       SR_SUCCESS _ \<Rightarrow> read_loop L x1
     | SR_BLOCK \<Rightarrow> Some x1
     | SR_EOS \<Rightarrow> Some (dt_emit Dtls_closed (set_dtls_state K_closed (set_writable_state False x1)))
     | SR_ERROR _ \<Rightarrow> Some (dt_emit Dtls_closed (set_dtls_state K_failed (set_writable_state False x1)))
   }"

definition on_dtls_event :: "'s openssl \<Rightarrow> stream_event list \<times> int \<Rightarrow> 's dtls_sys \<Rightarrow> 's dtls_sys option" where
  "on_dtls_event L e x = (let (sig, error) = e in do {
     let x1 = (if SE_OPEN \<in> set sig then set_dtls_state K_connected (set_writable_state True x) else x);
     x2 \<leftarrow> (if SE_READ \<in> set sig then read_loop L x1 else Some x1);
     Some (if SE_CLOSE \<in> set sig
       then set_dtls_state (if error = 0 then K_closed else K_failed) (set_writable_state False x2) else x2)
   })"

fun on_dtls_events :: "'s openssl \<Rightarrow> (stream_event list \<times> int) list \<Rightarrow> 's dtls_sys \<Rightarrow> 's dtls_sys option" where
  "on_dtls_events L [] x = Some x"
| "on_dtls_events L (e # es) x = do { x1 \<leftarrow> on_dtls_event L e x; on_dtls_events L es x1 }"

declare read_loop.simps [code]

subsection \<open>DTLS packets\<close>

text \<open>The check that the packet is made of whole records.\<close>

function records_whole :: "bytes \<Rightarrow> bool" where
  "records_whole d = (if d = [] then True
     else if length d < k_dtls_record_header_len then False
     else let record_len = unat (push_bit 8 (ucast (d ! 11) :: u32) OR ucast (d ! 12)) in
       if length d < record_len + k_dtls_record_header_len then False
       else records_whole (drop (k_dtls_record_header_len + record_len) d))"
  by auto
termination
  by (relation "measure length") (auto simp: k_dtls_record_header_len_def)

declare records_whole.simps [simp del]

definition on_received_packet :: "'s openssl \<Rightarrow> bytes \<Rightarrow> 's dtls_sys \<Rightarrow> 's dtls_sys option" where
  "on_received_packet L data x = do {
     (k, a) \<leftarrow> dt_dtls (fst x);
     if dt_downward (fst x) \<noteq> Some k then None
     else do {
       (evs, a1) \<leftarrow> sa_OnEvent L [SE_READ] 0 (a\<lparr>sa_stream := stream_enqueue data (sa_stream a)\<rparr>);
       on_dtls_events L evs (put_adapter k a1 x)
     }}"

definition handle_dtls_packet :: "'s openssl \<Rightarrow> bytes \<Rightarrow> 's dtls_sys \<Rightarrow> (bool \<times> 's dtls_sys) option" where
  "handle_dtls_packet L data x = (if records_whole data
     then map_option (\<lambda>x1. (True, x1)) (on_received_packet L data x) else Some (False, x))"

subsection \<open>Starting\<close>

definition maybe_start_dtls :: "'s openssl \<Rightarrow> bool \<Rightarrow> 's dtls_sys \<Rightarrow> 's dtls_sys option" where
  "maybe_start_dtls L w x = (case dt_dtls (fst x) of None \<Rightarrow> Some x
     | Some (k, a) \<Rightarrow> if \<not> w then Some x else do {
         (ret, evs, a1) \<leftarrow> StartSSL L a;
         x1 \<leftarrow> on_dtls_events L evs (put_adapter k a1 x);
         if ret \<noteq> 0 then Some (set_dtls_state K_failed x1)
         else let x2 = set_dtls_state K_connecting x1 in
           if dt_cached_client_hello (fst x2) = [] then Some x2
           else do {
             (ok, x3) \<leftarrow> handle_dtls_packet L (dt_cached_client_hello (fst x2)) x2;
             let x4 = (if ok then x3 else set_dtls_state K_failed x3);
             Some ((fst x4)\<lparr>dt_cached_client_hello := []\<rparr>, snd x4)
           }
       })"

text \<open>The adapter as it is built, before a digest is set.\<close>

definition new_adapter :: "bool \<Rightarrow> nat option \<Rightarrow> 's ssl_adapter" where
  "new_adapter owner cert =
     SetServerRole SSL_SERVER (SetMode SSL_MODE_DTLS (SetIdentity cert (SSLStreamAdapter owner StreamInterfaceChannel)))"

definition install_adapter :: "'s openssl \<Rightarrow> bool \<Rightarrow> 's dtls_sys \<Rightarrow> 's dtls_sys" where
  "install_adapter L owner x = (let x1 = reset_dtls L x; t = fst x1; k = dt_next_stream t in
     (t\<lparr>dt_dtls := Some (k, new_adapter owner (dt_local_certificate t)), dt_downward := Some k, dt_next_stream := Suc k\<rparr>, snd x1))"

definition setup_dtls :: "'s openssl \<Rightarrow> bool \<Rightarrow> bool \<Rightarrow> 's dtls_sys \<Rightarrow> (bool \<times> 's dtls_sys) option" where
  "setup_dtls L owner w x = (if dt_local_certificate (fst x) = None then None else do {
     let x1 = install_adapter L owner x;
     (k, a) \<leftarrow> dt_dtls (fst x1);
     (digest_ok, a1) \<leftarrow> (if dt_fp_value (fst x1) \<noteq> []
       then map_option (\<lambda>(ok, _, b). (ok, b)) (SetPeerCertificateDigest L (dt_fp_alg (fst x1)) (dt_fp_value (fst x1)) a)
       else Some (True, a));
     if \<not> digest_ok then Some (False, put_adapter k a1 x1)
     else (let (ciphers_ok, a2) = (if dt_srtp_ciphers (fst x1) \<noteq> []
         then SetDtlsSrtpCryptoSuites (dt_srtp_ciphers (fst x1)) a1 else (True, a1)) in
       if \<not> ciphers_ok then Some (False, put_adapter k a2 x1)
       else map_option (\<lambda>x2. (True, x2)) (maybe_start_dtls L w (put_adapter k a2 x1)))
   })"

subsection \<open>Slots and operations\<close>

definition on_receiving_state :: "bool \<Rightarrow> 's dtls_sys \<Rightarrow> 's dtls_sys" where
  "on_receiving_state r x = set_receiving_state r x"

definition on_writable_state :: "'s openssl \<Rightarrow> bool \<Rightarrow> 's dtls_sys \<Rightarrow> 's dtls_sys option" where
  "on_writable_state L w x = (if \<not> dt_active (fst x) then Some (set_writable_state w x)
     else (case dt_state (fst x) of
         K_new \<Rightarrow> maybe_start_dtls L w x
       | K_connected \<Rightarrow> Some (set_writable_state w x)
       | _ \<Rightarrow> Some x))"

definition dt_on_read_packet :: "'s openssl \<Rightarrow> bool \<Rightarrow> bool \<Rightarrow> bytes \<Rightarrow> int \<Rightarrow> 's dtls_sys \<Rightarrow> 's dtls_sys option" where
  "dt_on_read_packet L owner w buf ts x = (case dt_state (fst x) of
       K_new \<Rightarrow>
         if is_dtls_client_hello_packet buf then
           let x1 = ((fst x)\<lparr>dt_cached_client_hello := buf\<rparr>, snd x) in
           if dt_dtls (fst x1) = None \<and> dt_local_certificate (fst x1) \<noteq> None
           then map_option snd (setup_dtls L owner w x1) else Some x1
         else Some x
     | K_connecting \<Rightarrow> if is_dtls_packet buf then map_option snd (handle_dtls_packet L buf x) else Some x
     | K_connected \<Rightarrow>
         if is_dtls_packet buf then map_option snd (handle_dtls_packet L buf x)
         else if \<not> is_rtp_like buf then Some x
         else Some (dt_emit (Dtls_read_packet buf ts) x)
     | _ \<Rightarrow> Some x)"

definition set_local_certificate :: "nat option \<Rightarrow> 's dtls_sys \<Rightarrow> bool \<times> 's dtls_sys" where
  "set_local_certificate cert x = (if dt_active (fst x) then (cert = dt_local_certificate (fst x), x)
     else if cert \<noteq> None then (True, (fst x)\<lparr>dt_local_certificate := cert, dt_active := True\<rparr>, snd x) else (True, x))"

definition set_remote_fingerprint ::
  "'s openssl \<Rightarrow> bool \<Rightarrow> bool \<Rightarrow> string \<Rightarrow> bytes \<Rightarrow> 's dtls_sys \<Rightarrow> (bool \<times> 's dtls_sys) option" where
  "set_remote_fingerprint L owner w digest_alg digest x = (let t = fst x in
     if dt_active t \<and> dt_fp_value t = digest \<and> digest_alg \<noteq> [] then Some (True, x)
     else if digest_alg = [] then Some (False, t\<lparr>dt_active := False\<rparr>, snd x)
     else if \<not> dt_active t then Some (False, x)
     else (let
       fingerprint_change = dt_fp_value t \<noteq> [];
       x1 = (t\<lparr>dt_fp_value := digest, dt_fp_alg := digest_alg\<rparr>, snd x) in
       (case dt_dtls t of
         Some (k, a) \<Rightarrow>
           if \<not> fingerprint_change then do {
             (ok, err, a1) \<leftarrow> SetPeerCertificateDigest L digest_alg digest a;
             let x2 = put_adapter k a1 x1;
             if \<not> ok then Some (err = VERIFICATION_FAILED, set_dtls_state K_failed x2) else Some (True, x2)
           } else do {
             (ok, x2) \<leftarrow> setup_dtls L owner w (set_writable_state False (set_dtls_state K_new (reset_dtls L x1)));
             if ok then Some (True, x2) else Some (False, set_dtls_state K_failed x2)
           }
       | None \<Rightarrow> do {
           (ok, x2) \<leftarrow> setup_dtls L owner w x1;
           if ok then Some (True, x2) else Some (False, set_dtls_state K_failed x2)
         })))"

definition get_srtp_crypto_suite :: "'s openssl \<Rightarrow> 's dtls_transport \<Rightarrow> int option option" where
  "get_srtp_crypto_suite L t = (if dt_state t \<noteq> K_connected then Some None
     else (case dt_dtls t of None \<Rightarrow> None | Some (_, a) \<Rightarrow> GetDtlsSrtpCryptoSuite L a))"

definition export_keying_material :: "'s openssl \<Rightarrow> string \<Rightarrow> nat \<Rightarrow> 's dtls_transport \<Rightarrow> bytes option option" where
  "export_keying_material L label n t = (case dt_dtls t of None \<Rightarrow> Some None
     | Some (_, a) \<Rightarrow> ExportKeyingMaterial L label n a)"

text \<open>\<open>ret\<close> is what the ICE channel returns.\<close>

definition dt_send_packet :: "int \<Rightarrow> bytes \<Rightarrow> 's dtls_transport \<Rightarrow> int \<times> 's dtls_transport" where
  "dt_send_packet ret data t = (ret, t\<lparr>dt_out := dt_out t @ [data]\<rparr>)"

end
