(* ===== verification/Ssl_Safety.thy ===== *)
theory Ssl_Safety
  imports Ssl_Adapter
begin

text \<open>
  What the adapter keeps: its session is there while it is used, and once the peer is accepted its
  certificate has the digest that was set.  \<open>openssl_ok\<close> is what is used of OpenSSL: a call in which the
  verification callback refused the certificate fails, and reading ends, since every successful read
  uses up something of the session or of the packets that wait.
\<close>

definition refused :: "(bytes \<Rightarrow> bool) \<Rightarrow> 's ssl_call \<Rightarrow> bool" where
  "refused cb out \<longleftrightarrow> (\<exists>c. so_cert out = Some c \<and> \<not> cb c)"

definition continues :: "'s ssl_call \<Rightarrow> bool" where
  "continues out \<longleftrightarrow> so_error out \<in> {SSL_ERROR_NONE, SSL_ERROR_WANT_READ, SSL_ERROR_WANT_WRITE}"

definition openssl_ok :: "'s openssl \<Rightarrow> bool" where
  "openssl_ok L \<longleftrightarrow>
     (\<forall>role cb ps s. refused cb (os_handshake L role cb ps s) \<longrightarrow> \<not> continues (os_handshake L role cb ps s)) \<and>
     (\<forall>n cb ps s. refused cb (os_read L n cb ps s) \<longrightarrow> \<not> continues (os_read L n cb ps s)) \<and>
     (\<exists>m :: 's \<Rightarrow> bytes list \<Rightarrow> nat. \<forall>n cb ps s. so_error (os_read L n cb ps s) = SSL_ERROR_NONE \<longrightarrow>
        m (so_ssl (os_read L n cb ps s)) (drop (so_taken (os_read L n cb ps s)) ps) < m s ps)"

definition peer_matches :: "'s openssl \<Rightarrow> 's ssl_adapter \<Rightarrow> bool" where
  "peer_matches L a \<longleftrightarrow> (\<exists>c. sa_chain a = Some c \<and> HasPeerCertificateDigest a \<and>
     os_cert_digest L (sa_digest_alg a) c = Some (sa_digest_value a))"

definition open_event :: "stream_event list \<times> int" where
  "open_event = ([SE_OPEN, SE_READ, SE_WRITE], 0)"

definition adapter_base :: "'s ssl_adapter \<Rightarrow> bool" where
  "adapter_base a \<longleftrightarrow> stream_wf (sa_stream a) \<and> sa_client_auth a \<and> sa_owner a \<and> set (sa_posted a) \<subseteq> {open_event} \<and>
     (sa_posted a \<noteq> [] \<longrightarrow> sa_verified a)"

definition adapter_ok :: "'s openssl \<Rightarrow> 's ssl_adapter \<Rightarrow> bool" where
  "adapter_ok L a \<longleftrightarrow> adapter_base a \<and>
     (sa_state a = SSL_CONNECTING \<or> sa_state a = SSL_CONNECTED \<longrightarrow> sa_ssl a \<noteq> None \<and> (sa_verified a \<longrightarrow> peer_matches L a)) \<and>
     (sa_timeout a \<noteq> None \<longrightarrow> sa_state a = SSL_CONNECTING) \<and>
     (sa_posted a \<noteq> [] \<longrightarrow> sa_state a \<in> {SSL_CONNECTED, SSL_ERROR, SSL_CLOSED}) \<and>
     (sa_state a = SSL_NONE \<longrightarrow> \<not> sa_verified a \<and> sa_chain a = None)"

definition same_digest :: "'s ssl_adapter \<Rightarrow> 's ssl_adapter \<Rightarrow> bool" where
  "same_digest a b \<longleftrightarrow> sa_digest_alg b = sa_digest_alg a \<and> sa_digest_value b = sa_digest_value a"

subsection \<open>The stream\<close>

lemma stream_take_simps [simp]:
  "st_state (stream_take k st) = st_state st" "st_out (stream_take k st) = st_out st"
  "stream_wf st \<Longrightarrow> stream_wf (stream_take k st)"
  "stream_wf st \<Longrightarrow> stream_waiting (stream_take k st) = drop k (stream_waiting st)"
proof -
  let ?f = "\<lambda>s. snd (snd (stream_Read k_max_dtls_packet_len s))"
  have one: "st_state (?f s) = st_state s" "st_out (?f s) = st_out s" "stream_wf s \<Longrightarrow> stream_wf (?f s)"
    "stream_waiting (?f s) = drop 1 (stream_waiting s)" for s
    by (cases "st_state s"; cases "bq_queue (st_packets s)";
        simp add: stream_Read_def ReadFront_def stream_wf_def bq_wf_def stream_waiting_def)+
  have "st_state ((?f ^^ k) st) = st_state st \<and> st_out ((?f ^^ k) st) = st_out st \<and>
      (stream_wf st \<longrightarrow> stream_wf ((?f ^^ k) st)) \<and> stream_waiting ((?f ^^ k) st) = drop k (stream_waiting st)"
    by (induction k) (simp_all add: one)
  then show "st_state (stream_take k st) = st_state st" "st_out (stream_take k st) = st_out st"
    "stream_wf st \<Longrightarrow> stream_wf (stream_take k st)"
    "stream_wf st \<Longrightarrow> stream_waiting (stream_take k st) = drop k (stream_waiting st)"
    by (simp_all add: stream_take_def)
qed

lemma stream_write_all_simps [simp]:
  "st_state (stream_write_all ds st) = st_state st" "st_packets (stream_write_all ds st) = st_packets st"
  "st_out (stream_write_all ds st) = st_out st @ ds" "stream_wf (stream_write_all ds st) = stream_wf st"
  "stream_waiting (stream_write_all ds st) = stream_waiting st"
proof -
  have "stream_write_all ds st = st\<lparr>st_out := st_out st @ ds\<rparr>"
    unfolding stream_write_all_def by (induction ds arbitrary: st) (simp_all add: stream_Write_def)
  then show "st_state (stream_write_all ds st) = st_state st" "st_packets (stream_write_all ds st) = st_packets st"
    "st_out (stream_write_all ds st) = st_out st @ ds" "stream_wf (stream_write_all ds st) = stream_wf st"
    "stream_waiting (stream_write_all ds st) = stream_waiting st"
    by (simp_all add: stream_wf_def stream_waiting_def)
qed

lemma stream_wf_enqueue [simp]: "stream_wf st \<Longrightarrow> stream_wf (stream_enqueue d st)"
  using bq.put_ok [of "st_packets st" d] by (simp add: stream_wf_def stream_enqueue_def)

lemma stream_wf_Close [simp]: "stream_wf st \<Longrightarrow> stream_wf (stream_Close st)"
  by (simp add: stream_wf_def stream_Close_def bq_Clear_def bq_wf_def)

lemma stream_wf_new [simp]: "stream_wf StreamInterfaceChannel"
  by (simp add: stream_wf_def StreamInterfaceChannel_def BufferQueue_def bq_wf_def)

subsection \<open>Calls of the library\<close>

lemma VerifyPeerCertificate_frame:
  "snd (VerifyPeerCertificate L a) = a\<lparr>sa_verified := sa_verified a \<or> fst (VerifyPeerCertificate L a)\<rparr>"
  "fst (VerifyPeerCertificate L a) \<longleftrightarrow> peer_matches L a"
  by (auto simp: VerifyPeerCertificate_def peer_matches_def split: option.split)

lemma SSLVerifyCallback_frame:
  "snd (SSLVerifyCallback L c a) = a\<lparr>sa_chain := Some c,
     sa_verified := sa_verified a \<or> (sa_digest_alg a \<noteq> [] \<and> peer_matches L (a\<lparr>sa_chain := Some c\<rparr>))\<rparr>"
  "fst (SSLVerifyCallback L c a) \<longleftrightarrow> sa_digest_alg a = [] \<or> peer_matches L (a\<lparr>sa_chain := Some c\<rparr>)"
  by (auto simp: SSLVerifyCallback_def Let_def VerifyPeerCertificate_frame)

lemma absorb_frame [simp]:
  "sa_state (absorb L out a) = sa_state a" "sa_owner (absorb L out a) = sa_owner a" "sa_role (absorb L out a) = sa_role a"
  "sa_mode (absorb L out a) = sa_mode a" "sa_error_code (absorb L out a) = sa_error_code a"
  "sa_ssl (absorb L out a) = Some (so_ssl out)" "sa_identity (absorb L out a) = sa_identity a"
  "sa_digest_alg (absorb L out a) = sa_digest_alg a" "sa_digest_value (absorb L out a) = sa_digest_value a"
  "sa_client_auth (absorb L out a) = sa_client_auth a" "sa_timeout (absorb L out a) = sa_timeout a"
  "sa_posted (absorb L out a) = sa_posted a"
  "sa_stream (absorb L out a) = stream_write_all (so_written out) (stream_take (so_taken out) (sa_stream a))"
  "same_digest a (absorb L out a)"
  by (auto simp: absorb_def Let_def SSLVerifyCallback_frame same_digest_def split: option.split)

lemma absorb_verified: "sa_verified a \<Longrightarrow> sa_verified (absorb L out a)"
  by (auto simp: absorb_def Let_def SSLVerifyCallback_frame split: option.split)

lemma absorb_matches:
  assumes "sa_verified a \<Longrightarrow> peer_matches L a" "\<not> refused (callback_of L a) out" "sa_verified (absorb L out a)"
  shows "peer_matches L (absorb L out a)"
  using assms
  by (auto simp: absorb_def Let_def SSLVerifyCallback_frame refused_def callback_of_def peer_matches_def HasPeerCertificateDigest_def
      split: option.splits)

lemma adapter_base_absorb [simp]: "adapter_base a \<Longrightarrow> adapter_base (absorb L out a)"
  by (auto simp: adapter_base_def absorb_verified)

lemma adapter_ok_absorb:
  assumes "adapter_ok L a" "sa_state a = SSL_CONNECTING \<or> sa_state a = SSL_CONNECTED" "\<not> refused (callback_of L a) out"
  shows "adapter_ok L (absorb L out a)"
  using assms absorb_matches [of a L out] by (auto simp: adapter_ok_def)

lemma sa_Error_frame [simp]:
  assumes "adapter_base a"
  shows "adapter_ok L (snd (sa_Error L e b a))" "sa_state (snd (sa_Error L e b a)) = SSL_ERROR"
    "same_digest a (snd (sa_Error L e b a))" "sa_verified (snd (sa_Error L e b a)) = sa_verified a"
    "fst (sa_Error L e b a) = (if b then [([SE_CLOSE], e)] else [])"
  using assms
  by (auto simp: sa_Error_def sa_Cleanup_def Let_def adapter_ok_def adapter_base_def same_digest_def split: option.split)

lemma sa_Error_ok:
  assumes "adapter_base a"
  obtains c where "sa_Error L e b a = (if b then [([SE_CLOSE], e)] else [], c)" "adapter_ok L c" "sa_state c = SSL_ERROR"
    "same_digest a c" "sa_verified c = sa_verified a"
  using sa_Error_frame [OF assms, of L e b] by (cases "sa_Error L e b a") auto

lemma sa_Close_frame [simp]:
  assumes "adapter_base a"
  shows "adapter_ok L (sa_Close L a)" "sa_state a \<noteq> SSL_ERROR \<Longrightarrow> sa_state (sa_Close L a) = SSL_CLOSED"
    "sa_state a = SSL_ERROR \<Longrightarrow> sa_state (sa_Close L a) = SSL_ERROR" "same_digest a (sa_Close L a)"
  using assms
  by (auto simp: sa_Close_def sa_Cleanup_def Let_def adapter_ok_def adapter_base_def same_digest_def split: option.split)

lemma same_digest_trans: "same_digest a b \<Longrightarrow> same_digest b c \<Longrightarrow> same_digest a c"
  by (simp add: same_digest_def)

subsection \<open>The handshake\<close>

definition handshake_result :: "'s openssl \<Rightarrow> 's ssl_adapter \<Rightarrow> 's adapter_result \<Rightarrow> bool" where
  "handshake_result L a r \<longleftrightarrow> (case r of (e, evs, b) \<Rightarrow> same_digest a b \<and> adapter_base b \<and>
     (if e \<noteq> 0 then evs = []
      else adapter_ok L b \<and> (evs = [] \<and> (sa_state b = SSL_CONNECTING \<or> sa_state b = SSL_CONNECTED) \<or>
           evs = [open_event] \<and> sa_state b = SSL_CONNECTED \<and> sa_verified b)))"

lemma handshake_not_refused:
  assumes "openssl_ok L" "continues (os_handshake L role cb ps s)"
  shows "\<not> refused cb (os_handshake L role cb ps s)"
  using assms by (auto simp: openssl_ok_def)

lemma read_not_refused:
  assumes "openssl_ok L" "continues (os_read L n cb ps s)"
  shows "\<not> refused cb (os_read L n cb ps s)"
  using assms by (auto simp: openssl_ok_def)

lemma ContinueSSL_ok:
  assumes lib: "openssl_ok L" and a: "adapter_ok L a" "sa_state a = SSL_CONNECTING"
  shows "\<exists>r. ContinueSSL L a = Some r \<and> handshake_result L a r"
proof -
  let ?a = "a\<lparr>sa_timeout := None\<rparr>"
  from a obtain s where s: "sa_ssl a = Some s" by (auto simp: adapter_ok_def)
  have ok: "adapter_ok L ?a" "sa_state ?a = SSL_CONNECTING" using a by (auto simp: adapter_ok_def adapter_base_def peer_matches_def HasPeerCertificateDigest_def)
  define out where "out = os_handshake L (sa_role a) (callback_of L ?a) (stream_waiting (sa_stream a)) s"
  have s': "sa_ssl ?a = Some s" and out': "os_handshake L (sa_role ?a) (callback_of L ?a) (stream_waiting (sa_stream ?a)) s = out"
    using s by (simp_all add: out_def)
  have base: "adapter_base (absorb L out ?a)" using ok by (simp add: adapter_ok_def)
  have dig: "same_digest a (absorb L out ?a)" by (simp add: same_digest_def)
  have cont: "adapter_ok L (absorb L out ?a)" if "continues out"
    using adapter_ok_absorb [OF ok(1)] ok(2) handshake_not_refused [OF lib that [unfolded out_def]] by (simp add: out_def)
  have own: "sa_owner (absorb L out ?a)" "sa_client_auth (absorb L out ?a)" "sa_posted a = []"
    using ok by (auto simp: adapter_ok_def adapter_base_def)
  have upd: "adapter_ok L (absorb L out ?a\<lparr>sa_timeout := Some d\<rparr>)" "adapter_base (absorb L out ?a\<lparr>sa_timeout := Some d\<rparr>)" if "continues out" for d
    using cont [OF that] ok(2) by (auto simp: adapter_ok_def adapter_base_def peer_matches_def HasPeerCertificateDigest_def)
  have updc: "adapter_ok L (absorb L out ?a\<lparr>sa_state := SSL_CONNECTED\<rparr>)" "adapter_base (absorb L out ?a\<lparr>sa_state := SSL_CONNECTED\<rparr>)" if "continues out"
    using cont [OF that] ok(2) own(3) by (auto simp: adapter_ok_def adapter_base_def peer_matches_def HasPeerCertificateDigest_def)
  have run: "ContinueSSL L a = (if so_error out = SSL_ERROR_NONE then
       (let a2 = absorb L out ?a\<lparr>sa_state := SSL_CONNECTED\<rparr> in
        Some (0, if \<not> WaitingToVerifyPeerCertificate a2 then [open_event] else [], a2))
     else if so_error out = SSL_ERROR_WANT_READ then
       map_option (\<lambda>a2. (0, [], a2)) (case os_get_timeout L (so_ssl out) of None \<Rightarrow> Some (absorb L out ?a) | Some d \<Rightarrow> SetTimeout d (absorb L out ?a))
     else if so_error out = SSL_ERROR_WANT_WRITE then Some (0, [], absorb L out ?a)
     else Some (so_error out, [], absorb L out ?a))"
    by (simp only: ContinueSSL_def Let_def s' bind.bind_lunit out' open_event_def)
  consider "so_error out = SSL_ERROR_NONE" | "so_error out = SSL_ERROR_WANT_READ" | "so_error out = SSL_ERROR_WANT_WRITE"
    | "\<not> continues out" "so_error out \<noteq> 0" by (auto simp: continues_def SSL_ERROR_NONE_def)
  then show ?thesis
  proof cases
    case 1
    then have c: "continues out" by (simp add: continues_def)
    show ?thesis unfolding run using 1 updc [OF c] dig own(2)
      by (auto simp: Let_def handshake_result_def WaitingToVerifyPeerCertificate_def same_digest_def)
  next
    case 2
    then have c: "continues out" by (simp add: continues_def)
    show ?thesis unfolding run using 2 upd [OF c] cont [OF c] base dig own(1) ok(2)
      by (auto simp: handshake_result_def SetTimeout_def same_digest_def SSL_ERROR_WANT_READ_def SSL_ERROR_NONE_def split: option.split)
  next
    case 3
    then have c: "continues out" by (simp add: continues_def)
    show ?thesis unfolding run using 3 cont [OF c] base dig ok(2)
      by (auto simp: handshake_result_def SSL_ERROR_WANT_WRITE_def SSL_ERROR_WANT_READ_def SSL_ERROR_NONE_def)
  next
    case 4
    then show ?thesis unfolding run using base dig by (auto simp: handshake_result_def continues_def)
  qed
qed

lemma handshake_resultE:
  assumes "handshake_result L a (e, evs, b)"
  obtains "e \<noteq> 0" "evs = []" "adapter_base b" "same_digest a b"
  | "e = 0" "evs = []" "adapter_ok L b" "same_digest a b" "sa_state b = SSL_CONNECTING \<or> sa_state b = SSL_CONNECTED"
  | "e = 0" "evs = [open_event]" "adapter_ok L b" "same_digest a b" "sa_state b = SSL_CONNECTED" "sa_verified b"
  using assms by (auto simp: handshake_result_def split: if_splits)

lemma BeginSSL_ok:
  assumes lib: "openssl_ok L" and a: "adapter_ok L a" "sa_state a = SSL_NONE"
  shows "\<exists>r. BeginSSL L (a\<lparr>sa_state := SSL_CONNECTING\<rparr>) = Some r \<and> handshake_result L a r"
proof (cases "os_new L (sa_mode a) (sa_identity a) (sa_ciphers a)")
  case None
  then show ?thesis using a
    by (simp add: BeginSSL_def handshake_result_def same_digest_def adapter_ok_def adapter_base_def)
next
  case (Some s)
  let ?b = "a\<lparr>sa_state := SSL_CONNECTING, sa_ssl := Some s\<rparr>"
  have b: "adapter_ok L ?b" "sa_state ?b = SSL_CONNECTING" using a by (auto simp: adapter_ok_def adapter_base_def)
  from ContinueSSL_ok [OF lib b] obtain r where "ContinueSSL L ?b = Some r" "handshake_result L ?b r" by blast
  then show ?thesis using Some by (auto simp: BeginSSL_def handshake_result_def same_digest_def split: if_splits)
qed

lemma StartSSL_ok:
  assumes lib: "openssl_ok L" and a: "adapter_ok L a"
  shows "\<exists>ret evs b. StartSSL L a = Some (ret, evs, b) \<and> adapter_ok L b \<and> same_digest a b \<and>
     (ret = 0 \<longrightarrow> sa_state b \<noteq> SSL_NONE) \<and> (evs = [] \<or> evs = [open_event] \<and> sa_state b = SSL_CONNECTED \<and> sa_verified b)"
proof (cases "sa_state a = SSL_NONE \<and> st_state (sa_stream a) = SS_OPEN")
  case True
  from BeginSSL_ok [OF lib a] True obtain e evs b where
    b: "BeginSSL L (a\<lparr>sa_state := SSL_CONNECTING\<rparr>) = Some (e, evs, b)" "handshake_result L a (e, evs, b)" by auto
  from b(2) show ?thesis
  proof (cases rule: handshake_resultE)
    case 1
    from sa_Error_ok [OF 1(3), of L e False] obtain c where
      "sa_Error L e False b = ([], c)" "adapter_ok L c" "same_digest b c" by auto
    then show ?thesis using True b(1) 1 by (auto simp: StartSSL_def intro: same_digest_trans)
  qed (use True b(1) in \<open>auto simp: StartSSL_def\<close>)
next
  case False
  then show ?thesis using a
    by (auto simp: StartSSL_def adapter_ok_def adapter_base_def same_digest_def peer_matches_def)
qed

text \<open>What reaches the transport when a packet has been put into the stream.\<close>

definition event_result :: "'s openssl \<Rightarrow> 's ssl_adapter \<Rightarrow> (stream_event list \<times> int) list \<Rightarrow> 's ssl_adapter \<Rightarrow> bool" where
  "event_result L a evs b \<longleftrightarrow> adapter_ok L b \<and> same_digest a b \<and> sa_state b \<noteq> SSL_NONE \<and>
     (sa_state a \<noteq> SSL_CONNECTING \<longrightarrow> b = a) \<and>
     ((evs = [] \<and> sa_state b \<noteq> SSL_CONNECTED) \<or> (evs = [] \<and> sa_state a = SSL_CONNECTING) \<or>
      evs = [open_event] \<and> sa_state b = SSL_CONNECTED \<and> sa_verified b \<or>
      (\<exists>e. evs = [([SE_CLOSE], e)] \<and> sa_state b = SSL_ERROR) \<or>
      evs = [([SE_READ], 0)] \<and> sa_state b = SSL_CONNECTED \<or>
      evs = [([SE_WRITE, SE_READ], 0)] \<and> sa_state b = SSL_CONNECTED)"

lemma OnEvent_read_ok:
  assumes lib: "openssl_ok L" and a: "adapter_ok L a" "sa_state a \<noteq> SSL_NONE"
  shows "\<exists>evs b. sa_OnEvent L [SE_READ] 0 a = Some (evs, b) \<and> event_result L a evs b"
proof (cases "sa_state a = SSL_CONNECTING")
  case True
  from ContinueSSL_ok [OF lib a(1) True] obtain e evs b where
    b: "ContinueSSL L a = Some (e, evs, b)" "handshake_result L a (e, evs, b)" by (auto simp: split_paired_all)
  from b(2) show ?thesis
  proof (cases rule: handshake_resultE)
    case 1
    from sa_Error_ok [OF 1(3), of L e True] obtain c where
      "sa_Error L e True b = ([([SE_CLOSE], e)], c)" "adapter_ok L c" "sa_state c = SSL_ERROR" "same_digest b c" by auto
    then show ?thesis using True b(1) 1 by (auto simp: sa_OnEvent_def event_result_def intro: same_digest_trans)
  qed (use True b(1) in \<open>auto simp: sa_OnEvent_def event_result_def\<close>)
next
  case False
  then show ?thesis using a by (auto simp: sa_OnEvent_def event_result_def same_digest_def)
qed

lemma SetPeerCertificateDigest_ok:
  assumes a: "adapter_ok L a" and d: "\<not> HasPeerCertificateDigest a"
  shows "\<exists>ok err b. SetPeerCertificateDigest L alg val a = Some (ok, err, b) \<and> adapter_ok L b \<and>
     (sa_state b = sa_state a \<or> sa_state b = SSL_ERROR \<and> \<not> ok) \<and>
     (same_digest a b \<and> sa_verified b = sa_verified a \<or> sa_digest_alg b = alg \<and> sa_digest_value b = val \<and> val \<noteq> [])"
proof (cases "GetDigestSize alg = Some (length val)")
  case False
  then show ?thesis using a by (auto simp: SetPeerCertificateDigest_def same_digest_def split: option.splits)
next
  case True
  let ?a = "a\<lparr>sa_digest_value := val, sa_digest_alg := alg\<rparr>"
  have len: "alg \<noteq> []" "val \<noteq> []" using True by (auto simp: GetDigestSize_def split: if_splits)
  have base: "adapter_base ?a" using a by (auto simp: adapter_ok_def adapter_base_def)
  have nv: "\<not> (sa_verified a \<and> (sa_state a = SSL_CONNECTING \<or> sa_state a = SSL_CONNECTED))"
    using a d by (auto simp: adapter_ok_def peer_matches_def)
  show ?thesis
  proof (cases "sa_chain a")
    case None
    have "adapter_ok L ?a" using a nv by (auto simp: adapter_ok_def adapter_base_def)
    moreover have "SetPeerCertificateDigest L alg val a = Some (True, Digest_NONE, ?a)"
      using True None by (simp add: SetPeerCertificateDigest_def)
    ultimately show ?thesis using len by fastforce
  next
    case (Some c)
    then have ns: "sa_state a \<noteq> SSL_NONE" using a by (auto simp: adapter_ok_def)
    show ?thesis
    proof (cases "peer_matches L ?a")
      case False
      let ?r = "VerifyPeerCertificate L ?a"
      have "fst ?r = False" "snd ?r = ?a" using False by (simp_all add: VerifyPeerCertificate_frame)
      then have r: "?r = (False, ?a)" by (metis prod.collapse)
      from sa_Error_ok [OF base, of L "-1" False] obtain d where
        d: "sa_Error L (- 1) False ?a = ([], d)" "adapter_ok L d" "sa_state d = SSL_ERROR" "same_digest ?a d" by auto
      have "SetPeerCertificateDigest L alg val a = Some (False, VERIFICATION_FAILED, d)"
        using True Some r d(1) by (simp add: SetPeerCertificateDigest_def)
      with d(2-4) len show ?thesis by (auto simp: same_digest_def)
    next
      case m: True
      let ?r = "VerifyPeerCertificate L ?a" and ?b = "?a\<lparr>sa_verified := True\<rparr>"
      have "fst ?r = True" "snd ?r = ?b" using m by (simp_all add: VerifyPeerCertificate_frame)
      then have r: "?r = (True, ?b)" by (metis prod.collapse)
      let ?c = "if sa_state a = SSL_CONNECTED then ?b\<lparr>sa_posted := sa_posted a @ [open_event]\<rparr> else ?b"
      have "adapter_ok L ?c" using a ns m
        by (auto simp: adapter_ok_def adapter_base_def peer_matches_def HasPeerCertificateDigest_def)
      moreover have "SetPeerCertificateDigest L alg val a = Some (True, Digest_NONE, ?c)"
        using True Some r a by (simp add: SetPeerCertificateDigest_def PostEvent_def open_event_def adapter_ok_def adapter_base_def)
      ultimately show ?thesis using len by fastforce
    qed
  qed
qed

subsection \<open>Reading\<close>

text \<open>What is left to read, by the measure of the library.\<close>

definition reads_end :: "'s openssl \<Rightarrow> ('s \<Rightarrow> bytes list \<Rightarrow> nat) \<Rightarrow> bool" where
  "reads_end L m \<longleftrightarrow> (\<forall>n cb ps s. so_error (os_read L n cb ps s) = SSL_ERROR_NONE \<longrightarrow>
     m (so_ssl (os_read L n cb ps s)) (drop (so_taken (os_read L n cb ps s)) ps) < m s ps)"

definition left_to_read :: "('s \<Rightarrow> bytes list \<Rightarrow> nat) \<Rightarrow> 's ssl_adapter \<Rightarrow> nat" where
  "left_to_read m a = (case sa_ssl a of None \<Rightarrow> 0 | Some s \<Rightarrow> m s (stream_waiting (sa_stream a)))"

lemma openssl_ok_reads_end: "openssl_ok L \<Longrightarrow> \<exists>m. reads_end L m"
  unfolding openssl_ok_def reads_end_def by blast

lemma left_to_read_absorb:
  assumes "reads_end L m" "sa_ssl a = Some s" "stream_wf (sa_stream a)"
    and "out = os_read L n cb (stream_waiting (sa_stream a)) s" "so_error out = SSL_ERROR_NONE"
  shows "left_to_read m (absorb L out a) < left_to_read m a"
  using assms by (simp add: left_to_read_def reads_end_def)

lemma FlushInput_ok:
  assumes lib: "openssl_ok L" "reads_end L m" and a: "adapter_ok L a" "sa_state a = SSL_CONNECTED"
  shows "\<exists>b. FlushInput L left a = Some b \<and> adapter_ok L b \<and> same_digest a b \<and>
     (sa_state b = SSL_CONNECTED \<or> sa_state b = SSL_ERROR)"
  using a
proof (induction "left_to_read m a" arbitrary: a left rule: less_induct)
  case less
  from less.prems obtain s where s: "sa_ssl a = Some s" by (auto simp: adapter_ok_def)
  have base: "adapter_base a" "stream_wf (sa_stream a)" using less.prems by (auto simp: adapter_ok_def adapter_base_def)
  define out where "out = os_read L (min 2048 left) (callback_of L a) (stream_waiting (sa_stream a)) s"
  show ?case
  proof (cases "left = 0")
    case True
    then show ?thesis using less.prems by (simp add: FlushInput.simps [of L 0] same_digest_def)
  next
    case False
    have run: "FlushInput L left a = (if so_error out \<noteq> SSL_ERROR_NONE then Some (snd (sa_Error L (so_error out) False (absorb L out a)))
        else FlushInput L (left - so_code out) (absorb L out a))"
      by (subst FlushInput.simps) (simp add: False s out_def [symmetric] Let_def)
    show ?thesis
    proof (cases "so_error out = SSL_ERROR_NONE")
      case True
      then have "continues out" by (simp add: continues_def)
      then have nr: "\<not> refused (callback_of L a) out" unfolding out_def by (rule read_not_refused [OF lib(1)])
      have ok: "adapter_ok L (absorb L out a)" using adapter_ok_absorb [OF less.prems(1) _ nr] less.prems(2) by simp
      have "left_to_read m (absorb L out a) < left_to_read m a"
        by (rule left_to_read_absorb [OF lib(2) s base(2) out_def True])
      from less.hyps [OF this ok, of "left - so_code out"] less.prems(2) obtain b where
        "FlushInput L (left - so_code out) (absorb L out a) = Some b" "adapter_ok L b" "same_digest (absorb L out a) b"
        "sa_state b = SSL_CONNECTED \<or> sa_state b = SSL_ERROR" by auto
      then show ?thesis using run True by (auto simp: same_digest_def)
    next
      case False
      then show ?thesis using run base(1) sa_Error_frame [of "absorb L out a" L "so_error out" False]
        by (auto simp: same_digest_def)
    qed
  qed
qed

text \<open>One \<open>Read\<close> of the transport.\<close>

definition read_result :: "'s openssl \<Rightarrow> ('s \<Rightarrow> bytes list \<Rightarrow> nat) \<Rightarrow> 's ssl_adapter \<Rightarrow> stream_result \<Rightarrow> 's ssl_adapter \<Rightarrow> bool" where
  "read_result L m a r b \<longleftrightarrow> adapter_ok L b \<and> same_digest a b \<and> sa_state b \<noteq> SSL_NONE \<and>
     (case r of
       SR_SUCCESS _ \<Rightarrow> sa_state a = SSL_CONNECTED \<and> sa_state b = SSL_CONNECTED \<and> sa_verified b \<and> left_to_read m b < left_to_read m a
     | SR_BLOCK \<Rightarrow> sa_state b = sa_state a \<and> (sa_verified a \<longrightarrow> sa_verified b) \<and> sa_state a \<notin> {SSL_ERROR, SSL_CLOSED}
     | SR_EOS \<Rightarrow> True
     | SR_ERROR _ \<Rightarrow> True)"

lemma sa_Read_ok:
  assumes lib: "openssl_ok L" "reads_end L m" and a: "adapter_ok L a" "sa_state a \<noteq> SSL_NONE" and n: "n \<noteq> 0"
  shows "\<exists>r b. sa_Read L n a = Some (r, b) \<and> read_result L m a r b"
proof (cases "sa_state a = SSL_CONNECTED \<and> \<not> WaitingToVerifyPeerCertificate a")
  case False
  then show ?thesis using a
    by (cases "sa_state a") (auto simp: sa_Read_def read_result_def same_digest_def)
next
  case True
  let ?a = "a\<lparr>sa_read_needs_write := False\<rparr>"
  have ok: "adapter_ok L ?a" "sa_state ?a = SSL_CONNECTED" "adapter_base ?a" "sa_client_auth a"
    using a True by (auto simp: adapter_ok_def adapter_base_def peer_matches_def HasPeerCertificateDigest_def)
  have v: "sa_verified ?a" using True ok(4) by (simp add: WaitingToVerifyPeerCertificate_def)
  from ok obtain s where s: "sa_ssl a = Some s" by (auto simp: adapter_ok_def)
  define out where "out = os_read L n (callback_of L ?a) (stream_waiting (sa_stream a)) s"
  let ?b = "absorb L out ?a"
  have s': "sa_ssl ?a = Some s" and out': "os_read L n (callback_of L ?a) (stream_waiting (sa_stream ?a)) s = out"
    using s by (simp_all add: out_def)
  have run: "sa_Read L n a = (if so_error out = SSL_ERROR_NONE then
       (if sa_mode ?b = SSL_MODE_DTLS \<and> os_pending L (so_ssl out) \<noteq> 0
        then map_option (\<lambda>a2. (SR_ERROR SSE_MSG_TRUNC, a2)) (FlushInput L (os_pending L (so_ssl out)) ?b)
        else Some (SR_SUCCESS (so_code out), ?b))
     else if so_error out = SSL_ERROR_WANT_READ then Some (SR_BLOCK, ?b)
     else if so_error out = SSL_ERROR_WANT_WRITE then Some (SR_BLOCK, ?b\<lparr>sa_read_needs_write := True\<rparr>)
     else if so_error out = SSL_ERROR_ZERO_RETURN then Some (SR_EOS, sa_Close L ?b)
     else (let a2 = snd (sa_Error L (so_error out) False ?b) in Some (SR_ERROR (sa_error_code a2), a2)))"
    using True n unfolding sa_Read_def by (simp only: ssl_state.case simp_thms if_False Let_def s' bind.bind_lunit out' cong: if_cong)
  have cont: "adapter_ok L ?b" if "continues out"
  proof -
    have "\<not> refused (callback_of L ?a) out" using read_not_refused [OF lib(1)] that unfolding out_def by blast
    from adapter_ok_absorb [OF ok(1) _ this] ok(2) show ?thesis by simp
  qed
  have base: "adapter_base ?b" using ok(3) by (rule adapter_base_absorb)
  have dig: "same_digest a ?b" by (simp add: same_digest_def)
  have vb: "sa_verified ?b" using v by (rule absorb_verified)
  have st: "sa_state ?b = SSL_CONNECTED" using ok(2) by simp
  consider "so_error out = SSL_ERROR_NONE" | "so_error out \<noteq> SSL_ERROR_NONE" "continues out" | "\<not> continues out"
    by (auto simp: continues_def)
  then show ?thesis
  proof cases
    case 1
    then have okb: "adapter_ok L ?b" using cont by (simp add: continues_def)
    have "left_to_read m ?b < left_to_read m ?a"
      by (rule left_to_read_absorb [OF lib(2) _ _ _ 1, of _ s n "callback_of L ?a"])
        (use s ok(3) in \<open>simp_all add: out_def adapter_base_def\<close>)
    then have dec: "left_to_read m ?b < left_to_read m a" using s by (simp add: left_to_read_def)
    from FlushInput_ok [OF lib okb st, of "os_pending L (so_ssl out)"] obtain c where
      c: "FlushInput L (os_pending L (so_ssl out)) ?b = Some c" "adapter_ok L c" "same_digest ?b c"
        "sa_state c = SSL_CONNECTED \<or> sa_state c = SSL_ERROR" by blast
    have dc: "same_digest a c" using same_digest_trans [OF dig c(3)] .
    show ?thesis
    proof (cases "sa_mode ?b = SSL_MODE_DTLS \<and> os_pending L (so_ssl out) \<noteq> 0")
      case flush: True
      have "sa_Read L n a = Some (SR_ERROR SSE_MSG_TRUNC, c)" unfolding run using 1 flush c(1) by simp
      moreover have "read_result L m a (SR_ERROR SSE_MSG_TRUNC) c" using c dc by (auto simp: read_result_def)
      ultimately show ?thesis by blast
    next
      case noflush: False
      have "sa_Read L n a = Some (SR_SUCCESS (so_code out), ?b)" unfolding run using 1 noflush by simp
      moreover have "read_result L m a (SR_SUCCESS (so_code out)) ?b" using okb dig st vb dec True by (simp add: read_result_def)
      ultimately show ?thesis by blast
    qed
  next
    case 2
    have okb: "adapter_ok L ?b" using cont [OF 2(2)] .
    then have okc: "adapter_ok L (?b\<lparr>sa_read_needs_write := True\<rparr>)"
      by (auto simp: adapter_ok_def adapter_base_def peer_matches_def HasPeerCertificateDigest_def)
    have "read_result L m a SR_BLOCK ?b" "read_result L m a SR_BLOCK (?b\<lparr>sa_read_needs_write := True\<rparr>)"
      using okb okc dig st vb True by (simp_all add: read_result_def same_digest_def)
    then show ?thesis unfolding run using 2 by (auto simp: continues_def)
  next
    case 3
    have e: "\<And>e. read_result L m a (SR_ERROR e) (snd (sa_Error L (so_error out) False ?b))" "read_result L m a SR_EOS (sa_Close L ?b)"
      using sa_Error_frame [OF base, of L "so_error out" False] sa_Close_frame [OF base, of L] st dig
      by (auto simp: read_result_def intro: same_digest_trans)
    show ?thesis unfolding run using 3 e by (auto simp: continues_def Let_def)
  qed
qed

end
