(* ===== verification/Dtls_Safety.thy ===== *)
theory Dtls_Safety
  imports Dtls_Transport Ssl_Safety
begin

text \<open>
  The DTLS transport over all sequences of what can reach it: its own operations, the signals of the
  ICE channel, and through them whatever OpenSSL answers.  No handler uses an adapter or a stream that
  is not there, and a packet is only passed up by a transport whose adapter has accepted a peer with
  the certificate the remote description announced.  Tasks given to \<open>owner_\<close> do not run: no thread of
  the server runs the message loop they wait for.
\<close>

subsection \<open>Invariant\<close>

definition digest_of :: "'s ssl_adapter \<Rightarrow> 's dtls_transport \<Rightarrow> bool" where
  "digest_of a t \<longleftrightarrow> sa_digest_value a = [] \<or>
     sa_digest_alg a = dt_fp_alg t \<and> sa_digest_value a = dt_fp_value t"

definition dt_holds :: "'s openssl \<Rightarrow> 's dtls_transport \<Rightarrow> nat \<Rightarrow> 's ssl_adapter \<Rightarrow> bool" where
  "dt_holds L t k a \<longleftrightarrow> dt_dtls t = Some (k, a) \<and> dt_downward t = Some k \<and> adapter_ok L a \<and> digest_of a t"

definition dt_inv :: "'s openssl \<Rightarrow> 's dtls_transport \<Rightarrow> bool" where
  "dt_inv L t \<longleftrightarrow> (dt_active t \<longrightarrow> dt_local_certificate t \<noteq> None) \<and>
     (case dt_dtls t of
       None \<Rightarrow> dt_state t \<noteq> K_connecting \<and> dt_state t \<noteq> K_connected
     | Some (k, a) \<Rightarrow> dt_holds L t k a \<and>
         (dt_state t = K_connecting \<or> dt_state t = K_connected \<longrightarrow> sa_state a \<noteq> SSL_NONE) \<and>
         (dt_state t = K_connected \<longrightarrow> sa_state a = SSL_CONNECTED \<and> sa_verified a))"

text \<open>What makes passing a packet up right.\<close>

definition from_verified_peer :: "'s openssl \<Rightarrow> bytes \<Rightarrow> 's dtls_transport \<Rightarrow> bool" where
  "from_verified_peer L buf t \<longleftrightarrow> is_rtp_like buf \<and> \<not> is_dtls_packet buf \<and> dt_state t = K_connected \<and>
     (\<exists>k a cert. dt_dtls t = Some (k, a) \<and> sa_state a = SSL_CONNECTED \<and> sa_chain a = Some cert \<and>
        os_cert_digest L (dt_fp_alg t) cert = Some (dt_fp_value t))"

definition has_session :: "'s openssl \<Rightarrow> 's dtls_transport \<Rightarrow> bool" where
  "has_session L t \<longleftrightarrow> (\<exists>k a. dt_dtls t = Some (k, a) \<and> adapter_ok L a)"

lemma has_session_cong: "dt_dtls t = dt_dtls u \<Longrightarrow> has_session L t = has_session L u"
  by (simp add: has_session_def)

definition sig_ok :: "'s openssl \<Rightarrow> dtls_signal \<times> 's dtls_transport \<Rightarrow> bool" where
  "sig_ok L e \<longleftrightarrow> (dt_state (snd e) = K_connected \<longrightarrow> has_session L (snd e)) \<and>
     (\<forall>buf ts. fst e = Dtls_read_packet buf ts \<longrightarrow> from_verified_peer L buf (snd e))"

definition log_ok :: "'s openssl \<Rightarrow> (dtls_signal \<times> 's dtls_transport) list \<Rightarrow> bool" where
  "log_ok L l \<longleftrightarrow> (\<forall>e \<in> set l. sig_ok L e)"

definition same_config :: "'s dtls_transport \<Rightarrow> 's dtls_transport \<Rightarrow> bool" where
  "same_config t u \<longleftrightarrow> dt_fp_value u = dt_fp_value t \<and> dt_fp_alg u = dt_fp_alg t \<and> dt_active u = dt_active t \<and>
     dt_local_certificate u = dt_local_certificate t \<and> dt_downward u = dt_downward t \<and>
     dt_srtp_ciphers u = dt_srtp_ciphers t \<and> dt_next_stream u = dt_next_stream t"

lemma same_config_refl [simp]: "same_config t t"
  by (simp add: same_config_def)

lemma same_config_trans: "same_config t u \<Longrightarrow> same_config u v \<Longrightarrow> same_config t v"
  by (simp add: same_config_def)

lemma log_ok_append [simp]: "log_ok L (l @ [(sig, t)]) \<longleftrightarrow> log_ok L l \<and> sig_ok L (sig, t)"
  by (auto simp: log_ok_def)

subsection \<open>Changes of state\<close>

lemma set_states [simp]:
  "dt_dtls (fst (set_dtls_state s x)) = dt_dtls (fst x)" "dt_dtls (fst (set_writable_state w x)) = dt_dtls (fst x)"
  "dt_dtls (fst (set_receiving_state w x)) = dt_dtls (fst x)" "dt_dtls (fst (dt_emit g x)) = dt_dtls (fst x)"
  "dt_state (fst (set_dtls_state s x)) = s" "dt_state (fst (set_writable_state w x)) = dt_state (fst x)"
  "dt_state (fst (set_receiving_state w x)) = dt_state (fst x)" "dt_state (fst (dt_emit g x)) = dt_state (fst x)"
  "same_config (fst x) (fst (set_dtls_state s x))" "same_config (fst x) (fst (set_writable_state w x))"
  "same_config (fst x) (fst (set_receiving_state w x))" "same_config (fst x) (fst (dt_emit g x))"
  "dt_cached_client_hello (fst (set_dtls_state s x)) = dt_cached_client_hello (fst x)"
  "dt_cached_client_hello (fst (set_writable_state w x)) = dt_cached_client_hello (fst x)"
  "dt_cached_client_hello (fst (dt_emit g x)) = dt_cached_client_hello (fst x)"
  by (simp_all add: set_dtls_state_def set_writable_state_def set_receiving_state_def dt_emit_def same_config_def)

lemma set_states_log [simp]:
  "log_ok L (snd x) \<Longrightarrow> has_session L (fst x) \<or> s \<noteq> K_connected \<Longrightarrow> log_ok L (snd (set_dtls_state s x))"
  "log_ok L (snd x) \<Longrightarrow> has_session L (fst x) \<or> dt_state (fst x) \<noteq> K_connected \<Longrightarrow> log_ok L (snd (set_writable_state w x))"
  "log_ok L (snd x) \<Longrightarrow> has_session L (fst x) \<or> dt_state (fst x) \<noteq> K_connected \<Longrightarrow> log_ok L (snd (set_receiving_state w x))"
  "log_ok L (snd x) \<Longrightarrow> has_session L (fst x) \<or> dt_state (fst x) \<noteq> K_connected \<Longrightarrow> log_ok L (snd (dt_emit Dtls_closed x))"
  by (auto simp: set_dtls_state_def set_writable_state_def set_receiving_state_def dt_emit_def sig_ok_def has_session_def)

definition flushed :: "'s ssl_adapter \<Rightarrow> 's ssl_adapter" where
  "flushed a = a\<lparr>sa_stream := (sa_stream a)\<lparr>st_out := []\<rparr>\<rparr>"

lemma flushed_simps [simp]:
  "sa_state (flushed a) = sa_state a" "sa_verified (flushed a) = sa_verified a" "same_digest a (flushed a)"
  "sa_digest_alg (flushed a) = sa_digest_alg a" "sa_digest_value (flushed a) = sa_digest_value a"
  "same_digest b (flushed a) = same_digest b a" "digest_of (flushed a) t = digest_of a t"
  "adapter_ok L (flushed a) = adapter_ok L a" "left_to_read m (flushed a) = left_to_read m a"
  by (auto simp: flushed_def same_digest_def digest_of_def adapter_ok_def adapter_base_def stream_wf_def peer_matches_def
      HasPeerCertificateDigest_def left_to_read_def stream_waiting_def split: option.split)

lemma put_adapter_simps [simp]:
  "dt_dtls (fst (put_adapter k a x)) = Some (k, flushed a)" "dt_state (fst (put_adapter k a x)) = dt_state (fst x)"
  "snd (put_adapter k a x) = snd x" "same_config (fst x) (fst (put_adapter k a x))"
  "dt_cached_client_hello (fst (put_adapter k a x)) = dt_cached_client_hello (fst x)"
  by (simp_all add: put_adapter_def flushed_def same_config_def)

lemma digest_of_config:
  "digest_of a t \<Longrightarrow> same_digest a b \<Longrightarrow> same_config t u \<Longrightarrow> digest_of b u"
  by (auto simp: digest_of_def same_digest_def same_config_def)

lemma dt_holds_put:
  "dt_holds L (fst x) k a \<Longrightarrow> adapter_ok L b \<Longrightarrow> same_digest a b \<Longrightarrow> dt_holds L (fst (put_adapter k b x)) k (flushed b)"
  by (auto simp: dt_holds_def put_adapter_def flushed_def digest_of_def same_digest_def
      adapter_ok_def adapter_base_def stream_wf_def peer_matches_def HasPeerCertificateDigest_def)

lemma dt_holds_config:
  "dt_holds L t k a \<Longrightarrow> same_config t u \<Longrightarrow> dt_dtls u = dt_dtls t \<Longrightarrow> dt_holds L u k a"
  by (auto simp: dt_holds_def same_config_def digest_of_def)

subsection \<open>Events of the adapter\<close>

text \<open>A transport with its adapter, and the same after an event.\<close>

definition event_step :: "'s openssl \<Rightarrow> 's dtls_sys \<Rightarrow> nat \<Rightarrow> 's dtls_sys \<Rightarrow> 's ssl_adapter \<Rightarrow> bool" where
  "event_step L x k y b \<longleftrightarrow> dt_holds L (fst y) k b \<and> sa_state b \<noteq> SSL_NONE \<and> same_config (fst x) (fst y) \<and>
     (log_ok L (snd x) \<longrightarrow> log_ok L (snd y)) \<and> dt_cached_client_hello (fst y) = dt_cached_client_hello (fst x)"

lemma event_step_state:
  assumes "dt_holds L (fst x) k a" "sa_state a \<noteq> SSL_NONE"
  shows "event_step L x k (set_dtls_state s x) a" "event_step L x k (set_writable_state w x) a" "event_step L x k (dt_emit Dtls_closed x) a"
  using assms dt_holds_config [OF assms(1)] by (auto simp: event_step_def dt_holds_def has_session_def)

lemma event_step_trans: "event_step L x k y b \<Longrightarrow> event_step L y k z c \<Longrightarrow> event_step L x k z c"
  by (auto simp: event_step_def intro: same_config_trans)

lemma event_step_shut:
  assumes "dt_holds L (fst x) k a" "sa_state a \<noteq> SSL_NONE"
  shows "event_step L x k (set_dtls_state s (set_writable_state w x)) a"
    "event_step L x k (dt_emit Dtls_closed (set_dtls_state s (set_writable_state w x))) a"
proof -
  have 1: "event_step L x k (set_writable_state w x) a" using event_step_state [OF assms] by simp
  then have h: "dt_holds L (fst (set_writable_state w x)) k a" by (simp add: event_step_def)
  have 2: "event_step L x k (set_dtls_state s (set_writable_state w x)) a"
    using event_step_trans [OF 1 event_step_state(1) [OF h assms(2)]] .
  then have h2: "dt_holds L (fst (set_dtls_state s (set_writable_state w x))) k a" by (simp add: event_step_def)
  show "event_step L x k (set_dtls_state s (set_writable_state w x)) a" by (rule 2)
  show "event_step L x k (dt_emit Dtls_closed (set_dtls_state s (set_writable_state w x))) a"
    using event_step_trans [OF 2 event_step_state(3) [OF h2 assms(2)]] .
qed

lemma read_loop_ok:
  assumes lib: "openssl_ok L" "reads_end L m" and h: "dt_holds L (fst x) k a" "sa_state a \<noteq> SSL_NONE"
  shows "\<exists>y b. read_loop L x = Some y \<and> event_step L x k y b \<and>
     (dt_state (fst y) = K_closed \<or> dt_state (fst y) = K_failed \<or>
      dt_state (fst y) = dt_state (fst x) \<and> sa_state b = sa_state a \<and> (sa_verified a \<longrightarrow> sa_verified b) \<and> sa_state a \<notin> {SSL_ERROR, SSL_CLOSED})"
  using h
proof (induction "left_to_read m a" arbitrary: a x rule: less_induct)
  case less
  note h = less.prems
  from sa_Read_ok [OF lib _ h(2), of k_max_dtls_packet_len] h(1) obtain r b where
    r: "sa_Read L k_max_dtls_packet_len a = Some (r, b)" "read_result L m a r b"
    by (auto simp: dt_holds_def k_max_dtls_packet_len_def)
  have b: "adapter_ok L b" "same_digest a b" "sa_state b \<noteq> SSL_NONE" using r(2) by (simp_all add: read_result_def)
  let ?x = "put_adapter k b x"
  have hx: "dt_holds L (fst ?x) k (flushed b)" using dt_holds_put [OF h(1) b(1,2)] .
  have s: "event_step L x k ?x (flushed b)" using hx b(3) by (simp add: event_step_def)
  have run: "read_loop L x = (case r of SR_SUCCESS _ \<Rightarrow> read_loop L ?x | SR_BLOCK \<Rightarrow> Some ?x
     | SR_EOS \<Rightarrow> Some (dt_emit Dtls_closed (set_dtls_state K_closed (set_writable_state False ?x)))
     | SR_ERROR _ \<Rightarrow> Some (dt_emit Dtls_closed (set_dtls_state K_failed (set_writable_state False ?x))))"
    by (subst read_loop.simps) (use h(1) r(1) in \<open>simp add: dt_holds_def Let_def cong: stream_result.case_cong\<close>)
  have fb: "sa_state (flushed b) \<noteq> SSL_NONE" using b(3) by simp
  show ?case
  proof (cases r)
    case (SR_SUCCESS n)
    then have dec: "left_to_read m (flushed b) < left_to_read m a" and st: "sa_state a = SSL_CONNECTED" "sa_state b = SSL_CONNECTED" "sa_verified b"
      using r(2) by (simp_all add: read_result_def)
    from less.hyps [OF dec hx fb] obtain y c where
      y: "read_loop L ?x = Some y" "event_step L ?x k y c"
        "dt_state (fst y) = K_closed \<or> dt_state (fst y) = K_failed \<or>
         dt_state (fst y) = dt_state (fst ?x) \<and> sa_state c = sa_state (flushed b) \<and> (sa_verified (flushed b) \<longrightarrow> sa_verified c) \<and> sa_state (flushed b) \<notin> {SSL_ERROR, SSL_CLOSED}"
      by blast
    show ?thesis using run SR_SUCCESS y(1,3) event_step_trans [OF s y(2)] st by auto
  next
    case SR_BLOCK
    then show ?thesis using run s r(2) by (auto simp: read_result_def)
  next
    case SR_EOS
    then show ?thesis using run event_step_trans [OF s event_step_shut(2) [OF hx fb]] by auto
  next
    case (SR_ERROR e)
    then show ?thesis using run event_step_trans [OF s event_step_shut(2) [OF hx fb]] by auto
  qed
qed

text \<open>What an adapter raises leaves the transport in a state that fits the adapter.\<close>

definition evs_ok :: "(stream_event list \<times> int) list \<Rightarrow> 's ssl_adapter \<Rightarrow> 's dtls_transport \<Rightarrow> bool" where
  "evs_ok evs a t \<longleftrightarrow>
     evs = [] \<and> (dt_state t = K_connected \<longrightarrow> sa_state a = SSL_CONNECTED \<and> sa_verified a) \<or>
     evs = [open_event] \<and> sa_state a = SSL_CONNECTED \<and> sa_verified a \<or>
     (\<exists>e. evs = [([SE_CLOSE], e)]) \<or>
     (\<exists>e. evs = [(e, 0)] \<and> set e \<subseteq> {SE_READ, SE_WRITE} \<and> SE_READ \<in> set e) \<and>
       (dt_state t = K_connected \<longrightarrow> sa_state a = SSL_CONNECTED \<and> sa_verified a)"

lemma on_dtls_events_ok:
  assumes lib: "openssl_ok L" and h: "dt_holds L (fst x) k a" "sa_state a \<noteq> SSL_NONE"
    and c: "dt_active (fst x) \<longrightarrow> dt_local_certificate (fst x) \<noteq> None" and e: "evs_ok evs a (fst x)"
  shows "\<exists>y b. on_dtls_events L evs x = Some y \<and> event_step L x k y b \<and> dt_inv L (fst y)"
proof -
  from openssl_ok_reads_end [OF lib] obtain m where m: "reads_end L m" by blast
  have inv: "dt_inv L (fst y)" if "event_step L x k y b" "dt_state (fst y) = K_connected \<longrightarrow> sa_state b = SSL_CONNECTED \<and> sa_verified b" for y b
    using that c by (auto simp: dt_inv_def event_step_def same_config_def dt_holds_def)
  consider "evs = []" "dt_state (fst x) = K_connected \<longrightarrow> sa_state a = SSL_CONNECTED \<and> sa_verified a"
    | "evs = [open_event]" "sa_state a = SSL_CONNECTED" "sa_verified a"
    | err where "evs = [([SE_CLOSE], err)]"
    | es where "evs = [(es, 0)]" "set es \<subseteq> {SE_READ, SE_WRITE}" "SE_READ \<in> set es"
        "dt_state (fst x) = K_connected \<longrightarrow> sa_state a = SSL_CONNECTED \<and> sa_verified a"
    using e unfolding evs_ok_def by blast
  then show ?thesis
  proof cases
    case 1
    have "event_step L x k x a" using h by (simp add: event_step_def)
    then show ?thesis using 1 inv by auto
  next
    case 2
    let ?x = "set_dtls_state K_connected (set_writable_state True x)"
    have s: "event_step L x k ?x a" using event_step_shut(1) [OF h] .
    then have hx: "dt_holds L (fst ?x) k a" by (simp add: event_step_def)
    from read_loop_ok [OF lib m hx h(2)] obtain y b where
      y: "read_loop L ?x = Some y" "event_step L ?x k y b" "dt_state (fst y) = K_closed \<or> dt_state (fst y) = K_failed \<or>
        dt_state (fst y) = dt_state (fst ?x) \<and> sa_state b = sa_state a \<and> (sa_verified a \<longrightarrow> sa_verified b) \<and> sa_state a \<notin> {SSL_ERROR, SSL_CLOSED}"
      by blast
    have "event_step L x k y b" using event_step_trans [OF s y(2)] .
    moreover have "on_dtls_events L evs x = Some y" using 2(1) y(1) by (simp add: on_dtls_event_def open_event_def)
    ultimately show ?thesis using inv y(3) 2 by auto
  next
    case 3
    let ?s = "if err = 0 then K_closed else K_failed"
    have "event_step L x k (set_dtls_state ?s (set_writable_state False x)) a" using event_step_shut(1) [OF h] .
    moreover have "on_dtls_events L evs x = Some (set_dtls_state ?s (set_writable_state False x))"
      using 3 by (simp add: on_dtls_event_def)
    ultimately show ?thesis using inv by auto
  next
    case 4
    have "SE_OPEN \<notin> set es" "SE_CLOSE \<notin> set es" using 4(2) by auto
    moreover from read_loop_ok [OF lib m h] obtain y b where
      y: "read_loop L x = Some y" "event_step L x k y b" "dt_state (fst y) = K_closed \<or> dt_state (fst y) = K_failed \<or>
        dt_state (fst y) = dt_state (fst x) \<and> sa_state b = sa_state a \<and> (sa_verified a \<longrightarrow> sa_verified b) \<and> sa_state a \<notin> {SSL_ERROR, SSL_CLOSED}"
      by blast
    ultimately show ?thesis using 4 inv [OF y(2)] by (auto simp: on_dtls_event_def)
  qed
qed

subsection \<open>Packets\<close>

lemma dt_holds_enqueue:
  "dt_holds L (fst x) k a \<Longrightarrow> adapter_ok L (a\<lparr>sa_stream := stream_enqueue d (sa_stream a)\<rparr>)"
  by (auto simp: dt_holds_def adapter_ok_def adapter_base_def peer_matches_def HasPeerCertificateDigest_def)

lemma on_received_packet_ok:
  assumes lib: "openssl_ok L" and h: "dt_holds L (fst x) k a" "sa_state a \<noteq> SSL_NONE" and i: "dt_inv L (fst x)"
  shows "\<exists>y b. on_received_packet L d x = Some y \<and> event_step L x k y b \<and> dt_inv L (fst y)"
proof -
  let ?a = "a\<lparr>sa_stream := stream_enqueue d (sa_stream a)\<rparr>"
  have a: "adapter_ok L ?a" "sa_state ?a \<noteq> SSL_NONE" "same_digest a ?a"
    using dt_holds_enqueue [OF h(1)] h(2) by (simp_all add: same_digest_def)
  from OnEvent_read_ok [OF lib a(1,2)] obtain evs b where
    b: "sa_OnEvent L [SE_READ] 0 ?a = Some (evs, b)" "event_result L ?a evs b" by blast
  let ?x = "put_adapter k b x"
  have b2: "adapter_ok L b" "same_digest a b" "sa_state (flushed b) \<noteq> SSL_NONE"
    using b(2) same_digest_trans [OF a(3)] by (auto simp: event_result_def)
  have hx: "dt_holds L (fst ?x) k (flushed b)" using dt_holds_put [OF h(1) b2(1,2)] .
  have s: "event_step L x k ?x (flushed b)" using hx b2(3) by (simp add: event_step_def)
  have con: "dt_state (fst x) = K_connected \<longrightarrow> sa_state a = SSL_CONNECTED \<and> sa_verified a" "dt_active (fst x) \<longrightarrow> dt_local_certificate (fst x) \<noteq> None"
    using i h(1) by (auto simp: dt_inv_def dt_holds_def)
  have e: "evs_ok evs (flushed b) (fst ?x)"
  proof (cases "sa_state a = SSL_CONNECTING")
    case True
    then show ?thesis using b(2) con by (auto simp: evs_ok_def event_result_def)
  next
    case False
    then have "b = ?a" using b(2) by (simp add: event_result_def)
    then show ?thesis using b(2) con by (auto simp: evs_ok_def event_result_def)
  qed
  have act: "dt_active (fst ?x) \<longrightarrow> dt_local_certificate (fst ?x) \<noteq> None" using con(2) by (simp add: put_adapter_def)
  from on_dtls_events_ok [OF lib hx b2(3) act e] obtain y c where
    y: "on_dtls_events L evs ?x = Some y" "event_step L ?x k y c" "dt_inv L (fst y)" by blast
  have "on_received_packet L d x = Some y"
    using h(1) b(1) y(1) by (simp add: on_received_packet_def dt_holds_def)
  then show ?thesis using y event_step_trans [OF s y(2)] by blast
qed

lemma handle_dtls_packet_ok:
  assumes "openssl_ok L" "dt_holds L (fst x) k a" "sa_state a \<noteq> SSL_NONE" "dt_inv L (fst x)"
  shows "\<exists>ok y b. handle_dtls_packet L d x = Some (ok, y) \<and> event_step L x k y b \<and> dt_inv L (fst y)"
proof (cases "records_whole d")
  case True
  from on_received_packet_ok [OF assms, of d] True show ?thesis by (auto simp: handle_dtls_packet_def)
next
  case False
  have "event_step L x k x a" using assms by (simp add: event_step_def)
  with False assms(4) show ?thesis by (auto simp: handle_dtls_packet_def)
qed

subsection \<open>Starting\<close>

lemma dt_inv_set_state:
  assumes "dt_holds L (fst x) k a" "sa_state a \<noteq> SSL_NONE" "dt_active (fst x) \<longrightarrow> dt_local_certificate (fst x) \<noteq> None" "s \<noteq> K_connected"
  shows "dt_inv L (fst (set_dtls_state s x))"
  using event_step_state(1) [OF assms(1,2), of s] assms
  by (auto simp: dt_inv_def event_step_def same_config_def dt_holds_def)

definition keeps_dt :: "'s openssl \<Rightarrow> 's dtls_sys \<Rightarrow> 's dtls_sys \<Rightarrow> bool" where
  "keeps_dt L x y \<longleftrightarrow> dt_inv L (fst y) \<and> (log_ok L (snd x) \<longrightarrow> log_ok L (snd y))"

lemma keeps_dt_trans: "keeps_dt L x y \<Longrightarrow> keeps_dt L y z \<Longrightarrow> keeps_dt L x z"
  by (simp add: keeps_dt_def)

lemma maybe_start_dtls_ok:
  assumes lib: "openssl_ok L" and i: "dt_inv L (fst x)" "dt_state (fst x) \<noteq> K_connected"
  shows "\<exists>y. maybe_start_dtls L w x = Some y \<and> keeps_dt L x y"
proof (cases "dt_dtls (fst x)")
  case None
  then show ?thesis using i by (simp add: maybe_start_dtls_def keeps_dt_def)
next
  case (Some p)
  obtain k a where p: "p = (k, a)" by (cases p)
  have h: "dt_holds L (fst x) k a" using i Some p by (auto simp: dt_inv_def)
  show ?thesis
  proof (cases w)
    case False
    then show ?thesis using i Some p by (simp add: maybe_start_dtls_def keeps_dt_def)
  next
    case w: True
    from StartSSL_ok [OF lib, of a] h obtain ret evs b where
      b: "StartSSL L a = Some (ret, evs, b)" "adapter_ok L b" "same_digest a b" "ret = 0 \<longrightarrow> sa_state b \<noteq> SSL_NONE"
        "evs = [] \<or> evs = [open_event] \<and> sa_state b = SSL_CONNECTED \<and> sa_verified b"
      by (auto simp: dt_holds_def)
    let ?x = "put_adapter k b x"
    have hx: "dt_holds L (fst ?x) k (flushed b)" using dt_holds_put [OF h b(2,3)] .
    have act: "dt_active (fst ?x) \<longrightarrow> dt_local_certificate (fst ?x) \<noteq> None" using i(1) by (simp add: put_adapter_def dt_inv_def)
    show ?thesis
    proof (cases "sa_state b = SSL_NONE")
      case True
      then have r: "ret \<noteq> 0" "evs = []" using b(4,5) by auto
      have "maybe_start_dtls L w x = Some (set_dtls_state K_failed ?x)"
        using Some p w b(1) r by (simp add: maybe_start_dtls_def)
      moreover have "dt_holds L (fst (set_dtls_state K_failed ?x)) k (flushed b)" using dt_holds_config [OF hx] by simp
      ultimately show ?thesis using act
        by (auto simp: keeps_dt_def dt_inv_def dt_holds_def set_dtls_state_def dt_emit_def put_adapter_def sig_ok_def)
    next
      case False
      then have fb: "sa_state (flushed b) \<noteq> SSL_NONE" by simp
      have s: "event_step L x k ?x (flushed b)" using hx fb by (simp add: event_step_def)
      have e: "evs_ok evs (flushed b) (fst ?x)" using b(5) i(2) by (auto simp: evs_ok_def)
      from on_dtls_events_ok [OF lib hx fb act e] obtain x1 c where
        x1: "on_dtls_events L evs ?x = Some x1" "event_step L ?x k x1 c" "dt_inv L (fst x1)" by blast
      have h1: "dt_holds L (fst x1) k c" "sa_state c \<noteq> SSL_NONE" using x1(2) by (simp_all add: event_step_def)
      have act1: "dt_active (fst x1) \<longrightarrow> dt_local_certificate (fst x1) \<noteq> None" using x1(3) by (simp add: dt_inv_def)
      have s1: "event_step L x k x1 c" using event_step_trans [OF s x1(2)] .
      let ?x2 = "set_dtls_state K_connecting x1"
      have s2: "event_step L x k ?x2 c" using event_step_trans [OF s1 event_step_state(1) [OF h1]] .
      have i2: "dt_inv L (fst ?x2)" using dt_inv_set_state [OF h1 act1] by simp
      have h2: "dt_holds L (fst ?x2) k c" using s2 by (simp add: event_step_def)
      have start: "maybe_start_dtls L w x = (if ret \<noteq> 0 then Some (set_dtls_state K_failed x1)
         else if dt_cached_client_hello (fst ?x2) = [] then Some ?x2
         else do {
            (ok, x3) \<leftarrow> handle_dtls_packet L (dt_cached_client_hello (fst ?x2)) ?x2;
            let x4 = (if ok then x3 else set_dtls_state K_failed x3);
            Some ((fst x4)\<lparr>dt_cached_client_hello := []\<rparr>, snd x4)
          })"
        using Some p w b(1) x1(1) by (simp add: maybe_start_dtls_def Let_def)
      show ?thesis
      proof (cases "ret = 0 \<and> dt_cached_client_hello (fst ?x2) \<noteq> []")
        case False
        have "dt_inv L (fst (set_dtls_state K_failed x1))" using dt_inv_set_state [OF h1 act1] by simp
        moreover have "event_step L x k (set_dtls_state K_failed x1) c" using event_step_trans [OF s1 event_step_state(1) [OF h1]] .
        ultimately have "keeps_dt L x (set_dtls_state K_failed x1)" "keeps_dt L x ?x2"
          using i2 s2 by (simp_all add: keeps_dt_def event_step_def)
        then show ?thesis using start False by (auto simp del: split_paired_Ex)
      next
        case True
        from handle_dtls_packet_ok [OF lib h2 h1(2) i2, of "dt_cached_client_hello (fst ?x2)"] obtain ok x3 d where
          x3: "handle_dtls_packet L (dt_cached_client_hello (fst ?x2)) ?x2 = Some (ok, x3)" "event_step L ?x2 k x3 d" "dt_inv L (fst x3)" by blast
        have h3: "dt_holds L (fst x3) k d" "sa_state d \<noteq> SSL_NONE" using x3(2) by (simp_all add: event_step_def)
        have act3: "dt_active (fst x3) \<longrightarrow> dt_local_certificate (fst x3) \<noteq> None" using x3(3) by (simp add: dt_inv_def)
        let ?x4 = "if ok then x3 else set_dtls_state K_failed x3"
        have s3: "event_step L x k x3 d" using event_step_trans [OF s2 x3(2)] .
        have "event_step L x k (set_dtls_state K_failed x3) d" using event_step_trans [OF s3 event_step_state(1) [OF h3]] .
        then have s4: "event_step L x k ?x4 d" using s3 by simp
        have i4: "dt_inv L (fst ?x4)" using x3(3) dt_inv_set_state [OF h3 act3] by simp
        have "maybe_start_dtls L w x = Some ((fst ?x4)\<lparr>dt_cached_client_hello := []\<rparr>, snd ?x4)"
          using start True x3(1) by (simp add: Let_def)
        moreover have "dt_inv L ((fst ?x4)\<lparr>dt_cached_client_hello := []\<rparr>)"
          using i4 by (auto simp: dt_inv_def dt_holds_def digest_of_def split: option.splits)
        moreover have "keeps_dt L x ((fst ?x4)\<lparr>dt_cached_client_hello := []\<rparr>, snd ?x4)"
          using calculation(2) s4 by (simp add: keeps_dt_def event_step_def)
        ultimately show ?thesis by (simp del: split_paired_Ex)
      qed
    qed
  qed
qed

lemma new_adapter_ok: "adapter_ok L (new_adapter True cert)" "sa_digest_value (new_adapter True cert) = []"
  "sa_digest_alg (new_adapter True cert) = []" "sa_state (new_adapter True cert) = SSL_NONE"
  by (simp_all add: new_adapter_def SetServerRole_def SetMode_def SetIdentity_def SSLStreamAdapter_def adapter_ok_def adapter_base_def)

lemma SetDtlsSrtpCryptoSuites_ok:
  "adapter_ok L a \<Longrightarrow> adapter_ok L (snd (SetDtlsSrtpCryptoSuites cs a))" "same_digest a (snd (SetDtlsSrtpCryptoSuites cs a))"
  "sa_state (snd (SetDtlsSrtpCryptoSuites cs a)) = sa_state a"
  by (auto simp: SetDtlsSrtpCryptoSuites_def same_digest_def adapter_ok_def adapter_base_def peer_matches_def
      HasPeerCertificateDigest_def split: option.split)

lemma dt_inv_put:
  assumes "dt_dtls (fst x) = Some (k, a)" "dt_downward (fst x) = Some k" "adapter_ok L b" "digest_of b (fst x)"
    and "dt_active (fst x) \<longrightarrow> dt_local_certificate (fst x) \<noteq> None" "dt_state (fst x) \<noteq> K_connecting" "dt_state (fst x) \<noteq> K_connected"
  shows "dt_inv L (fst (put_adapter k b x))"
proof -
  have "adapter_ok L (flushed b)" using assms(3) by simp
  moreover have "digest_of (flushed b) (fst (put_adapter k b x))"
    using assms(4) by (simp add: digest_of_def put_adapter_def flushed_def)
  ultimately show ?thesis using assms by (auto simp: dt_inv_def dt_holds_def put_adapter_def flushed_def)
qed

lemma setup_dtls_ok:
  fixes x :: "'s dtls_sys"
  assumes lib: "openssl_ok L" and cert: "dt_local_certificate (fst x) \<noteq> None"
    and st: "dt_state (fst x) \<noteq> K_connecting" "dt_state (fst x) \<noteq> K_connected"
  shows "\<exists>ok y. setup_dtls L True w x = Some (ok, y) \<and> keeps_dt L x y"
proof -
  let ?x = "install_adapter L True x"
  define k where "k = dt_next_stream (fst (reset_dtls L x))"
  define a :: "'s ssl_adapter" where "a = new_adapter True (dt_local_certificate (fst x))"
  have fx: "dt_dtls (fst ?x) = Some (k, a)" "dt_downward (fst ?x) = Some k" "dt_state (fst ?x) = dt_state (fst x)"
    "dt_local_certificate (fst ?x) = dt_local_certificate (fst x)" "snd ?x = snd x" "dt_fp_value (fst ?x) = dt_fp_value (fst x)"
    "dt_fp_alg (fst ?x) = dt_fp_alg (fst x)" "dt_srtp_ciphers (fst ?x) = dt_srtp_ciphers (fst x)"
    by (auto simp: install_adapter_def reset_dtls_def k_def a_def Let_def split: option.split)
  have a: "adapter_ok L a" "\<not> HasPeerCertificateDigest a" "sa_digest_value a = []"
    by (simp_all add: a_def new_adapter_ok HasPeerCertificateDigest_def)
  obtain ok err b where b: "SetPeerCertificateDigest L (dt_fp_alg (fst ?x)) (dt_fp_value (fst ?x)) a = Some (ok, err, b)" "adapter_ok L b"
    "same_digest a b \<or> sa_digest_alg b = dt_fp_alg (fst ?x) \<and> sa_digest_value b = dt_fp_value (fst ?x)"
    using SetPeerCertificateDigest_ok [OF a(1,2)] by blast
  define ok1 b1 where "ok1 = (if dt_fp_value (fst ?x) \<noteq> [] then ok else True)" and "b1 = (if dt_fp_value (fst ?x) \<noteq> [] then b else a)"
  have b1: "adapter_ok L b1" "digest_of b1 (fst ?x)"
    using a b by (auto simp: b1_def digest_of_def same_digest_def)
  define c ok2 where "c = (if dt_srtp_ciphers (fst ?x) \<noteq> [] then snd (SetDtlsSrtpCryptoSuites (dt_srtp_ciphers (fst ?x)) b1) else b1)"
    and "ok2 = (if dt_srtp_ciphers (fst ?x) \<noteq> [] then fst (SetDtlsSrtpCryptoSuites (dt_srtp_ciphers (fst ?x)) b1) else True)"
  have c: "adapter_ok L c" "digest_of c (fst ?x)"
    using b1 SetDtlsSrtpCryptoSuites_ok(1) [of L b1] SetDtlsSrtpCryptoSuites_ok(2) [of b1 "dt_srtp_ciphers (fst ?x)"]
    by (auto simp: c_def digest_of_def same_digest_def)
  have run: "setup_dtls L True w x = (if \<not> ok1 then Some (False, put_adapter k b1 ?x)
     else if \<not> ok2 then Some (False, put_adapter k c ?x)
     else map_option (\<lambda>x2. (True, x2)) (maybe_start_dtls L w (put_adapter k c ?x)))"
    using cert b(1) fx(1) by (auto simp: setup_dtls_def ok1_def b1_def ok2_def c_def Let_def split: prod.splits)
  have ib: "dt_inv L (fst (put_adapter k b1 ?x))" "dt_inv L (fst (put_adapter k c ?x))"
    using dt_inv_put [OF fx(1,2) b1] dt_inv_put [OF fx(1,2) c] cert fx(3,4) st by auto
  have keep: "keeps_dt L x (put_adapter k b1 ?x)" "keeps_dt L x (put_adapter k c ?x)" using ib fx(5) by (simp_all add: keeps_dt_def)
  have "dt_state (fst (put_adapter k c ?x)) \<noteq> K_connected" using fx(3) st by simp
  from maybe_start_dtls_ok [OF lib ib(2) this, of w] obtain y where
    "maybe_start_dtls L w (put_adapter k c ?x) = Some y" "keeps_dt L (put_adapter k c ?x) y" by blast
  then show ?thesis using run keep keeps_dt_trans [OF keep(2)] by (cases ok1; cases ok2) (auto simp del: split_paired_Ex split_paired_All)
qed

subsection \<open>All inputs\<close>

datatype dtls_input =
    In_writable bool
  | In_receiving bool
  | In_packet bytes int
  | In_certificate "nat option"
  | In_fingerprint string bytes
  | In_send bytes int

definition dtls_step ::
  "'s openssl \<Rightarrow> bool \<Rightarrow> dtls_input \<Rightarrow> bool \<times> 's dtls_sys \<Rightarrow> (bool \<times> 's dtls_sys) option" where
  "dtls_step L owner i s = (let (w, x) = s in case i of
       In_writable w' \<Rightarrow> map_option (\<lambda>y. (w', y)) (on_writable_state L w' x)
     | In_receiving r \<Rightarrow> Some (w, on_receiving_state r x)
     | In_packet buf ts \<Rightarrow> map_option (\<lambda>y. (w, y)) (dt_on_read_packet L owner w buf ts x)
     | In_certificate c \<Rightarrow> Some (w, snd (set_local_certificate c x))
     | In_fingerprint alg d \<Rightarrow> map_option (\<lambda>(_, y). (w, y)) (set_remote_fingerprint L owner w alg d x)
     | In_send d ret \<Rightarrow> Some (w, (snd (dt_send_packet ret d (fst x)), snd x)))"

inductive dtls_reach :: "'s openssl \<Rightarrow> bool \<times> 's dtls_sys \<Rightarrow> bool" for L where
  dtls_start: "dtls_reach L (w, DtlsTransport nm, [])"
| dtls_input: "dtls_reach L s \<Longrightarrow> dtls_step L True i s = Some s' \<Longrightarrow> dtls_reach L s'"

lemma dt_inv_frame:
  assumes "dt_inv L t" "dt_state u = dt_state t" "dt_dtls u = dt_dtls t" "dt_downward u = dt_downward t" "dt_fp_alg u = dt_fp_alg t"
    "dt_fp_value u = dt_fp_value t" "dt_active u \<longrightarrow> dt_local_certificate u \<noteq> None"
  shows "dt_inv L u"
  using assms by (auto simp: dt_inv_def dt_holds_def digest_of_def split: option.split)

lemma inv_connected: "dt_inv L t \<Longrightarrow> has_session L t \<or> dt_state t \<noteq> K_connected"
  by (auto simp: dt_inv_def dt_holds_def has_session_def split: option.splits)

lemma keeps_flags:
  assumes "dt_inv L (fst x)"
  shows "keeps_dt L x (set_writable_state w x)" "keeps_dt L x (set_receiving_state w x)" "keeps_dt L x x"
proof -
  have a: "dt_active (fst x) \<longrightarrow> dt_local_certificate (fst x) \<noteq> None" using assms by (simp add: dt_inv_def)
  have "dt_inv L (fst (set_writable_state w x))" "dt_inv L (fst (set_receiving_state w x))"
    using a by (rule_tac [!] dt_inv_frame [OF assms]) (auto simp: set_writable_state_def set_receiving_state_def dt_emit_def)
  then show "keeps_dt L x (set_writable_state w x)" "keeps_dt L x (set_receiving_state w x)" "keeps_dt L x x"
    using assms inv_connected [OF assms] by (simp_all add: keeps_dt_def)
qed

lemma keeps_failed:
  assumes "dt_inv L (fst x)"
  shows "keeps_dt L x (set_dtls_state K_failed x)"
proof -
  have "dt_inv L (fst (set_dtls_state K_failed x))"
    using assms by (auto simp: dt_inv_def dt_holds_def digest_of_def set_dtls_state_def dt_emit_def split: option.splits)
  then show ?thesis by (simp add: keeps_dt_def)
qed

lemma verified_peer:
  assumes "dt_inv L t" "dt_state t = K_connected" "is_rtp_like buf" "\<not> is_dtls_packet buf"
  shows "from_verified_peer L buf t"
  using assms by (auto simp: dt_inv_def from_verified_peer_def dt_holds_def adapter_ok_def peer_matches_def digest_of_def
      HasPeerCertificateDigest_def split: option.splits)

lemma on_read_packet_ok:
  assumes lib: "openssl_ok L" and i: "dt_inv L (fst x)"
  shows "\<exists>y. dt_on_read_packet L True w buf ts x = Some y \<and> keeps_dt L x y"
proof -
  have keep: "keeps_dt L x x" using keeps_flags [OF i] by simp
  have dtls: "\<exists>y. map_option snd (handle_dtls_packet L buf x) = Some y \<and> keeps_dt L x y"
    if "dt_state (fst x) = K_connecting \<or> dt_state (fst x) = K_connected"
  proof -
    from i that obtain k a where h: "dt_holds L (fst x) k a" "sa_state a \<noteq> SSL_NONE" by (auto simp: dt_inv_def split: option.splits)
    from handle_dtls_packet_ok [OF lib h i, of buf] obtain ok y b where
      y: "handle_dtls_packet L buf x = Some (ok, y)" "event_step L x k y b" "dt_inv L (fst y)" by blast
    then have "keeps_dt L x y" by (simp add: keeps_dt_def event_step_def)
    then show ?thesis using y(1) by (simp del: split_paired_Ex)
  qed
  show ?thesis
  proof (cases "dt_state (fst x)")
    case K_new
    let ?x = "((fst x)\<lparr>dt_cached_client_hello := buf\<rparr>, snd x)"
    have i': "dt_inv L (fst ?x)" using i by (intro dt_inv_frame [OF i]) (auto simp: dt_inv_def)
    have k: "keeps_dt L x ?x" using i' by (simp add: keeps_dt_def)
    show ?thesis
    proof (cases "is_dtls_client_hello_packet buf \<and> dt_dtls (fst x) = None \<and> dt_local_certificate (fst x) \<noteq> None")
      case True
      from setup_dtls_ok [OF lib, of ?x w] True K_new obtain ok y where
        y: "setup_dtls L True w ?x = Some (ok, y)" "keeps_dt L ?x y" by (auto simp del: split_paired_Ex split_paired_All)
      have "dt_on_read_packet L True w buf ts x = Some y" using K_new True y(1) by (simp add: dt_on_read_packet_def)
      then show ?thesis using keeps_dt_trans [OF k y(2)] by (simp del: split_paired_Ex)
    next
      case False
      then show ?thesis using K_new k keep by (auto simp: dt_on_read_packet_def simp del: split_paired_Ex)
    qed
  next
    case K_connecting
    then show ?thesis using dtls keep by (auto simp: dt_on_read_packet_def simp del: split_paired_Ex)
  next
    case K_connected
    have "keeps_dt L x (dt_emit (Dtls_read_packet buf ts) x)" if "is_rtp_like buf" "\<not> is_dtls_packet buf"
      using i verified_peer [OF i K_connected that] inv_connected [OF i] by (auto simp: keeps_dt_def dt_emit_def sig_ok_def)
    then show ?thesis using K_connected dtls keep by (auto simp: dt_on_read_packet_def simp del: split_paired_Ex)
  qed (use keep in \<open>auto simp: dt_on_read_packet_def simp del: split_paired_Ex\<close>)
qed

lemma set_remote_fingerprint_ok:
  assumes lib: "openssl_ok L" and i: "dt_inv L (fst x)"
  shows "\<exists>ok y. set_remote_fingerprint L True w alg d x = Some (ok, y) \<and> keeps_dt L x y"
proof -
  have act: "dt_active (fst x) \<longrightarrow> dt_local_certificate (fst x) \<noteq> None" using i by (simp add: dt_inv_def)
  have keep: "keeps_dt L x x" using keeps_flags [OF i] by simp
  let ?x = "((fst x)\<lparr>dt_fp_value := d, dt_fp_alg := alg\<rparr>, snd x)"
  have restart: "\<exists>ok y. (do { (ok, x2) \<leftarrow> setup_dtls L True w z; if ok then Some (True, x2) else Some (False, set_dtls_state K_failed x2) }) = Some (ok, y)
      \<and> keeps_dt L x y" if z: "log_ok L (snd x) \<longrightarrow> log_ok L (snd z)" "dt_local_certificate (fst z) \<noteq> None" "dt_state (fst z) \<noteq> K_connecting"
      "dt_state (fst z) \<noteq> K_connected" for z
  proof -
    from setup_dtls_ok [OF lib z(2-4), of w] obtain ok y where
      y: "setup_dtls L True w z = Some (ok, y)" "keeps_dt L z y" by blast
    have "keeps_dt L z (set_dtls_state K_failed y)" using y(2) keeps_failed [of L y] keeps_dt_trans by (auto simp: keeps_dt_def)
    then show ?thesis using y z(1) by (cases ok) (auto simp: keeps_dt_def simp del: split_paired_Ex)
  qed
  show ?thesis
  proof (cases "dt_active (fst x) \<and> dt_fp_value (fst x) \<noteq> d \<and> alg \<noteq> []")
    case False
    have "dt_inv L ((fst x)\<lparr>dt_active := False\<rparr>)" by (rule dt_inv_frame [OF i]) auto
    then have "keeps_dt L x ((fst x)\<lparr>dt_active := False\<rparr>, snd x)" by (simp add: keeps_dt_def)
    then show ?thesis using False keep by (auto simp: set_remote_fingerprint_def Let_def simp del: split_paired_Ex)
  next
    case True
    then have cert: "dt_local_certificate (fst x) \<noteq> None" using act by simp
    show ?thesis
    proof (cases "dt_dtls (fst x)")
      case None
      then have "dt_state (fst x) \<noteq> K_connecting" "dt_state (fst x) \<noteq> K_connected" using i by (auto simp: dt_inv_def)
      then show ?thesis using restart [of ?x] True None cert by (simp add: set_remote_fingerprint_def Let_def del: split_paired_Ex)
    next
      case (Some p)
      obtain k a where p: "p = (k, a)" by (cases p)
      have h: "dt_holds L (fst x) k a" using i Some p by (simp add: dt_inv_def)
      show ?thesis
      proof (cases "dt_fp_value (fst x) = []")
        case True': False
        let ?z = "set_writable_state False (set_dtls_state K_new (reset_dtls L ?x))"
        have "log_ok L (snd x) \<longrightarrow> log_ok L (snd ?z)" by (simp add: reset_dtls_def split: option.split)
        moreover have "dt_local_certificate (fst ?z) = dt_local_certificate (fst x)"
          by (auto simp: set_writable_state_def set_dtls_state_def reset_dtls_def dt_emit_def split: option.split)
        ultimately show ?thesis using restart [of ?z] True True' Some p cert
          by (simp add: set_remote_fingerprint_def Let_def del: split_paired_Ex)
      next
        case empty: True
        have a: "adapter_ok L a" "\<not> HasPeerCertificateDigest a" "sa_digest_value a = []"
          using h empty by (auto simp: dt_holds_def digest_of_def HasPeerCertificateDigest_def)
        have nc: "dt_state (fst x) \<noteq> K_connected"
          using i Some p a by (auto simp: dt_inv_def adapter_ok_def peer_matches_def)
        obtain ok err b where b: "SetPeerCertificateDigest L alg d a = Some (ok, err, b)" "adapter_ok L b"
          "sa_state b = sa_state a \<or> sa_state b = SSL_ERROR \<and> \<not> ok"
          "same_digest a b \<and> sa_verified b = sa_verified a \<or> sa_digest_alg b = alg \<and> sa_digest_value b = d"
          using SetPeerCertificateDigest_ok [OF a(1,2), of alg d] by blast
        let ?y = "put_adapter k b ?x"
        have dg: "digest_of b (fst ?x)" using b(4) a(3) by (auto simp: digest_of_def same_digest_def)
        then have dg2: "digest_of (flushed b) (fst ?y)" by (simp add: digest_of_def put_adapter_def)
        have iy: "dt_inv L (fst ?y)"
          using i Some p h b(2,3) dg2 nc by (auto simp: dt_inv_def dt_holds_def put_adapter_def flushed_def [symmetric])
        have ky: "keeps_dt L x ?y" using iy by (simp add: keeps_dt_def)
        have "keeps_dt L x (set_dtls_state K_failed ?y)" using keeps_dt_trans [OF ky keeps_failed [OF iy]] .
        then show ?thesis using ky b(1) True Some p empty
          by (cases ok) (auto simp: set_remote_fingerprint_def Let_def simp del: split_paired_Ex)
      qed
    qed
  qed
qed

lemma dtls_step_ok:
  assumes lib: "openssl_ok L" and i: "dt_inv L (fst (snd s))"
  shows "\<exists>s'. dtls_step L True i0 s = Some s' \<and> keeps_dt L (snd s) (snd s')"
proof -
  obtain w x where s: "s = (w, x)" by (cases s)
  have ix: "dt_inv L (fst x)" using i s by simp
  have act: "dt_active (fst x) \<longrightarrow> dt_local_certificate (fst x) \<noteq> None" using ix by (simp add: dt_inv_def)
  show ?thesis
  proof (cases i0)
    case (In_writable w')
    have "\<exists>y. on_writable_state L w' x = Some y \<and> keeps_dt L x y"
      using maybe_start_dtls_ok [OF lib ix] keeps_flags [OF ix]
      by (auto simp: on_writable_state_def simp del: split_paired_Ex split: dtls_state.splits)
    then obtain y where "on_writable_state L w' x = Some y" "keeps_dt L x y" by blast
    then show ?thesis using In_writable s by (simp add: dtls_step_def del: split_paired_Ex)
  next
    case (In_receiving r)
    then show ?thesis using s keeps_flags [OF ix] by (simp add: dtls_step_def on_receiving_state_def del: split_paired_Ex)
  next
    case (In_packet buf ts)
    from on_read_packet_ok [OF lib ix, of w buf ts] obtain y where "dt_on_read_packet L True w buf ts x = Some y" "keeps_dt L x y" by blast
    then show ?thesis using In_packet s by (simp add: dtls_step_def del: split_paired_Ex)
  next
    case (In_certificate c)
    have "keeps_dt L x (snd (set_local_certificate c x))"
      using ix act by (auto simp: set_local_certificate_def keeps_dt_def intro: dt_inv_frame [OF ix])
    then show ?thesis using In_certificate s by (simp add: dtls_step_def del: split_paired_Ex)
  next
    case (In_fingerprint alg d)
    from set_remote_fingerprint_ok [OF lib ix, of w alg d] obtain ok y where
      "set_remote_fingerprint L True w alg d x = Some (ok, y)" "keeps_dt L x y" by blast
    then show ?thesis using In_fingerprint s by (simp add: dtls_step_def del: split_paired_Ex)
  next
    case (In_send d ret)
    have "dt_inv L (snd (dt_send_packet ret d (fst x)))" using act by (intro dt_inv_frame [OF ix]) (simp_all add: dt_send_packet_def)
    then show ?thesis using In_send s by (simp add: dtls_step_def keeps_dt_def del: split_paired_Ex)
  qed
qed

lemma dtls_reach_inv:
  assumes "openssl_ok L" "dtls_reach L s"
  shows "dt_inv L (fst (snd s)) \<and> log_ok L (snd (snd s))"
  using assms(2)
proof induction
  case (dtls_start w nm)
  then show ?case by (simp add: dt_inv_def DtlsTransport_def log_ok_def)
next
  case (dtls_input s i s')
  from dtls_step_ok [OF assms(1), of s i] dtls_input show ?case by (auto simp: keeps_dt_def)
qed

fun dtls_run :: "'s openssl \<Rightarrow> bool \<Rightarrow> dtls_input list \<Rightarrow> bool \<times> 's dtls_sys \<Rightarrow> (bool \<times> 's dtls_sys) option" where
  "dtls_run L owner [] s = Some s"
| "dtls_run L owner (i # is) s = do { s1 \<leftarrow> dtls_step L owner i s; dtls_run L owner is s1 }"

lemma dtls_run_reach: "dtls_reach L s \<Longrightarrow> dtls_run L True is s = Some s' \<Longrightarrow> dtls_reach L s'"
proof (induction "is" arbitrary: s)
  case (Cons i "is")
  then obtain s1 where "dtls_step L True i s = Some s1" "dtls_run L True is s1 = Some s'" by (auto simp: bind_eq_Some_conv)
  then show ?case using Cons.IH [OF dtls_input [OF Cons.prems(1)]] by blast
qed simp

text \<open>A library for evaluation: its first call with a packet answers and arms the retransmission timer,
  the second presents a certificate.\<close>

definition demo_call :: "int \<Rightarrow> bytes option \<Rightarrow> nat \<Rightarrow> bytes list \<Rightarrow> nat \<Rightarrow> nat ssl_call" where
  "demo_call e c k ws s = \<lparr>so_error = e, so_code = 0, so_cert = c, so_taken = k, so_written = ws, so_ssl = s\<rparr>"

definition demo_ssl :: "nat openssl" where
  "demo_ssl = \<lparr>os_new = (\<lambda>_ _ _. Some 0),
     os_handshake = (\<lambda>role cb ps s. if ps = [] then demo_call 2 None 0 [] s
       else if s = 0 then demo_call 2 None (length ps) [[22]] 1
       else if cb [7] then demo_call 0 (Some [7]) (length ps) [] 2 else demo_call 1 (Some [7]) (length ps) [] 2),
     os_read = (\<lambda>n cb ps s. demo_call 2 None (length ps) [] s),
     os_pending = (\<lambda>_. 0), os_get_timeout = (\<lambda>s. if s = 0 then None else Some 50), os_handle_timeout = (\<lambda>s. ([], s)),
     os_shutdown = (\<lambda>_. []), os_srtp_profile = (\<lambda>_. Some 1), os_export = (\<lambda>_ n _. Some (map of_nat [0..<n])),
     os_cert_digest = (\<lambda>_ _. Some (replicate 32 1))\<rparr>"

lemma demo_ssl_ok: "openssl_ok demo_ssl"
  by (auto simp: openssl_ok_def demo_ssl_def demo_call_def refused_def continues_def SSL_ERROR_NONE_def
      SSL_ERROR_WANT_READ_def SSL_ERROR_WANT_WRITE_def)

definition demo_hello :: bytes where
  "demo_hello = [22, 254, 253, 0, 0, 0, 0, 0, 0, 0, 0, 0, 5, 1, 0, 0, 0, 0]"

definition demo_rtp :: bytes where
  "demo_rtp = [128, 111, 0, 1, 0, 0, 0, 1, 0, 0, 0, 9, 42]"

definition demo_inputs :: "dtls_input list" where
  "demo_inputs = [In_certificate (Some 3), In_fingerprint ''sha-256'' (replicate 32 1), In_writable True,
     In_packet demo_hello 1, In_packet demo_hello 2]"

definition demo_dtls :: "bool \<times> nat dtls_sys" where
  "demo_dtls = the (dtls_run demo_ssl True demo_inputs (False, DtlsTransport ''audio'', []))"

text \<open>A whole record: the header gives the length of what follows.\<close>

definition is_record :: "bytes \<Rightarrow> bool" where
  "is_record r \<longleftrightarrow> k_dtls_record_header_len \<le> length r \<and>
     length r = k_dtls_record_header_len + 256 * unat (r ! 11) + unat (r ! 12)"

lemma record_len: "unat (push_bit 8 (ucast a :: u32) OR ucast b) = 256 * unat (a :: byte) + unat (b :: byte)"
proof -
  have lt: "unat a < 256" "unat b < 256" using unsigned_less [of a, where ?'a = nat] unsigned_less [of b, where ?'a = nat] by simp_all
  have "(push_bit 8 (ucast a) OR ucast b :: u32) = push_bit 8 (ucast a) + ucast b"
    by (rule disjunctive_add [symmetric]) (auto simp: bit_simps dest: bit_imp_le_length)
  moreover have "unat (push_bit 8 (ucast a) :: u32) = 256 * unat a"
    using lt(1) by (simp add: push_bit_eq_mult unat_word_ariths unsigned_ucast_eq take_bit_nat_eq_self)
  moreover have "unat (ucast b :: u32) = unat b" using lt(2) by (simp add: unsigned_ucast_eq take_bit_nat_eq_self)
  ultimately show ?thesis using lt by (simp add: unat_word_ariths)
qed

lemma records_whole_append: "is_record r \<Longrightarrow> records_whole (r @ d) = records_whole d"
  by (subst records_whole.simps)
    (auto simp: is_record_def record_len nth_append k_dtls_record_header_len_def Let_def)

lemma records_whole_concat: "(\<forall>r \<in> set rs. is_record r) \<Longrightarrow> records_whole (concat rs)"
  by (induction rs) (auto simp: records_whole_append records_whole.simps [of "[]"])

lemma records_whole_split: "records_whole d \<Longrightarrow> \<exists>rs. d = concat rs \<and> (\<forall>r \<in> set rs. is_record r)"
proof (induction d rule: records_whole.induct)
  case (1 d)
  show ?case
  proof (cases "d = []")
    case True
    then show ?thesis by (intro exI [of _ "[]"]) simp
  next
    case False
    let ?n = "unat (push_bit 8 (ucast (d ! 11) :: u32) OR ucast (d ! 12))"
    from 1(2) False have l: "k_dtls_record_header_len \<le> length d" "?n + k_dtls_record_header_len \<le> length d"
      and w: "records_whole (drop (k_dtls_record_header_len + ?n) d)"
      by (subst (asm) records_whole.simps, simp add: Let_def split: if_splits)+
    from 1(1) [OF False _ refl _ w] l obtain rs where rs: "drop (k_dtls_record_header_len + ?n) d = concat rs" "\<forall>r \<in> set rs. is_record r"
      by auto
    let ?r = "take (k_dtls_record_header_len + ?n) d"
    have "is_record ?r" using l by (simp add: is_record_def record_len k_dtls_record_header_len_def)
    moreover have "d = concat (?r # rs)" using rs(1) by (simp flip: rs(1))
    ultimately show ?thesis using rs(2) by (intro exI [of _ "?r # rs"]) auto
  qed
qed

text \<open>C20: The loop that checks a DTLS packet accepts exactly the packets that are a
  sequence of whole DTLS records.\<close>
theorem records_walk:
  "records_whole d \<longleftrightarrow> (\<exists>rs. d = concat rs \<and> (\<forall>r \<in> set rs. is_record r))"
  using records_whole_concat records_whole_split by blast

lemma records_walk_witness: "records_whole (concat [replicate 12 0 @ [1, 7], replicate 11 0 @ [0, 2, 5, 6]])"
proof -
  have "\<forall>r \<in> set [replicate 12 0 @ [1, 7], replicate 11 0 @ [0, 2, 5, 6]]. is_record r" by code_simp
  then show ?thesis using records_walk by blast
qed

theorem dtls_safe:
  assumes "openssl_ok L" "dtls_reach L s"
  shows "\<exists>s'. dtls_step L True i s = Some s'"
  using dtls_step_ok [OF assms(1)] dtls_reach_inv [OF assms] by blast


lemma demo_dtls_run: "dtls_run demo_ssl True demo_inputs (False, DtlsTransport ''audio'', []) = Some demo_dtls"
proof -
  have "dtls_run demo_ssl True demo_inputs (False, DtlsTransport ''audio'', []) \<noteq> None" by code_simp
  then show ?thesis by (auto simp: demo_dtls_def)
qed

lemma demo_dtls_reach: "dtls_reach demo_ssl demo_dtls"
  by (rule dtls_run_reach [OF dtls_start demo_dtls_run])

theorem dtls_safe_witness: "\<exists>s'. dtls_step demo_ssl True (In_packet demo_rtp 3) demo_dtls = Some s'"
  by (rule dtls_safe [OF demo_ssl_ok demo_dtls_reach])

definition demo_media :: "bool \<times> nat dtls_sys" where
  "demo_media = the (dtls_step demo_ssl True (In_packet demo_rtp 3) demo_dtls)"


text \<open>A handshake on a thread that is not one of \<open>rtc\<close> and not the first to build an adapter.\<close>

text \<open>C18: On a thread other than the first that builds an adapter, the first handshake
  flight that starts a retransmission timer dereferences a null owner.\<close>
theorem second_worker_null:
  assumes "tm_main m = Some other" "self \<noteq> other" "self \<notin> set (tm_threads m)"
    and new: "os_new L SSL_MODE_DTLS (Some cert) ''SRTP_AES128_CM_SHA1_80'' = Some s0"
    and idle: "\<And>cb. os_handshake L SSL_SERVER cb [] s0 = \<lparr>so_error = SSL_ERROR_WANT_READ, so_code = 0, so_cert = None, so_taken = 0, so_written = [], so_ssl = s1\<rparr>"
      "os_get_timeout L s1 = None"
    and flight: "\<And>cb. so_error (os_handshake L SSL_SERVER cb [hello] s1) = SSL_ERROR_WANT_READ"
      "\<And>cb. os_get_timeout L (so_ssl (os_handshake L SSL_SERVER cb [hello] s1)) \<noteq> None"
    and "is_dtls_packet hello" "records_whole hello" "GetDigestSize alg = Some (length d)"
  shows "dtls_run L (fst (Thread_Current self m))
      [In_certificate (Some cert), In_fingerprint alg d, In_writable True, In_packet hello ts] (False, DtlsTransport nm, []) = None"
proof -
  have owner: "fst (Thread_Current self m) = False"
    using assms(1-3) by (simp add: Thread_Current_def ThreadManager_Instance_def)
  have alg: "alg \<noteq> []" "d \<noteq> []" using assms(11) by (auto simp: GetDigestSize_def split: if_splits)
  define x0 :: "'a dtls_sys" where "x0 = ((DtlsTransport nm)\<lparr>dt_local_certificate := Some cert, dt_active := True\<rparr>, [])"
  have 1: "dtls_step L False (In_certificate (Some cert)) (False, DtlsTransport nm, []) = Some (False, x0)"
    by (simp add: dtls_step_def set_local_certificate_def DtlsTransport_def x0_def)
  define a0 :: "'a ssl_adapter" where "a0 = (new_adapter False (Some cert))
      \<lparr>sa_digest_value := d, sa_digest_alg := alg, sa_ciphers := ''SRTP_AES128_CM_SHA1_80''\<rparr>"
  define x1 where "x1 = ((fst x0)\<lparr>dt_fp_value := d, dt_fp_alg := alg, dt_dtls := Some (0, a0), dt_downward := Some 0, dt_next_stream := 1\<rparr>,
      [] :: (dtls_signal \<times> 'a dtls_transport) list)"
  have names: "cipher_names [kSrtpAes128CmSha1_80] [] = Some ''SRTP_AES128_CM_SHA1_80''"
    by (simp add: kSrtpCipherMap_def)
  have 2: "dtls_step L False (In_fingerprint alg d) (False, x0) = Some (False, x1)"
    using alg assms(11) names
    by (simp add: dtls_step_def set_remote_fingerprint_def x0_def DtlsTransport_def setup_dtls_def install_adapter_def reset_dtls_def Let_def
        SetPeerCertificateDigest_def new_adapter_def SetServerRole_def SetMode_def SetIdentity_def SSLStreamAdapter_def
        GetSupportedDtlsSrtpCryptoSuites_def CryptoOptions_def SetDtlsSrtpCryptoSuites_def maybe_start_dtls_def put_adapter_def x1_def a0_def
        StreamInterfaceChannel_def del: cipher_names.simps)
  let ?a = "a0\<lparr>sa_state := SSL_CONNECTING, sa_ssl := Some s1\<rparr>"
  define x2 where "x2 = set_dtls_state K_connecting ((fst x1)\<lparr>dt_dtls := Some (0, ?a)\<rparr>, [])"
  have a0: "sa_state a0 = SSL_NONE" "sa_role a0 = SSL_SERVER" "sa_mode a0 = SSL_MODE_DTLS" "sa_identity a0 = Some cert" "sa_owner a0 = False"
    "sa_ciphers a0 = ''SRTP_AES128_CM_SHA1_80''" "sa_stream a0 = StreamInterfaceChannel" "sa_timeout a0 = None"
    by (simp_all add: a0_def new_adapter_def SetServerRole_def SetMode_def SetIdentity_def SSLStreamAdapter_def)
  have st: "st_state StreamInterfaceChannel = SS_OPEN" "stream_waiting StreamInterfaceChannel = []" "st_out StreamInterfaceChannel = []"
    "StreamInterfaceChannel\<lparr>st_out := []\<rparr> = StreamInterfaceChannel"
    by (simp_all add: StreamInterfaceChannel_def stream_waiting_def BufferQueue_def)
  have "ContinueSSL L (a0\<lparr>sa_state := SSL_CONNECTING, sa_ssl := Some s0\<rparr>) = Some (0, [], ?a)"
    using a0 st idle by (simp add: ContinueSSL_def absorb_def Let_def stream_take_def stream_write_all_def SSL_ERROR_WANT_READ_def SSL_ERROR_NONE_def)
  then have start: "StartSSL L a0 = Some (0, [], ?a)" using a0 st new by (simp add: StartSSL_def BeginSSL_def)
  have 3: "dtls_step L False (In_writable True) (False, x1) = Some (True, x2)"
    using start a0 st
    by (simp add: dtls_step_def on_writable_state_def maybe_start_dtls_def x1_def x0_def DtlsTransport_def x2_def put_adapter_def
        set_dtls_state_def dt_emit_def Let_def)
  have 4: "dtls_step L False (In_packet hello ts) (True, x2) = None"
  proof -
    have x2: "dt_state (fst x2) = K_connecting" "dt_dtls (fst x2) = Some (0, ?a)" "dt_downward (fst x2) = Some 0"
      by (simp_all add: x2_def x1_def set_dtls_state_def dt_emit_def x0_def DtlsTransport_def)
    let ?b = "?a\<lparr>sa_stream := stream_enqueue hello StreamInterfaceChannel\<rparr>"
    have w: "stream_waiting (stream_enqueue hello StreamInterfaceChannel) = [hello]"
      by (simp add: stream_enqueue_def StreamInterfaceChannel_def WriteBack_def BufferQueue_def stream_waiting_def k_max_pending_packets_def Let_def)
    have "ContinueSSL L ?b = None"
      using a0 w flight by (auto simp: ContinueSSL_def Let_def SetTimeout_def SSL_ERROR_WANT_READ_def SSL_ERROR_NONE_def split: option.split)
    then have "sa_OnEvent L [SE_READ] 0 ?b = None" by (simp add: sa_OnEvent_def)
    then show ?thesis using x2 assms(9,10) a0(7)
      by (simp add: dtls_step_def dt_on_read_packet_def handle_dtls_packet_def on_received_packet_def)
  qed
  show ?thesis unfolding owner using 1 2 3 4 by simp
qed

theorem second_worker_null_witness:
  "dtls_run demo_ssl (fst (Thread_Current 8 \<lparr>tm_main = Some 7, tm_threads = [7]\<rparr>))
      [In_certificate (Some 3), In_fingerprint ''sha-256'' (replicate 32 1), In_writable True, In_packet demo_hello 1]
      (False, DtlsTransport ''audio'', []) = None"
proof (rule second_worker_null [where other = 7 and ?s0.0 = 0 and ?s1.0 = 0])
  show "is_dtls_packet demo_hello" "records_whole demo_hello" by code_simp+
qed (simp_all add: demo_ssl_def demo_call_def SSL_ERROR_WANT_READ_def GetDigestSize_def demo_hello_def)

end
