(* ===== verification/Dtls_Signals.thy ===== *)
theory Dtls_Signals
  imports Dtls_Transport
begin

text \<open>
  The signals of the DTLS transport tell its state: at each signal, and after any operation, the
  last state that was signalled is the state it is in.
\<close>

subsection \<open>The state the signals tell\<close>

definition last_state :: "dtls_state \<Rightarrow> (dtls_signal \<times> 's dtls_transport) list \<Rightarrow> dtls_state" where
  "last_state s l = fold (\<lambda>e st. case fst e of Dtls_state s' \<Rightarrow> s' | _ \<Rightarrow> st) l s"

fun signals_told :: "dtls_state \<Rightarrow> (dtls_signal \<times> 's dtls_transport) list \<Rightarrow> bool" where
  "signals_told s [] \<longleftrightarrow> True"
| "signals_told s (e # l) \<longleftrightarrow> dt_state (snd e) = last_state s [e] \<and> signals_told (last_state s [e]) l"

definition told :: "dtls_state \<Rightarrow> 's dtls_sys \<Rightarrow> bool" where
  "told s x \<longleftrightarrow> signals_told s (snd x) \<and> last_state s (snd x) = dt_state (fst x)"

lemma last_state_simps [simp]:
  "last_state s [] = s" "last_state s (l @ m) = last_state (last_state s l) m"
  "last_state s (e # m) = last_state (case fst e of Dtls_state s' \<Rightarrow> s' | _ \<Rightarrow> s) m"
  by (simp_all add: last_state_def)

lemma signals_told_append [simp]: "signals_told s (l @ m) \<longleftrightarrow> signals_told s l \<and> signals_told (last_state s l) m"
  by (induction l arbitrary: s) simp_all

lemma told_simps [simp]:
  "told s x \<Longrightarrow> told s (set_dtls_state st x)"
  "told s (set_writable_state w x) = told s x" "told s (set_receiving_state w x) = told s x"
  "told s (dt_emit Dtls_closed x) = told s x" "told s (dt_emit (Dtls_read_packet buf ts) x) = told s x"
  "told s (put_adapter k a x) = told s x" "told s (reset_dtls L x) = told s x" "told s (install_adapter L owner x) = told s x"
  by (auto simp: told_def set_dtls_state_def set_writable_state_def set_receiving_state_def dt_emit_def put_adapter_def
      reset_dtls_def install_adapter_def Let_def split: option.split)

lemma told_frame: "snd y = snd x \<Longrightarrow> dt_state (fst y) = dt_state (fst x) \<Longrightarrow> told s y = told s x"
  by (simp add: told_def)

lemma state_simps:
  "dt_state (fst (set_dtls_state s x)) = s" "dt_state (fst (set_writable_state w x)) = dt_state (fst x)"
  by (simp_all add: set_dtls_state_def set_writable_state_def dt_emit_def)

lemma told_read_loop:
  fixes x y :: "'s dtls_sys"
  assumes "read_loop L x = Some y" "told s x"
  shows "told s y"
proof -
  have "told s x \<longrightarrow> told s y"
  proof (rule read_loop.raw_induct [where P = "\<lambda>L x y. told s x \<longrightarrow> told s y" and xa = "(L, x)" and y = y, unfolded prod.case, OF _ assms(1)])
    fix f :: "'s openssl \<Rightarrow> 's dtls_sys \<Rightarrow> 's dtls_sys option" and L x y
    assume IH: "\<And>x b y. f x b = Some y \<Longrightarrow> told s b \<longrightarrow> told s y"
      and run: "dt_dtls (fst x) \<bind> (\<lambda>(k, a). sa_Read L k_max_dtls_packet_len a \<bind> (\<lambda>(ret, a1).
          let x1 = put_adapter k a1 x in
          case ret of SR_ERROR _ \<Rightarrow> Some (dt_emit Dtls_closed (set_dtls_state K_failed (set_writable_state False x1)))
          | SR_SUCCESS _ \<Rightarrow> f L x1 | SR_BLOCK \<Rightarrow> Some x1
          | SR_EOS \<Rightarrow> Some (dt_emit Dtls_closed (set_dtls_state K_closed (set_writable_state False x1))))) = Some y"
    from run obtain k a ret a1 where "dt_dtls (fst x) = Some (k, a)" "sa_Read L k_max_dtls_packet_len a = Some (ret, a1)"
      by (auto simp: bind_eq_Some_conv)
    then show "told s x \<longrightarrow> told s y"
      using run IH [of L "put_adapter k a1 x" y] by (cases ret) auto
  qed
  then show ?thesis using assms(2) by simp
qed

lemma told_on_dtls_event:
  assumes "on_dtls_event L e x = Some y" "told s x"
  shows "told s y"
proof -
  let ?x = "if SE_OPEN \<in> set (fst e) then set_dtls_state K_connected (set_writable_state True x) else x"
  from assms(1) obtain z where z: "(if SE_READ \<in> set (fst e) then read_loop L ?x else Some ?x) = Some z"
    "y = (if SE_CLOSE \<in> set (fst e) then set_dtls_state (if snd e = 0 then K_closed else K_failed) (set_writable_state False z) else z)"
    by (auto simp only: on_dtls_event_def bind_eq_Some_conv Let_def case_prod_unfold option.inject)
  have "told s ?x" using assms(2) by simp
  then have "told s z" using z(1) told_read_loop [of L ?x z s] by (cases "SE_READ \<in> set (fst e)") auto
  then show ?thesis using z(2) by simp
qed

lemma told_on_dtls_events: "on_dtls_events L es x = Some y \<Longrightarrow> told s x \<Longrightarrow> told s y"
  by (induction es arbitrary: x) (auto simp: bind_eq_Some_conv dest: told_on_dtls_event)

lemma told_handle: "handle_dtls_packet L d x = Some (ok, y) \<Longrightarrow> told s x \<Longrightarrow> told s y"
  by (auto simp: handle_dtls_packet_def on_received_packet_def bind_eq_Some_conv dest: told_on_dtls_events split: if_splits prod.splits)

lemma told_forget_hello: "told s x \<Longrightarrow> told s ((fst x)\<lparr>dt_cached_client_hello := []\<rparr>, snd x)"
  by (simp add: told_def)

lemma told_maybe_start:
  assumes "maybe_start_dtls L w x = Some y" "told s x"
  shows "told s y"
  using assms
  by (auto simp: maybe_start_dtls_def bind_eq_Some_conv Let_def case_prod_unfold simp del: split_paired_Ex split_paired_All
      intro!: told_forget_hello dest!: told_on_dtls_events [where s = s] told_handle [where s = s] split: option.splits if_splits)

lemma told_setup_dtls: "setup_dtls L owner w x = Some (ok, y) \<Longrightarrow> told s x \<Longrightarrow> told s y"
  by (auto simp: setup_dtls_def bind_eq_Some_conv Let_def case_prod_unfold dest: told_maybe_start [where s = s] split: if_splits)

lemma told_set_remote_fingerprint:
  assumes "set_remote_fingerprint L owner w alg d x = Some (ok, y)" "told s x"
  shows "told s y"
proof -
  have frame: "told s (t\<lparr>dt_fp_value := v, dt_fp_alg := g\<rparr>, l) = told s (t, l)" "told s (t\<lparr>dt_active := b\<rparr>, l) = told s (t, l)" for t v g l b
    by (simp_all add: told_def)
  show ?thesis using assms
    by (auto simp: set_remote_fingerprint_def bind_eq_Some_conv Let_def frame dest!: told_setup_dtls [where s = s]
        split: if_splits option.splits prod.splits)
qed

lemma told_on_read_packet:
  assumes "dt_on_read_packet L owner w buf ts x = Some y" "told s x"
  shows "told s y"
proof -
  have frame: "told s (t\<lparr>dt_cached_client_hello := b\<rparr>, l) = told s (t, l)" for t b l by (simp add: told_def)
  show ?thesis using assms
    by (auto simp: dt_on_read_packet_def Let_def frame simp del: split_paired_Ex split_paired_All
        dest!: told_setup_dtls [where s = s] told_handle [where s = s] split: if_splits dtls_state.splits)
qed

end
