(* ===== verification/Rtp_Utils.thy ===== *)
theory Rtp_Utils
  imports Xrtc_Prelude
begin

text \<open>
  \<open>module/rtp_rtcp/rtp_utils.cpp\<close>: telling RTP from RTCP and reading header fields.  The fields are read
  without a look at the length, so a read is \<open>None\<close> when it leaves the packet.
\<close>

datatype rtp_packet_type = K_rtp | K_rtcp | K_unknown

definition k_rtp_version :: byte where "k_rtp_version = 2"
definition k_min_rtp_len :: nat where "k_min_rtp_len = 12"
definition k_min_rtcp_packet_len :: nat where "k_min_rtcp_packet_len = 4"

definition has_correct_rtp_version :: "bytes \<Rightarrow> bool" where
  "has_correct_rtp_version packet \<longleftrightarrow> drop_bit 6 (packet ! 0) = k_rtp_version"

definition payload_type_is_reserved_for_rtcp :: "byte \<Rightarrow> bool" where
  "payload_type_is_reserved_for_rtcp payload_type \<longleftrightarrow> 64 \<le> payload_type \<and> payload_type < 96"

definition is_rtp_packet :: "bytes \<Rightarrow> bool" where
  "is_rtp_packet packet \<longleftrightarrow> k_min_rtp_len \<le> length packet \<and> has_correct_rtp_version packet \<and>
     \<not> payload_type_is_reserved_for_rtcp (packet ! 1 AND 0x7F)"

definition is_rtcp_packet :: "bytes \<Rightarrow> bool" where
  "is_rtcp_packet packet \<longleftrightarrow> k_min_rtcp_packet_len \<le> length packet \<and> has_correct_rtp_version packet \<and>
     payload_type_is_reserved_for_rtcp (packet ! 1 AND 0x7F)"

definition infer_rtp_packet_type :: "bytes \<Rightarrow> rtp_packet_type" where
  "infer_rtp_packet_type packet = (if is_rtp_packet packet then K_rtp
     else if is_rtcp_packet packet then K_rtcp else K_unknown)"

definition parse_rtp_sequence_number :: "bytes \<Rightarrow> u16 option" where
  "parse_rtp_sequence_number packet = map_option of_be (mem_read packet 2 2)"

definition parse_rtp_ssrc :: "bytes \<Rightarrow> u32 option" where
  "parse_rtp_ssrc packet = map_option of_be (mem_read packet 8 4)"

definition get_rtcp_type :: "bytes \<Rightarrow> nat option" where
  "get_rtcp_type data = (if length data < k_min_rtcp_packet_len then None else Some (unat (data ! 1)))"

lemma rtp_not_rtcp: "is_rtp_packet p \<Longrightarrow> \<not> is_rtcp_packet p"
  by (simp add: is_rtp_packet_def is_rtcp_packet_def)

lemma infer_rtp_packet_type_simps:
  "infer_rtp_packet_type p = K_rtp \<longleftrightarrow> is_rtp_packet p" "infer_rtp_packet_type p = K_rtcp \<longleftrightarrow> is_rtcp_packet p"
  using rtp_not_rtcp [of p] by (auto simp: infer_rtp_packet_type_def)

lemma rtp_fields_read:
  assumes "infer_rtp_packet_type p = K_rtp"
  shows "parse_rtp_sequence_number p \<noteq> None" "parse_rtp_ssrc p \<noteq> None"
  using assms by (auto simp: infer_rtp_packet_type_simps is_rtp_packet_def k_min_rtp_len_def parse_rtp_sequence_number_def
      parse_rtp_ssrc_def mem_read_def)

end
