(* ===== verification/Srtp.thy ===== *)
theory Srtp
  imports Rtp_Utils
begin

text \<open>
  \<open>pc/srtp_session.cpp\<close> and \<open>pc/srtp_transport.cpp\<close>: sessions of libsrtp, the process-wide count of
  their users, and the pair of sessions of a transport.  libsrtp is the parameter \<open>libsrtp\<close>.  Packets
  are protected in place, so an output that is longer than its buffer is \<open>None\<close>.
\<close>

datatype ssrc_type = Ssrc_any_inbound | Ssrc_any_outbound

record srtp_policy =
  po_profile :: int
  po_type :: ssrc_type
  po_ssrc :: u32
  po_key :: bytes
  po_window_size :: nat
  po_allow_repeat_tx :: bool

record 'c libsrtp =
  sl_init :: bool
  sl_install_event_handler :: bool
  sl_rtp_tag :: "int \<Rightarrow> nat option"
  sl_rtcp_tag :: "int \<Rightarrow> nat option"
  sl_create :: "srtp_policy \<Rightarrow> 'c option"
  sl_update :: "srtp_policy \<Rightarrow> 'c \<Rightarrow> 'c option"
  sl_protect :: "bytes \<Rightarrow> 'c \<Rightarrow> bytes option \<times> 'c"
  sl_protect_rtcp :: "bytes \<Rightarrow> 'c \<Rightarrow> bytes option \<times> 'c"
  sl_unprotect :: "bytes \<Rightarrow> 'c \<Rightarrow> bytes option \<times> 'c"
  sl_unprotect_rtcp :: "bytes \<Rightarrow> 'c \<Rightarrow> bytes option \<times> 'c"

subsection \<open>The users of the library\<close>

text \<open>\<open>g_running\<close> is how often the library has been initialised without being shut down.\<close>

record srtp_global =
  g_libsrtp_usage_count :: int
  g_running :: int

definition increment_libsrtp_usage_count_and_maybe_init :: "'c libsrtp \<Rightarrow> srtp_global \<Rightarrow> bool \<times> srtp_global" where
  "increment_libsrtp_usage_count_and_maybe_init S g =
     (if g_libsrtp_usage_count g = 0 then
        if \<not> sl_init S then (False, g)
        else let g1 = g\<lparr>g_running := g_running g + 1\<rparr> in
          if \<not> sl_install_event_handler S then (False, g1)
          else (True, g1\<lparr>g_libsrtp_usage_count := g_libsrtp_usage_count g1 + 1\<rparr>)
      else (True, g\<lparr>g_libsrtp_usage_count := g_libsrtp_usage_count g + 1\<rparr>))"

definition decrement_libsrtp_usage_count_and_maybe_deinit :: "srtp_global \<Rightarrow> srtp_global" where
  "decrement_libsrtp_usage_count_and_maybe_deinit g = (let
     g1 = g\<lparr>g_libsrtp_usage_count := g_libsrtp_usage_count g - 1\<rparr> in
     if g_libsrtp_usage_count g1 = 0 then g1\<lparr>g_running := g_running g1 - 1\<rparr> else g1)"

subsection \<open>A session\<close>

record 'c srtp_session =
  ss_session :: "'c option"
  ss_inited :: bool
  ss_rtp_auth_tag_len :: nat
  ss_rtcp_auth_tag_len :: nat

definition SrtpSession :: "'c srtp_session" where
  "SrtpSession = \<lparr>ss_session = None, ss_inited = False, ss_rtp_auth_tag_len = 0, ss_rtcp_auth_tag_len = 0\<rparr>"

definition delete_session :: "'c srtp_session \<Rightarrow> srtp_global \<Rightarrow> srtp_global" where
  "delete_session s g = (if ss_inited s then decrement_libsrtp_usage_count_and_maybe_deinit g else g)"

definition do_set_key :: "'c libsrtp \<Rightarrow> ssrc_type \<Rightarrow> int \<Rightarrow> bytes \<Rightarrow> 'c srtp_session \<Rightarrow> bool \<times> 'c srtp_session" where
  "do_set_key S type cs key s = (case (sl_rtp_tag S cs, sl_rtcp_tag S cs) of
       (Some rtp, Some rtcp) \<Rightarrow>
         let policy = \<lparr>po_profile = cs, po_type = type, po_ssrc = 0, po_key = key, po_window_size = 1024, po_allow_repeat_tx = True\<rparr> in
         (case (case ss_session s of None \<Rightarrow> sl_create S policy | Some c \<Rightarrow> sl_update S policy c) of
            None \<Rightarrow> (False, s)
          | Some c \<Rightarrow> (True, s\<lparr>ss_session := Some c, ss_rtp_auth_tag_len := rtp, ss_rtcp_auth_tag_len := rtcp\<rparr>))
     | _ \<Rightarrow> (False, s))"

definition set_key ::
  "'c libsrtp \<Rightarrow> ssrc_type \<Rightarrow> int \<Rightarrow> bytes \<Rightarrow> 'c srtp_session \<Rightarrow> srtp_global \<Rightarrow> bool \<times> 'c srtp_session \<times> srtp_global" where
  "set_key S type cs key s g = (if ss_session s \<noteq> None then (False, s, g)
     else (case increment_libsrtp_usage_count_and_maybe_init S g of
         (False, g1) \<Rightarrow> (False, s, g1)
       | (True, g1) \<Rightarrow> (let (ok, s1) = do_set_key S type cs key (s\<lparr>ss_inited := True\<rparr>) in (ok, s1, g1))))"

definition update_key :: "'c libsrtp \<Rightarrow> ssrc_type \<Rightarrow> int \<Rightarrow> bytes \<Rightarrow> 'c srtp_session \<Rightarrow> bool \<times> 'c srtp_session" where
  "update_key S type cs key s = (if ss_session s = None then (False, s) else do_set_key S type cs key s)"

definition get_auth_tag_len :: "'c srtp_session \<Rightarrow> (nat \<times> nat) option" where
  "get_auth_tag_len s = (if ss_session s = None then None else Some (ss_rtp_auth_tag_len s, ss_rtcp_auth_tag_len s))"

text \<open>The output of the library, written over the input in a buffer of \<open>room\<close> bytes.\<close>

definition in_place :: "nat \<Rightarrow> bytes option \<times> 'c \<Rightarrow> 'c srtp_session \<Rightarrow> (bytes option \<times> 'c srtp_session) option" where
  "in_place room r s = (case r of (out, c) \<Rightarrow>
     if (case out of None \<Rightarrow> False | Some d \<Rightarrow> room < length d) then None else Some (out, s\<lparr>ss_session := Some c\<rparr>))"

definition unprotect_rtp :: "'c libsrtp \<Rightarrow> bytes \<Rightarrow> 'c srtp_session \<Rightarrow> (bytes option \<times> 'c srtp_session) option" where
  "unprotect_rtp S p s = (case ss_session s of None \<Rightarrow> Some (None, s)
     | Some c \<Rightarrow> in_place (length p) (sl_unprotect S p c) s)"

definition unprotect_rtcp :: "'c libsrtp \<Rightarrow> bytes \<Rightarrow> 'c srtp_session \<Rightarrow> (bytes option \<times> 'c srtp_session) option" where
  "unprotect_rtcp S p s = (case ss_session s of None \<Rightarrow> Some (None, s)
     | Some c \<Rightarrow> in_place (length p) (sl_unprotect_rtcp S p c) s)"

definition protect_rtp :: "'c libsrtp \<Rightarrow> bytes \<Rightarrow> nat \<Rightarrow> 'c srtp_session \<Rightarrow> (bytes option \<times> 'c srtp_session) option" where
  "protect_rtp S p max_len s = (case ss_session s of None \<Rightarrow> Some (None, s)
     | Some c \<Rightarrow> if max_len < length p + ss_rtp_auth_tag_len s then Some (None, s)
         else in_place max_len (sl_protect S p c) s)"

definition protect_rtcp :: "'c libsrtp \<Rightarrow> bytes \<Rightarrow> nat \<Rightarrow> 'c srtp_session \<Rightarrow> (bytes option \<times> 'c srtp_session) option" where
  "protect_rtcp S p max_len s = (case ss_session s of None \<Rightarrow> Some (None, s)
     | Some c \<Rightarrow> if max_len < length p + ss_rtcp_auth_tag_len s + 4 then Some (None, s)
         else in_place max_len (sl_protect_rtcp S p c) s)"

subsection \<open>The two sessions of a transport\<close>

record 'c srtp_transport =
  tr_rtcp_mux_enabled :: bool
  tr_send :: "'c srtp_session option"
  tr_recv :: "'c srtp_session option"

definition SrtpTransport :: "bool \<Rightarrow> 'c srtp_transport" where
  "SrtpTransport mux = \<lparr>tr_rtcp_mux_enabled = mux, tr_send = None, tr_recv = None\<rparr>"

definition is_srtp_active :: "'c srtp_transport \<Rightarrow> bool" where
  "is_srtp_active t \<longleftrightarrow> tr_send t \<noteq> None \<and> tr_recv t \<noteq> None"

definition drop_session :: "'c srtp_session option \<Rightarrow> srtp_global \<Rightarrow> srtp_global" where
  "drop_session s g = (case s of None \<Rightarrow> g | Some s \<Rightarrow> delete_session s g)"

definition reset_params :: "'c srtp_transport \<Rightarrow> srtp_global \<Rightarrow> 'c srtp_transport \<times> srtp_global" where
  "reset_params t g = (t\<lparr>tr_send := None, tr_recv := None\<rparr>, drop_session (tr_recv t) (drop_session (tr_send t) g))"

definition create_srtp_session :: "'c srtp_transport \<Rightarrow> srtp_global \<Rightarrow> 'c srtp_transport \<times> srtp_global" where
  "create_srtp_session t g = (t\<lparr>tr_send := Some SrtpSession, tr_recv := Some SrtpSession\<rparr>,
     drop_session (tr_recv t) (drop_session (tr_send t) g))"

definition set_rtp_params ::
  "'c libsrtp \<Rightarrow> int \<Rightarrow> bytes \<Rightarrow> int \<Rightarrow> bytes \<Rightarrow> 'c srtp_transport \<Rightarrow> srtp_global
     \<Rightarrow> (bool \<times> 'c srtp_transport \<times> srtp_global) option" where
  "set_rtp_params S send_cs send_key recv_cs recv_key t g = (let
     new_session = (tr_send t = None);
     (t1, g1) = (if new_session then create_srtp_session t g else (t, g)) in
     case tr_send t1 of None \<Rightarrow> None
     | Some s \<Rightarrow>
         let (ok, s1, g2) = (if new_session then set_key S Ssrc_any_outbound send_cs send_key s g1
           else (let (b, s') = update_key S Ssrc_any_outbound send_cs send_key s in (b, s', g1)));
           t2 = t1\<lparr>tr_send := Some s1\<rparr> in
         if \<not> ok then (let (t3, g3) = reset_params t2 g2 in Some (False, t3, g3))
         else (case tr_recv t2 of None \<Rightarrow> None
           | Some r \<Rightarrow>
               let (ok2, r1, g3) = (if new_session then set_key S Ssrc_any_inbound recv_cs recv_key r g2
                 else (let (b, r') = update_key S Ssrc_any_inbound recv_cs recv_key r in (b, r', g2)));
                 t3 = t2\<lparr>tr_recv := Some r1\<rparr> in
               if \<not> ok2 then (let (t4, g4) = reset_params t3 g3 in Some (False, t4, g4))
               else Some (True, t3, g3)))"

definition get_send_auth_tag_len :: "'c srtp_transport \<Rightarrow> nat \<times> nat" where
  "get_send_auth_tag_len t = (case tr_send t of None \<Rightarrow> (0, 0)
     | Some s \<Rightarrow> (case get_auth_tag_len s of None \<Rightarrow> (0, 0) | Some l \<Rightarrow> l))"

definition on_recv_session ::
  "(bytes \<Rightarrow> 'c srtp_session \<Rightarrow> (bytes option \<times> 'c srtp_session) option) \<Rightarrow> bytes \<Rightarrow> 'c srtp_transport
     \<Rightarrow> (bytes option \<times> 'c srtp_transport) option" where
  "on_recv_session f p t = (if \<not> is_srtp_active t then Some (None, t) else do {
     s \<leftarrow> tr_recv t;
     (r, s1) \<leftarrow> f p s;
     Some (r, t\<lparr>tr_recv := Some s1\<rparr>)
   })"

definition on_send_session ::
  "(bytes \<Rightarrow> nat \<Rightarrow> 'c srtp_session \<Rightarrow> (bytes option \<times> 'c srtp_session) option) \<Rightarrow> bytes \<Rightarrow> nat \<Rightarrow> 'c srtp_transport
     \<Rightarrow> (bytes option \<times> 'c srtp_transport) option" where
  "on_send_session f p max_len t = (if \<not> is_srtp_active t then Some (None, t) else do {
     s \<leftarrow> tr_send t;
     (r, s1) \<leftarrow> f p max_len s;
     Some (r, t\<lparr>tr_send := Some s1\<rparr>)
   })"

definition tr_unprotect_rtp :: "'c libsrtp \<Rightarrow> bytes \<Rightarrow> 'c srtp_transport \<Rightarrow> (bytes option \<times> 'c srtp_transport) option" where
  "tr_unprotect_rtp S p t = on_recv_session (unprotect_rtp S) p t"

definition tr_unprotect_rtcp :: "'c libsrtp \<Rightarrow> bytes \<Rightarrow> 'c srtp_transport \<Rightarrow> (bytes option \<times> 'c srtp_transport) option" where
  "tr_unprotect_rtcp S p t = on_recv_session (unprotect_rtcp S) p t"

definition tr_protect_rtp :: "'c libsrtp \<Rightarrow> bytes \<Rightarrow> nat \<Rightarrow> 'c srtp_transport \<Rightarrow> (bytes option \<times> 'c srtp_transport) option" where
  "tr_protect_rtp S p max_len t = on_send_session (protect_rtp S) p max_len t"

definition tr_protect_rtcp :: "'c libsrtp \<Rightarrow> bytes \<Rightarrow> nat \<Rightarrow> 'c srtp_transport \<Rightarrow> (bytes option \<times> 'c srtp_transport) option" where
  "tr_protect_rtcp S p max_len t = on_send_session (protect_rtcp S) p max_len t"

end
