(* ===== verification/Dtls_Srtp.thy ===== *)
theory Dtls_Srtp
  imports Dtls_Safety Srtp
begin

text \<open>
  \<open>pc/dtls_srtp_transport.cpp\<close>: SRTP keyed by DTLS.  The transport listens to two signals of the DTLS
  transport; a slot gets the DTLS transport as it was when the signal was raised, and slots do not
  call back into it, so running them over the recorded signals in order is what the code does.
  \<open>junk\<close> is what the memory behind a packet holds.
\<close>

datatype srtp_signal = Rtp_received bytes int | Rtcp_received bytes int

record 'c dtls_srtp =
  ds_name :: string
  ds_srtp :: "'c srtp_transport"
  ds_unprotect_fail_count :: int
  ds_last_send_seq_num :: u16
  ds_signals :: "srtp_signal list"

definition k_dtls_srtp_exporter_label :: string where
  "k_dtls_srtp_exporter_label = ''EXTRACTOR-dtls_srtp''"

definition DtlsSrtpTransport :: "string \<Rightarrow> bool \<Rightarrow> 'c dtls_srtp" where
  "DtlsSrtpTransport nm mux = \<lparr>ds_name = nm, ds_srtp = SrtpTransport mux, ds_unprotect_fail_count = 0,
     ds_last_send_seq_num = 0, ds_signals = []\<rparr>"

definition is_dtls_writable :: "'s dtls_transport \<Rightarrow> bool" where
  "is_dtls_writable d \<longleftrightarrow> dt_writable d"

text \<open>The keys as RFC 5764 lays them out: the keys of both writers, then their salts.\<close>

definition split_keys :: "nat \<Rightarrow> nat \<Rightarrow> bytes \<Rightarrow> bytes \<times> bytes" where
  "split_keys key_len salt_len buf = (let
     client_key = take key_len buf;
     server_key = take key_len (drop key_len buf);
     client_salt = take salt_len (drop (2 * key_len) buf);
     server_salt = take salt_len (drop (2 * key_len + salt_len) buf) in
     (server_key @ server_salt, client_key @ client_salt))"

text \<open>The first \<open>None\<close> is a null pointer, the second failure.\<close>

definition extract_params :: "'s openssl \<Rightarrow> 's dtls_transport \<Rightarrow> (int \<times> bytes \<times> bytes) option option" where
  "extract_params L d = (if \<not> dt_active d then Some None
     else do {
       suite \<leftarrow> get_srtp_crypto_suite L d;
       case suite of None \<Rightarrow> Some None
       | Some cs \<Rightarrow> (case GetSrtpKeyAndSaltLengths cs of None \<Rightarrow> Some None
         | Some (key_len, salt_len) \<Rightarrow> do {
             buf \<leftarrow> export_keying_material L k_dtls_srtp_exporter_label (key_len * 2 + salt_len * 2) d;
             Some (map_option (\<lambda>b. (cs, split_keys key_len salt_len b)) buf)
           })
     })"

definition setup_dtls_srtp ::
  "'s openssl \<Rightarrow> 'c libsrtp \<Rightarrow> 's dtls_transport \<Rightarrow> 'c dtls_srtp \<Rightarrow> srtp_global \<Rightarrow> ('c dtls_srtp \<times> srtp_global) option" where
  "setup_dtls_srtp L S d t g = do {
     params \<leftarrow> extract_params L d;
     case params of None \<Rightarrow> Some (t, g)
     | Some (cs, send_key, recv_key) \<Rightarrow> do {
         (_, tr, g1) \<leftarrow> set_rtp_params S cs send_key cs recv_key (ds_srtp t) g;
         Some (t\<lparr>ds_srtp := tr\<rparr>, g1)
       }
   }"

definition maybe_setup_dtls_srtp ::
  "'s openssl \<Rightarrow> 'c libsrtp \<Rightarrow> 's dtls_transport \<Rightarrow> 'c dtls_srtp \<Rightarrow> srtp_global \<Rightarrow> ('c dtls_srtp \<times> srtp_global) option" where
  "maybe_setup_dtls_srtp L S d t g = (if is_srtp_active (ds_srtp t) \<or> \<not> is_dtls_writable d then Some (t, g)
     else setup_dtls_srtp L S d t g)"

definition on_dtls_state ::
  "'s openssl \<Rightarrow> 'c libsrtp \<Rightarrow> dtls_state \<Rightarrow> 's dtls_transport \<Rightarrow> 'c dtls_srtp \<Rightarrow> srtp_global \<Rightarrow> ('c dtls_srtp \<times> srtp_global) option" where
  "on_dtls_state L S state d t g = (if state \<noteq> K_connected
     then (let (tr, g1) = reset_params (ds_srtp t) g in Some (t\<lparr>ds_srtp := tr\<rparr>, g1))
     else maybe_setup_dtls_srtp L S d t g)"

definition set_dtls_transports ::
  "'s openssl \<Rightarrow> 'c libsrtp \<Rightarrow> 's dtls_transport \<Rightarrow> 'c dtls_srtp \<Rightarrow> srtp_global \<Rightarrow> ('c dtls_srtp \<times> srtp_global) option" where
  "set_dtls_transports L S d t g = maybe_setup_dtls_srtp L S d t g"

definition k_fail_log :: int where "k_fail_log = 100"

definition on_rtp_packet :: "'c libsrtp \<Rightarrow> bytes \<Rightarrow> int \<Rightarrow> 'c dtls_srtp \<Rightarrow> 'c dtls_srtp option" where
  "on_rtp_packet S packet ts t = (if \<not> is_srtp_active (ds_srtp t) then Some t else do {
     (r, tr) \<leftarrow> tr_unprotect_rtp S packet (ds_srtp t);
     let t1 = t\<lparr>ds_srtp := tr\<rparr>;
     case r of
       None \<Rightarrow> do {
         _ \<leftarrow> (if ds_unprotect_fail_count t1 mod k_fail_log = 0
           then do { _ \<leftarrow> parse_rtp_sequence_number packet; map_option (\<lambda>_. ()) (parse_rtp_ssrc packet) } else Some ());
         Some (t1\<lparr>ds_unprotect_fail_count := ds_unprotect_fail_count t1 + 1\<rparr>)
       }
     | Some d \<Rightarrow> Some (t1\<lparr>ds_signals := ds_signals t1 @ [Rtp_received d ts]\<rparr>)
   })"

definition on_rtcp_packet :: "'c libsrtp \<Rightarrow> bytes \<Rightarrow> int \<Rightarrow> 'c dtls_srtp \<Rightarrow> 'c dtls_srtp option" where
  "on_rtcp_packet S packet ts t = (if \<not> is_srtp_active (ds_srtp t) then Some t else do {
     (r, tr) \<leftarrow> tr_unprotect_rtcp S packet (ds_srtp t);
     let t1 = t\<lparr>ds_srtp := tr\<rparr>;
     case r of None \<Rightarrow> Some t1
     | Some d \<Rightarrow> Some (t1\<lparr>ds_signals := ds_signals t1 @ [Rtcp_received d ts]\<rparr>)
   })"

definition ds_on_read_packet :: "'c libsrtp \<Rightarrow> bytes \<Rightarrow> int \<Rightarrow> 'c dtls_srtp \<Rightarrow> 'c dtls_srtp option" where
  "ds_on_read_packet S data ts t = (case infer_rtp_packet_type data of
       K_unknown \<Rightarrow> Some t
     | K_rtcp \<Rightarrow> on_rtcp_packet S data ts t
     | K_rtp \<Rightarrow> on_rtp_packet S data ts t)"

text \<open>Sending.  The packet is a buffer of \<open>size + tag\<close> bytes that begins with the data.\<close>

definition ds_send_rtp ::
  "'c libsrtp \<Rightarrow> bytes \<Rightarrow> int \<Rightarrow> bytes \<Rightarrow> 's dtls_transport \<Rightarrow> 'c dtls_srtp \<Rightarrow> (int \<times> 's dtls_transport \<times> 'c dtls_srtp) option" where
  "ds_send_rtp S junk ret buf d t = (if \<not> is_srtp_active (ds_srtp t) then Some (-1, d, t) else do {
     let tag = fst (get_send_auth_tag_len (ds_srtp t));
     let capacity = length buf + tag;
     seq_num \<leftarrow> parse_rtp_sequence_number (take capacity (buf @ junk));
     (r, tr) \<leftarrow> tr_protect_rtp S buf capacity (ds_srtp t);
     case r of None \<Rightarrow> Some (-1, d, t\<lparr>ds_srtp := tr\<rparr>)
     | Some out \<Rightarrow> (let (x, d1) = dt_send_packet ret out d in
         Some (x, d1, t\<lparr>ds_srtp := tr, ds_last_send_seq_num := seq_num\<rparr>))
   })"

definition ds_send_rtcp ::
  "'c libsrtp \<Rightarrow> int \<Rightarrow> bytes \<Rightarrow> 's dtls_transport \<Rightarrow> 'c dtls_srtp \<Rightarrow> (int \<times> 's dtls_transport \<times> 'c dtls_srtp) option" where
  "ds_send_rtcp S ret buf d t = (if \<not> is_srtp_active (ds_srtp t) then Some (-1, d, t) else do {
     let tag = snd (get_send_auth_tag_len (ds_srtp t));
     (r, tr) \<leftarrow> tr_protect_rtcp S buf (length buf + tag + 4) (ds_srtp t);
     case r of None \<Rightarrow> Some (-1, d, t\<lparr>ds_srtp := tr\<rparr>)
     | Some out \<Rightarrow> (let (x, d1) = dt_send_packet ret out d in Some (x, d1, t\<lparr>ds_srtp := tr\<rparr>))
   })"

text \<open>The slots.\<close>

definition srtp_slot ::
  "'s openssl \<Rightarrow> 'c libsrtp \<Rightarrow> dtls_signal \<times> 's dtls_transport \<Rightarrow> 'c dtls_srtp \<Rightarrow> srtp_global \<Rightarrow> ('c dtls_srtp \<times> srtp_global) option" where
  "srtp_slot L S e t g = (case fst e of
       Dtls_state s \<Rightarrow> on_dtls_state L S s (snd e) t g
     | Dtls_read_packet buf ts \<Rightarrow> map_option (\<lambda>t1. (t1, g)) (ds_on_read_packet S buf ts t)
     | _ \<Rightarrow> Some (t, g))"

fun srtp_slots ::
  "'s openssl \<Rightarrow> 'c libsrtp \<Rightarrow> (dtls_signal \<times> 's dtls_transport) list \<Rightarrow> 'c dtls_srtp \<Rightarrow> srtp_global \<Rightarrow> ('c dtls_srtp \<times> srtp_global) option" where
  "srtp_slots L S [] t g = Some (t, g)"
| "srtp_slots L S (e # es) t g = do { (t1, g1) \<leftarrow> srtp_slot L S e t g; srtp_slots L S es t1 g1 }"

end
