(* ===== verification/Srtp_Safety.thy ===== *)
theory Srtp_Safety
  imports Srtp
begin

text \<open>
  The sessions of SRTP.  What libsrtp documents is \<open>libsrtp_ok\<close>: protecting adds at most the tag of the
  profile, and the index word for RTCP; unprotecting adds nothing; a handler can be installed.
\<close>

subsection \<open>The library and its users\<close>

definition libsrtp_ok :: "'c libsrtp \<Rightarrow> ('c \<Rightarrow> nat) \<Rightarrow> ('c \<Rightarrow> nat) \<Rightarrow> bool" where
  "libsrtp_ok S rt ct \<longleftrightarrow> sl_install_event_handler S \<and>
     (\<forall>pol c. sl_create S pol = Some c \<longrightarrow>
        sl_rtp_tag S (po_profile pol) = Some (rt c) \<and> sl_rtcp_tag S (po_profile pol) = Some (ct c)) \<and>
     (\<forall>p c d. fst (sl_protect S p c) = Some d \<longrightarrow> length d \<le> length p + rt c) \<and>
     (\<forall>p c d. fst (sl_protect_rtcp S p c) = Some d \<longrightarrow> length d \<le> length p + ct c + 4) \<and>
     (\<forall>p c d. fst (sl_unprotect S p c) = Some d \<longrightarrow> length d \<le> length p) \<and>
     (\<forall>p c d. fst (sl_unprotect_rtcp S p c) = Some d \<longrightarrow> length d \<le> length p) \<and>
     (\<forall>f p c. f \<in> {sl_protect S, sl_protect_rtcp S, sl_unprotect S, sl_unprotect_rtcp S} \<longrightarrow>
        rt (snd (f p c)) = rt c \<and> ct (snd (f p c)) = ct c)"

lemma libsrtp_create:
  "libsrtp_ok S rt ct \<Longrightarrow> sl_create S pol = Some c \<Longrightarrow> sl_rtp_tag S (po_profile pol) = Some (rt c) \<and> sl_rtcp_tag S (po_profile pol) = Some (ct c)"
  by (simp add: libsrtp_ok_def)

definition usage :: "srtp_global \<Rightarrow> int \<Rightarrow> bool" where
  "usage g n \<longleftrightarrow> g_libsrtp_usage_count g = n \<and> 0 \<le> n \<and> g_running g = of_bool (0 < n)"

lemma usage_increment:
  assumes "usage g n" "libsrtp_ok S rt ct"
  shows "increment_libsrtp_usage_count_and_maybe_init S g = (b, g1) \<Longrightarrow> usage g1 (if b then n + 1 else n)"
  using assms by (auto simp: usage_def increment_libsrtp_usage_count_and_maybe_init_def libsrtp_ok_def split: if_splits)

lemma usage_decrement: "usage g (n + 1) \<Longrightarrow> 0 \<le> n \<Longrightarrow> usage (decrement_libsrtp_usage_count_and_maybe_deinit g) n"
  by (auto simp: usage_def decrement_libsrtp_usage_count_and_maybe_deinit_def Let_def)

lemma usage_delete: "usage g (n + of_bool (ss_inited s)) \<Longrightarrow> 0 \<le> n \<Longrightarrow> usage (delete_session s g) n"
  by (cases "ss_inited s") (simp_all add: delete_session_def usage_decrement)

subsection \<open>Sessions\<close>

definition session_ok :: "('c \<Rightarrow> nat) \<Rightarrow> ('c \<Rightarrow> nat) \<Rightarrow> 'c srtp_session \<Rightarrow> bool" where
  "session_ok rt ct s \<longleftrightarrow> ss_inited s \<and>
     (\<exists>c. ss_session s = Some c \<and> rt c = ss_rtp_auth_tag_len s \<and> ct c = ss_rtcp_auth_tag_len s)"

lemma set_key_fresh:
  assumes "usage g n" "libsrtp_ok S rt ct" "set_key S type cs key SrtpSession g = (ok, s, g1)"
  shows "usage g1 (n + of_bool (ss_inited s))" "ok \<Longrightarrow> session_ok rt ct s"
proof -
  obtain b g2 where b: "increment_libsrtp_usage_count_and_maybe_init S g = (b, g2)" by fastforce
  have u: "usage g2 (if b then n + 1 else n)" using usage_increment [OF assms(1,2) b] .
  have k: "ss_inited (snd (do_set_key S type cs key s)) = ss_inited s" for s
    by (auto simp: do_set_key_def Let_def split: option.split)
  have "usage g1 (n + of_bool (ss_inited s)) \<and> (ok \<longrightarrow> session_ok rt ct s)"
  proof (cases b)
    case False
    then show ?thesis using assms(3) b u by (auto simp: set_key_def SrtpSession_def)
  next
    case True
    let ?s = "SrtpSession\<lparr>ss_inited := True\<rparr>"
    from True assms(3) b have r: "do_set_key S type cs key ?s = (ok, s)" "g1 = g2"
      by (auto simp: set_key_def SrtpSession_def Let_def split: prod.splits)
    have "ss_inited s" using k [of ?s] r(1) by simp
    moreover have "session_ok rt ct s" if ok
      using r(1) that by (auto simp: do_set_key_def Let_def SrtpSession_def session_ok_def dest!: libsrtp_create [OF assms(2)] split: option.splits)
    ultimately show ?thesis using u True r(2) by simp
  qed
  then show "usage g1 (n + of_bool (ss_inited s))" "ok \<Longrightarrow> session_ok rt ct s" by blast+
qed

text \<open>A library call leaves a session as good as it was and stays in its buffer.\<close>

lemma in_place_ok:
  assumes "session_ok rt ct s" "case fst r of None \<Rightarrow> True | Some d \<Rightarrow> length d \<le> room"
    "rt (snd r) = ss_rtp_auth_tag_len s" "ct (snd r) = ss_rtcp_auth_tag_len s"
  shows "\<exists>o1 s1. in_place room r s = Some (o1, s1) \<and> session_ok rt ct s1 \<and> (\<forall>d. o1 = Some d \<longrightarrow> length d \<le> room)"
  using assms by (auto simp: in_place_def session_ok_def case_prod_unfold split: option.splits)

definition calls_ok :: "('c \<Rightarrow> nat) \<Rightarrow> ('c \<Rightarrow> nat) \<Rightarrow> nat \<Rightarrow> ('c srtp_session \<Rightarrow> (bytes option \<times> 'c srtp_session) option) \<Rightarrow> bool" where
  "calls_ok rt ct room f \<longleftrightarrow> (\<forall>s. session_ok rt ct s \<longrightarrow>
     (\<exists>o1 s1. f s = Some (o1, s1) \<and> session_ok rt ct s1 \<and> (\<forall>d. o1 = Some d \<longrightarrow> length d \<le> room)))"

lemma session_calls_ok:
  assumes "libsrtp_ok S rt ct"
  shows "calls_ok rt ct (length p) (unprotect_rtp S p)" "calls_ok rt ct (length p) (unprotect_rtcp S p)"
    "calls_ok rt ct m (protect_rtp S p m)" "calls_ok rt ct m (protect_rtcp S p m)"
proof -
  note lib = assms [unfolded libsrtp_ok_def]
  have tags: "rt (snd (f p c)) = rt c" "ct (snd (f p c)) = ct c" if "f \<in> {sl_protect S, sl_protect_rtcp S, sl_unprotect S, sl_unprotect_rtcp S}" for f c
    using lib that by blast+
  show "calls_ok rt ct (length p) (unprotect_rtp S p)"
    unfolding calls_ok_def
  proof (intro allI impI)
    fix s assume s: "session_ok rt ct s"
    then obtain c where c: "ss_session s = Some c" "rt c = ss_rtp_auth_tag_len s" "ct c = ss_rtcp_auth_tag_len s" by (auto simp: session_ok_def)
    show "\<exists>o1 s1. unprotect_rtp S p s = Some (o1, s1) \<and> session_ok rt ct s1 \<and> (\<forall>d. o1 = Some d \<longrightarrow> length d \<le> length p)"
      using in_place_ok [OF s, where r = "sl_unprotect S p c" and room = "length p"] lib tags [of "sl_unprotect S" c] c
      by (auto simp: unprotect_rtp_def split: option.splits)
  qed
  show "calls_ok rt ct (length p) (unprotect_rtcp S p)"
    unfolding calls_ok_def
  proof (intro allI impI)
    fix s assume s: "session_ok rt ct s"
    then obtain c where c: "ss_session s = Some c" "rt c = ss_rtp_auth_tag_len s" "ct c = ss_rtcp_auth_tag_len s" by (auto simp: session_ok_def)
    show "\<exists>o1 s1. unprotect_rtcp S p s = Some (o1, s1) \<and> session_ok rt ct s1 \<and> (\<forall>d. o1 = Some d \<longrightarrow> length d \<le> length p)"
      using in_place_ok [OF s, where r = "sl_unprotect_rtcp S p c" and room = "length p"] lib tags [of "sl_unprotect_rtcp S" c] c
      by (auto simp: unprotect_rtcp_def split: option.splits)
  qed
  show "calls_ok rt ct m (protect_rtp S p m)"
    unfolding calls_ok_def
  proof (intro allI impI)
    fix s assume s: "session_ok rt ct s"
    then obtain c where c: "ss_session s = Some c" "rt c = ss_rtp_auth_tag_len s" "ct c = ss_rtcp_auth_tag_len s" by (auto simp: session_ok_def)
    have "case fst (sl_protect S p c) of None \<Rightarrow> True | Some d \<Rightarrow> length d \<le> m" if "length p + ss_rtp_auth_tag_len s \<le> m"
      using lib c that by (fastforce split: option.split)
    then show "\<exists>o1 s1. protect_rtp S p m s = Some (o1, s1) \<and> session_ok rt ct s1 \<and> (\<forall>d. o1 = Some d \<longrightarrow> length d \<le> m)"
      using in_place_ok [OF s, where r = "sl_protect S p c" and room = "m"] tags [of "sl_protect S" c] c s
      by (auto simp: protect_rtp_def)
  qed
  show "calls_ok rt ct m (protect_rtcp S p m)"
    unfolding calls_ok_def
  proof (intro allI impI)
    fix s assume s: "session_ok rt ct s"
    then obtain c where c: "ss_session s = Some c" "rt c = ss_rtp_auth_tag_len s" "ct c = ss_rtcp_auth_tag_len s" by (auto simp: session_ok_def)
    have "case fst (sl_protect_rtcp S p c) of None \<Rightarrow> True | Some d \<Rightarrow> length d \<le> m" if "length p + ss_rtcp_auth_tag_len s + 4 \<le> m"
      using lib c that by (fastforce split: option.split)
    then show "\<exists>o1 s1. protect_rtcp S p m s = Some (o1, s1) \<and> session_ok rt ct s1 \<and> (\<forall>d. o1 = Some d \<longrightarrow> length d \<le> m)"
      using in_place_ok [OF s, where r = "sl_protect_rtcp S p c" and room = "m"] tags [of "sl_protect_rtcp S" c] c s
      by (auto simp: protect_rtcp_def)
  qed
qed

subsection \<open>The pair of sessions\<close>

text \<open>Both sessions are there with their keys or none is; \<open>n\<close> is how many users the library has elsewhere.\<close>

definition srtp_inv :: "('c \<Rightarrow> nat) \<Rightarrow> ('c \<Rightarrow> nat) \<Rightarrow> int \<Rightarrow> 'c srtp_transport \<Rightarrow> srtp_global \<Rightarrow> bool" where
  "srtp_inv rt ct n t g \<longleftrightarrow> 0 \<le> n \<and>
     (tr_send t = None \<and> tr_recv t = None \<and> usage g n \<or>
      (\<exists>s r. tr_send t = Some s \<and> tr_recv t = Some r \<and> session_ok rt ct s \<and> session_ok rt ct r \<and> usage g (n + 2)))"

lemma srtp_inv_active: "srtp_inv rt ct n t g \<Longrightarrow> is_srtp_active t \<longleftrightarrow> tr_send t \<noteq> None"
  by (auto simp: srtp_inv_def is_srtp_active_def)

lemma reset_params_ok:
  assumes "srtp_inv rt ct n t g" "reset_params t g = (t1, g1)"
  shows "srtp_inv rt ct n t1 g1" "\<not> is_srtp_active t1"
proof -
  have n: "0 \<le> n" using assms(1) by (simp add: srtp_inv_def)
  have "usage g1 n"
  proof (cases "tr_send t")
    case None
    then show ?thesis using assms by (auto simp: srtp_inv_def reset_params_def drop_session_def)
  next
    case (Some s)
    then obtain r where r: "tr_recv t = Some r" "ss_inited s" "ss_inited r" "usage g (n + 2)"
      using assms(1) by (auto simp: srtp_inv_def session_ok_def)
    have "usage (delete_session s g) (n + 1)" using r n usage_delete [of g "n + 1" s] by (simp add: add.commute)
    then have "usage (delete_session r (delete_session s g)) n" using r n usage_delete [of "delete_session s g" n r] by simp
    then show ?thesis using assms(2) Some r(1) by (auto simp: reset_params_def drop_session_def)
  qed
  then show "srtp_inv rt ct n t1 g1" "\<not> is_srtp_active t1"
    using assms(2) n by (auto simp: srtp_inv_def reset_params_def is_srtp_active_def)
qed

lemma set_rtp_params_ok:
  assumes "srtp_inv rt ct n t g" "libsrtp_ok S rt ct" "\<not> is_srtp_active t"
  shows "\<exists>ok t1 g1. set_rtp_params S scs sk rcs rk t g = Some (ok, t1, g1) \<and> srtp_inv rt ct n t1 g1"
proof -
  have n: "0 \<le> n" and no: "tr_send t = None" "tr_recv t = None" and u: "usage g n"
    using assms(1,3) srtp_inv_active [OF assms(1)] by (auto simp: srtp_inv_def)
  obtain ok s g2 where s: "set_key S Ssrc_any_outbound scs sk SrtpSession g = (ok, s, g2)" by (metis prod_cases3)
  note us = set_key_fresh [OF u assms(2) s]
  have fresh: "ss_inited SrtpSession = False" by (simp add: SrtpSession_def)
  show ?thesis
  proof (cases ok)
    case False
    have "usage (delete_session s g2) n" using usage_delete [OF us(1) n] .
    then show ?thesis using no s False n fresh
      by (auto simp: set_rtp_params_def create_srtp_session_def drop_session_def reset_params_def srtp_inv_def delete_session_def Let_def)
  next
    case True
    have sok: "session_ok rt ct s" using us(2) True by blast
    then have u1: "usage g2 (n + 1)" using us(1) by (simp add: session_ok_def)
    obtain ok2 r g3 where r: "set_key S Ssrc_any_inbound rcs rk SrtpSession g2 = (ok2, r, g3)" by (metis prod_cases3)
    note ur = set_key_fresh [OF u1 assms(2) r]
    show ?thesis
    proof (cases ok2)
      case False
      have "usage (delete_session s g3) (n + of_bool (ss_inited r))"
        using usage_delete [of g3 "n + of_bool (ss_inited r)" s] ur(1) sok n by (simp add: session_ok_def algebra_simps)
      then have "usage (delete_session r (delete_session s g3)) n" using usage_delete n by blast
      then show ?thesis using no s r True False n
        by (auto simp: set_rtp_params_def create_srtp_session_def drop_session_def reset_params_def srtp_inv_def Let_def)
    next
      case ok2: True
      have "session_ok rt ct r" using ur(2) ok2 by blast
      moreover have "usage g3 (n + 2)" using ur(1) calculation by (simp add: session_ok_def add.commute)
      ultimately show ?thesis using no s r True ok2 n sok
        by (auto simp: set_rtp_params_def create_srtp_session_def drop_session_def srtp_inv_def Let_def)
    qed
  qed
qed

lemma on_session_ok:
  assumes "srtp_inv rt ct n t g"
  shows "calls_ok rt ct room (f p) \<Longrightarrow> \<exists>o1 t1. on_recv_session f p t = Some (o1, t1) \<and> srtp_inv rt ct n t1 g \<and>
      is_srtp_active t1 = is_srtp_active t \<and> (\<forall>d. o1 = Some d \<longrightarrow> length d \<le> room)"
    "calls_ok rt ct room (h p m) \<Longrightarrow> \<exists>o1 t1. on_send_session h p m t = Some (o1, t1) \<and> srtp_inv rt ct n t1 g \<and>
      is_srtp_active t1 = is_srtp_active t \<and> (\<forall>d. o1 = Some d \<longrightarrow> length d \<le> room)"
  using assms by (auto simp: on_recv_session_def on_send_session_def srtp_inv_def is_srtp_active_def calls_ok_def bind_eq_Some_conv)

end
