(* ===== verification/Media_Transport.thy ===== *)
theory Media_Transport
  imports Dtls_Srtp Dtls_Signals Srtp_Safety
begin

text \<open>
  The DTLS transport of a medium with the SRTP transport that listens to it, for all sequences of DTLS
  inputs and of packets to send.  No handler fails, no packet leaves its buffer, the library is
  counted right, and media flow only while DTLS is connected to the peer that was announced.
\<close>

lemma told_step:
  assumes "dtls_step L owner i (w, x) = Some (w', y)" "told s x"
  shows "told s y"
proof (cases i)
  case (In_certificate c)
  then show ?thesis using assms by (auto simp: dtls_step_def set_local_certificate_def told_def split: if_splits)
next
  case (In_send d r)
  then show ?thesis using assms by (auto simp: dtls_step_def dt_send_packet_def told_def)
next
  case (In_writable w2)
  have "on_writable_state L w2 x = Some y" using assms(1) In_writable by (auto simp: dtls_step_def)
  moreover have "told s (set_writable_state w2 x)" using assms(2) by simp
  ultimately show ?thesis using assms(2) told_maybe_start [of L w2 x y s]
    by (auto simp: on_writable_state_def simp del: told_simps split: if_splits dtls_state.splits)
next
  case (In_receiving r)
  have "told s (set_receiving_state r x)" using assms(2) by simp
  then show ?thesis using assms(1) In_receiving by (simp add: dtls_step_def on_receiving_state_def del: told_simps)
qed (use assms in \<open>auto simp: dtls_step_def dest: told_set_remote_fingerprint told_on_read_packet\<close>)

subsection \<open>The slots of the SRTP transport\<close>

definition ds_inv :: "('c \<Rightarrow> nat) \<Rightarrow> ('c \<Rightarrow> nat) \<Rightarrow> int \<Rightarrow> 'c dtls_srtp \<Rightarrow> srtp_global \<Rightarrow> bool" where
  "ds_inv rt ct n t g \<longleftrightarrow> srtp_inv rt ct n (ds_srtp t) g"

lemma ds_inv_simps [simp]:
  "ds_inv rt ct n (t\<lparr>ds_srtp := u\<rparr>) g = srtp_inv rt ct n u g"
  "ds_inv rt ct n (t\<lparr>ds_signals := l\<rparr>) g = ds_inv rt ct n t g"
  "ds_inv rt ct n (t\<lparr>ds_unprotect_fail_count := m\<rparr>) g = ds_inv rt ct n t g"
  by (simp_all add: ds_inv_def)

lemma extract_params_total:
  assumes sig: "sig_ok L (e, d)"
  shows "extract_params L d \<noteq> None"
proof (cases "dt_active d \<and> dt_state d = K_connected")
  case False
  then show ?thesis by (auto simp: extract_params_def get_srtp_crypto_suite_def)
next
  case True
  with sig obtain k a where a: "dt_dtls d = Some (k, a)" "adapter_ok L a" by (auto simp: sig_ok_def has_session_def)
  show ?thesis
  proof (cases "sa_state a = SSL_CONNECTED")
    case False
    then show ?thesis using True a(1) by (simp add: extract_params_def get_srtp_crypto_suite_def GetDtlsSrtpCryptoSuite_def)
  next
    case con: True
    then obtain ssl where ssl: "sa_ssl a = Some ssl" using a(2) by (auto simp: adapter_ok_def)
    have suite: "get_srtp_crypto_suite L d = Some (os_srtp_profile L ssl)"
      using True a(1) con ssl by (simp add: get_srtp_crypto_suite_def GetDtlsSrtpCryptoSuite_def)
    have "export_keying_material L l n d = Some (os_export L l n ssl)" for l n
      using a(1) ssl by (simp add: export_keying_material_def ExportKeyingMaterial_def)
    then show ?thesis using True suite by (simp add: extract_params_def split: option.split)
  qed
qed

lemma on_dtls_state_other:
  assumes i: "ds_inv rt ct n t g" and s: "s \<noteq> K_connected"
  shows "\<exists>t1 g1. on_dtls_state L S s d t g = Some (t1, g1) \<and> ds_inv rt ct n t1 g1 \<and> \<not> is_srtp_active (ds_srtp t1)"
proof -
  obtain u g1 where u: "reset_params (ds_srtp t) g = (u, g1)" by (cases "reset_params (ds_srtp t) g")
  have "on_dtls_state L S s d t g = Some (t\<lparr>ds_srtp := u\<rparr>, g1)" using s u by (simp add: on_dtls_state_def)
  then show ?thesis using reset_params_ok [OF i [unfolded ds_inv_def] u] by simp
qed

lemma setup_dtls_srtp_ok:
  assumes lib: "libsrtp_ok S rt ct" and i: "ds_inv rt ct n t g" and sig: "sig_ok L (e, d)" and no: "\<not> is_srtp_active (ds_srtp t)"
  shows "\<exists>t1 g1. setup_dtls_srtp L S d t g = Some (t1, g1) \<and> ds_inv rt ct n t1 g1"
proof -
  obtain p where p: "extract_params L d = Some p" using extract_params_total [OF sig] by (cases "extract_params L d") simp_all
  show ?thesis
  proof (cases p)
    case None
    then show ?thesis using p i by (simp add: setup_dtls_srtp_def)
  next
    case (Some q)
    obtain cs sk rk where q: "q = (cs, sk, rk)" by (cases q)
    from set_rtp_params_ok [OF i [unfolded ds_inv_def] lib no, of cs sk cs rk] obtain ok u g1 where
      u: "set_rtp_params S cs sk cs rk (ds_srtp t) g = Some (ok, u, g1)" "srtp_inv rt ct n u g1" by blast
    then have "setup_dtls_srtp L S d t g = Some (t\<lparr>ds_srtp := u\<rparr>, g1)" using p Some q by (simp add: setup_dtls_srtp_def)
    then show ?thesis using u(2) by simp
  qed
qed

lemma on_dtls_state_ok:
  assumes lib: "libsrtp_ok S rt ct" and i: "ds_inv rt ct n t g" and sig: "sig_ok L (e, d)"
  shows "\<exists>t1 g1. on_dtls_state L S s d t g = Some (t1, g1) \<and> ds_inv rt ct n t1 g1 \<and> (is_srtp_active (ds_srtp t1) \<longrightarrow> s = K_connected)"
proof (cases "s = K_connected")
  case False
  from on_dtls_state_other [OF i False, of L S d] show ?thesis by blast
next
  case True
  show ?thesis
  proof (cases "is_srtp_active (ds_srtp t) \<or> \<not> is_dtls_writable d")
    case False
    then have "\<not> is_srtp_active (ds_srtp t)" by simp
    from setup_dtls_srtp_ok [OF lib i sig this] False True show ?thesis
      by (simp add: on_dtls_state_def maybe_setup_dtls_srtp_def)
  qed (use True i in \<open>simp add: on_dtls_state_def maybe_setup_dtls_srtp_def\<close>)
qed

lemma ds_on_read_packet_ok:
  assumes lib: "libsrtp_ok S rt ct" and i: "ds_inv rt ct n t g"
  shows "\<exists>t1. ds_on_read_packet S p ts t = Some t1 \<and> ds_inv rt ct n t1 g \<and> is_srtp_active (ds_srtp t1) = is_srtp_active (ds_srtp t)"
proof -
  note rtp = on_session_ok(1) [where f = "unprotect_rtp S", OF i [unfolded ds_inv_def] session_calls_ok(1) [OF lib, of p]]
  note rtcp = on_session_ok(1) [where f = "unprotect_rtcp S", OF i [unfolded ds_inv_def] session_calls_ok(2) [OF lib, of p]]
  show ?thesis
  proof (cases "infer_rtp_packet_type p")
    case K_rtp
    from rtp obtain o1 u where u: "tr_unprotect_rtp S p (ds_srtp t) = Some (o1, u)" "srtp_inv rt ct n u g"
      "is_srtp_active u = is_srtp_active (ds_srtp t)" by (auto simp: tr_unprotect_rtp_def)
    obtain q r where "parse_rtp_sequence_number p = Some q" "parse_rtp_ssrc p = Some r" using rtp_fields_read [OF K_rtp] by blast
    then show ?thesis using K_rtp u i by (cases o1) (auto simp: ds_on_read_packet_def on_rtp_packet_def)
  next
    case K_rtcp
    from rtcp obtain o1 u where u: "tr_unprotect_rtcp S p (ds_srtp t) = Some (o1, u)" "srtp_inv rt ct n u g"
      "is_srtp_active u = is_srtp_active (ds_srtp t)" by (auto simp: tr_unprotect_rtcp_def)
    then show ?thesis using K_rtcp i by (cases o1) (auto simp: ds_on_read_packet_def on_rtcp_packet_def)
  qed (use i in \<open>simp add: ds_on_read_packet_def\<close>)
qed

lemma srtp_slots_ok:
  assumes lib: "libsrtp_ok S rt ct"
  shows "log_ok L l \<Longrightarrow> ds_inv rt ct n t g \<Longrightarrow> is_srtp_active (ds_srtp t) \<longrightarrow> s = K_connected \<Longrightarrow>
    \<exists>t1 g1. srtp_slots L S l t g = Some (t1, g1) \<and> ds_inv rt ct n t1 g1 \<and> (is_srtp_active (ds_srtp t1) \<longrightarrow> last_state s l = K_connected)"
proof (induction l arbitrary: t g s)
  case (Cons e l)
  have e: "sig_ok L (fst e, snd e)" "log_ok L l" using Cons.prems(1) by (simp_all add: log_ok_def)
  let ?s = "case fst e of Dtls_state s' \<Rightarrow> s' | _ \<Rightarrow> s"
  have "\<exists>t1 g1. srtp_slot L S e t g = Some (t1, g1) \<and> ds_inv rt ct n t1 g1 \<and> (is_srtp_active (ds_srtp t1) \<longrightarrow> ?s = K_connected)"
  proof (cases "fst e")
    case (Dtls_state s')
    then show ?thesis using on_dtls_state_ok [OF lib Cons.prems(2) e(1)] by (simp add: srtp_slot_def)
  next
    case (Dtls_read_packet p ts)
    then show ?thesis using ds_on_read_packet_ok [OF lib Cons.prems(2), of p ts] Cons.prems(3) by (auto simp: srtp_slot_def)
  qed (use Cons.prems in \<open>auto simp: srtp_slot_def\<close>)
  then obtain t1 g1 where t1: "srtp_slot L S e t g = Some (t1, g1)" "ds_inv rt ct n t1 g1"
    "is_srtp_active (ds_srtp t1) \<longrightarrow> ?s = K_connected" by blast
  show ?case using Cons.IH [OF e(2) t1(2,3)] t1(1) by simp
qed simp

subsection \<open>All sequences\<close>

datatype media_input = On_dtls dtls_input | Send_media_rtp bytes int | Send_media_rtcp bytes int

type_synonym ('s, 'c) media = "bool \<times> 's dtls_transport \<times> 'c dtls_srtp \<times> srtp_global"

definition media_step ::
  "'s openssl \<Rightarrow> 'c libsrtp \<Rightarrow> bool \<Rightarrow> bytes \<Rightarrow> media_input \<Rightarrow> ('s, 'c) media \<Rightarrow> ('s, 'c) media option" where
  "media_step L S owner junk i m = (let (w, d, t, g) = m in case i of
       On_dtls j \<Rightarrow> do {
         (w1, d1, sigs) \<leftarrow> dtls_step L owner j (w, d, []);
         (t1, g1) \<leftarrow> srtp_slots L S sigs t g;
         Some (w1, d1, t1, g1)
       }
     | Send_media_rtp buf ret \<Rightarrow> map_option (\<lambda>(_, d1, t1). (w, d1, t1, g)) (ds_send_rtp S junk ret buf d t)
     | Send_media_rtcp buf ret \<Rightarrow> map_option (\<lambda>(_, d1, t1). (w, d1, t1, g)) (ds_send_rtcp S ret buf d t))"

text \<open>A packet to send has its sequence number, as one that was unprotected has.\<close>

definition input_ok :: "media_input \<Rightarrow> bool" where
  "input_ok i \<longleftrightarrow> (case i of Send_media_rtp buf ret \<Rightarrow> 4 \<le> length buf | _ \<Rightarrow> True)"

inductive media_reach :: "'s openssl \<Rightarrow> 'c libsrtp \<Rightarrow> srtp_global \<Rightarrow> ('s, 'c) media \<Rightarrow> bool" for L S g0 where
  media_start: "media_reach L S g0 (w, DtlsTransport nm, DtlsSrtpTransport nm mux, g0)"
| media_input: "media_reach L S g0 m \<Longrightarrow> input_ok i \<Longrightarrow> media_step L S True junk i m = Some m' \<Longrightarrow> media_reach L S g0 m'"

definition media_inv :: "'s openssl \<Rightarrow> ('c \<Rightarrow> nat) \<Rightarrow> ('c \<Rightarrow> nat) \<Rightarrow> int \<Rightarrow> ('s, 'c) media \<Rightarrow> bool" where
  "media_inv L rt ct n m \<longleftrightarrow> (case m of (w, d, t, g) \<Rightarrow>
     dt_inv L d \<and> ds_inv rt ct n t g \<and> (is_srtp_active (ds_srtp t) \<longrightarrow> dt_state d = K_connected))"

lemma dt_send_packet_frame: "dt_inv L d \<Longrightarrow> dt_inv L (snd (dt_send_packet ret b d)) \<and> dt_state (snd (dt_send_packet ret b d)) = dt_state d"
  using dt_inv_frame [of L d "snd (dt_send_packet ret b d)"] by (simp add: dt_send_packet_def dt_inv_def)

lemma send_rtp_ok:
  assumes lib: "libsrtp_ok S rt ct" and i: "ds_inv rt ct n t g" "dt_inv L d" "4 \<le> length buf"
  shows "\<exists>r d1 t1. ds_send_rtp S junk ret buf d t = Some (r, d1, t1) \<and> ds_inv rt ct n t1 g \<and> dt_inv L d1 \<and>
    is_srtp_active (ds_srtp t1) = is_srtp_active (ds_srtp t) \<and> dt_state d1 = dt_state d"
proof -
  let ?n = "length buf + fst (get_send_auth_tag_len (ds_srtp t))"
  note p = on_session_ok(2) [where h = "protect_rtp S" and p = buf and m = ?n, OF i(1) [unfolded ds_inv_def] session_calls_ok(3) [OF lib, of ?n buf]]
  then obtain o1 u where u: "tr_protect_rtp S buf ?n (ds_srtp t) = Some (o1, u)" "srtp_inv rt ct n u g"
    "is_srtp_active u = is_srtp_active (ds_srtp t)" by (auto simp: tr_protect_rtp_def)
  have "parse_rtp_sequence_number (take ?n (buf @ junk)) \<noteq> None" using i(3) by (auto simp: parse_rtp_sequence_number_def mem_read_def)
  then obtain q where q: "parse_rtp_sequence_number (take ?n (buf @ junk)) = Some q" by blast
  show ?thesis
  proof (cases o1)
    case None
    then show ?thesis using u q i by (auto simp: ds_send_rtp_def Let_def)
  next
    case (Some out)
    obtain x d1 where x: "dt_send_packet ret out d = (x, d1)" by fastforce
    then have "dt_inv L d1" "dt_state d1 = dt_state d" using dt_send_packet_frame [OF i(2), of ret out] by auto
    then show ?thesis using u q i x Some by (auto simp: ds_send_rtp_def Let_def ds_inv_def)
  qed
qed

lemma send_rtcp_ok:
  assumes lib: "libsrtp_ok S rt ct" and i: "ds_inv rt ct n t g" "dt_inv L d"
  shows "\<exists>r d1 t1. ds_send_rtcp S ret buf d t = Some (r, d1, t1) \<and> ds_inv rt ct n t1 g \<and> dt_inv L d1 \<and>
    is_srtp_active (ds_srtp t1) = is_srtp_active (ds_srtp t) \<and> dt_state d1 = dt_state d"
proof -
  let ?n = "length buf + snd (get_send_auth_tag_len (ds_srtp t)) + 4"
  note p = on_session_ok(2) [where h = "protect_rtcp S" and p = buf and m = ?n, OF i(1) [unfolded ds_inv_def] session_calls_ok(4) [OF lib, of ?n buf]]
  then obtain o1 u where u: "tr_protect_rtcp S buf ?n (ds_srtp t) = Some (o1, u)" "srtp_inv rt ct n u g"
    "is_srtp_active u = is_srtp_active (ds_srtp t)" by (auto simp: tr_protect_rtcp_def)
  show ?thesis
  proof (cases o1)
    case None
    then show ?thesis using u i by (auto simp: ds_send_rtcp_def Let_def)
  next
    case (Some out)
    obtain x d1 where x: "dt_send_packet ret out d = (x, d1)" by fastforce
    then have "dt_inv L d1" "dt_state d1 = dt_state d" using dt_send_packet_frame [OF i(2), of ret out] by auto
    then show ?thesis using u i x Some by (auto simp: ds_send_rtcp_def Let_def)
  qed
qed

lemma media_step_ok:
  assumes lib: "openssl_ok L" "libsrtp_ok S rt ct" and i: "media_inv L rt ct n m" "input_ok i0"
  shows "\<exists>m'. media_step L S True junk i0 m = Some m' \<and> media_inv L rt ct n m'"
proof -
  obtain w d t g where m: "m = (w, d, t, g)" by (cases m)
  have j: "dt_inv L d" "ds_inv rt ct n t g" "is_srtp_active (ds_srtp t) \<longrightarrow> dt_state d = K_connected"
    using i(1) m by (simp_all add: media_inv_def)
  show ?thesis
  proof (cases i0)
    case (On_dtls k)
    from dtls_step_ok [OF lib(1), of "(w, d, [])" k] j(1) obtain w1 d1 sigs where
      s: "dtls_step L True k (w, d, []) = Some (w1, d1, sigs)" "keeps_dt L (d, []) (d1, sigs)" by auto
    have log: "log_ok L sigs" "dt_inv L d1" using s(2) by (simp_all add: keeps_dt_def log_ok_def)
    have "told (dt_state d) (d1, sigs)" using told_step [OF s(1)] by (simp add: told_def)
    then have last: "last_state (dt_state d) sigs = dt_state d1" by (simp add: told_def)
    from srtp_slots_ok [OF lib(2) log(1) j(2,3)] obtain t1 g1 where
      "srtp_slots L S sigs t g = Some (t1, g1)" "ds_inv rt ct n t1 g1" "is_srtp_active (ds_srtp t1) \<longrightarrow> dt_state d1 = K_connected"
      unfolding last by blast
    then show ?thesis using On_dtls m s(1) log(2) by (simp add: media_step_def media_inv_def)
  next
    case (Send_media_rtp buf ret)
    from send_rtp_ok [OF lib(2) j(2,1), of buf junk ret] i(2) Send_media_rtp m j(3) show ?thesis
      by (auto simp: media_step_def media_inv_def input_ok_def)
  next
    case (Send_media_rtcp buf ret)
    from send_rtcp_ok [OF lib(2) j(2,1), of ret buf] Send_media_rtcp m j(3) show ?thesis
      by (auto simp: media_step_def media_inv_def)
  qed
qed

lemma media_reach_inv:
  assumes "openssl_ok L" "libsrtp_ok S rt ct" "usage g0 n" "media_reach L S g0 m"
  shows "media_inv L rt ct n m"
  using assms(4)
proof induction
  case (media_start w nm mux)
  then show ?case using assms(3)
    by (auto simp: media_inv_def dt_inv_def DtlsTransport_def DtlsSrtpTransport_def ds_inv_def srtp_inv_def SrtpTransport_def is_srtp_active_def usage_def)
next
  case (media_input m i junk m')
  from media_step_ok [OF assms(1,2) media_input.IH media_input.hyps(2), of junk] media_input.hyps(3) show ?case by auto
qed

subsection \<open>A run\<close>

fun media_run :: "'s openssl \<Rightarrow> 'c libsrtp \<Rightarrow> media_input list \<Rightarrow> ('s, 'c) media \<Rightarrow> ('s, 'c) media option" where
  "media_run L S [] m = Some m"
| "media_run L S (i # is) m = do { m1 \<leftarrow> media_step L S True [] i m; media_run L S is m1 }"

lemma media_run_reach:
  "media_reach L S g0 m \<Longrightarrow> list_all input_ok is \<Longrightarrow> media_run L S is m = Some m' \<Longrightarrow> media_reach L S g0 m'"
proof (induction "is" arbitrary: m)
  case (Cons i "is")
  then obtain m1 where m1: "media_step L S True [] i m = Some m1" "media_run L S is m1 = Some m'" by (auto simp: bind_eq_Some_conv)
  have "media_reach L S g0 m1" using media_input [OF Cons.prems(1) _ m1(1)] Cons.prems(2) by simp
  then show ?case using Cons.IH Cons.prems(2) m1(2) by simp
qed simp

text \<open>A library for evaluation: it appends a tag of ten bytes.\<close>

definition demo_srtp :: "srtp_policy libsrtp" where
  "demo_srtp = \<lparr>sl_init = True, sl_install_event_handler = True, sl_rtp_tag = (\<lambda>_. Some 10), sl_rtcp_tag = (\<lambda>_. Some 10),
     sl_create = Some, sl_update = (\<lambda>pol _. Some pol),
     sl_protect = (\<lambda>p c. (Some (p @ replicate 10 0), c)), sl_protect_rtcp = (\<lambda>p c. (Some (p @ replicate 14 0), c)),
     sl_unprotect = (\<lambda>p c. (if length p < 10 then None else Some (take (length p - 10) p), c)),
     sl_unprotect_rtcp = (\<lambda>p c. (if length p < 14 then None else Some (take (length p - 14) p), c))\<rparr>"

lemma demo_srtp_ok: "libsrtp_ok demo_srtp (\<lambda>_. 10) (\<lambda>_. 10)"
  by (auto simp: libsrtp_ok_def demo_srtp_def)

definition demo_start :: "(nat, srtp_policy) media" where
  "demo_start = (False, DtlsTransport ''audio'', DtlsSrtpTransport ''audio'' True, \<lparr>g_libsrtp_usage_count = 0, g_running = 0\<rparr>)"

definition demo_protected :: "(nat, srtp_policy) media" where
  "demo_protected = the (media_run demo_ssl demo_srtp (map On_dtls demo_inputs) demo_start)"

lemma demo_protected_run: "media_run demo_ssl demo_srtp (map On_dtls demo_inputs) demo_start = Some demo_protected"
proof -
  have "media_run demo_ssl demo_srtp (map On_dtls demo_inputs) demo_start \<noteq> None" by code_simp
  then show ?thesis by (auto simp: demo_protected_def)
qed

lemma demo_protected_reach: "media_reach demo_ssl demo_srtp \<lparr>g_libsrtp_usage_count = 0, g_running = 0\<rparr> demo_protected"
  by (rule media_run_reach [OF media_start _ demo_protected_run [unfolded demo_start_def]])
    (simp add: demo_inputs_def input_ok_def)

lemma demo_usage: "usage \<lparr>g_libsrtp_usage_count = 0, g_running = 0\<rparr> 0"
  by (simp add: usage_def)

lemma active_verified:
  assumes "openssl_ok L" "libsrtp_ok S rt ct" "usage g0 n" "media_reach L S g0 (w, d, t, g)" "is_srtp_active (ds_srtp t)"
  shows "dt_state d = K_connected \<and> (\<exists>k a cert. dt_dtls d = Some (k, a) \<and> sa_state a = SSL_CONNECTED \<and> sa_chain a = Some cert \<and>
      os_cert_digest L (dt_fp_alg d) cert = Some (dt_fp_value d))"
proof -
  have "dt_inv L d" "dt_state d = K_connected" using media_reach_inv [OF assms(1-4)] assms(5) by (simp_all add: media_inv_def)
  then show ?thesis by (auto simp: dt_inv_def dt_holds_def adapter_ok_def peer_matches_def digest_of_def
      HasPeerCertificateDigest_def split: option.splits)
qed

lemma protected_by:
  assumes "tr_protect_rtp S p m t = Some (Some out, u)"
  shows "\<exists>s c. tr_send t = Some s \<and> ss_session s = Some c \<and> fst (sl_protect S p c) = Some out"
proof -
  from assms obtain s v where s: "tr_send t = Some s" "protect_rtp S p m s = Some (Some out, v)"
    by (auto simp: tr_protect_rtp_def on_send_session_def bind_eq_Some_conv split: if_splits)
  then obtain c where "ss_session s = Some c" "in_place m (sl_protect S p c) s = Some (Some out, v)"
    by (cases "ss_session s") (auto simp: protect_rtp_def split: if_splits)
  then show ?thesis using s(1) by (auto simp: in_place_def case_prod_unfold split: if_splits)
qed

definition policy_of :: "int \<Rightarrow> ssrc_type \<Rightarrow> bytes \<Rightarrow> srtp_policy" where
  "policy_of cs type key = \<lparr>po_profile = cs, po_type = type, po_ssrc = 0, po_key = key, po_window_size = 1024, po_allow_repeat_tx = True\<rparr>"

lemma set_key_creates: "set_key S type cs key SrtpSession g = (True, s, g1) \<Longrightarrow> \<exists>c. ss_session s = Some c \<and> sl_create S (policy_of cs type key) = Some c"
  by (auto simp: set_key_def do_set_key_def SrtpSession_def policy_of_def Let_def split: bool.splits prod.splits option.splits)

lemma set_rtp_params_creates:
  assumes "tr_send t = None" "set_rtp_params S scs sk rcs rk t g = Some (ok, t1, g1)" "is_srtp_active t1"
  shows "\<exists>s r. tr_send t1 = Some s \<and> tr_recv t1 = Some r \<and> (\<exists>c. ss_session s = Some c \<and> sl_create S (policy_of scs Ssrc_any_outbound sk) = Some c) \<and>
    (\<exists>c. ss_session r = Some c \<and> sl_create S (policy_of rcs Ssrc_any_inbound rk) = Some c)"
proof -
  let ?g = "snd (create_srtp_session t g)"
  obtain ok1 s g2 where s: "set_key S Ssrc_any_outbound scs sk SrtpSession ?g = (ok1, s, g2)" by (metis prod_cases3)
  obtain ok2 r g3 where r: "set_key S Ssrc_any_inbound rcs rk SrtpSession g2 = (ok2, r, g3)" by (metis prod_cases3)
  have ok: ok1 ok2 "tr_send t1 = Some s" "tr_recv t1 = Some r"
    using assms s r by (auto simp: set_rtp_params_def create_srtp_session_def reset_params_def is_srtp_active_def Let_def split: if_splits)
  then show ?thesis using set_key_creates [of S Ssrc_any_outbound scs sk ?g s g2] set_key_creates [of S Ssrc_any_inbound rcs rk g2 r g3] s r by simp
qed

subsection \<open>Properties\<close>



text \<open>C8: In every reachable state SRTP is active only over a connected DTLS transport
  whose peer was verified, and libsrtp's usage count is two for an active transport, and it is
  initialised exactly while the count is positive.\<close>
theorem srtp_follows_dtls:
  assumes "openssl_ok L" "libsrtp_ok S rt ct" "usage g0 n" "media_reach L S g0 (w, d, t, g)"
  shows "g_libsrtp_usage_count g = n + (if is_srtp_active (ds_srtp t) then 2 else 0) \<and>
    g_running g = of_bool (0 < g_libsrtp_usage_count g) \<and>
    (is_srtp_active (ds_srtp t) \<longrightarrow> dt_state d = K_connected \<and>
       (\<exists>k a cert. dt_dtls d = Some (k, a) \<and> sa_state a = SSL_CONNECTED \<and> sa_chain a = Some cert \<and>
          os_cert_digest L (dt_fp_alg d) cert = Some (dt_fp_value d)))"
proof -
  have i: "srtp_inv rt ct n (ds_srtp t) g" using media_reach_inv [OF assms] by (simp add: media_inv_def ds_inv_def)
  then have "g_libsrtp_usage_count g = n + (if is_srtp_active (ds_srtp t) then 2 else 0) \<and> g_running g = of_bool (0 < g_libsrtp_usage_count g)"
    by (auto simp: srtp_inv_def usage_def is_srtp_active_def)
  then show ?thesis using active_verified [OF assms] by blast
qed

theorem srtp_follows_dtls_witness:
  "is_srtp_active (ds_srtp (fst (snd (snd demo_protected)))) \<and> dt_state (fst (snd demo_protected)) = K_connected"
proof -
  have a: "is_srtp_active (ds_srtp (fst (snd (snd demo_protected))))" by code_simp
  have "media_reach demo_ssl demo_srtp \<lparr>g_libsrtp_usage_count = 0, g_running = 0\<rparr>
      (fst demo_protected, fst (snd demo_protected), fst (snd (snd demo_protected)), snd (snd (snd demo_protected)))"
    using demo_protected_reach by simp
  from srtp_follows_dtls [OF demo_ssl_ok demo_srtp_ok demo_usage this] a show ?thesis by blast
qed

text \<open>C13: Sending an RTP packet either sends nothing and returns -1, or sends exactly
  libsrtp's protection of the packet under the session keys of a verified peer, with no more than
  the tag added.\<close>
theorem media_protected:
  assumes "openssl_ok L" "libsrtp_ok S rt ct" "usage g0 n" "media_reach L S g0 (w, d, t, g)"
    and "ds_send_rtp S junk ret buf d t = Some (r, d1, t1)"
  shows "dt_out d1 = dt_out d \<and> r = -1 \<or>
    (\<exists>s c out k a cert. tr_send (ds_srtp t) = Some s \<and> ss_session s = Some c \<and> fst (sl_protect S buf c) = Some out \<and>
       dt_out d1 = dt_out d @ [out] \<and> length out \<le> length buf + rt c \<and>
       dt_state d = K_connected \<and> dt_dtls d = Some (k, a) \<and> sa_chain a = Some cert \<and>
       os_cert_digest L (dt_fp_alg d) cert = Some (dt_fp_value d))"
proof (cases "is_srtp_active (ds_srtp t)")
  case False
  then show ?thesis using assms(5) by (simp add: ds_send_rtp_def)
next
  case True
  from active_verified [OF assms(1-4) True] obtain k a cert where peer: "dt_state d = K_connected" "dt_dtls d = Some (k, a)"
    "sa_chain a = Some cert" "os_cert_digest L (dt_fp_alg d) cert = Some (dt_fp_value d)" by blast
  let ?n = "length buf + fst (get_send_auth_tag_len (ds_srtp t))"
  from assms(5) True obtain q o1 u where q: "parse_rtp_sequence_number (take ?n (buf @ junk)) = Some q"
    and u: "tr_protect_rtp S buf ?n (ds_srtp t) = Some (o1, u)"
    by (auto simp: ds_send_rtp_def bind_eq_Some_conv Let_def)
  show ?thesis
  proof (cases o1)
    case None
    then show ?thesis using assms(5) True q u by (simp add: ds_send_rtp_def Let_def)
  next
    case (Some out)
    then have "dt_out d1 = dt_out d @ [out]" using assms(5) True q u by (auto simp: ds_send_rtp_def dt_send_packet_def Let_def)
    moreover obtain s c where s: "tr_send (ds_srtp t) = Some s" "ss_session s = Some c" "fst (sl_protect S buf c) = Some out"
      using protected_by [OF u [unfolded Some]] by blast
    moreover have "length out \<le> length buf + rt c" using assms(2) s(3) by (simp add: libsrtp_ok_def)
    ultimately show ?thesis using peer by blast
  qed
qed

theorem media_protected_witness:
  "\<exists>r d1 t1. ds_send_rtp demo_srtp [] 23 demo_rtp (fst (snd demo_protected)) (fst (snd (snd demo_protected))) = Some (r, d1, t1) \<and>
     dt_state (fst (snd demo_protected)) = K_connected"
proof -
  let ?r = "ds_send_rtp demo_srtp [] 23 demo_rtp (fst (snd demo_protected)) (fst (snd (snd demo_protected)))"
  have n: "?r \<noteq> None" "fst (the ?r) \<noteq> -1" by code_simp+
  then obtain r d1 t1 where r: "?r = Some (r, d1, t1)" by auto
  have "media_reach demo_ssl demo_srtp \<lparr>g_libsrtp_usage_count = 0, g_running = 0\<rparr>
      (fst demo_protected, fst (snd demo_protected), fst (snd (snd demo_protected)), snd (snd (snd demo_protected)))"
    using demo_protected_reach by simp
  from media_protected [OF demo_ssl_ok demo_srtp_ok demo_usage this r] r n(2) show ?thesis by auto
qed

text \<open>C14: When DTLS connects, the sessions are made from the exported keying material as
  RFC 5764 orders it for a server: it sends with the server's key and salt and receives with the
  client's.\<close>
theorem srtp_keyed:
  assumes "dt_active d" "dt_state d = K_connected" "dt_dtls d = Some (k, a)" "sa_state a = SSL_CONNECTED" "sa_ssl a = Some ssl"
    and "os_srtp_profile L ssl = Some cs" "GetSrtpKeyAndSaltLengths cs = Some (kl, sl)"
    and "os_export L ''EXTRACTOR-dtls_srtp'' (2 * kl + 2 * sl) ssl = Some (client_key @ server_key @ client_salt @ server_salt)"
    and "length client_key = kl" "length server_key = kl" "length client_salt = sl" "length server_salt = sl"
    and "tr_send (ds_srtp t) = None" "on_dtls_state L S K_connected d t g = Some (t1, g1)" "is_srtp_active (ds_srtp t1)"
  shows "\<exists>s r. tr_send (ds_srtp t1) = Some s \<and> tr_recv (ds_srtp t1) = Some r \<and>
    (\<exists>c. ss_session s = Some c \<and> sl_create S (policy_of cs Ssrc_any_outbound (server_key @ server_salt)) = Some c) \<and>
    (\<exists>c. ss_session r = Some c \<and> sl_create S (policy_of cs Ssrc_any_inbound (client_key @ client_salt)) = Some c)"
proof -
  have no: "\<not> is_srtp_active (ds_srtp t)" using assms(13) by (simp add: is_srtp_active_def)
  have "get_srtp_crypto_suite L d = Some (Some cs)" "export_keying_material L l n d = Some (os_export L l n ssl)" for l n
    using assms(2-6) by (simp_all add: get_srtp_crypto_suite_def GetDtlsSrtpCryptoSuite_def export_keying_material_def ExportKeyingMaterial_def)
  then have "extract_params L d = Some (Some (cs, server_key @ server_salt, client_key @ client_salt))"
    using assms(1,7-12) by (simp add: extract_params_def split_keys_def k_dtls_srtp_exporter_label_def Let_def mult.commute)
  then obtain ok u where "set_rtp_params S cs (server_key @ server_salt) cs (client_key @ client_salt) (ds_srtp t) g = Some (ok, u, g1)" "ds_srtp t1 = u"
    using assms(14,15) no by (auto simp: on_dtls_state_def maybe_setup_dtls_srtp_def setup_dtls_srtp_def bind_eq_Some_conv split: if_splits)
  then show ?thesis using set_rtp_params_creates [OF assms(13)] assms(15) by blast
qed

definition demo_keys :: "nat \<Rightarrow> nat \<Rightarrow> bytes" where
  "demo_keys i j = map of_nat [i..<j]"

theorem srtp_keyed_witness:
  "\<exists>t1 g1 s. on_dtls_state demo_ssl demo_srtp K_connected (fst (snd demo_protected)) (DtlsSrtpTransport ''audio'' True)
       \<lparr>g_libsrtp_usage_count = 0, g_running = 0\<rparr> = Some (t1, g1) \<and> tr_send (ds_srtp t1) = Some s \<and>
     ss_session s = Some (policy_of 1 Ssrc_any_outbound (demo_keys 16 32 @ demo_keys 46 60))"
proof -
  let ?d = "fst (snd demo_protected)" and ?t = "DtlsSrtpTransport ''audio'' True"
  let ?r = "on_dtls_state demo_ssl demo_srtp K_connected ?d ?t \<lparr>g_libsrtp_usage_count = 0, g_running = 0\<rparr>"
  let ?a = "snd (the (dt_dtls ?d))"
  have d: "dt_active ?d" "dt_state ?d = K_connected" "dt_dtls ?d = Some (fst (the (dt_dtls ?d)), ?a)" "sa_state ?a = SSL_CONNECTED"
    "sa_ssl ?a = Some 2" by code_simp+
  have l: "os_srtp_profile demo_ssl 2 = Some 1" "GetSrtpKeyAndSaltLengths 1 = Some (16, 14)"
    "os_export demo_ssl ''EXTRACTOR-dtls_srtp'' (2 * 16 + 2 * 14) 2 = Some (demo_keys 0 16 @ demo_keys 16 32 @ demo_keys 32 46 @ demo_keys 46 60)"
    "length (demo_keys 0 16) = 16" "length (demo_keys 16 32) = 16" "length (demo_keys 32 46) = 14" "length (demo_keys 46 60) = 14"
    "tr_send (ds_srtp ?t) = None" by code_simp+
  have r: "?r \<noteq> None" "is_srtp_active (ds_srtp (fst (the ?r)))" by code_simp+
  then obtain t1 g1 where t1: "?r = Some (t1, g1)" by auto
  then have "is_srtp_active (ds_srtp t1)" using r(2) by simp
  from srtp_keyed [OF d l t1 this] t1 show ?thesis by (auto simp: demo_srtp_def)
qed

end
