(* ===== verification/Ice_Signals.thy ===== *)
theory Ice_Signals
  imports Ice_Channel
begin

text \<open>
  The signals of an ICE channel tell its state: an operation that begins with no signal pending ends
  in the state it signalled last, and neither completed nor closed is ever signalled.
\<close>

definition live_state :: "channel_state \<Rightarrow> bool" where
  "live_state st \<longleftrightarrow> st \<noteq> k_completed \<and> st \<noteq> k_closed"

definition last_ice_state :: "channel_state \<Rightarrow> channel_event list \<Rightarrow> channel_state" where
  "last_ice_state s l = fold (\<lambda>e st. case e of Signal_ice_state_changed s' \<Rightarrow> s' | _ \<Rightarrow> st) l s"

lemma last_ice_state_simps [simp]:
  "last_ice_state s [] = s" "last_ice_state s (l @ m) = last_ice_state (last_ice_state s l) m"
  "last_ice_state s (e # m) = last_ice_state (case e of Signal_ice_state_changed s' \<Rightarrow> s' | _ \<Rightarrow> s) m"
  by (simp_all add: last_ice_state_def)

definition ch_told :: "ice_channel \<Rightarrow> ice_channel \<Rightarrow> bool" where
  "ch_told c0 ch \<longleftrightarrow> ch_transport_name ch = ch_transport_name c0 \<and> ch_component ch = ch_component c0 \<and>
     last_ice_state (ch_state c0) (ch_events ch) = ch_state ch \<and> live_state (ch_state ch) \<and>
     (\<forall>st. Signal_ice_state_changed st \<in> set (ch_events ch) \<longrightarrow> live_state st)"

definition tells :: "(ice_channel \<Rightarrow> ice_channel option) \<Rightarrow> bool" where
  "tells f \<longleftrightarrow> (\<forall>c0 ch ch'. f ch = Some ch' \<longrightarrow> ch_told c0 ch \<longrightarrow> ch_told c0 ch')"

named_theorems tell "operations of a channel that signal its state"

lemma tellsI: "(\<And>c0 ch ch'. f ch = Some ch' \<Longrightarrow> ch_told c0 ch \<Longrightarrow> ch_told c0 ch') \<Longrightarrow> tells f"
  by (simp add: tells_def)

lemma tellsD: "tells f \<Longrightarrow> f ch = Some ch' \<Longrightarrow> ch_told c0 ch \<Longrightarrow> ch_told c0 ch'"
  by (simp add: tells_def)

lemma live_computed: "live_state (compute_ice_transport_state b ch)"
  by (simp add: compute_ice_transport_state_def live_state_def)

lemma ch_told_frame [simp]:
  "ch_told c0 (ch\<lparr>ch_conns := a\<rparr>) = ch_told c0 ch" "ch_told c0 (ch\<lparr>ch_ports := b\<rparr>) = ch_told c0 ch"
  "ch_told c0 (ch\<lparr>ch_controller := c\<rparr>) = ch_told c0 ch" "ch_told c0 (ch\<lparr>ch_selected := d\<rparr>) = ch_told c0 ch"
  "ch_told c0 (ch\<lparr>ch_timer := e\<rparr>) = ch_told c0 ch" "ch_told c0 (ch\<lparr>ch_start_pinging := f\<rparr>) = ch_told c0 ch"
  "ch_told c0 (ch\<lparr>ch_cur_ping_interval := g\<rparr>) = ch_told c0 ch" "ch_told c0 (ch\<lparr>ch_last_ping_sent_ms := h\<rparr>) = ch_told c0 ch"
  "ch_told c0 (ch\<lparr>had_connection := i\<rparr>) = ch_told c0 ch" "ch_told c0 (ch\<lparr>has_been_connection := j\<rparr>) = ch_told c0 ch"
  "ch_told c0 (ch\<lparr>ch_next_conn := k\<rparr>) = ch_told c0 ch" "ch_told c0 (ch\<lparr>ch_ice_params := l\<rparr>) = ch_told c0 ch"
  "ch_told c0 (ch\<lparr>ch_remote_ice_params := m\<rparr>) = ch_told c0 ch" "ch_told c0 (ch\<lparr>ch_local_candidates := n\<rparr>) = ch_told c0 ch"
  "ch_told c0 (ch\<lparr>ch_now := t\<rparr>) = ch_told c0 ch" "ch_told c0 (ch\<lparr>ch_writable := w\<rparr>) = ch_told c0 ch"
  "ch_told c0 (ch\<lparr>ch_receiving := r\<rparr>) = ch_told c0 ch" "ch_told c0 (upd_port pi pf ch) = ch_told c0 ch"
  "ch_told c0 (emit (Signal_read_packet buf ts) ch) = ch_told c0 ch" "ch_told c0 (emit (Signal_writable_state w) ch) = ch_told c0 ch"
  "ch_told c0 (emit (Signal_receiving_state w) ch) = ch_told c0 ch" "ch_told c0 (emit (Signal_candidate_allocate_done cs) ch) = ch_told c0 ch"
  "ch_told c0 (add_connection cid ch) = ch_told c0 ch"
  by (auto simp: ch_told_def upd_port_def emit_def add_connection_def)

lemma told_set [simp]: "ch_told c0 (set_writable w ch) = ch_told c0 ch" "ch_told c0 (set_receiving w ch) = ch_told c0 ch"
  by (simp_all add: set_writable_def set_receiving_def Let_def)

lemma told_new_state: "ch_told c0 ch \<Longrightarrow> live_state st \<Longrightarrow> ch_told c0 (emit (Signal_ice_state_changed st) (ch\<lparr>ch_state := st\<rparr>))"
  by (auto simp: ch_told_def emit_def)

lemma tells_update_state [tell]: "tells update_state"
  by (rule tellsI) (auto simp: update_state_def bind_eq_Some_conv Let_def intro!: told_new_state live_computed split: if_splits)

lemma told_upd_conn: "upd_conn i f ch = Some ch' \<Longrightarrow> ch_told c0 ch' = ch_told c0 ch"
  by (auto simp: upd_conn_def)

lemma tells_upd_conn [tell]: "tells (upd_conn i f)"
  by (rule tellsI) (simp add: told_upd_conn)

lemma tells_switch [tell]: "tells (switch_selected_connection conn)"
  by (rule tellsI) (auto simp: switch_selected_connection_def bind_eq_Some_conv Let_def told_upd_conn split: option.splits)

lemma tells_maybe_switch [tell]: "tells (maybe_switch_selected_connection conn)"
  by (rule tellsI) (auto simp: maybe_switch_selected_connection_def split: if_splits dest: tellsD [OF tells_switch])

lemma tells_start_pinging [tell]: "tells maybe_start_pinging"
  by (rule tellsI) (auto simp: maybe_start_pinging_def bind_eq_Some_conv split: if_splits)

lemma tells_sort [tell]: "tells sort_connection_and_update_state"
  by (rule tellsI) (auto simp: sort_connection_and_update_state_def bind_eq_Some_conv
      dest!: tellsD [OF tells_maybe_switch] tellsD [OF tells_update_state] tellsD [OF tells_start_pinging])

lemma tells_state_change [tell]: "tells (on_connection_state_change i)"
  using tells_sort by (simp add: tells_def on_connection_state_change_def)

lemma tells_destroyed [tell]: "tells (on_connection_destroyed i)"
  by (rule tellsI) (auto simp: on_connection_destroyed_def bind_eq_Some_conv Let_def split: if_splits
      dest!: tellsD [OF tells_switch] tellsD [OF tells_update_state] tellsD [OF tells_sort])

lemma tells_update_receiving [tell]: "tells (conn_update_receiving i now)"
  by (rule tellsI) (auto simp: conn_update_receiving_def bind_eq_Some_conv Let_def told_upd_conn split: if_splits dest!: tellsD [OF tells_state_change])

lemma tells_set_write_state [tell]: "tells (conn_set_write_state i st)"
  by (rule tellsI) (auto simp: conn_set_write_state_def bind_eq_Some_conv told_upd_conn split: if_splits dest!: tellsD [OF tells_state_change])

lemma tells_set_state [tell]: "tells (conn_set_state i st)"
  by (rule tellsI) (simp add: conn_set_state_def told_upd_conn)

lemma tells_ping_response [tell]: "tells (received_ping_response i r)"
  by (rule tellsI) (auto simp: received_ping_response_def bind_eq_Some_conv told_upd_conn
      dest!: tellsD [OF tells_update_receiving] tellsD [OF tells_set_write_state] tellsD [OF tells_set_state])

lemma tells_destroy [tell]: "tells (conn_destroy i)"
  by (rule tellsI) (auto simp: conn_destroy_def bind_eq_Some_conv dest!: tellsD [OF tells_destroyed])

lemma tells_fail [tell]: "tells (conn_fail_and_destroy i)"
  by (rule tellsI) (auto simp: conn_fail_and_destroy_def bind_eq_Some_conv dest!: tellsD [OF tells_set_state] tellsD [OF tells_destroy])

lemma tells_conn_update_state [tell]: "tells (conn_update_state i now)"
proof (rule tellsI)
  fix c0 ch ch' assume "conn_update_state i now ch = Some ch'" and t: "ch_told c0 ch"
  then obtain c ch1 c1 ch2 where
    1: "(if write_state c = STATE_WRITABLE \<and> too_many_ping_fails c CONNECTION_WRITE_CONNECT_FAILS (clamped_rtt c) now \<and>
        too_long_without_response c CONNECTION_WRITE_CONNECT_TIMEOUT now then conn_set_write_state i STATE_WRITE_UNRELIABLE ch else Some ch) = Some ch1"
    and 2: "(if (write_state c1 = STATE_WRITE_UNRELIABLE \<or> write_state c1 = STATE_WRITE_INIT) \<and>
        too_long_without_response c1 CONNECTION_WRITE_TIMEOUT now then conn_set_write_state i STATE_WRITE_TIMEOUT ch1 else Some ch1) = Some ch2"
    and 3: "conn_update_receiving i now ch2 = Some ch'"
    by (auto simp only: conn_update_state_def bind_eq_Some_conv)
  have "ch_told c0 ch1" using 1 t by (auto split: if_splits dest: tellsD [OF tells_set_write_state])
  then have "ch_told c0 ch2" using 2 by (auto split: if_splits dest: tellsD [OF tells_set_write_state])
  then show "ch_told c0 ch'" using 3 by (rule tellsD [OF tells_update_receiving, rotated])
qed

lemma tells_delete_request [tell]: "tells (delete_request i tid)"
  by (rule tellsI) (auto simp: delete_request_def bind_eq_Some_conv told_upd_conn)

lemma tells_response [tell]: "tells (on_connection_request_response i rq)"
  by (rule tellsI) (auto simp: on_connection_request_response_def dest: tellsD [OF tells_ping_response])

lemma tells_error_response [tell]: "tells (on_connection_request_error_response i msg)"
  by (rule tellsI) (auto simp: on_connection_request_error_response_def Let_def split: if_splits dest: tellsD [OF tells_fail])

lemma tells_check_response [tell]: "tells (check_response i msg)"
  by (rule tellsI) (auto simp: check_response_def bind_eq_Some_conv split: option.splits if_splits
      dest!: tellsD [OF tells_response] tellsD [OF tells_error_response] tellsD [OF tells_delete_request])

lemma tells_send_request [tell]: "tells (send_request dg i rq)"
  by (rule tellsI) (auto simp: send_request_def bind_eq_Some_conv Let_def told_upd_conn split: option.splits)

lemma tells_conn_ping [tell]: "tells (conn_ping dg tid i now)"
  by (rule tellsI) (auto simp: conn_ping_def bind_eq_Some_conv Let_def told_upd_conn dest!: tellsD [OF tells_send_request] tellsD [OF tells_set_state])

lemma tells_binding_request [tell]: "tells (handle_stun_binding_request dg i msg)"
  by (rule tellsI) (auto simp: handle_stun_binding_request_def bind_eq_Some_conv)

lemma tells_conn_packet [tell]: "tells (conn_on_read_packet dg i buf ts)"
  by (rule tellsI) (auto simp: conn_on_read_packet_def bind_eq_Some_conv Let_def split: option.splits if_splits
      dest!: tellsD [OF tells_binding_request] tellsD [OF tells_check_response])

lemma tells_unknown_address [tell]: "tells (on_unknown_address dg pi addr msg u)"
  by (rule tellsI) (auto simp: on_unknown_address_def create_connection_def bind_eq_Some_conv Let_def split: option.splits
      dest!: tellsD [OF tells_binding_request] tellsD [OF tells_sort])

lemma tells_port_packet [tell]: "tells (port_on_read_packet dg pi buf addr ts)"
  by (rule tellsI) (auto simp: port_on_read_packet_def bind_eq_Some_conv Let_def split: option.splits if_splits
      dest!: tellsD [OF tells_conn_packet] tellsD [OF tells_unknown_address])

lemma tells_set_params_all: "tells (set_params_all params is)"
  by (induction "is") (auto simp: tells_def bind_eq_Some_conv told_upd_conn)

lemma tells_remote_params [tell]: "tells (set_remote_ice_params params)"
  by (rule tellsI) (auto simp: set_remote_ice_params_def bind_eq_Some_conv dest!: tellsD [OF tells_set_params_all] tellsD [OF tells_sort])

lemma told_gather_ports: "ch_told c0 (gather_ports ntop pton bind_port lo hi ns ch) = ch_told c0 ch"
  by (induction ns arbitrary: ch) (auto simp: Let_def split: prod.split option.split)

lemma tells_gathering [tell]: "tells (\<lambda>ch. Some (gathering_candidate ntop pton bind_port lo hi ns ch))"
  by (rule tellsI) (auto simp: gathering_candidate_def told_gather_ports Let_def split: if_splits)

lemma tells_update_connection_states: "tells (update_connection_states is now)"
  by (induction "is") (auto simp: tells_def bind_eq_Some_conv dest: tellsD [OF tells_conn_update_state])

lemma tells_ping_selected: "tells (\<lambda>ch. case conn of None \<Rightarrow> Some ch
    | Some i \<Rightarrow> do { c \<leftarrow> ping_connection dg tid i ch; Some (c\<lparr>ch_controller := mark_connection_pinged i (ch_controller c)\<rparr>) })"
  by (rule tellsI) (auto simp: ping_connection_def bind_eq_Some_conv split: option.splits dest!: tellsD [OF tells_conn_ping])

lemma tells_check_and_ping [tell]: "tells (on_check_and_ping dg tid)"
  by (rule tellsI) (auto simp: on_check_and_ping_def bind_eq_Some_conv Let_def split: if_split_asm
      dest!: tellsD [OF tells_update_connection_states] tellsD [OF tells_ping_selected])

end
