(* ===== verification/Ice_Agent.thy ===== *)
theory Ice_Agent
  imports Ice_Signals
begin

text \<open>
  \<open>ice/ice_agent.cpp\<close>: the channels of a peer connection and the state they have together.  Channels
  are named by transport and component; none is removed while the agent lives.
\<close>

record ice_agent =
  ag_channels :: "ice_channel list"
  ag_state :: channel_state

definition IceAgent :: ice_agent where
  "IceAgent = \<lparr>ag_channels = [], ag_state = k_new\<rparr>"

definition is_channel :: "string \<Rightarrow> ice_component \<Rightarrow> ice_channel \<Rightarrow> bool" where
  "is_channel nm cmp ch \<longleftrightarrow> ch_transport_name ch = nm \<and> ch_component ch = cmp"

definition get_channel :: "string \<Rightarrow> ice_component \<Rightarrow> ice_agent \<Rightarrow> ice_channel option" where
  "get_channel nm cmp ag = find (is_channel nm cmp) (ag_channels ag)"

definition create_channel :: "string \<Rightarrow> ice_component \<Rightarrow> ice_agent \<Rightarrow> ice_agent" where
  "create_channel nm cmp ag = (if get_channel nm cmp ag \<noteq> None then ag
     else ag\<lparr>ag_channels := ag_channels ag @ [IceTransportChannel nm cmp]\<rparr>)"

fun put_first :: "('a \<Rightarrow> bool) \<Rightarrow> 'a \<Rightarrow> 'a list \<Rightarrow> 'a list" where
  "put_first P y [] = []"
| "put_first P y (x # xs) = (if P x then y # xs else x # put_first P y xs)"

text \<open>The channel itself changes; the agent holds a pointer to it.\<close>

definition put_channel :: "string \<Rightarrow> ice_component \<Rightarrow> ice_channel \<Rightarrow> ice_agent \<Rightarrow> ice_agent" where
  "put_channel nm cmp ch ag = ag\<lparr>ag_channels := put_first (is_channel nm cmp) ch (ag_channels ag)\<rparr>"

definition set_ice_param :: "string \<Rightarrow> ice_component \<Rightarrow> ice_parameters \<Rightarrow> ice_agent \<Rightarrow> ice_agent" where
  "set_ice_param nm cmp params ag = (case get_channel nm cmp ag of None \<Rightarrow> ag
     | Some ch \<Rightarrow> put_channel nm cmp (set_ice_params params ch) ag)"

subsection \<open>The state of all channels\<close>

definition total_ice :: "channel_state \<Rightarrow> channel_state list \<Rightarrow> nat" where
  "total_ice st sts = length (filter (\<lambda>s. s = st) sts)"

definition aggregate_state :: "channel_state list \<Rightarrow> channel_state" where
  "aggregate_state sts = (if 0 < total_ice k_failed sts then k_failed
     else if 0 < total_ice k_disconnected sts then k_disconnected
     else if total_ice k_new sts + total_ice k_closed sts = length sts then k_new
     else if 0 < total_ice k_new sts + total_ice k_checking sts then k_checking
     else if total_ice k_completed sts + total_ice k_closed sts = length sts then k_completed
     else if total_ice k_connected sts + total_ice k_completed sts + total_ice k_closed sts = length sts then k_connected
     else k_new)"

text \<open>The values of \<open>signal_ice_state\<close>, and the agent.\<close>

definition agent_update_state :: "ice_agent \<Rightarrow> channel_state list \<times> ice_agent" where
  "agent_update_state ag = (let ice_state = aggregate_state (map ch_state (ag_channels ag)) in
     if ag_state ag = ice_state then ([], ag)
     else ((if ag_state ag = k_checking \<and> ice_state = k_completed then [k_connected] else []) @ [ice_state],
       ag\<lparr>ag_state := ice_state\<rparr>))"

end
