(* ===== verification/Transport_Controller.thy ===== *)
theory Transport_Controller
  imports Media_Transport Ice_Agent Peer_Connection "HOL-Library.AList"
begin

text \<open>
  \<open>pc/transport_controller.cpp\<close>, with the signals that run between the ICE channels, the agent, the DTLS
  and the SRTP transports.  An operation of a channel or of a DTLS transport returns the signals it
  raised; they are delivered in order to the slots, in the order the slots were connected: of a
  channel the agent and then the DTLS transport, of a DTLS transport the controller and then the SRTP
  transport.  A slot sees the object as it was when it signalled.  Packets the DTLS transport gives
  to its channel are kept in \<open>dt_out\<close>.
\<close>

datatype controller_signal =
    Candidates_allocated string ice_component "candidate list"
  | Connection_state pc_state
  | Controller_rtp bytes int
  | Controller_rtcp bytes int

record ('s, 'c) controller =
  tc_agent :: ice_agent
  tc_dtls :: "(string \<times> 's dtls_transport) list"
  tc_srtp :: "(string \<times> 'c dtls_srtp) list"
  tc_certificate :: "nat option"
  tc_pc_state :: pc_state
  tc_ice_slots :: nat
  tc_signals :: "controller_signal list"
  tc_global :: srtp_global

definition TransportController :: "srtp_global \<Rightarrow> ('s, 'c) controller" where
  "TransportController g = \<lparr>tc_agent = IceAgent, tc_dtls = [], tc_srtp = [], tc_certificate = None, tc_pc_state = Pc_new,
     tc_ice_slots = 0, tc_signals = [], tc_global = g\<rparr>"

definition tc_emit :: "controller_signal \<Rightarrow> ('s, 'c) controller \<Rightarrow> ('s, 'c) controller" where
  "tc_emit sig tc = tc\<lparr>tc_signals := tc_signals tc @ [sig]\<rparr>"

definition set_local_certificate_tc :: "nat option \<Rightarrow> ('s, 'c) controller \<Rightarrow> ('s, 'c) controller" where
  "set_local_certificate_tc cert tc = tc\<lparr>tc_certificate := cert\<rparr>"

definition get_dtls_transport :: "string \<Rightarrow> ('s, 'c) controller \<Rightarrow> 's dtls_transport option" where
  "get_dtls_transport nm tc = map_of (tc_dtls tc) nm"

definition get_dtls_srtp_transport :: "string \<Rightarrow> ('s, 'c) controller \<Rightarrow> 'c dtls_srtp option" where
  "get_dtls_srtp_transport nm tc = map_of (tc_srtp tc) nm"

definition put_dtls :: "string \<Rightarrow> 's dtls_transport \<Rightarrow> ('s, 'c) controller \<Rightarrow> ('s, 'c) controller" where
  "put_dtls nm d tc = tc\<lparr>tc_dtls := AList.update nm d (tc_dtls tc)\<rparr>"

definition put_srtp :: "string \<Rightarrow> 'c dtls_srtp \<Rightarrow> ('s, 'c) controller \<Rightarrow> ('s, 'c) controller" where
  "put_srtp nm t tc = tc\<lparr>tc_srtp := AList.update nm t (tc_srtp tc)\<rparr>"

subsection \<open>The state of the peer connection\<close>

text \<open>The states of the channels as the controller reaches them, through its DTLS transports.\<close>

definition tc_ice_states :: "('s, 'c) controller \<Rightarrow> channel_state list" where
  "tc_ice_states tc = List.map_filter (\<lambda>(nm, _). map_option ch_state (get_channel nm RTP (tc_agent tc))) (tc_dtls tc)"

definition total_dtls :: "dtls_state \<Rightarrow> dtls_state list \<Rightarrow> nat" where
  "total_dtls st sts = length (filter (\<lambda>s. s = st) sts)"

definition compute_pc_state :: "channel_state list \<Rightarrow> dtls_state list \<Rightarrow> pc_state" where
  "compute_pc_state ice dtls = (let
     total_connected = total_ice k_connected ice + total_dtls K_connected dtls;
     total_dtls_connecting = total_dtls K_connecting dtls;
     total_failed = total_ice k_failed ice + total_dtls K_failed dtls;
     total_closed = total_ice k_closed ice + total_dtls K_closed dtls;
     total_new = total_ice k_new ice + total_dtls K_new dtls;
     total_ice_checking = total_ice k_checking ice;
     total_ice_disconnected = total_ice k_disconnected ice;
     total_ice_completed = total_ice k_completed ice;
     total_transports = length dtls * 2 in
     if 0 < total_failed then Pc_failed
     else if 0 < total_ice_disconnected then Pc_disconnected
     else if total_new + total_closed = total_transports then Pc_new
     else if 0 < total_ice_checking + total_dtls_connecting + total_new then Pc_connecting
     else if total_connected + total_ice_completed + total_closed = total_transports then Pc_connected
     else Pc_new)"

definition tc_update_state :: "('s, 'c) controller \<Rightarrow> ('s, 'c) controller" where
  "tc_update_state tc = (let pc_state = compute_pc_state (tc_ice_states tc) (map (dt_state \<circ> snd) (tc_dtls tc)) in
     if tc_pc_state tc \<noteq> pc_state then tc_emit (Connection_state pc_state) (tc\<lparr>tc_pc_state := pc_state\<rparr>) else tc)"

subsection \<open>Slots\<close>

definition on_dtls_writable_state :: "('s, 'c) controller \<Rightarrow> ('s, 'c) controller" where
  "on_dtls_writable_state tc = tc_update_state tc"

definition on_dtls_receiving_state :: "('s, 'c) controller \<Rightarrow> ('s, 'c) controller" where
  "on_dtls_receiving_state tc = tc_update_state tc"

definition on_dtls_state_tc :: "('s, 'c) controller \<Rightarrow> ('s, 'c) controller" where
  "on_dtls_state_tc tc = tc_update_state tc"

definition on_ice_state :: "('s, 'c) controller \<Rightarrow> ('s, 'c) controller" where
  "on_ice_state tc = tc_update_state tc"

definition on_srtp_signal :: "srtp_signal \<Rightarrow> ('s, 'c) controller \<Rightarrow> ('s, 'c) controller" where
  "on_srtp_signal sig tc = (case sig of
       Rtp_received packet ts \<Rightarrow> tc_emit (Controller_rtp packet ts) tc
     | Rtcp_received packet ts \<Rightarrow> tc_emit (Controller_rtcp packet ts) tc)"

text \<open>The slots of the SRTP transport, and of the controller on what that signals.\<close>

definition run_srtp_slot ::
  "'s openssl \<Rightarrow> 'c libsrtp \<Rightarrow> string \<Rightarrow> dtls_signal \<times> 's dtls_transport \<Rightarrow> ('s, 'c) controller \<Rightarrow> ('s, 'c) controller option" where
  "run_srtp_slot L S nm e tc = (case get_dtls_srtp_transport nm tc of None \<Rightarrow> Some tc
     | Some t \<Rightarrow> do {
         (t1, g) \<leftarrow> srtp_slot L S e t (tc_global tc);
         Some (fold on_srtp_signal (ds_signals t1) (put_srtp nm (t1\<lparr>ds_signals := []\<rparr>) (tc\<lparr>tc_global := g\<rparr>)))
       })"

definition run_controller_slot :: "dtls_signal \<Rightarrow> ('s, 'c) controller \<Rightarrow> ('s, 'c) controller" where
  "run_controller_slot sig tc = (case sig of
       Dtls_writable \<Rightarrow> on_dtls_writable_state tc
     | Dtls_receiving \<Rightarrow> on_dtls_receiving_state tc
     | Dtls_state _ \<Rightarrow> on_dtls_state_tc tc
     | _ \<Rightarrow> tc)"

fun run_dtls_signals ::
  "'s openssl \<Rightarrow> 'c libsrtp \<Rightarrow> string \<Rightarrow> (dtls_signal \<times> 's dtls_transport) list \<Rightarrow> ('s, 'c) controller \<Rightarrow> ('s, 'c) controller option" where
  "run_dtls_signals L S nm [] tc = Some tc"
| "run_dtls_signals L S nm (e # es) tc = do {
     tc1 \<leftarrow> run_srtp_slot L S nm e (run_controller_slot (fst e) (put_dtls nm (snd e) tc));
     run_dtls_signals L S nm es tc1
   }"

text \<open>An operation of a DTLS transport, by the controller or by its channel.\<close>

definition tc_on_dtls ::
  "'s openssl \<Rightarrow> 'c libsrtp \<Rightarrow> bool \<Rightarrow> string \<Rightarrow> dtls_input \<Rightarrow> ('s, 'c) controller \<Rightarrow> ('s, 'c) controller option" where
  "tc_on_dtls L S owner nm i tc = (case get_dtls_transport nm tc of None \<Rightarrow> Some tc
     | Some d \<Rightarrow> do {
         ch \<leftarrow> get_channel nm RTP (tc_agent tc);
         (_, d1, sigs) \<leftarrow> dtls_step L owner i (ch_writable ch, d, []);
         tc1 \<leftarrow> run_dtls_signals L S nm sigs tc;
         Some (put_dtls nm d1 tc1)
       })"

subsection \<open>Signals of a channel\<close>

definition agent_slot :: "('s, 'c) controller \<Rightarrow> ('s, 'c) controller" where
  "agent_slot tc = (let (sigs, ag) = agent_update_state (tc_agent tc) in
     ((on_ice_state ^^ (tc_ice_slots tc * length sigs)) (tc\<lparr>tc_agent := ag\<rparr>)))"

definition see_channel :: "string \<Rightarrow> (ice_channel \<Rightarrow> ice_channel) \<Rightarrow> ('s, 'c) controller \<Rightarrow> ('s, 'c) controller" where
  "see_channel nm f tc = (case get_channel nm RTP (tc_agent tc) of None \<Rightarrow> tc
     | Some ch \<Rightarrow> tc\<lparr>tc_agent := put_channel nm RTP (f ch) (tc_agent tc)\<rparr>)"

definition run_channel_signal ::
  "'s openssl \<Rightarrow> 'c libsrtp \<Rightarrow> bool \<Rightarrow> string \<Rightarrow> channel_event \<Rightarrow> ('s, 'c) controller \<Rightarrow> ('s, 'c) controller option" where
  "run_channel_signal L S owner nm e tc = (case e of
       Signal_candidate_allocate_done cs \<Rightarrow> Some (tc_emit (Candidates_allocated nm RTP cs) tc)
     | Signal_receiving_state r \<Rightarrow> tc_on_dtls L S owner nm (In_receiving r) (agent_slot (see_channel nm (ch_receiving_update (\<lambda>_. r)) tc))
     | Signal_writable_state w \<Rightarrow> tc_on_dtls L S owner nm (In_writable w) (agent_slot (see_channel nm (ch_writable_update (\<lambda>_. w)) tc))
     | Signal_ice_state_changed st \<Rightarrow> Some (agent_slot (see_channel nm (ch_state_update (\<lambda>_. st)) tc))
     | Signal_read_packet buf ts \<Rightarrow> tc_on_dtls L S owner nm (In_packet buf ts) tc)"

fun run_channel_signals ::
  "'s openssl \<Rightarrow> 'c libsrtp \<Rightarrow> bool \<Rightarrow> string \<Rightarrow> channel_event list \<Rightarrow> ('s, 'c) controller \<Rightarrow> ('s, 'c) controller option" where
  "run_channel_signals L S owner nm [] tc = Some tc"
| "run_channel_signals L S owner nm (e # es) tc = do {
     tc1 \<leftarrow> run_channel_signal L S owner nm e tc;
     run_channel_signals L S owner nm es tc1
   }"

text \<open>An operation \<open>f\<close> of a channel of the agent.\<close>

definition tc_on_channel ::
  "'s openssl \<Rightarrow> 'c libsrtp \<Rightarrow> bool \<Rightarrow> string \<Rightarrow> (ice_channel \<Rightarrow> ice_channel option) \<Rightarrow> ('s, 'c) controller
     \<Rightarrow> ('s, 'c) controller option" where
  "tc_on_channel L S owner nm f tc = (case get_channel nm RTP (tc_agent tc) of None \<Rightarrow> Some tc
     | Some ch \<Rightarrow> do {
         ch1 \<leftarrow> f (ch\<lparr>ch_events := []\<rparr>);
         tc1 \<leftarrow> run_channel_signals L S owner nm (ch_events ch1) tc;
         Some (see_channel nm (\<lambda>_. ch1\<lparr>ch_events := []\<rparr>) tc1)
       })"

subsection \<open>Descriptions\<close>

definition bundled_away :: "string \<Rightarrow> session_description \<Rightarrow> bool option" where
  "bundled_away mid desc = (if \<not> is_bundle mid desc then Some False
     else map_option (\<lambda>first. mid \<noteq> first) (get_first_bundle_mid desc))"

definition add_dtls_transport :: "string \<Rightarrow> 's dtls_transport \<Rightarrow> ('s, 'c) controller \<Rightarrow> ('s, 'c) controller" where
  "add_dtls_transport nm d tc = put_dtls nm d tc"

text \<open>The transport that was there is deleted, and its sessions with it.\<close>

definition add_dtls_srtp_transport :: "string \<Rightarrow> 'c dtls_srtp \<Rightarrow> ('s, 'c) controller \<Rightarrow> ('s, 'c) controller" where
  "add_dtls_srtp_transport nm t tc = (let
     g = (case get_dtls_srtp_transport nm tc of None \<Rightarrow> tc_global tc
       | Some old \<Rightarrow> snd (reset_params (ds_srtp old) (tc_global tc))) in
     put_srtp nm t (tc\<lparr>tc_global := g\<rparr>))"

definition local_content ::
  "'s openssl \<Rightarrow> 'c libsrtp \<Rightarrow> session_description \<Rightarrow> media_content \<Rightarrow> ('s, 'c) controller \<Rightarrow> ('s, 'c) controller option" where
  "local_content L S desc content tc = (let mid = mc_mid content in do {
     skip \<leftarrow> bundled_away mid desc;
     if skip then Some tc
     else do {
       let ag1 = create_channel mid RTP (tc_agent tc);
       let ag2 = (case get_transport_info mid desc of None \<Rightarrow> ag1
         | Some td \<Rightarrow> set_ice_param mid RTP \<lparr>ice_ufrag = bytes_of_string (td_ice_ufrag td), ice_pwd = bytes_of_string (td_ice_pwd td)\<rparr> ag1);
       let d = fst (snd (set_local_certificate (tc_certificate tc) (DtlsTransport mid, [])));
       let tc1 = add_dtls_transport mid d (tc\<lparr>tc_agent := ag2, tc_ice_slots := tc_ice_slots tc + 1\<rparr>);
       (t, g) \<leftarrow> set_dtls_transports L S d (DtlsSrtpTransport mid True) (tc_global tc1);
       Some (add_dtls_srtp_transport mid t (tc1\<lparr>tc_global := g\<rparr>))
     }
   })"

fun local_contents ::
  "'s openssl \<Rightarrow> 'c libsrtp \<Rightarrow> session_description \<Rightarrow> media_content list \<Rightarrow> ('s, 'c) controller \<Rightarrow> ('s, 'c) controller option" where
  "local_contents L S desc [] tc = Some tc"
| "local_contents L S desc (c # cs) tc = do { tc1 \<leftarrow> local_content L S desc c tc; local_contents L S desc cs tc1 }"

text \<open>\<open>gather\<close> is \<open>gathering_candidate\<close> with the networks and sockets of the host.\<close>

fun agent_gathering ::
  "'s openssl \<Rightarrow> 'c libsrtp \<Rightarrow> bool \<Rightarrow> (ice_channel \<Rightarrow> ice_channel) \<Rightarrow> string list \<Rightarrow> ('s, 'c) controller \<Rightarrow> ('s, 'c) controller option" where
  "agent_gathering L S owner gather [] tc = Some tc"
| "agent_gathering L S owner gather (nm # nms) tc = do {
     tc1 \<leftarrow> tc_on_channel L S owner nm (Some \<circ> gather) tc;
     agent_gathering L S owner gather nms tc1
   }"

definition tc_set_local_description ::
  "'s openssl \<Rightarrow> 'c libsrtp \<Rightarrow> bool \<Rightarrow> (ice_channel \<Rightarrow> ice_channel) \<Rightarrow> session_description option \<Rightarrow> ('s, 'c) controller
     \<Rightarrow> (int \<times> ('s, 'c) controller) option" where
  "tc_set_local_description L S owner gather desc tc = (case desc of None \<Rightarrow> Some (-1, tc)
     | Some desc \<Rightarrow> do {
         tc1 \<leftarrow> local_contents L S desc (sd_contents desc) tc;
         tc2 \<leftarrow> agent_gathering L S owner gather (map ch_transport_name (ag_channels (tc_agent tc1))) tc1;
         Some (0, tc2)
       })"

text \<open>A transport without a fingerprint is a null pointer that is followed.\<close>

definition remote_content ::
  "'s openssl \<Rightarrow> 'c libsrtp \<Rightarrow> bool \<Rightarrow> session_description \<Rightarrow> media_content \<Rightarrow> ('s, 'c) controller \<Rightarrow> ('s, 'c) controller option" where
  "remote_content L S owner desc content tc = (let mid = mc_mid content in do {
     skip \<leftarrow> bundled_away mid desc;
     case (skip, get_transport_info mid desc) of
       (False, Some td) \<Rightarrow> do {
         tc1 \<leftarrow> tc_on_channel L S owner mid (set_remote_ice_params
           \<lparr>ice_ufrag = bytes_of_string (td_ice_ufrag td), ice_pwd = bytes_of_string (td_ice_pwd td)\<rparr>) tc;
         if get_dtls_transport mid tc1 = None then Some tc1
         else do {
           fp \<leftarrow> td_fingerprint td;
           tc_on_dtls L S owner mid (In_fingerprint (fp_algorithm fp) (fp_digest fp)) tc1
         }
       }
     | _ \<Rightarrow> Some tc
   })"

fun remote_contents ::
  "'s openssl \<Rightarrow> 'c libsrtp \<Rightarrow> bool \<Rightarrow> session_description \<Rightarrow> media_content list \<Rightarrow> ('s, 'c) controller \<Rightarrow> ('s, 'c) controller option" where
  "remote_contents L S owner desc [] tc = Some tc"
| "remote_contents L S owner desc (c # cs) tc = do { tc1 \<leftarrow> remote_content L S owner desc c tc; remote_contents L S owner desc cs tc1 }"

definition tc_set_remote_description ::
  "'s openssl \<Rightarrow> 'c libsrtp \<Rightarrow> bool \<Rightarrow> session_description option \<Rightarrow> ('s, 'c) controller \<Rightarrow> (int \<times> ('s, 'c) controller) option" where
  "tc_set_remote_description L S owner desc tc = (case desc of None \<Rightarrow> Some (-1, tc)
     | Some desc \<Rightarrow> map_option (\<lambda>tc1. (0, tc1)) (remote_contents L S owner desc (sd_contents desc) tc))"

subsection \<open>Media\<close>

definition tc_send_rtp ::
  "'c libsrtp \<Rightarrow> bytes \<Rightarrow> int \<Rightarrow> string \<Rightarrow> bytes \<Rightarrow> ('s, 'c) controller \<Rightarrow> (int \<times> ('s, 'c) controller) option" where
  "tc_send_rtp S junk ret nm buf tc = (case get_dtls_srtp_transport nm tc of None \<Rightarrow> Some (-1, tc)
     | Some t \<Rightarrow> do {
         d \<leftarrow> get_dtls_transport nm tc;
         (r, d1, t1) \<leftarrow> ds_send_rtp S junk ret buf d t;
         Some (r, put_srtp nm t1 (put_dtls nm d1 tc))
       })"

definition tc_send_rtcp ::
  "'c libsrtp \<Rightarrow> int \<Rightarrow> string \<Rightarrow> bytes \<Rightarrow> ('s, 'c) controller \<Rightarrow> (int \<times> ('s, 'c) controller) option" where
  "tc_send_rtcp S ret nm buf tc = (case get_dtls_srtp_transport nm tc of None \<Rightarrow> Some (-1, tc)
     | Some t \<Rightarrow> do {
         d \<leftarrow> get_dtls_transport nm tc;
         (r, d1, t1) \<leftarrow> ds_send_rtcp S ret buf d t;
         Some (r, put_srtp nm t1 (put_dtls nm d1 tc))
       })"

end
