(* ===== verification/Controller_State.thy ===== *)
theory Controller_State
  imports Transport_Controller
begin

text \<open>
  The state the controller reports.  It is computed when the agent reports a new aggregate and when a
  DTLS transport signals; that is enough, because it only depends on the aggregate and on the DTLS
  states as long as no channel is completed or closed, and none ever is.  So after every input the
  state that was reported last is the one the transports have.
\<close>

subsection \<open>The state is a function of what the agent reports\<close>

lemma total_ice_pos: "0 < total_ice st sts \<longleftrightarrow> st \<in> set sts"
  by (auto simp: total_ice_def filter_empty_conv)

lemma total_ice_live:
  "list_all live_state sts \<Longrightarrow> total_ice k_closed sts = 0 \<and> total_ice k_completed sts = 0 \<and>
     total_ice k_new sts + total_ice k_checking sts + total_ice k_connected sts + total_ice k_failed sts + total_ice k_disconnected sts = length sts"
proof (induction sts)
  case (Cons s sts)
  then show ?case by (cases s) (auto simp: total_ice_def live_state_def)
qed (simp add: total_ice_def)

lemma total_dtls_sum:
  "total_dtls K_new sts + total_dtls K_closed sts + total_dtls K_connected sts + total_dtls K_connecting sts + total_dtls K_failed sts \<le> length sts"
proof (induction sts)
  case (Cons s sts)
  then show ?case by (cases s) (auto simp: total_dtls_def)
qed (simp add: total_dtls_def)

lemma aggregate_live:
  assumes "list_all live_state sts"
  shows "aggregate_state sts = (if 0 < total_ice k_failed sts then k_failed else if 0 < total_ice k_disconnected sts then k_disconnected
     else if total_ice k_new sts = length sts then k_new else if 0 < total_ice k_new sts + total_ice k_checking sts then k_checking
     else k_connected)"
  using total_ice_live [OF assms] by (simp add: aggregate_state_def)

lemma compute_by_aggregate:
  assumes "list_all live_state ice" "length ice = length dtls"
  shows "compute_pc_state ice dtls = (if aggregate_state ice = k_failed \<or> 0 < total_dtls K_failed dtls then Pc_failed
     else if aggregate_state ice = k_disconnected then Pc_disconnected
     else if aggregate_state ice = k_new \<and> total_dtls K_new dtls + total_dtls K_closed dtls = length dtls then Pc_new
     else if aggregate_state ice = k_new \<or> aggregate_state ice = k_checking \<or> 0 < total_dtls K_connecting dtls + total_dtls K_new dtls then Pc_connecting
     else if total_dtls K_connected dtls + total_dtls K_closed dtls = length dtls then Pc_connected
     else Pc_new)"
proof -
  note i = total_ice_live [OF assms(1)]
  note d = total_dtls_sum [of dtls]
  consider "0 < total_ice k_failed ice" | "total_ice k_failed ice = 0" "0 < total_ice k_disconnected ice"
    | "total_ice k_failed ice = 0" "total_ice k_disconnected ice = 0" "total_ice k_new ice = length ice"
    | "total_ice k_failed ice = 0" "total_ice k_disconnected ice = 0" "total_ice k_new ice \<noteq> length ice" "0 < total_ice k_new ice + total_ice k_checking ice"
    | "total_ice k_failed ice = 0" "total_ice k_disconnected ice = 0" "total_ice k_new ice \<noteq> length ice" "total_ice k_new ice + total_ice k_checking ice = 0"
    by linarith
  then show ?thesis
  proof cases
    case 3
    then show ?thesis using i d assms(2) by (auto simp: compute_pc_state_def aggregate_live [OF assms(1)] Let_def)
  next
    case 4
    then have "total_ice k_new ice < length ice" using i by linarith
    then show ?thesis using 4 i d assms(2) by (auto simp: compute_pc_state_def aggregate_live [OF assms(1)] Let_def)
  next
    case 5
    then have "total_ice k_connected ice = length ice" "0 < length ice" using i by linarith+
    then show ?thesis using 5 i d assms(2) by (auto simp: compute_pc_state_def aggregate_live [OF assms(1)] Let_def)
  qed (use i d in \<open>auto simp: compute_pc_state_def aggregate_live [OF assms(1)] Let_def\<close>)
qed

subsection \<open>Wiring\<close>

definition ice_of :: "('s, 'c) controller \<Rightarrow> channel_state list" where
  "ice_of tc = map ch_state (ag_channels (tc_agent tc))"

definition dtls_of :: "('s, 'c) controller \<Rightarrow> dtls_state list" where
  "dtls_of tc = map (dt_state \<circ> snd) (tc_dtls tc)"

definition wired :: "('s, 'c) controller \<Rightarrow> bool" where
  "wired tc \<longleftrightarrow> map fst (tc_dtls tc) = map ch_transport_name (ag_channels (tc_agent tc)) \<and> distinct (map ch_transport_name (ag_channels (tc_agent tc))) \<and>
     (\<forall>ch \<in> set (ag_channels (tc_agent tc)). ch_component ch = RTP \<and> live_state (ch_state ch)) \<and>
     (ag_channels (tc_agent tc) \<noteq> [] \<longrightarrow> 0 < tc_ice_slots tc)"

lemma find_channel:
  assumes "distinct (map ch_transport_name chs)" "ch \<in> set chs" "ch_component ch = cmp"
  shows "find (is_channel (ch_transport_name ch) cmp) chs = Some ch"
  using assms
proof (induction chs)
  case (Cons c chs)
  then show ?case by (auto simp: is_channel_def)
qed simp

lemma map_filter_total: "\<forall>x \<in> set xs. f x = Some (g x) \<Longrightarrow> List.map_filter f xs = map g xs"
  by (induction xs) simp_all

lemma wired_ice_states:
  assumes "wired tc"
  shows "tc_ice_states tc = ice_of tc"
proof -
  let ?chs = "ag_channels (tc_agent tc)"
  have "tc_ice_states tc = List.map_filter (\<lambda>nm. map_option ch_state (get_channel nm RTP (tc_agent tc))) (map fst (tc_dtls tc))"
    by (simp add: tc_ice_states_def List.map_filter_def filter_map comp_def case_prod_unfold)
  also have "\<dots> = List.map_filter (\<lambda>ch. map_option ch_state (get_channel (ch_transport_name ch) RTP (tc_agent tc))) ?chs"
    using assms by (simp add: wired_def List.map_filter_def filter_map comp_def)
  also have "\<dots> = ice_of tc"
    unfolding ice_of_def
  proof (rule map_filter_total, rule ballI)
    fix ch assume ch: "ch \<in> set ?chs"
    have "distinct (map ch_transport_name ?chs)" "ch_component ch = RTP" using assms ch by (simp_all add: wired_def)
    from find_channel [OF this(1) ch this(2)] show "map_option ch_state (get_channel (ch_transport_name ch) RTP (tc_agent tc)) = Some (ch_state ch)"
      by (simp add: get_channel_def)
  qed
  finally show ?thesis .
qed

lemma wired_length: "wired tc \<Longrightarrow> length (ice_of tc) = length (dtls_of tc)"
  by (simp add: wired_def ice_of_def dtls_of_def) (metis length_map)

lemma wired_live: "wired tc \<Longrightarrow> list_all live_state (ice_of tc)"
  by (auto simp: wired_def ice_of_def list_all_iff)

definition last_reported :: "controller_signal list \<Rightarrow> pc_state" where
  "last_reported l = fold (\<lambda>sig st. case sig of Connection_state p \<Rightarrow> p | _ \<Rightarrow> st) l Pc_new"

definition announced :: "('s, 'c) controller \<Rightarrow> bool" where
  "announced tc \<longleftrightarrow> last_reported (tc_signals tc) = tc_pc_state tc"

lemma announced_simps [simp]:
  "announced (tc\<lparr>tc_agent := a\<rparr>) = announced tc" "announced (tc\<lparr>tc_global := g\<rparr>) = announced tc"
  "announced (tc\<lparr>tc_dtls := x\<rparr>) = announced tc" "announced (tc\<lparr>tc_srtp := y\<rparr>) = announced tc"
  "announced (tc\<lparr>tc_ice_slots := n\<rparr>) = announced tc" "announced (tc\<lparr>tc_certificate := cert\<rparr>) = announced tc"
  "announced (put_dtls nm d tc) = announced tc" "announced (put_srtp nm t tc) = announced tc"
  "announced (tc_emit (Candidates_allocated nm cmp cs) tc) = announced tc"
  "announced (tc_emit (Controller_rtp p ts) tc) = announced tc" "announced (tc_emit (Controller_rtcp p ts) tc) = announced tc"
  by (simp_all add: announced_def put_dtls_def put_srtp_def tc_emit_def last_reported_def)

lemma announced_update [simp]: "announced tc \<Longrightarrow> announced (tc_update_state tc)"
  by (simp add: announced_def tc_update_state_def tc_emit_def last_reported_def Let_def)

text \<open>The reported state is current, or was computed from channel states with the aggregate the agent has reported.\<close>

definition current :: "('s, 'c) controller \<Rightarrow> bool" where
  "current tc \<longleftrightarrow> wired tc \<and> announced tc \<and> ag_state (tc_agent tc) = aggregate_state (ice_of tc) \<and> tc_pc_state tc = compute_pc_state (ice_of tc) (dtls_of tc)"

definition reported :: "channel_state list \<Rightarrow> ('s, 'c) controller \<Rightarrow> bool" where
  "reported ice tc \<longleftrightarrow> wired tc \<and> announced tc \<and> list_all live_state ice \<and> length ice = length (ice_of tc) \<and>
     ag_state (tc_agent tc) = aggregate_state ice \<and> tc_pc_state tc = compute_pc_state ice (dtls_of tc)"

lemma tc_update_state_simps [simp]:
  "tc_agent (tc_update_state tc) = tc_agent tc" "tc_dtls (tc_update_state tc) = tc_dtls tc" "tc_srtp (tc_update_state tc) = tc_srtp tc"
  "tc_ice_slots (tc_update_state tc) = tc_ice_slots tc" "tc_global (tc_update_state tc) = tc_global tc"
  "ice_of (tc_update_state tc) = ice_of tc" "dtls_of (tc_update_state tc) = dtls_of tc" "wired (tc_update_state tc) = wired tc"
  by (simp_all add: tc_update_state_def tc_emit_def Let_def ice_of_def dtls_of_def wired_def)

lemma tc_update_state_pc: "wired tc \<Longrightarrow> tc_pc_state (tc_update_state tc) = compute_pc_state (ice_of tc) (dtls_of tc)"
  by (simp add: tc_update_state_def tc_emit_def Let_def wired_ice_states dtls_of_def)

lemma on_ice_state_again:
  "wired tc \<Longrightarrow> wired ((on_ice_state ^^ n) tc) \<and> (announced tc \<longrightarrow> announced ((on_ice_state ^^ n) tc)) \<and> tc_agent ((on_ice_state ^^ n) tc) = tc_agent tc \<and> tc_dtls ((on_ice_state ^^ n) tc) = tc_dtls tc \<and>
    (0 < n \<longrightarrow> tc_pc_state ((on_ice_state ^^ n) tc) = compute_pc_state (ice_of tc) (dtls_of tc))"
  by (induction n) (auto simp: on_ice_state_def tc_update_state_pc ice_of_def dtls_of_def)

lemma agent_slot_current:
  assumes "reported ice tc"
  shows "current (agent_slot tc)" "ice_of (agent_slot tc) = ice_of tc" "tc_dtls (agent_slot tc) = tc_dtls tc"
    "ag_channels (tc_agent (agent_slot tc)) = ag_channels (tc_agent tc)"
proof -
  have an: "announced tc" using assms by (simp add: reported_def)
  have r: "wired tc" "list_all live_state ice" "length ice = length (ice_of tc)" "ag_state (tc_agent tc) = aggregate_state ice"
    "tc_pc_state tc = compute_pc_state ice (dtls_of tc)" using assms by (simp_all add: reported_def)
  obtain sigs ag where u: "agent_update_state (tc_agent tc) = (sigs, ag)" by fastforce
  have ag: "ag_channels ag = ag_channels (tc_agent tc)" "ag_state ag = aggregate_state (ice_of tc)"
    "sigs = [] \<longrightarrow> aggregate_state (ice_of tc) = aggregate_state ice"
    using u r(4) by (auto simp: agent_update_state_def ice_of_def Let_def split: if_splits)
  let ?t = "tc\<lparr>tc_agent := ag\<rparr>" and ?n = "tc_ice_slots tc * length sigs"
  have t: "wired ?t" "ice_of ?t = ice_of tc" "dtls_of ?t = dtls_of tc" using r(1) ag(1) by (simp_all add: wired_def ice_of_def dtls_of_def)
  have e: "agent_slot tc = (on_ice_state ^^ ?n) ?t" by (simp add: agent_slot_def u)
  note again = on_ice_state_again [OF t(1), of ?n]
  show "ice_of (agent_slot tc) = ice_of tc" "tc_dtls (agent_slot tc) = tc_dtls tc" "ag_channels (tc_agent (agent_slot tc)) = ag_channels (tc_agent tc)"
    using again ag(1) by (simp_all add: e ice_of_def)
  have same: "dtls_of (agent_slot tc) = dtls_of tc" using again by (simp add: e dtls_of_def)
  have "tc_pc_state (agent_slot tc) = compute_pc_state (ice_of tc) (dtls_of tc)"
  proof (cases "0 < ?n")
    case True
    then show ?thesis using again t by (simp add: e)
  next
    case False
    then have "sigs = [] \<or> ice_of tc = []" using r(1) by (auto simp: wired_def ice_of_def)
    then have "aggregate_state (ice_of tc) = aggregate_state ice" using ag(3) r(3) by auto
    then have "compute_pc_state ice (dtls_of tc) = compute_pc_state (ice_of tc) (dtls_of tc)"
      using compute_by_aggregate [OF r(2), of "dtls_of tc"] compute_by_aggregate [OF wired_live [OF r(1)], of "dtls_of tc"]
        wired_length [OF r(1)] r(3) by simp
    moreover have "?n = 0" using False by (rule not_gr0 [THEN iffD1])
    then have "agent_slot tc = ?t" by (simp only: e funpow_0)
    ultimately show ?thesis using r(5) by simp
  qed
  then show "current (agent_slot tc)" using again ag t same an by (simp add: current_def e ice_of_def)
qed

subsection \<open>Signals of a DTLS transport\<close>

lemma tc_emit_simps [simp]:
  "tc_agent (tc_emit sig tc) = tc_agent tc" "tc_dtls (tc_emit sig tc) = tc_dtls tc" "tc_ice_slots (tc_emit sig tc) = tc_ice_slots tc"
  "tc_pc_state (tc_emit sig tc) = tc_pc_state tc"
  by (simp_all add: tc_emit_def)

definition same_view :: "('s, 'c) controller \<Rightarrow> ('s, 'c) controller \<Rightarrow> bool" where
  "same_view tc u \<longleftrightarrow> tc_agent u = tc_agent tc \<and> tc_dtls u = tc_dtls tc \<and> tc_ice_slots u = tc_ice_slots tc \<and> tc_pc_state u = tc_pc_state tc \<and> announced u = announced tc"

lemma same_view_current: "same_view tc u \<Longrightarrow> current u = current tc"
  by (simp add: same_view_def current_def wired_def ice_of_def dtls_of_def)

lemma same_view_fold: "same_view tc (fold on_srtp_signal l tc)"
proof (induction l arbitrary: tc)
  case (Cons sig l)
  have "same_view tc (on_srtp_signal sig tc)" by (cases sig) (simp_all add: same_view_def on_srtp_signal_def)
  then show ?case using Cons.IH [of "on_srtp_signal sig tc"] by (simp add: same_view_def)
qed (simp add: same_view_def)

lemma run_srtp_slot_view:
  assumes "run_srtp_slot L S nm e tc = Some u"
  shows "same_view tc u"
proof (cases "get_dtls_srtp_transport nm tc")
  case (Some t)
  with assms obtain t1 g where "u = fold on_srtp_signal (ds_signals t1) (put_srtp nm (t1\<lparr>ds_signals := []\<rparr>) (tc\<lparr>tc_global := g\<rparr>))"
    by (auto simp: run_srtp_slot_def bind_eq_Some_conv)
  then show ?thesis using same_view_fold [of "put_srtp nm (t1\<lparr>ds_signals := []\<rparr>) (tc\<lparr>tc_global := g\<rparr>)" "ds_signals t1"]
    by (simp add: same_view_def put_srtp_def)
qed (use assms in \<open>simp add: run_srtp_slot_def same_view_def\<close>)

lemma keys_update: "k \<in> fst ` set xs \<Longrightarrow> map fst (AList.update k v xs) = map fst xs"
  by (induction xs) auto

lemma update_same:
  "map_of xs k = Some v \<Longrightarrow> f v = f w \<Longrightarrow> map (f \<circ> snd) (AList.update k w xs) = map (f \<circ> snd) xs"
  by (induction xs) auto

lemma put_dtls_simps [simp]:
  "tc_agent (put_dtls nm d tc) = tc_agent tc" "tc_ice_slots (put_dtls nm d tc) = tc_ice_slots tc" "tc_pc_state (put_dtls nm d tc) = tc_pc_state tc"
  "ice_of (put_dtls nm d tc) = ice_of tc" "get_dtls_transport nm (put_dtls nm d tc) = Some d"
  by (simp_all add: put_dtls_def ice_of_def get_dtls_transport_def AList.update_conv')

lemma put_dtls_wired:
  assumes "wired tc" "get_dtls_transport nm tc = Some d0"
  shows "wired (put_dtls nm d tc)"
proof -
  have "nm \<in> fst ` set (tc_dtls tc)" using map_of_SomeD [of "tc_dtls tc" nm d0] assms(2) by (force simp: get_dtls_transport_def)
  then show ?thesis using assms(1) by (simp add: wired_def put_dtls_def keys_update)
qed

lemma put_dtls_current:
  assumes "current tc" "get_dtls_transport nm tc = Some d0" "dt_state d = dt_state d0"
  shows "current (put_dtls nm d tc)"
proof -
  have "dtls_of (put_dtls nm d tc) = dtls_of tc"
    using update_same [of "tc_dtls tc" nm d0 dt_state d] assms(2,3) by (simp add: dtls_of_def put_dtls_def get_dtls_transport_def)
  then show ?thesis using assms(1) put_dtls_wired [OF _ assms(2)] by (simp add: current_def)
qed

lemma run_controller_slot_current:
  assumes "current tc" "get_dtls_transport nm tc = Some d0" "dt_state d = last_state (dt_state d0) [(sig, d)]"
  shows "current (run_controller_slot sig (put_dtls nm d tc))" "get_dtls_transport nm (run_controller_slot sig (put_dtls nm d tc)) = Some d"
    "tc_agent (run_controller_slot sig (put_dtls nm d tc)) = tc_agent tc"
proof -
  have w: "wired (put_dtls nm d tc)" using assms(1) put_dtls_wired [OF _ assms(2)] by (simp add: current_def)
  have u: "current (tc_update_state (put_dtls nm d tc))"
    using tc_update_state_pc [OF w] w assms(1) by (simp add: current_def)
  show "current (run_controller_slot sig (put_dtls nm d tc))"
    using u put_dtls_current [OF assms(1,2), of d] assms(3)
    by (cases sig) (simp_all add: run_controller_slot_def on_dtls_writable_state_def on_dtls_receiving_state_def on_dtls_state_tc_def)
  show "get_dtls_transport nm (run_controller_slot sig (put_dtls nm d tc)) = Some d" "tc_agent (run_controller_slot sig (put_dtls nm d tc)) = tc_agent tc"
    using put_dtls_simps(5) [of nm d tc]
    by (cases sig; simp add: run_controller_slot_def on_dtls_writable_state_def on_dtls_receiving_state_def on_dtls_state_tc_def get_dtls_transport_def)+
qed

lemma run_dtls_signals_current:
  "run_dtls_signals L S nm sigs tc = Some u \<Longrightarrow> current tc \<Longrightarrow> get_dtls_transport nm tc = Some d0 \<Longrightarrow> signals_told (dt_state d0) sigs \<Longrightarrow>
    current u \<and> tc_agent u = tc_agent tc \<and> (\<exists>d. get_dtls_transport nm u = Some d \<and> dt_state d = last_state (dt_state d0) sigs)"
proof (induction sigs arbitrary: tc d0)
  case (Cons e sigs)
  let ?t = "run_controller_slot (fst e) (put_dtls nm (snd e) tc)"
  obtain t1 where t1: "run_srtp_slot L S nm e ?t = Some t1" "run_dtls_signals L S nm sigs t1 = Some u"
    using Cons.prems(1) by (auto simp: bind_eq_Some_conv)
  have e: "dt_state (snd e) = last_state (dt_state d0) [(fst e, snd e)]" "signals_told (dt_state (snd e)) sigs" using Cons.prems(4) by simp_all
  note c = run_controller_slot_current [OF Cons.prems(2,3) e(1)]
  have v: "same_view ?t t1" using run_srtp_slot_view [OF t1(1)] .
  have "current t1" "get_dtls_transport nm t1 = Some (snd e)" "tc_agent t1 = tc_agent tc"
    using same_view_current [OF v] c v by (simp_all add: same_view_def get_dtls_transport_def)
  from Cons.IH [OF t1(2) this(1,2) e(2)] this(3) e(1) show ?case by simp
qed simp

lemma tc_on_dtls_current:
  assumes "tc_on_dtls L S owner nm i tc = Some u" "current tc"
  shows "current u" "tc_agent u = tc_agent tc"
proof -
  have "current u \<and> tc_agent u = tc_agent tc"
  proof (cases "get_dtls_transport nm tc")
    case None
    then show ?thesis using assms by (simp add: tc_on_dtls_def)
  next
    case (Some d)
    obtain ch where ch: "get_channel nm RTP (tc_agent tc) = Some ch"
      using assms(1) Some by (cases "get_channel nm RTP (tc_agent tc)") (auto simp: tc_on_dtls_def)
    obtain w d1 sigs where s1: "dtls_step L owner i (ch_writable ch, d, []) = Some (w, d1, sigs)"
      using assms(1) Some ch by (cases "dtls_step L owner i (ch_writable ch, d, [])") (auto simp: tc_on_dtls_def)
    obtain u1 where s2: "run_dtls_signals L S nm sigs tc = Some u1"
      using assms(1) Some ch s1 by (cases "run_dtls_signals L S nm sigs tc") (auto simp: tc_on_dtls_def)
    have "u = put_dtls nm d1 u1" using assms(1) Some ch s1 s2 by (simp add: tc_on_dtls_def)
    note s = s1 s2 this
    have t: "signals_told (dt_state d) sigs" "dt_state d1 = last_state (dt_state d) sigs"
      using told_step [OF s(1), of "dt_state d"] by (simp_all add: told_def)
    from run_dtls_signals_current [OF s(2) assms(2) Some t(1)] obtain d2 where
      "current u1" "tc_agent u1 = tc_agent tc" "get_dtls_transport nm u1 = Some d2" "dt_state d2 = last_state (dt_state d) sigs" by blast
    then show ?thesis using put_dtls_current [of u1 nm d2 d1] s(3) t(2) by simp
  qed
  then show "current u" "tc_agent u = tc_agent tc" by blast+
qed

subsection \<open>Signals of a channel\<close>

lemma put_first_find: "find P xs = Some x \<Longrightarrow> P y \<Longrightarrow> find P (put_first P y xs) = Some y"
  by (induction xs) (auto split: if_splits)

lemma put_first_map: "find P xs = Some x \<Longrightarrow> g y = g x \<Longrightarrow> map g (put_first P y xs) = map g xs"
  by (induction xs) (auto split: if_splits)

lemma put_first_set: "set (put_first P y xs) \<subseteq> insert y (set xs)"
  by (induction xs) auto

lemma put_first_length [simp]: "length (put_first P y xs) = length xs"
  by (induction xs) auto

lemma get_channel_D: "get_channel nm cmp ag = Some ch \<Longrightarrow> ch_transport_name ch = nm \<and> ch_component ch = cmp \<and> ch \<in> set (ag_channels ag)"
  by (auto simp: get_channel_def is_channel_def dest: find_Some_D)

lemma see_channel_reported:
  assumes c: "current tc" and ch: "get_channel nm RTP (tc_agent tc) = Some ch"
    and f: "ch_transport_name (f ch) = nm" "ch_component (f ch) = RTP" "live_state (ch_state (f ch))"
  shows "reported (ice_of tc) (see_channel nm f tc)" "get_channel nm RTP (tc_agent (see_channel nm f tc)) = Some (f ch)"
    "ch_state (f ch) = ch_state ch \<Longrightarrow> current (see_channel nm f tc)"
proof -
  let ?P = "is_channel nm RTP" and ?chs = "ag_channels (tc_agent tc)" and ?t = "see_channel nm f tc"
  have fd: "find ?P ?chs = Some ch" and P: "?P (f ch)" using ch f by (simp_all add: get_channel_def is_channel_def)
  have chs: "ag_channels (tc_agent ?t) = put_first ?P (f ch) ?chs" "ag_state (tc_agent ?t) = ag_state (tc_agent tc)" "tc_dtls ?t = tc_dtls tc"
    "tc_ice_slots ?t = tc_ice_slots tc" "tc_pc_state ?t = tc_pc_state tc" "announced ?t = announced tc"
    by (simp_all add: see_channel_def ch put_channel_def)
  have names: "map ch_transport_name (put_first ?P (f ch) ?chs) = map ch_transport_name ?chs"
    using put_first_map [OF fd, of ch_transport_name "f ch"] get_channel_D [OF ch] f by simp
  have "\<forall>c \<in> set (put_first ?P (f ch) ?chs). ch_component c = RTP \<and> live_state (ch_state c)"
    using put_first_set [of ?P "f ch" ?chs] f c by (auto simp: current_def wired_def)
  moreover have "put_first ?P (f ch) ?chs \<noteq> [] \<longrightarrow> ?chs \<noteq> []" by (cases ?chs) auto
  ultimately have w: "wired ?t" using c names by (simp add: wired_def current_def chs)
  show r: "reported (ice_of tc) ?t"
    using w c wired_live [of tc] by (simp add: reported_def current_def chs ice_of_def dtls_of_def)
  show "get_channel nm RTP (tc_agent ?t) = Some (f ch)" using put_first_find [OF fd P] by (simp add: get_channel_def chs)
  assume "ch_state (f ch) = ch_state ch"
  then have "ice_of ?t = ice_of tc" using put_first_map [OF fd, of ch_state "f ch"] by (simp add: ice_of_def chs)
  then show "current ?t" using w c by (simp add: current_def chs dtls_of_def)
qed

lemma agent_slot_get_channel: "reported ice tc \<Longrightarrow> get_channel nm RTP (tc_agent (agent_slot tc)) = get_channel nm RTP (tc_agent tc)"
  by (simp add: get_channel_def agent_slot_current(4))

lemma run_channel_signal_current:
  assumes r: "run_channel_signal L S owner nm e tc = Some u" and c: "current tc" and ch: "get_channel nm RTP (tc_agent tc) = Some ch"
    and live: "\<And>st. e = Signal_ice_state_changed st \<Longrightarrow> live_state st"
  shows "current u \<and> (\<exists>ch'. get_channel nm RTP (tc_agent u) = Some ch' \<and> ch_state ch' = last_ice_state (ch_state ch) [e])"
proof -
  have lch: "live_state (ch_state ch)" using c get_channel_D [OF ch] by (auto simp: current_def wired_def)
  have through: "current u \<and> get_channel nm RTP (tc_agent u) = Some (f ch)"
    if "ch_transport_name (f ch) = nm" "ch_component (f ch) = RTP" "live_state (ch_state (f ch))"
      "tc_on_dtls L S owner nm i (agent_slot (see_channel nm f tc)) = Some u \<or> agent_slot (see_channel nm f tc) = u" for f i
  proof -
    note s = see_channel_reported [where f = f, OF c ch that(1-3)]
    have a: "current (agent_slot (see_channel nm f tc))" "get_channel nm RTP (tc_agent (agent_slot (see_channel nm f tc))) = Some (f ch)"
      using agent_slot_current(1) [OF s(1)] agent_slot_get_channel [OF s(1)] s(2) by simp_all
    then show ?thesis using that(4) tc_on_dtls_current by metis
  qed
  note n = get_channel_D [OF ch]
  show ?thesis
  proof (cases e)
    case (Signal_candidate_allocate_done cs)
    have "same_view tc (tc_emit (Candidates_allocated nm RTP cs) tc)" by (simp add: same_view_def)
    then show ?thesis using r c ch same_view_current Signal_candidate_allocate_done by (auto simp: run_channel_signal_def)
  next
    case (Signal_receiving_state b)
    then show ?thesis using through [of "ch_receiving_update (\<lambda>_. b)" "In_receiving b"] r n lch by (simp add: run_channel_signal_def)
  next
    case (Signal_writable_state b)
    then show ?thesis using through [of "ch_writable_update (\<lambda>_. b)" "In_writable b"] r n lch by (simp add: run_channel_signal_def)
  next
    case (Signal_ice_state_changed st)
    then show ?thesis using through [of "ch_state_update (\<lambda>_. st)"] r n live by (simp add: run_channel_signal_def)
  next
    case (Signal_read_packet buf ts)
    then show ?thesis using r tc_on_dtls_current [of L S owner nm "In_packet buf ts" tc u] c ch by (simp add: run_channel_signal_def)
  qed
qed

lemma run_channel_signals_current:
  "run_channel_signals L S owner nm es tc = Some u \<Longrightarrow> current tc \<Longrightarrow> get_channel nm RTP (tc_agent tc) = Some ch \<Longrightarrow>
    \<forall>st. Signal_ice_state_changed st \<in> set es \<longrightarrow> live_state st \<Longrightarrow>
    current u \<and> (\<exists>ch'. get_channel nm RTP (tc_agent u) = Some ch' \<and> ch_state ch' = last_ice_state (ch_state ch) es)"
proof (induction es arbitrary: tc ch)
  case (Cons e es)
  from Cons.prems(1) obtain t1 where t1: "run_channel_signal L S owner nm e tc = Some t1" "run_channel_signals L S owner nm es t1 = Some u"
    by (auto simp: bind_eq_Some_conv)
  from run_channel_signal_current [OF t1(1) Cons.prems(2,3)] Cons.prems(4) obtain c1 where
    c1: "current t1" "get_channel nm RTP (tc_agent t1) = Some c1" "ch_state c1 = last_ice_state (ch_state ch) [e]" by auto
  from Cons.IH [OF t1(2) c1(1,2)] Cons.prems(4) c1(3) show ?case by simp
qed simp

lemma tc_on_channel_current:
  assumes r: "tc_on_channel L S owner nm f tc = Some u" and c: "current tc" and f: "tells f"
  shows "current u"
proof (cases "get_channel nm RTP (tc_agent tc)")
  case None
  then show ?thesis using r c by (simp add: tc_on_channel_def)
next
  case (Some ch)
  note n = get_channel_D [OF Some]
  have lch: "live_state (ch_state ch)" using c n by (auto simp: current_def wired_def)
  obtain ch1 where ch1: "f (ch\<lparr>ch_events := []\<rparr>) = Some ch1"
    using r Some by (cases "f (ch\<lparr>ch_events := []\<rparr>)") (auto simp: tc_on_channel_def)
  obtain t1 where t1: "run_channel_signals L S owner nm (ch_events ch1) tc = Some t1" "u = see_channel nm (\<lambda>_. ch1\<lparr>ch_events := []\<rparr>) t1"
    using r Some ch1 by (cases "run_channel_signals L S owner nm (ch_events ch1) tc") (auto simp: tc_on_channel_def)
  have "ch_told (ch\<lparr>ch_events := []\<rparr>) (ch\<lparr>ch_events := []\<rparr>)" using lch by (simp add: ch_told_def)
  then have told: "ch_told (ch\<lparr>ch_events := []\<rparr>) ch1" using tellsD [OF f ch1] by blast
  then have ev: "\<forall>st. Signal_ice_state_changed st \<in> set (ch_events ch1) \<longrightarrow> live_state st"
    "last_ice_state (ch_state ch) (ch_events ch1) = ch_state ch1" by (simp_all add: ch_told_def)
  from run_channel_signals_current [OF t1(1) c Some ev(1)] ev(2) obtain c1 where
    c1: "current t1" "get_channel nm RTP (tc_agent t1) = Some c1" "ch_state c1 = ch_state ch1" by auto
  show ?thesis unfolding t1(2)
    using see_channel_reported(3) [OF c1(1,2), of "\<lambda>_. ch1\<lparr>ch_events := []\<rparr>"] told n c1(3) by (simp add: ch_told_def)
qed

subsection \<open>Descriptions\<close>

definition fresh :: "('s, 'c) controller \<Rightarrow> bool" where
  "fresh tc \<longleftrightarrow> wired tc \<and> announced tc \<and> (\<forall>st \<in> set (ice_of tc). st = k_new) \<and> (\<forall>st \<in> set (dtls_of tc). st = K_new) \<and>
     ag_state (tc_agent tc) = k_new \<and> tc_pc_state tc = Pc_new"

lemma fresh_current: "fresh tc \<Longrightarrow> current tc"
proof -
  assume f: "fresh tc"
  have a: "aggregate_state sts = k_new" if "\<forall>st \<in> set sts. st = k_new" for sts
  proof -
    have "total_ice k_new sts = length sts" "total_ice k_failed sts = 0" "total_ice k_disconnected sts = 0" "total_ice k_closed sts = 0"
      using that by (auto simp: total_ice_def filter_empty_conv)
    then show ?thesis by (simp add: aggregate_state_def)
  qed
  have d: "total_dtls K_new (dtls_of tc) = length (dtls_of tc)" "total_dtls K_failed (dtls_of tc) = 0" "total_dtls K_closed (dtls_of tc) = 0"
    using f by (auto simp: fresh_def total_dtls_def filter_empty_conv)
  have w: "wired tc" and i: "aggregate_state (ice_of tc) = k_new" using f a by (simp_all add: fresh_def)
  show "current tc" using f compute_by_aggregate [OF wired_live [OF w] wired_length [OF w]] d i by (simp add: fresh_def current_def)
qed

lemma update_fresh: "k \<notin> fst ` set xs \<Longrightarrow> AList.update k v xs = xs @ [(k, v)]"
  by (induction xs) auto

lemma update_all: "\<forall>v \<in> set (map (f \<circ> snd) xs). v = n \<Longrightarrow> f d = n \<Longrightarrow> \<forall>v \<in> set (map (f \<circ> snd) (AList.update k d xs)). v = n"
  by (induction xs) auto

lemma new_dtls: "dt_state (fst (snd (set_local_certificate cert (DtlsTransport nm, [])))) = K_new"
  by (simp add: set_local_certificate_def DtlsTransport_def)

lemma get_channel_names:
  "\<forall>ch \<in> set (ag_channels ag). ch_component ch = RTP \<Longrightarrow> get_channel nm RTP ag = None \<longleftrightarrow> nm \<notin> set (map ch_transport_name (ag_channels ag))"
  by (auto simp: get_channel_def find_None_iff is_channel_def)

lemma put_channel_view:
  assumes "get_channel nm cmp ag = Some ch" "ch_state ch1 = ch_state ch" "ch_transport_name ch1 = nm" "ch_component ch1 = cmp"
  shows "map ch_transport_name (ag_channels (put_channel nm cmp ch1 ag)) = map ch_transport_name (ag_channels ag)"
    "map ch_component (ag_channels (put_channel nm cmp ch1 ag)) = map ch_component (ag_channels ag)"
    "map ch_state (ag_channels (put_channel nm cmp ch1 ag)) = map ch_state (ag_channels ag)" "ag_state (put_channel nm cmp ch1 ag) = ag_state ag"
proof -
  have fd: "find (is_channel nm cmp) (ag_channels ag) = Some ch" using assms(1) by (simp add: get_channel_def)
  have ch: "ch_transport_name ch1 = ch_transport_name ch" "ch_component ch1 = ch_component ch" using assms(3,4) get_channel_D [OF assms(1)] by simp_all
  show "map ch_transport_name (ag_channels (put_channel nm cmp ch1 ag)) = map ch_transport_name (ag_channels ag)"
    "map ch_component (ag_channels (put_channel nm cmp ch1 ag)) = map ch_component (ag_channels ag)"
    "map ch_state (ag_channels (put_channel nm cmp ch1 ag)) = map ch_state (ag_channels ag)" "ag_state (put_channel nm cmp ch1 ag) = ag_state ag"
    using put_first_map [of _ _ _ ch_transport_name, OF fd ch(1)] put_first_map [of _ _ _ ch_component, OF fd ch(2)]
      put_first_map [of _ _ _ ch_state, OF fd assms(2)] by (simp_all add: put_channel_def)
qed

lemma set_ice_param_view:
  "map ch_transport_name (ag_channels (set_ice_param nm cmp ps ag)) = map ch_transport_name (ag_channels ag)"
  "map ch_component (ag_channels (set_ice_param nm cmp ps ag)) = map ch_component (ag_channels ag)"
  "map ch_state (ag_channels (set_ice_param nm cmp ps ag)) = map ch_state (ag_channels ag)" "ag_state (set_ice_param nm cmp ps ag) = ag_state ag"
proof -
  have "map ch_transport_name (ag_channels (set_ice_param nm cmp ps ag)) = map ch_transport_name (ag_channels ag) \<and>
    map ch_component (ag_channels (set_ice_param nm cmp ps ag)) = map ch_component (ag_channels ag) \<and>
    map ch_state (ag_channels (set_ice_param nm cmp ps ag)) = map ch_state (ag_channels ag) \<and> ag_state (set_ice_param nm cmp ps ag) = ag_state ag"
  proof (cases "get_channel nm cmp ag")
    case (Some ch)
    then show ?thesis using put_channel_view [OF Some, of "set_ice_params ps ch"] get_channel_D [OF Some] by (simp add: set_ice_param_def set_ice_params_def)
  qed (simp add: set_ice_param_def)
  then show "map ch_transport_name (ag_channels (set_ice_param nm cmp ps ag)) = map ch_transport_name (ag_channels ag)"
    "map ch_component (ag_channels (set_ice_param nm cmp ps ag)) = map ch_component (ag_channels ag)"
    "map ch_state (ag_channels (set_ice_param nm cmp ps ag)) = map ch_state (ag_channels ag)" "ag_state (set_ice_param nm cmp ps ag) = ag_state ag"
    by blast+
qed

text \<open>What \<open>wired\<close> and \<open>fresh\<close> look at, as lists.\<close>

definition fresh_lists :: "string list \<Rightarrow> string list \<Rightarrow> ice_component list \<Rightarrow> channel_state list \<Rightarrow> dtls_state list \<Rightarrow> bool" where
  "fresh_lists dn cn cc cs ds \<longleftrightarrow> dn = cn \<and> distinct cn \<and> (\<forall>c \<in> set cc. c = RTP) \<and> (\<forall>c \<in> set cs. c = k_new) \<and> (\<forall>c \<in> set ds. c = K_new)"

lemma fresh_iff:
  "fresh tc \<longleftrightarrow> fresh_lists (map fst (tc_dtls tc)) (map ch_transport_name (ag_channels (tc_agent tc))) (map ch_component (ag_channels (tc_agent tc)))
     (map ch_state (ag_channels (tc_agent tc))) (map (dt_state \<circ> snd) (tc_dtls tc)) \<and> announced tc \<and>
     ag_state (tc_agent tc) = k_new \<and> tc_pc_state tc = Pc_new \<and> (ag_channels (tc_agent tc) \<noteq> [] \<longrightarrow> 0 < tc_ice_slots tc)"
  by (auto simp: fresh_def fresh_lists_def wired_def ice_of_def dtls_of_def live_state_def)

lemma local_content_fresh:
  assumes r: "local_content L S desc content tc = Some u" and f: "fresh tc"
  shows "fresh u"
proof -
  let ?mid = "mc_mid content"
  from f have fl: "fresh_lists (map fst (tc_dtls tc)) (map ch_transport_name (ag_channels (tc_agent tc))) (map ch_component (ag_channels (tc_agent tc)))
     (map ch_state (ag_channels (tc_agent tc))) (map (dt_state \<circ> snd) (tc_dtls tc))" and an: "announced tc" "ag_state (tc_agent tc) = k_new" "tc_pc_state tc = Pc_new"
    by (simp_all add: fresh_iff)
  show ?thesis
  proof (cases "bundled_away ?mid desc = Some False")
    case False
    then have "u = tc" using r by (cases "bundled_away ?mid desc") (auto simp: local_content_def split: if_splits)
    then show ?thesis using f by simp
  next
    case True
    define ag1 where "ag1 = create_channel ?mid RTP (tc_agent tc)"
    define ag2 where "ag2 = (case get_transport_info ?mid desc of None \<Rightarrow> ag1
         | Some td \<Rightarrow> set_ice_param ?mid RTP \<lparr>ice_ufrag = bytes_of_string (td_ice_ufrag td), ice_pwd = bytes_of_string (td_ice_pwd td)\<rparr> ag1)"
    define d :: "'a dtls_transport" where "d = fst (snd (set_local_certificate (tc_certificate tc) (DtlsTransport ?mid, [])))"
    let ?t1 = "add_dtls_transport ?mid d (tc\<lparr>tc_agent := ag2, tc_ice_slots := tc_ice_slots tc + 1\<rparr>)"
    have "local_content L S desc content tc = do {
        (t, g) \<leftarrow> set_dtls_transports L S d (DtlsSrtpTransport ?mid True) (tc_global ?t1);
        Some (add_dtls_srtp_transport ?mid t (?t1\<lparr>tc_global := g\<rparr>)) }"
      using True unfolding ag1_def ag2_def d_def by (simp add: local_content_def Let_def)
    then obtain t g where u: "u = add_dtls_srtp_transport ?mid t (?t1\<lparr>tc_global := g\<rparr>)"
      using r by (cases "set_dtls_transports L S d (DtlsSrtpTransport ?mid True) (tc_global ?t1)") auto
    have ag2: "map ch_transport_name (ag_channels ag2) = map ch_transport_name (ag_channels ag1)"
      "map ch_component (ag_channels ag2) = map ch_component (ag_channels ag1)"
      "map ch_state (ag_channels ag2) = map ch_state (ag_channels ag1)" "ag_state ag2 = ag_state ag1"
      by (simp_all add: ag2_def set_ice_param_view split: option.split)
    have dn: "dt_state d = K_new" by (simp add: d_def new_dtls)
    have names: "get_channel ?mid RTP (tc_agent tc) = None \<longleftrightarrow> ?mid \<notin> set (map ch_transport_name (ag_channels (tc_agent tc)))"
      by (rule get_channel_names) (use fl in \<open>auto simp: fresh_lists_def\<close>)
    have same: "map fst (tc_dtls tc) = map ch_transport_name (ag_channels (tc_agent tc))" using fl by (simp add: fresh_lists_def)
    have dts: "\<forall>c \<in> set (map (dt_state \<circ> snd) (AList.update ?mid d (tc_dtls tc))). c = K_new"
      using update_all [where f = dt_state and xs = "tc_dtls tc" and n = K_new and d = d] fl dn by (simp add: fresh_lists_def)
    have "fresh_lists (map fst (AList.update ?mid d (tc_dtls tc))) (map ch_transport_name (ag_channels ag1)) (map ch_component (ag_channels ag1))
       (map ch_state (ag_channels ag1)) (map (dt_state \<circ> snd) (AList.update ?mid d (tc_dtls tc)))"
    proof (cases "get_channel ?mid RTP (tc_agent tc)")
      case None
      then have "?mid \<notin> fst ` set (tc_dtls tc)" using names same by (metis list.set_map)
      then show ?thesis using None fl dts names
        by (auto simp: update_fresh ag1_def create_channel_def fresh_lists_def IceTransportChannel_def)
    next
      case (Some ch)
      then have "?mid \<in> fst ` set (tc_dtls tc)" using names same by (metis list.set_map option.distinct(1))
      then show ?thesis using Some fl dts by (simp add: keys_update ag1_def create_channel_def fresh_lists_def)
    qed
    then show ?thesis using an dn
      by (simp add: u fresh_iff add_dtls_srtp_transport_def add_dtls_transport_def put_srtp_def put_dtls_def ag2 Let_def ag1_def create_channel_def)
  qed
qed

lemma local_contents_fresh: "local_contents L S desc cs tc = Some u \<Longrightarrow> fresh tc \<Longrightarrow> fresh u"
  by (induction cs arbitrary: tc) (auto simp: bind_eq_Some_conv dest: local_content_fresh)

lemma agent_gathering_current:
  "agent_gathering L S owner gather nms tc = Some u \<Longrightarrow> current tc \<Longrightarrow> tells (Some \<circ> gather) \<Longrightarrow> current u"
  by (induction nms arbitrary: tc) (auto simp: bind_eq_Some_conv dest: tc_on_channel_current)

lemma remote_content_current:
  assumes r: "remote_content L S owner desc content tc = Some u" and c: "current tc"
  shows "current u"
proof (cases "bundled_away (mc_mid content) desc = Some False \<and> get_transport_info (mc_mid content) desc \<noteq> None")
  case False
  then have "u = tc" using r by (cases "bundled_away (mc_mid content) desc") (auto simp: remote_content_def Let_def split: option.splits bool.splits)
  then show ?thesis using c by simp
next
  case True
  then obtain td where td: "get_transport_info (mc_mid content) desc = Some td" by blast
  let ?p = "\<lparr>ice_ufrag = bytes_of_string (td_ice_ufrag td), ice_pwd = bytes_of_string (td_ice_pwd td)\<rparr>"
  obtain t1 where t1: "tc_on_channel L S owner (mc_mid content) (set_remote_ice_params ?p) tc = Some t1"
    using r True td by (cases "tc_on_channel L S owner (mc_mid content) (set_remote_ice_params ?p) tc") (auto simp: remote_content_def Let_def)
  have c1: "current t1" using tc_on_channel_current [OF t1 c tells_remote_params] .
  have "u = t1 \<or> (\<exists>i. tc_on_dtls L S owner (mc_mid content) i t1 = Some u)"
    using r True td t1 by (auto simp: remote_content_def Let_def bind_eq_Some_conv split: if_splits)
  then show ?thesis using c1 tc_on_dtls_current(1) by blast
qed

lemma remote_contents_current: "remote_contents L S owner desc cs tc = Some u \<Longrightarrow> current tc \<Longrightarrow> current u"
  by (induction cs arbitrary: tc) (auto simp: bind_eq_Some_conv dest: remote_content_current)

subsection \<open>All inputs\<close>

record host_env =
  he_digest :: digest
  he_ntop :: "ip_address \<Rightarrow> string"
  he_pton :: "string \<Rightarrow> ip_address option"
  he_bind :: "ip_address \<Rightarrow> int \<Rightarrow> int \<Rightarrow> int option"
  he_min_port :: int
  he_max_port :: int
  he_networks :: "ip_address list"

datatype tc_input =
    Tc_certificate "nat option"
  | Tc_local session_description
  | Tc_remote session_description
  | Tc_timer string int bytes
  | Tc_packet string int nat bytes socket_address int
  | Tc_send_rtp string bytes int
  | Tc_send_rtcp string bytes int

definition host_gathering :: "host_env \<Rightarrow> ice_channel \<Rightarrow> ice_channel" where
  "host_gathering E = gathering_candidate (he_ntop E) (he_pton E) (he_bind E) (he_min_port E) (he_max_port E) (he_networks E)"

text \<open>The peer connection sets the local description once, before anything else reaches the controller.\<close>

definition tc_step ::
  "host_env \<Rightarrow> 's openssl \<Rightarrow> 'c libsrtp \<Rightarrow> bool \<Rightarrow> bytes \<Rightarrow> tc_input \<Rightarrow> ('s, 'c) controller \<Rightarrow> ('s, 'c) controller option" where
  "tc_step E L S owner junk i tc = (case i of
       Tc_certificate c \<Rightarrow> Some (set_local_certificate_tc c tc)
     | Tc_local desc \<Rightarrow> if tc_dtls tc = [] then map_option snd (tc_set_local_description L S owner (host_gathering E) (Some desc) tc) else Some tc
     | Tc_remote desc \<Rightarrow> map_option snd (tc_set_remote_description L S owner (Some desc) tc)
     | Tc_timer nm now tid \<Rightarrow> tc_on_channel L S owner nm (\<lambda>ch. on_check_and_ping (he_digest E) tid (ch\<lparr>ch_now := now\<rparr>)) tc
     | Tc_packet nm now pi buf addr ts \<Rightarrow>
         tc_on_channel L S owner nm (\<lambda>ch. port_on_read_packet (he_digest E) pi buf addr ts (ch\<lparr>ch_now := now\<rparr>)) tc
     | Tc_send_rtp nm buf ret \<Rightarrow> map_option snd (tc_send_rtp S junk ret nm buf tc)
     | Tc_send_rtcp nm buf ret \<Rightarrow> map_option snd (tc_send_rtcp S ret nm buf tc))"

inductive tc_reach :: "host_env \<Rightarrow> 's openssl \<Rightarrow> 'c libsrtp \<Rightarrow> bool \<Rightarrow> ('s, 'c) controller \<Rightarrow> bool" for E L S owner where
  tc_start: "tc_reach E L S owner (TransportController g)"
| tc_input: "tc_reach E L S owner tc \<Longrightarrow> tc_step E L S owner junk i tc = Some tc' \<Longrightarrow> tc_reach E L S owner tc'"

lemma fresh_start: "tc_dtls tc = [] \<Longrightarrow> current tc \<Longrightarrow> fresh tc"
proof -
  assume e: "tc_dtls tc = []" and c: "current tc"
  then have "ag_channels (tc_agent tc) = []" by (auto simp: current_def wired_def)
  then show "fresh tc" using e c
    by (auto simp: current_def fresh_def wired_def ice_of_def dtls_of_def aggregate_state_def compute_pc_state_def total_ice_def total_dtls_def Let_def)
qed

lemma tells_at: "tells f \<Longrightarrow> tells (\<lambda>ch. f (ch\<lparr>ch_now := now\<rparr>))"
  unfolding tells_def by simp

lemma tells_host: "tells (Some \<circ> host_gathering E)"
  using tells_gathering by (simp add: host_gathering_def comp_def)

lemma put_srtp_current: "current (put_srtp nm t tc) = current tc"
  by (simp add: current_def wired_def ice_of_def dtls_of_def put_srtp_def)

lemma sent_state: "ds_send_rtp S junk ret buf d t = Some (r, d1, t1) \<Longrightarrow> dt_state d1 = dt_state d"
  "ds_send_rtcp S ret buf d t = Some (r, d1, t1) \<Longrightarrow> dt_state d1 = dt_state d"
  by (auto simp: ds_send_rtp_def ds_send_rtcp_def dt_send_packet_def bind_eq_Some_conv Let_def split: if_splits option.splits)

lemma tc_step_current:
  assumes s: "tc_step E L S owner junk i tc = Some u" and c: "current tc"
  shows "current u"
proof (cases i)
  case (Tc_certificate x)
  then show ?thesis using s c by (auto simp: tc_step_def set_local_certificate_tc_def current_def wired_def ice_of_def dtls_of_def)
next
  case (Tc_local desc)
  show ?thesis
  proof (cases "tc_dtls tc = []")
    case True
    then obtain t1 where t1: "local_contents L S desc (sd_contents desc) tc = Some t1"
      "agent_gathering L S owner (host_gathering E) (map ch_transport_name (ag_channels (tc_agent t1))) t1 = Some u"
      using s Tc_local by (auto simp: tc_step_def tc_set_local_description_def bind_eq_Some_conv)
    have "current t1" using fresh_current [OF local_contents_fresh [OF t1(1) fresh_start [OF True c]]] .
    then show ?thesis using agent_gathering_current [OF t1(2) _ tells_host] by blast
  qed (use s c Tc_local in \<open>simp add: tc_step_def\<close>)
next
  case (Tc_remote desc)
  then have "remote_contents L S owner desc (sd_contents desc) tc = Some u" using s by (auto simp: tc_step_def tc_set_remote_description_def)
  then show ?thesis using remote_contents_current c by blast
next
  case (Tc_timer nm now tid)
  then show ?thesis using s tc_on_channel_current [OF _ c tells_at [OF tells_check_and_ping]] by (simp add: tc_step_def)
next
  case (Tc_packet nm now pi buf addr ts)
  then show ?thesis using s tc_on_channel_current [OF _ c tells_at [OF tells_port_packet]] by (simp add: tc_step_def)
next
  case (Tc_send_rtp nm buf ret)
  show ?thesis
  proof (cases "get_dtls_srtp_transport nm tc")
    case None
    then show ?thesis using s c Tc_send_rtp by (simp add: tc_step_def tc_send_rtp_def)
  next
    case (Some t)
    then obtain d r d1 t1 where d: "get_dtls_transport nm tc = Some d" "ds_send_rtp S junk ret buf d t = Some (r, d1, t1)"
      "u = put_srtp nm t1 (put_dtls nm d1 tc)"
      using s Tc_send_rtp by (auto simp: tc_step_def tc_send_rtp_def bind_eq_Some_conv)
    then show ?thesis using put_dtls_current [OF c d(1) sent_state(1) [OF d(2)]] by (simp add: put_srtp_current)
  qed
next
  case (Tc_send_rtcp nm buf ret)
  show ?thesis
  proof (cases "get_dtls_srtp_transport nm tc")
    case None
    then show ?thesis using s c Tc_send_rtcp by (simp add: tc_step_def tc_send_rtcp_def)
  next
    case (Some t)
    then obtain d r d1 t1 where d: "get_dtls_transport nm tc = Some d" "ds_send_rtcp S ret buf d t = Some (r, d1, t1)"
      "u = put_srtp nm t1 (put_dtls nm d1 tc)"
      using s Tc_send_rtcp by (auto simp: tc_step_def tc_send_rtcp_def bind_eq_Some_conv)
    then show ?thesis using put_dtls_current [OF c d(1) sent_state(2) [OF d(2)]] by (simp add: put_srtp_current)
  qed
qed

lemma tc_reach_current:
  assumes "tc_reach E L S owner tc"
  shows "current tc"
  using assms
proof induction
  case (tc_start g)
  have "wired (TransportController g)" "announced (TransportController g)"
    by (simp_all add: wired_def announced_def TransportController_def IceAgent_def last_reported_def)
  then show ?case by (simp add: current_def ice_of_def dtls_of_def TransportController_def IceAgent_def aggregate_state_def
        compute_pc_state_def total_ice_def total_dtls_def)
qed (blast dest: tc_step_current)

subsection \<open>Transports stay\<close>

definition has_dtls :: "string \<Rightarrow> ('s, 'c) controller \<Rightarrow> bool" where
  "has_dtls nm tc \<longleftrightarrow> get_dtls_transport nm tc \<noteq> None"

lemma put_dtls_stays: "has_dtls nm tc \<Longrightarrow> has_dtls nm (put_dtls nm1 d tc)"
  by (simp add: has_dtls_def get_dtls_transport_def put_dtls_def AList.update_conv')

lemma tc_dtls_on_ice [simp]: "tc_dtls ((on_ice_state ^^ n) tc) = tc_dtls tc"
  by (induction n) (simp_all add: on_ice_state_def)

lemma tc_dtls_agent_slot [simp]: "tc_dtls (agent_slot tc) = tc_dtls tc"
  by (simp add: agent_slot_def case_prod_unfold Let_def)

lemma tc_dtls_see_channel [simp]: "tc_dtls (see_channel nm f tc) = tc_dtls tc"
  by (simp add: see_channel_def split: option.split)

lemma tc_dtls_controller_slot [simp]: "tc_dtls (run_controller_slot sig tc) = tc_dtls tc"
  by (cases sig) (simp_all add: run_controller_slot_def on_dtls_writable_state_def on_dtls_receiving_state_def on_dtls_state_tc_def)

lemma signals_stay: "run_dtls_signals L S nm sigs tc = Some u \<Longrightarrow> has_dtls nm0 tc \<Longrightarrow> has_dtls nm0 u"
proof (induction sigs arbitrary: tc)
  case (Cons e sigs)
  let ?t = "run_controller_slot (fst e) (put_dtls nm (snd e) tc)"
  obtain t1 where t1: "run_srtp_slot L S nm e ?t = Some t1" "run_dtls_signals L S nm sigs t1 = Some u"
    using Cons.prems(1) by (auto simp: bind_eq_Some_conv)
  have "has_dtls nm0 t1"
    using run_srtp_slot_view [OF t1(1)] put_dtls_stays [OF Cons.prems(2), of nm "snd e"] by (simp add: same_view_def has_dtls_def get_dtls_transport_def)
  then show ?case using Cons.IH t1(2) by blast
qed simp

lemma tc_on_dtls_stays: "tc_on_dtls L S owner nm i tc = Some u \<Longrightarrow> has_dtls nm0 tc \<Longrightarrow> has_dtls nm0 u"
proof (cases "get_dtls_transport nm tc")
  case (Some d)
  assume r: "tc_on_dtls L S owner nm i tc = Some u" and n: "has_dtls nm0 tc"
  obtain ch where ch: "get_channel nm RTP (tc_agent tc) = Some ch"
    using r Some by (cases "get_channel nm RTP (tc_agent tc)") (auto simp: tc_on_dtls_def)
  obtain w d1 sigs where s1: "dtls_step L owner i (ch_writable ch, d, []) = Some (w, d1, sigs)"
    using r Some ch by (cases "dtls_step L owner i (ch_writable ch, d, [])") (auto simp: tc_on_dtls_def)
  obtain u1 where s2: "run_dtls_signals L S nm sigs tc = Some u1"
    using r Some ch s1 by (cases "run_dtls_signals L S nm sigs tc") (auto simp: tc_on_dtls_def)
  have "u = put_dtls nm d1 u1" using r Some ch s1 s2 by (simp add: tc_on_dtls_def)
  then show ?thesis using put_dtls_stays [OF signals_stay [OF s2 n]] by simp
qed (simp add: tc_on_dtls_def)

lemma channel_signal_stays:
  assumes "run_channel_signal L S owner nm e tc = Some u" "has_dtls nm0 tc"
  shows "has_dtls nm0 u"
proof -
  have v: "has_dtls nm0 (agent_slot (see_channel nm f tc))" "has_dtls nm0 (tc_emit sig tc)" for f sig
    using assms(2) by (simp_all add: has_dtls_def get_dtls_transport_def)
  show ?thesis using assms v by (cases e) (auto simp: run_channel_signal_def dest: tc_on_dtls_stays)
qed

lemma channel_signals_stay:
  "run_channel_signals L S owner nm es tc = Some u \<Longrightarrow> has_dtls nm0 tc \<Longrightarrow> has_dtls nm0 u"
  by (induction es arbitrary: tc) (auto simp: bind_eq_Some_conv dest: channel_signal_stays)

lemma tc_on_channel_stays:
  assumes "tc_on_channel L S owner nm f tc = Some u" "has_dtls nm0 tc"
  shows "has_dtls nm0 u"
proof (cases "get_channel nm RTP (tc_agent tc)")
  case (Some ch)
  obtain ch1 where ch1: "f (ch\<lparr>ch_events := []\<rparr>) = Some ch1"
    using assms(1) Some by (cases "f (ch\<lparr>ch_events := []\<rparr>)") (auto simp: tc_on_channel_def)
  obtain t1 where t1: "run_channel_signals L S owner nm (ch_events ch1) tc = Some t1" "u = see_channel nm (\<lambda>_. ch1\<lparr>ch_events := []\<rparr>) t1"
    using assms(1) Some ch1 by (cases "run_channel_signals L S owner nm (ch_events ch1) tc") (auto simp: tc_on_channel_def)
  then show ?thesis using channel_signals_stay [OF t1(1) assms(2)] by (simp add: has_dtls_def get_dtls_transport_def)
qed (use assms in \<open>simp add: tc_on_channel_def\<close>)

lemma remote_content_stays:
  assumes "remote_content L S owner desc content tc = Some u" "has_dtls nm0 tc"
  shows "has_dtls nm0 u"
proof (cases "bundled_away (mc_mid content) desc = Some False \<and> get_transport_info (mc_mid content) desc \<noteq> None")
  case False
  then have "u = tc" using assms(1) by (cases "bundled_away (mc_mid content) desc") (auto simp: remote_content_def Let_def split: option.splits bool.splits)
  then show ?thesis using assms(2) by simp
next
  case True
  then obtain td where td: "get_transport_info (mc_mid content) desc = Some td" by blast
  let ?p = "\<lparr>ice_ufrag = bytes_of_string (td_ice_ufrag td), ice_pwd = bytes_of_string (td_ice_pwd td)\<rparr>"
  obtain t1 where t1: "tc_on_channel L S owner (mc_mid content) (set_remote_ice_params ?p) tc = Some t1"
    using assms(1) True td by (cases "tc_on_channel L S owner (mc_mid content) (set_remote_ice_params ?p) tc") (auto simp: remote_content_def Let_def)
  have "u = t1 \<or> (\<exists>i. tc_on_dtls L S owner (mc_mid content) i t1 = Some u)"
    using assms(1) True td t1 by (auto simp: remote_content_def Let_def bind_eq_Some_conv split: if_splits)
  then show ?thesis using tc_on_channel_stays [OF t1 assms(2)] tc_on_dtls_stays by blast
qed

lemma connected_all:
  assumes "current tc" "tc_pc_state tc = Pc_connected"
  shows "tc_dtls tc \<noteq> [] \<and> (\<forall>ch \<in> set (ag_channels (tc_agent tc)). ch_state ch = k_connected) \<and>
    (\<forall>p \<in> set (tc_dtls tc). dt_state (snd p) = K_connected \<or> dt_state (snd p) = K_closed)"
proof -
  have w: "wired tc" using assms(1) by (simp add: current_def)
  have pc: "compute_pc_state (ice_of tc) (dtls_of tc) = Pc_connected" using assms by (simp add: current_def)
  note live = wired_live [OF w] and len = wired_length [OF w]
  have ice: "aggregate_state (ice_of tc) \<noteq> k_failed" "aggregate_state (ice_of tc) \<noteq> k_disconnected" "aggregate_state (ice_of tc) \<noteq> k_new"
    "aggregate_state (ice_of tc) \<noteq> k_checking" and d: "total_dtls K_connected (dtls_of tc) + total_dtls K_closed (dtls_of tc) = length (dtls_of tc)"
    using pc compute_by_aggregate [OF live len] by (auto split: if_splits)
  have "\<forall>st \<in> set (ice_of tc). st = k_connected"
  proof
    fix st assume st: "st \<in> set (ice_of tc)"
    have "st \<noteq> k_failed" "st \<noteq> k_disconnected" "st \<noteq> k_new" "st \<noteq> k_checking" using st ice aggregate_live [OF live]
      by (auto simp: total_ice_pos split: if_splits)
    then show "st = k_connected" using live st by (cases st) (auto simp: list_all_iff live_state_def)
  qed
  moreover have "ice_of tc \<noteq> []" using ice(3) by (auto simp: aggregate_state_def total_ice_def)
  moreover have ds: "\<forall>st \<in> set ds. st = K_connected \<or> st = K_closed" if "total_dtls K_connected ds + total_dtls K_closed ds = length ds" for ds
    using that
  proof (induction ds)
    case (Cons s ds)
    have "total_dtls K_connected ds + total_dtls K_closed ds \<le> length ds" using total_dtls_sum [of ds] by linarith
    then show ?case using Cons by (cases s) (auto simp: total_dtls_def)
  qed simp
  ultimately show ?thesis using ds [OF d] len by (auto simp: ice_of_def dtls_of_def)
qed

lemma ice_never_completed: "tc_reach E L S owner tc \<Longrightarrow> ch \<in> set (ag_channels (tc_agent tc)) \<Longrightarrow> ch_state ch \<noteq> k_completed \<and> ch_state ch \<noteq> k_closed"
  using tc_reach_current [of E L S owner tc] by (auto simp: current_def wired_def live_state_def)

subsection \<open>Properties\<close>

text \<open>C4: In every reachable state of the transport controller the connection state last
  reported is the one computed from the present states of all ICE channels and DTLS transports;
  when it is connected, every channel is connected and every DTLS transport connected or
  closed.\<close>
theorem pc_state_current:
  assumes "tc_reach E L S owner tc"
  shows "last_reported (tc_signals tc) = compute_pc_state (map ch_state (ag_channels (tc_agent tc))) (map (dt_state \<circ> snd) (tc_dtls tc)) \<and>
    (last_reported (tc_signals tc) = Pc_connected \<longrightarrow> tc_dtls tc \<noteq> [] \<and> (\<forall>ch \<in> set (ag_channels (tc_agent tc)). ch_state ch = k_connected) \<and>
       (\<forall>p \<in> set (tc_dtls tc). dt_state (snd p) = K_connected \<or> dt_state (snd p) = K_closed))"
proof -
  have c: "current tc" using tc_reach_current [OF assms] .
  then have "last_reported (tc_signals tc) = tc_pc_state tc" by (simp add: current_def announced_def)
  then show ?thesis using c connected_all [OF c] by (simp add: current_def ice_of_def dtls_of_def)
qed

text \<open>C19: An answer that has a description of the transport of an existing content but no
  fingerprint makes the controller dereference null.\<close>
theorem missing_fingerprint:
  assumes "content \<in> set (sd_contents desc)" "bundled_away (mc_mid content) desc = Some False"
    and "get_transport_info (mc_mid content) desc = Some td" "td_fingerprint td = None" "get_dtls_transport (mc_mid content) tc \<noteq> None"
  shows "tc_set_remote_description L S owner (Some desc) tc = None"
proof -
  have one: "remote_content L S owner desc content t = None" if "has_dtls (mc_mid content) t" for t :: "('a, 'b) controller"
  proof -
    let ?r = "tc_on_channel L S owner (mc_mid content) (set_remote_ice_params
      \<lparr>ice_ufrag = bytes_of_string (td_ice_ufrag td), ice_pwd = bytes_of_string (td_ice_pwd td)\<rparr>) t"
    show ?thesis
    proof (cases ?r)
      case (Some t1)
      have "get_dtls_transport (mc_mid content) t1 \<noteq> None" using tc_on_channel_stays [OF Some that] by (simp add: has_dtls_def)
      then show ?thesis using assms(2-4) Some by (simp add: remote_content_def Let_def)
    qed (use assms(2,3) in \<open>simp add: remote_content_def Let_def\<close>)
  qed
  have "remote_contents L S owner desc cs t = None"
    if "content \<in> set cs" "has_dtls (mc_mid content) t" for cs and t :: "('a, 'b) controller"
    using that
  proof (induction cs arbitrary: t)
    case (Cons c cs)
    show ?case
    proof (cases "remote_content L S owner desc c t")
      case (Some u)
      then have "content \<in> set cs" using Cons.prems one by (cases "c = content") auto
      then show ?thesis using Cons.IH [of u] Some remote_content_stays [OF Some Cons.prems(2)] by simp
    qed simp
  qed simp
  from this [OF assms(1)] assms(5) show ?thesis by (simp add: tc_set_remote_description_def has_dtls_def)
qed

subsection \<open>A run\<close>

fun tc_run :: "host_env \<Rightarrow> 's openssl \<Rightarrow> 'c libsrtp \<Rightarrow> tc_input list \<Rightarrow> ('s, 'c) controller \<Rightarrow> ('s, 'c) controller option" where
  "tc_run E L S [] tc = Some tc"
| "tc_run E L S (i # is) tc = do { tc1 \<leftarrow> tc_step E L S True [] i tc; tc_run E L S is tc1 }"

lemma tc_run_reach: "tc_reach E L S True tc \<Longrightarrow> tc_run E L S is tc = Some u \<Longrightarrow> tc_reach E L S True u"
proof (induction "is" arbitrary: tc)
  case (Cons i "is")
  then obtain t1 where "tc_step E L S True [] i tc = Some t1" "tc_run E L S is t1 = Some u" by (auto simp: bind_eq_Some_conv)
  then show ?case using Cons.IH tc_input [OF Cons.prems(1)] by blast
qed simp

definition demo_host :: host_env where
  "demo_host = \<lparr>he_digest = sum_digest, he_ntop = (\<lambda>_. []), he_pton = (\<lambda>_. None), he_bind = (\<lambda>_ _ _. None),
     he_min_port = 0, he_max_port = 0, he_networks = []\<rparr>"

definition demo_audio :: "sdp_type \<Rightarrow> ssl_fingerprint option \<Rightarrow> session_description" where
  "demo_audio ty fp = \<lparr>sd_type = ty, sd_contents = [AudioContentDescription K_send_recv], sd_groups = [],
     sd_transports = [\<lparr>td_mid = ''audio'', td_ice_ufrag = ''u'', td_ice_pwd = ''p'', td_fingerprint = fp, td_role = Role_NONE\<rparr>]\<rparr>"

definition demo_tc :: "(nat, srtp_policy) controller" where
  "demo_tc = the (tc_run demo_host demo_ssl demo_srtp
     [Tc_certificate (Some 3), Tc_local (demo_audio K_offer None),
      Tc_remote (demo_audio K_answer (Some \<lparr>fp_algorithm = ''sha-256'', fp_digest = replicate 32 1\<rparr>))]
     (TransportController \<lparr>g_libsrtp_usage_count = 0, g_running = 0\<rparr>))"

lemma demo_tc_run: "tc_run demo_host demo_ssl demo_srtp
     [Tc_certificate (Some 3), Tc_local (demo_audio K_offer None),
      Tc_remote (demo_audio K_answer (Some \<lparr>fp_algorithm = ''sha-256'', fp_digest = replicate 32 1\<rparr>))]
     (TransportController \<lparr>g_libsrtp_usage_count = 0, g_running = 0\<rparr>) = Some demo_tc" (is "?r = _")
proof -
  have "?r \<noteq> None" by code_simp
  then show ?thesis by (auto simp: demo_tc_def)
qed

theorem pc_state_current_witness:
  "last_reported (tc_signals demo_tc) = Pc_new \<and> map (map_option (sa_state \<circ> snd) \<circ> dt_dtls \<circ> snd) (tc_dtls demo_tc) = [Some SSL_NONE]"
proof -
  have "map ch_state (ag_channels (tc_agent demo_tc)) = [k_new]" by code_simp
  moreover have "map (dt_state \<circ> snd) (tc_dtls demo_tc) = [K_new]" by code_simp
  moreover have "compute_pc_state [k_new] [K_new] = Pc_new" by (simp add: compute_pc_state_def total_ice_def total_dtls_def)
  moreover have "map (map_option (sa_state \<circ> snd) \<circ> dt_dtls \<circ> snd) (tc_dtls demo_tc) = [Some SSL_NONE]" by code_simp
  ultimately show ?thesis using pc_state_current [OF tc_run_reach [OF tc_start demo_tc_run]] by simp
qed

definition demo_answer :: string where
  "demo_answer = ''m=audio 9 U'' @ [CHR 0x0A] @ ''a=ice-ufrag:u'' @ [CHR 0x0A] @ ''a=ice-pwd:p''"

theorem missing_fingerprint_witness:
  "\<exists>desc. parse_answer K_send_recv demo_answer = Accepted desc \<and> tc_set_remote_description demo_ssl demo_srtp True (Some desc) demo_tc = None"
proof -
  let ?d = "case parse_answer K_send_recv demo_answer of Accepted desc \<Rightarrow> desc | _ \<Rightarrow> demo_audio K_answer None"
  let ?c = "AudioContentDescription K_send_recv"
  have p: "(case parse_answer K_send_recv demo_answer of Accepted desc \<Rightarrow> True | _ \<Rightarrow> False)" by code_simp
  have c: "sd_contents ?d = [?c]" "bundled_away (mc_mid ?c) ?d = Some False" by code_simp+
  have t: "map_option td_fingerprint (get_transport_info (mc_mid ?c) ?d) = Some None" "get_dtls_transport (mc_mid ?c) demo_tc \<noteq> None" by code_simp+
  from t(1) obtain td where "get_transport_info (mc_mid ?c) ?d = Some td" "td_fingerprint td = None" by auto
  from missing_fingerprint [OF _ c(2) this t(2)] c(1)
  have "tc_set_remote_description demo_ssl demo_srtp True (Some ?d) demo_tc = None" by simp
  then show ?thesis using p by (auto split: answer_result.splits)
qed

end
