(* ===== verification/Event_Loop.thy ===== *)
theory Event_Loop
  imports Xrtc_Prelude
begin

unbundle bit_operations_syntax

text \<open>
  \<open>base/event_loop.cpp\<close>: watchers of file descriptors and timers over libev.  Of libev the model has
  what its manual says: a watcher is active or not, setting gives it a descriptor and events, stopping
  leaves those as they are.  The events of a watcher that was never set are not initialised.
\<close>

definition EventLoop_READ :: int where "EventLoop_READ = 1"
definition EventLoop_WRITE :: int where "EventLoop_WRITE = 2"
definition EV_NONE :: int where "EV_NONE = 0"
definition EV_READ :: int where "EV_READ = 1"
definition EV_WRITE :: int where "EV_WRITE = 2"

definition TRANS_TO_EV_MASK :: "int \<Rightarrow> int" where
  "TRANS_TO_EV_MASK m = (if m AND EventLoop_READ \<noteq> 0 then EV_READ else 0) OR (if m AND EventLoop_WRITE \<noteq> 0 then EV_WRITE else 0)"

definition TRANS_FROM_EV_MASK :: "int \<Rightarrow> int" where
  "TRANS_FROM_EV_MASK m = (if m AND EV_READ \<noteq> 0 then EventLoop_READ else 0) OR (if m AND EV_WRITE \<noteq> 0 then EventLoop_WRITE else 0)"

subsection \<open>Descriptors\<close>

record io_watcher =
  iw_active :: bool
  iw_fd :: int
  iw_events :: "int option"

definition ev_io_set :: "int \<Rightarrow> int \<Rightarrow> io_watcher \<Rightarrow> io_watcher" where
  "ev_io_set fd events w = w\<lparr>iw_fd := fd, iw_events := Some events\<rparr>"

definition ev_io_start :: "io_watcher \<Rightarrow> io_watcher" where
  "ev_io_start w = w\<lparr>iw_active := True\<rparr>"

definition ev_io_stop :: "io_watcher \<Rightarrow> io_watcher" where
  "ev_io_stop w = w\<lparr>iw_active := False\<rparr>"

definition create_io_event :: io_watcher where
  "create_io_event = \<lparr>iw_active = False, iw_fd = -1, iw_events = None\<rparr>"

definition start_io_event :: "int \<Rightarrow> int \<Rightarrow> io_watcher \<Rightarrow> io_watcher option" where
  "start_io_event fd events_mask w = (if iw_active w then do {
       e \<leftarrow> iw_events w;
       let active_events = TRANS_FROM_EV_MASK e;
       let events = active_events OR events_mask;
       if active_events = events then Some w
       else Some (ev_io_start (ev_io_set fd (TRANS_TO_EV_MASK events) (ev_io_stop w)))
     } else Some (ev_io_start (ev_io_set fd (TRANS_TO_EV_MASK events_mask) w)))"

definition stop_io_event :: "int \<Rightarrow> int \<Rightarrow> io_watcher \<Rightarrow> io_watcher option" where
  "stop_io_event fd events_mask w = do {
     e \<leftarrow> iw_events w;
     let active_events = TRANS_FROM_EV_MASK e;
     let events = active_events AND NOT events_mask;
     if events = active_events then Some w
     else (let ev = TRANS_TO_EV_MASK events; w1 = ev_io_stop w in
       Some (if ev \<noteq> EV_NONE then ev_io_start (ev_io_set fd ev w1) else w1))
   }"

subsection \<open>Timers\<close>

text \<open>Times in microseconds, without the rounding of their conversion to \<open>float\<close>.  libev forbids setting an active
  timer; \<open>ev_timer_again\<close> restarts a timer with a period and stops one without.\<close>

record timer_watcher =
  tw_need_repeat :: bool
  tw_active :: bool
  tw_at :: int
  tw_repeat :: int

definition create_timer :: "bool \<Rightarrow> timer_watcher" where
  "create_timer need_repeat = \<lparr>tw_need_repeat = need_repeat, tw_active = False, tw_at = 0, tw_repeat = 0\<rparr>"

definition ev_timer_again :: "int \<Rightarrow> timer_watcher \<Rightarrow> timer_watcher" where
  "ev_timer_again now w = (if tw_active w then
       (if 0 < tw_repeat w then w\<lparr>tw_at := now + tw_repeat w\<rparr> else w\<lparr>tw_active := False\<rparr>)
     else if 0 < tw_repeat w then w\<lparr>tw_at := now + tw_repeat w, tw_active := True\<rparr> else w)"

definition start_timer :: "int \<Rightarrow> int \<Rightarrow> timer_watcher \<Rightarrow> timer_watcher option" where
  "start_timer now usec w = (if \<not> tw_need_repeat w then
       (if tw_active w then None else Some (w\<lparr>tw_at := now + usec, tw_repeat := 0, tw_active := True\<rparr>))
     else Some (ev_timer_again now (w\<lparr>tw_repeat := usec\<rparr>)))"

definition stop_timer :: "timer_watcher \<Rightarrow> timer_watcher" where
  "stop_timer w = w\<lparr>tw_active := False\<rparr>"

lemma start_timer_fires:
  "0 < usec \<Longrightarrow> start_timer now usec w = Some w1 \<Longrightarrow> tw_active w1 \<and> tw_at w1 = now + usec"
  by (auto simp: start_timer_def ev_timer_again_def Let_def split: if_splits)

subsection \<open>What a watcher watches\<close>

definition watches_read :: "io_watcher \<Rightarrow> bool" where
  "watches_read w \<longleftrightarrow> iw_active w \<and> (case iw_events w of None \<Rightarrow> False | Some e \<Rightarrow> e AND EV_READ \<noteq> 0)"

definition watches_write :: "io_watcher \<Rightarrow> bool" where
  "watches_write w \<longleftrightarrow> iw_active w \<and> (case iw_events w of None \<Rightarrow> False | Some e \<Rightarrow> e AND EV_WRITE \<noteq> 0)"

lemma mask_bits [simp]:
  "m AND EventLoop_READ \<noteq> 0 \<longleftrightarrow> bit m 0" "m AND EventLoop_WRITE \<noteq> 0 \<longleftrightarrow> bit m 1"
  "m AND EV_READ \<noteq> 0 \<longleftrightarrow> bit m 0" "m AND EV_WRITE \<noteq> 0 \<longleftrightarrow> bit m 1"
  using and_exp_eq_0_iff_not_bit [of m 0] and_exp_eq_0_iff_not_bit [of m 1]
  by (simp_all add: EventLoop_READ_def EventLoop_WRITE_def EV_READ_def EV_WRITE_def)

lemma trans_bits [simp]:
  "bit (TRANS_TO_EV_MASK m) n \<longleftrightarrow> n < 2 \<and> bit m n" "bit (TRANS_FROM_EV_MASK m) n \<longleftrightarrow> n < 2 \<and> bit m n"
proof -
  have b: "bit (1 :: int) n \<longleftrightarrow> n = 0" "bit (2 :: int) n \<longleftrightarrow> n = 1" for n
    using bit_exp_iff [of 1 n, where ?'a = int] by (auto simp: bit_1_iff)
  show "bit (TRANS_TO_EV_MASK m) n \<longleftrightarrow> n < 2 \<and> bit m n" "bit (TRANS_FROM_EV_MASK m) n \<longleftrightarrow> n < 2 \<and> bit m n"
    unfolding TRANS_TO_EV_MASK_def TRANS_FROM_EV_MASK_def mask_bits
    by (cases "n = 0"; cases "n = 1"; auto simp: bit_or_iff EventLoop_READ_def EventLoop_WRITE_def EV_READ_def EV_WRITE_def b less_2_cases_iff)+
qed

lemma trans_none: "TRANS_TO_EV_MASK m = EV_NONE \<longleftrightarrow> \<not> bit m 0 \<and> \<not> bit m 1"
proof
  assume "TRANS_TO_EV_MASK m = EV_NONE"
  then have "bit (TRANS_TO_EV_MASK m) n = False" for n by (simp add: EV_NONE_def)
  from this [of 0] this [of 1] show "\<not> bit m 0 \<and> \<not> bit m 1" by simp
qed (simp add: TRANS_TO_EV_MASK_def EV_NONE_def)

text \<open>An active watcher is a set of interests: starting adds to it and stopping takes away.\<close>

lemma active_events_eq:
  "TRANS_FROM_EV_MASK e OR m = TRANS_FROM_EV_MASK e \<Longrightarrow> n < 2 \<Longrightarrow> bit m n \<Longrightarrow> bit e n"
  "TRANS_FROM_EV_MASK e AND NOT m = TRANS_FROM_EV_MASK e \<Longrightarrow> n < 2 \<Longrightarrow> bit e n \<Longrightarrow> \<not> bit m n"
proof -
  have "bit (TRANS_FROM_EV_MASK e OR m) n = (n < 2 \<and> bit e n \<or> bit m n)" "bit (TRANS_FROM_EV_MASK e AND NOT m) n = (n < 2 \<and> bit e n \<and> \<not> bit m n)"
    by (simp_all add: bit_or_iff bit_and_iff bit_not_iff)
  then show "TRANS_FROM_EV_MASK e OR m = TRANS_FROM_EV_MASK e \<Longrightarrow> n < 2 \<Longrightarrow> bit m n \<Longrightarrow> bit e n"
    "TRANS_FROM_EV_MASK e AND NOT m = TRANS_FROM_EV_MASK e \<Longrightarrow> n < 2 \<Longrightarrow> bit e n \<Longrightarrow> \<not> bit m n" by auto
qed

lemma start_io_interests:
  assumes "start_io_event fd m w = Some w'"
  shows "watches_read w' = (watches_read w \<or> bit m 0)" "watches_write w' = (watches_write w \<or> bit m 1)"
    "bit m 0 \<or> bit m 1 \<Longrightarrow> iw_active w'"
proof -
  have "watches_read w' = (watches_read w \<or> bit m 0) \<and> watches_write w' = (watches_write w \<or> bit m 1) \<and> iw_active w'"
  proof (cases "iw_active w")
    case False
    then have w': "w' = ev_io_start (ev_io_set fd (TRANS_TO_EV_MASK m) w)" using assms by (simp add: start_io_event_def)
    show ?thesis using False unfolding w' by (simp add: watches_read_def watches_write_def ev_io_start_def ev_io_set_def)
  next
    case True
    then obtain e where e: "iw_events w = Some e" using assms by (auto simp: start_io_event_def bind_eq_Some_conv)
    show ?thesis
    proof (cases "TRANS_FROM_EV_MASK e = TRANS_FROM_EV_MASK e OR m")
      case same: True
      then have "w' = w" using assms True e by (simp add: start_io_event_def Let_def)
      then show ?thesis using True e active_events_eq(1) [of e m 0] active_events_eq(1) [of e m 1] same
        by (auto simp: watches_read_def watches_write_def)
    next
      case False
      then have w': "w' = ev_io_start (ev_io_set fd (TRANS_TO_EV_MASK (TRANS_FROM_EV_MASK e OR m)) (ev_io_stop w))"
        using assms True e by (simp add: start_io_event_def Let_def)
      show ?thesis using True e unfolding w' by (simp add: watches_read_def watches_write_def ev_io_start_def ev_io_set_def bit_or_iff)
    qed
  qed
  then show "watches_read w' = (watches_read w \<or> bit m 0)" "watches_write w' = (watches_write w \<or> bit m 1)"
    "bit m 0 \<or> bit m 1 \<Longrightarrow> iw_active w'" by blast+
qed

lemma stop_io_interests:
  assumes "stop_io_event fd m w = Some w'" "iw_active w"
  shows "watches_read w' = (watches_read w \<and> \<not> bit m 0)" "watches_write w' = (watches_write w \<and> \<not> bit m 1)"
    "watches_read w' \<or> watches_write w' \<longrightarrow> iw_active w'"
proof -
  obtain e where e: "iw_events w = Some e" using assms(1) by (auto simp: stop_io_event_def bind_eq_Some_conv)
  have "watches_read w' = (watches_read w \<and> \<not> bit m 0) \<and> watches_write w' = (watches_write w \<and> \<not> bit m 1)"
  proof (cases "TRANS_FROM_EV_MASK e AND NOT m = TRANS_FROM_EV_MASK e")
    case True
    then have "w' = w" using assms e by (simp add: stop_io_event_def Let_def)
    then show ?thesis using e active_events_eq(2) [OF True, of 0] active_events_eq(2) [OF True, of 1]
      by (auto simp: watches_read_def watches_write_def)
  next
    case False
    let ?ev = "TRANS_TO_EV_MASK (TRANS_FROM_EV_MASK e AND NOT m)"
    have w': "w' = (if ?ev \<noteq> EV_NONE then ev_io_start (ev_io_set fd ?ev (ev_io_stop w)) else ev_io_stop w)"
      using assms False e by (simp add: stop_io_event_def Let_def)
    show ?thesis using assms(2) e unfolding w'
      by (auto simp: watches_read_def watches_write_def ev_io_start_def ev_io_set_def ev_io_stop_def trans_none bit_and_iff bit_not_iff)
  qed
  then show "watches_read w' = (watches_read w \<and> \<not> bit m 0)" "watches_write w' = (watches_write w \<and> \<not> bit m 1)"
    "watches_read w' \<or> watches_write w' \<longrightarrow> iw_active w'" by (auto simp: watches_read_def watches_write_def)
qed

text \<open>A watcher that has been stopped remembers its events, and stopping it again for some of them
  starts it for the others.\<close>

lemma stop_restarts:
  "\<exists>w1 w2. start_io_event 7 3 create_io_event = Some w1 \<and> stop_io_event 7 3 w1 = Some w2 \<and> \<not> iw_active w2 \<and>
     (\<exists>w3. stop_io_event 7 1 w2 = Some w3 \<and> iw_active w3 \<and> watches_write w3)"
  by (simp add: start_io_event_def stop_io_event_def create_io_event_def ev_io_set_def ev_io_start_def ev_io_stop_def
      TRANS_TO_EV_MASK_def TRANS_FROM_EV_MASK_def EventLoop_READ_def EventLoop_WRITE_def EV_READ_def EV_WRITE_def EV_NONE_def
      watches_write_def Let_def del: mask_bits)

end
