(* ===== verification/Udp_Sockets.thy ===== *)
theory Udp_Sockets
  imports Event_Loop Udp_Port "HOL-Library.Sublist"
begin

text \<open>
  \<open>base/socket.cpp\<close> (the calls UDP uses), \<open>base/async_udp_socket.*\<close>, \<open>base/network.*\<close> and
  \<open>ice/port_allocator.*\<close>.  What the kernel answers to a system call is a value given with the call.
\<close>

subsection \<open>System calls\<close>

datatype sys_send = Sys_sent nat | Sys_send_again | Sys_send_error
datatype sys_recv = Sys_datagram bytes sockaddr_storage | Sys_recv_again | Sys_recv_error

definition sock_send_to :: "sys_send \<Rightarrow> int" where
  "sock_send_to r = (case r of Sys_send_error \<Rightarrow> -1 | Sys_send_again \<Rightarrow> 0
     | Sys_sent n \<Rightarrow> if n = 0 then -1 else int n)"

text \<open>A datagram longer than the buffer is cut.\<close>

definition sock_recv_from :: "nat \<Rightarrow> sys_recv \<Rightarrow> int \<times> bytes" where
  "sock_recv_from sz r = (case r of Sys_recv_error \<Rightarrow> (-1, []) | Sys_recv_again \<Rightarrow> (0, [])
     | Sys_datagram d a \<Rightarrow> if take sz d = [] then (-1, []) else (int (length (take sz d)), take sz d))"

text \<open>\<open>free p\<close> is whether \<open>bind\<close> to the port \<open>p\<close> succeeds, \<open>sin_port\<close> what the address holds
  before.  The result is the port of the \<open>bind\<close> that succeeded.\<close>

function bind_loop :: "(u16 \<Rightarrow> bool) \<Rightarrow> int \<Rightarrow> int \<Rightarrow> u16 option" where
  "bind_loop free prt max_port = (if prt \<le> max_port then
       (if free (word_of_int prt) then Some (word_of_int prt) else bind_loop free (prt + 1) max_port)
     else None)"
  by pat_completeness auto
termination by (relation "measure (\<lambda>(_, p, m). nat (m + 1 - p))") auto

declare bind_loop.simps [simp del]

definition sock_bind :: "(u16 \<Rightarrow> bool) \<Rightarrow> u16 \<Rightarrow> int \<Rightarrow> int \<Rightarrow> u16 option" where
  "sock_bind free sin_port min_port max_port =
     (if min_port = 0 \<and> max_port = 0 then (if free sin_port then Some sin_port else None)
      else bind_loop free min_port max_port)"

definition sock_get_address :: "sockaddr_storage option \<Rightarrow> int option" where
  "sock_get_address r = map_option (\<lambda>a. uint (of_be (ss_port a) :: u16)) r"

definition create_udp_socket :: "int option \<Rightarrow> int" where
  "create_udp_socket r = (case r of None \<Rightarrow> -1 | Some fd \<Rightarrow> fd)"

definition sock_setnonblock :: "int option \<Rightarrow> bool \<Rightarrow> int" where
  "sock_setnonblock getfl setfl = (case getfl of None \<Rightarrow> -1 | Some _ \<Rightarrow> if \<not> setfl then -1 else 0)"

text \<open>The start of \<open>create_ice_candidate\<close>, which \<open>Udp_Port\<close> takes as its parameter \<open>bind_port\<close>:
  the answers are those of \<open>socket\<close>, the two \<open>fcntl\<close>, \<open>bind\<close> and \<open>getsockname\<close>.\<close>

record udp_calls =
  uc_socket :: "int option"
  uc_getfl :: "int option"
  uc_setfl :: bool
  uc_free :: "u16 \<Rightarrow> bool"
  uc_sin_port :: u16
  uc_sockname :: "u16 \<Rightarrow> sockaddr_storage option"

definition prepare_socket :: "udp_calls \<Rightarrow> int \<Rightarrow> int \<Rightarrow> int option" where
  "prepare_socket k min_port max_port = (
     if create_udp_socket (uc_socket k) < 0 then None
     else if sock_setnonblock (uc_getfl k) (uc_setfl k) \<noteq> 0 then None
     else (case sock_bind (uc_free k) (uc_sin_port k) min_port max_port of
         None \<Rightarrow> None
       | Some p \<Rightarrow> sock_get_address (uc_sockname k p)))"

subsection \<open>The socket\<close>

definition MAX_BUF_SIZE :: nat where "MAX_BUF_SIZE = 1500"

record udp_packet_data =
  pk_data :: bytes
  pk_addr :: socket_address

text \<open>\<open>us_calls\<close> counts the calls of \<open>sendto\<close> and \<open>us_sent\<close> has the datagrams the kernel took.\<close>

record async_udp_socket =
  us_socket :: int
  us_watcher :: io_watcher
  us_packets :: "udp_packet_data list"
  us_calls :: nat
  us_sent :: "udp_packet_data list"

definition AsyncUdpSocket :: "int \<Rightarrow> async_udp_socket option" where
  "AsyncUdpSocket fd = map_option
     (\<lambda>w. \<lparr>us_socket = fd, us_watcher = w, us_packets = [], us_calls = 0, us_sent = []\<rparr>)
     (start_io_event fd EventLoop_READ create_io_event)"

text \<open>One \<open>sendto\<close>: the kernel's answer may depend on the call, the data and the address.\<close>

type_synonym udp_net = "nat \<Rightarrow> bytes \<Rightarrow> sockaddr_storage \<times> nat \<Rightarrow> sys_send"

definition udp_send_packet :: "udp_net \<Rightarrow> udp_packet_data \<Rightarrow> async_udp_socket \<Rightarrow> int \<times> async_udp_socket" where
  "udp_send_packet net p s = (let r = sock_send_to (net (us_calls s) (pk_data p) (ToSockAddrStorage (pk_addr p))) in
     (r, s\<lparr>us_calls := us_calls s + 1, us_sent := us_sent s @ (if 0 < r then [p] else [])\<rparr>))"

datatype flush_result = Flushed | Flush_error | Flush_again

text \<open>The loop over the queue that \<open>send_data\<close> and \<open>_add_udp_packet\<close> share.\<close>

fun flush_packets :: "udp_net \<Rightarrow> udp_packet_data list \<Rightarrow> async_udp_socket \<Rightarrow> flush_result \<times> async_udp_socket" where
  "flush_packets net [] s = (Flushed, s\<lparr>us_packets := []\<rparr>)"
| "flush_packets net (p # ps) s = (let (r, s1) = udp_send_packet net p s in
     if r < 0 then (Flush_error, s1\<lparr>us_packets := ps\<rparr>)
     else if r = 0 then (Flush_again, s1\<lparr>us_packets := p # ps\<rparr>)
     else flush_packets net ps s1)"

definition udp_send_data :: "udp_net \<Rightarrow> async_udp_socket \<Rightarrow> async_udp_socket option" where
  "udp_send_data net s = (case flush_packets net (us_packets s) s of
       (Flushed, s1) \<Rightarrow> map_option (\<lambda>w. s1\<lparr>us_watcher := w\<rparr>)
           (stop_io_event (us_socket s1) EventLoop_WRITE (us_watcher s1))
     | (_, s1) \<Rightarrow> Some s1)"

definition queue_packet :: "udp_packet_data \<Rightarrow> async_udp_socket \<Rightarrow> (int \<times> async_udp_socket) option" where
  "queue_packet p s = map_option
     (\<lambda>w. (int (length (pk_data p)), s\<lparr>us_packets := us_packets s @ [p], us_watcher := w\<rparr>))
     (start_io_event (us_socket s) EventLoop_WRITE (us_watcher s))"

definition add_udp_packet ::
  "udp_net \<Rightarrow> bytes \<Rightarrow> socket_address \<Rightarrow> async_udp_socket \<Rightarrow> (int \<times> async_udp_socket) option" where
  "add_udp_packet net d addr s = (let p = \<lparr>pk_data = d, pk_addr = addr\<rparr> in
     case flush_packets net (us_packets s) s of
       (Flush_error, s1) \<Rightarrow> Some (-1, s1)
     | (Flush_again, s1) \<Rightarrow> queue_packet p s1
     | (Flushed, s1) \<Rightarrow> (let (r, s2) = udp_send_packet net p s1 in
         if r < 0 then Some (-1, s2)
         else if r = 0 then queue_packet p s2
         else Some (r, s2)))"

definition udp_send_to ::
  "udp_net \<Rightarrow> bytes \<Rightarrow> socket_address \<Rightarrow> async_udp_socket \<Rightarrow> (int \<times> async_udp_socket) option" where
  "udp_send_to net d addr s = add_udp_packet net d addr s"

text \<open>\<open>signal_read_packet\<close> is the argument \<open>on_packet\<close>, which may use the socket; the list has the
  answers of \<open>recvfrom\<close> with the time of each, and its end stands for \<open>EAGAIN\<close>.\<close>

fun recv_data ::
  "(ip_address \<Rightarrow> string) \<Rightarrow> (string \<Rightarrow> ip_address option) \<Rightarrow> (bytes \<Rightarrow> socket_address \<Rightarrow> int \<Rightarrow> 'a \<Rightarrow> 'a option)
   \<Rightarrow> (sys_recv \<times> int) list \<Rightarrow> 'a \<Rightarrow> 'a option" where
  "recv_data ntop pton on_packet [] x = Some x"
| "recv_data ntop pton on_packet ((r, ts) # rs) x = (let (len, buf) = sock_recv_from MAX_BUF_SIZE r in
     if len \<le> 0 then Some x
     else (case r of
         Sys_datagram d a \<Rightarrow> do {
           let prt = uint (of_be (ss_port a) :: u16);
           let ip = ntop (IPAddress_v4 (ss_addr a));
           let remote_addr = SetPort prt (SetIP_name pton ip SocketAddress_nil);
           y \<leftarrow> on_packet buf remote_addr ts x;
           recv_data ntop pton on_packet rs y
         }
       | _ \<Rightarrow> Some x))"

definition async_udp_socket_io_cb ::
  "int \<Rightarrow> (async_udp_socket \<Rightarrow> async_udp_socket option) \<Rightarrow> udp_net \<Rightarrow> async_udp_socket \<Rightarrow> async_udp_socket option" where
  "async_udp_socket_io_cb events recv net s =
     (if events AND EventLoop_READ \<noteq> 0 then recv s
      else if events AND EventLoop_WRITE \<noteq> 0 then udp_send_data net s
      else Some s)"

subsection \<open>Networks and the allocator\<close>

text \<open>An interface of \<open>getifaddrs\<close>: its name and its address, if it has one.\<close>

record port_allocator =
  pa_networks :: "(string \<times> ip_address) list"
  pa_min_port :: int
  pa_max_port :: int

fun collect_networks :: "(string \<times> sockaddr_storage option) list \<Rightarrow> (string \<times> ip_address) list option" where
  "collect_networks [] = Some []"
| "collect_networks ((nm, a) # rest) = do {
     a \<leftarrow> a;
     if ss_family a \<noteq> AF_INET then collect_networks rest
     else (let ip = IPAddress_v4 (ss_addr a) in
       if IPIsLoopback ip then collect_networks rest
       else map_option ((#) (nm, ip)) (collect_networks rest))
   }"

definition create_networks ::
  "(string \<times> sockaddr_storage option) list option \<Rightarrow> (int \<times> (string \<times> ip_address) list) option" where
  "create_networks r = (case r of None \<Rightarrow> Some (-1, []) | Some ifs \<Rightarrow> map_option (Pair 0) (collect_networks ifs))"

definition PortAllocator :: "(string \<times> sockaddr_storage option) list option \<Rightarrow> port_allocator option" where
  "PortAllocator r = map_option (\<lambda>(_, ns). \<lparr>pa_networks = ns, pa_min_port = 0, pa_max_port = 0\<rparr>) (create_networks r)"

definition set_port_range :: "int \<Rightarrow> int \<Rightarrow> port_allocator \<Rightarrow> port_allocator" where
  "set_port_range min_port max_port a = (let a1 = if 0 < min_port then a\<lparr>pa_min_port := min_port\<rparr> else a in
     if 0 < max_port then a1\<lparr>pa_max_port := max_port\<rparr> else a1)"

subsection \<open>The queue\<close>

text \<open>What happens to a socket: a packet is given to it, or its descriptor becomes writable.\<close>

datatype udp_op = Udp_send bytes socket_address udp_net | Udp_writable udp_net

definition udp_op_step :: "udp_op \<Rightarrow> async_udp_socket \<Rightarrow> async_udp_socket option" where
  "udp_op_step oper s = (case oper of
       Udp_send d a net \<Rightarrow> map_option snd (udp_send_to net d a s)
     | Udp_writable net \<Rightarrow> udp_send_data net s)"

fun udp_run :: "udp_op list \<Rightarrow> async_udp_socket \<Rightarrow> async_udp_socket option" where
  "udp_run [] s = Some s"
| "udp_run (oper # rest) s = udp_op_step oper s \<bind> udp_run rest"

fun submitted :: "udp_op list \<Rightarrow> udp_packet_data list" where
  "submitted [] = []"
| "submitted (Udp_send d a net # rest) = \<lparr>pk_data = d, pk_addr = a\<rparr> # submitted rest"
| "submitted (Udp_writable net # rest) = submitted rest"

definition never_fails :: "udp_net \<Rightarrow> bool" where
  "never_fails net \<longleftrightarrow> (\<forall>k d a. 0 \<le> sock_send_to (net k d a))"

definition takes_all :: "udp_net \<Rightarrow> bool" where
  "takes_all net \<longleftrightarrow> (\<forall>k d a. 0 < sock_send_to (net k d a))"

fun op_net :: "udp_op \<Rightarrow> udp_net" where
  "op_net (Udp_send d a net) = net"
| "op_net (Udp_writable net) = net"

definition udp_ok :: "async_udp_socket \<Rightarrow> bool" where
  "udp_ok s \<longleftrightarrow> watches_read (us_watcher s) \<and> (us_packets s \<noteq> [] \<longrightarrow> watches_write (us_watcher s))"

lemma udp_send_packet_effect:
  "udp_send_packet net p s = (r, s1) \<Longrightarrow> us_packets s1 = us_packets s \<and> us_watcher s1 = us_watcher s \<and>
     us_sent s1 = us_sent s @ (if 0 < r then [p] else [])"
  by (auto simp: udp_send_packet_def Let_def)

lemma udp_send_packet_answer:
  "never_fails net \<Longrightarrow> udp_send_packet net p s = (r, s1) \<Longrightarrow> 0 \<le> r"
  "takes_all net \<Longrightarrow> udp_send_packet net p s = (r, s1) \<Longrightarrow> 0 < r"
  by (auto simp: udp_send_packet_def Let_def never_fails_def takes_all_def simp del: split_paired_All)

lemma flush_effect:
  assumes "flush_packets net ps s = (r, s1)"
  shows "us_watcher s1 = us_watcher s" "\<exists>done lost. ps = done @ lost @ us_packets s1 \<and> us_sent s1 = us_sent s @ done \<and>
     (r = Flushed \<longrightarrow> lost = [] \<and> us_packets s1 = []) \<and> (r = Flush_again \<longrightarrow> lost = [] \<and> us_packets s1 \<noteq> []) \<and>
     (r = Flush_error \<longrightarrow> length lost = 1 \<and> \<not> never_fails net) \<and> (takes_all net \<longrightarrow> r = Flushed)"
proof -
  have "us_watcher s1 = us_watcher s \<and> (\<exists>done lost. ps = done @ lost @ us_packets s1 \<and> us_sent s1 = us_sent s @ done \<and>
     (r = Flushed \<longrightarrow> lost = [] \<and> us_packets s1 = []) \<and> (r = Flush_again \<longrightarrow> lost = [] \<and> us_packets s1 \<noteq> []) \<and>
     (r = Flush_error \<longrightarrow> length lost = 1 \<and> \<not> never_fails net) \<and> (takes_all net \<longrightarrow> r = Flushed))"
    using assms
  proof (induction ps arbitrary: s)
    case (Cons p ps)
    obtain x s2 where x: "udp_send_packet net p s = (x, s2)" by fastforce
    note eff = udp_send_packet_effect [OF x] and ans = udp_send_packet_answer [OF _ x]
    consider "x < 0" | "x = 0" | "0 < x" by linarith
    then show ?case
    proof cases
      case 1
      then show ?thesis using Cons.prems x eff ans by (intro conjI exI [of _ "[]"] exI [of _ "[p]"]) auto
    next
      case 2
      then show ?thesis using Cons.prems x eff ans by auto
    next
      case 3
      then have "flush_packets net ps s2 = (r, s1)" using Cons.prems x by simp
      from Cons.IH [OF this] obtain dn lost where
        "us_watcher s1 = us_watcher s2" "ps = dn @ lost @ us_packets s1" "us_sent s1 = us_sent s2 @ dn"
        "(r = Flushed \<longrightarrow> lost = [] \<and> us_packets s1 = []) \<and> (r = Flush_again \<longrightarrow> lost = [] \<and> us_packets s1 \<noteq> []) \<and>
         (r = Flush_error \<longrightarrow> length lost = 1 \<and> \<not> never_fails net) \<and> (takes_all net \<longrightarrow> r = Flushed)" by blast
      then show ?thesis using eff 3 by (intro conjI exI [of _ "p # dn"] exI [of _ lost]) auto
    qed
  qed auto
  then show "us_watcher s1 = us_watcher s" "\<exists>done lost. ps = done @ lost @ us_packets s1 \<and> us_sent s1 = us_sent s @ done \<and>
     (r = Flushed \<longrightarrow> lost = [] \<and> us_packets s1 = []) \<and> (r = Flush_again \<longrightarrow> lost = [] \<and> us_packets s1 \<noteq> []) \<and>
     (r = Flush_error \<longrightarrow> length lost = 1 \<and> \<not> never_fails net) \<and> (takes_all net \<longrightarrow> r = Flushed)" by blast+
qed

lemma start_io_total: "watches_read w \<Longrightarrow> \<exists>w'. start_io_event fd m w = Some w'"
  by (auto simp: watches_read_def start_io_event_def Let_def split: option.splits)

lemma stop_io_total: "watches_read w \<Longrightarrow> \<exists>w'. stop_io_event fd m w = Some w'"
  by (auto simp: watches_read_def stop_io_event_def Let_def split: option.splits)

lemma write_bits [simp]: "\<not> bit EventLoop_WRITE 0" "bit EventLoop_WRITE (Suc 0)" "bit EventLoop_READ 0" "\<not> bit EventLoop_READ (Suc 0)"
  using mask_bits [of EventLoop_WRITE] mask_bits [of EventLoop_READ]
  by (simp_all add: EventLoop_WRITE_def EventLoop_READ_def EV_READ_def EV_WRITE_def del: mask_bits)

lemma queue_packet_effect:
  assumes "watches_read (us_watcher s)"
  obtains s1 where "queue_packet p s = Some (int (length (pk_data p)), s1)" "us_packets s1 = us_packets s @ [p]"
    "us_sent s1 = us_sent s" "udp_ok s1"
proof -
  obtain w where w: "start_io_event (us_socket s) EventLoop_WRITE (us_watcher s) = Some w"
    using start_io_total [OF assms] by blast
  show thesis
    by (rule that [of "s\<lparr>us_packets := us_packets s @ [p], us_watcher := w\<rparr>"])
      (use w assms start_io_interests [OF w] in \<open>auto simp: queue_packet_def udp_ok_def\<close>)
qed

lemma udp_op_effect:
  assumes "udp_ok s"
  obtains s1 where "udp_op_step oper s = Some s1" "udp_ok s1"
    "subseq (us_sent s1 @ us_packets s1) (us_sent s @ us_packets s @ submitted [oper])"
    "never_fails (op_net oper) \<Longrightarrow> us_sent s1 @ us_packets s1 = us_sent s @ us_packets s @ submitted [oper]"
proof -
  obtain r s1 where f: "flush_packets (op_net oper) (us_packets s) s = (r, s1)" by fastforce
  obtain dn lost where d: "us_packets s = dn @ lost @ us_packets s1" "us_sent s1 = us_sent s @ dn"
     "r = Flushed \<Longrightarrow> lost = [] \<and> us_packets s1 = []" "r = Flush_again \<Longrightarrow> lost = [] \<and> us_packets s1 \<noteq> []"
     "r = Flush_error \<Longrightarrow> length lost = 1 \<and> \<not> never_fails (op_net oper)"
    using flush_effect(2) [OF f] by blast
  have w: "us_watcher s1 = us_watcher s" by (rule flush_effect(1) [OF f])
  have rd: "watches_read (us_watcher s1)" using assms w by (simp add: udp_ok_def)
  have ok1: "udp_ok s1" using assms w d(1) by (auto simp: udp_ok_def)
  have sub: "subseq (us_sent s1 @ us_packets s1 @ xs) (us_sent s @ us_packets s @ xs)" for xs
    using d(1,2) list_emb_append2 [of "(=)" "us_packets s1 @ xs" _ lost]
      by (auto simp: subseq_append')
  show thesis
  proof (cases oper)
    case (Udp_writable net)
    show ?thesis
    proof (cases r)
      case Flushed
      obtain w1 where w1: "stop_io_event (us_socket s1) EventLoop_WRITE (us_watcher s1) = Some w1"
        using stop_io_total [OF rd] by blast
      have act: "iw_active (us_watcher s1)" using rd by (simp add: watches_read_def)
      show ?thesis
        by (rule that [of "s1\<lparr>us_watcher := w1\<rparr>"])
          (use f Udp_writable Flushed w1 d stop_io_interests [OF w1 act] rd sub [of "[]"]
            in \<open>auto simp: udp_op_step_def udp_send_data_def udp_ok_def\<close>)
    qed (rule that [of s1]; use f Udp_writable d ok1 sub [of "[]"] in \<open>auto simp: udp_op_step_def udp_send_data_def\<close>)+
  next
    case (Udp_send dat a net)
    let ?p = "\<lparr>pk_data = dat, pk_addr = a\<rparr>"
    show ?thesis
    proof (cases r)
      case Flush_error
      have "subseq (us_sent s1 @ us_packets s1) ((us_sent s1 @ us_packets s1) @ [?p])" by (rule subseq_rev_drop_many) simp
      then have "subseq (us_sent s1 @ us_packets s1) (us_sent s1 @ us_packets s1 @ [?p])" by simp
      from this sub [of "[?p]"] have "subseq (us_sent s1 @ us_packets s1) (us_sent s @ us_packets s @ [?p])"
        by (rule subseq_order.trans)
      then show ?thesis using f Udp_send Flush_error d(5) ok1
        by (intro that [of s1]) (auto simp: udp_op_step_def udp_send_to_def add_udp_packet_def)
    next
      case Flush_again
      obtain s2 where "queue_packet ?p s1 = Some (int (length (pk_data ?p)), s2)" "us_packets s2 = us_packets s1 @ [?p]"
        "us_sent s2 = us_sent s1" "udp_ok s2" by (rule queue_packet_effect [OF rd])
      then show ?thesis using f Udp_send Flush_again d sub [of "[?p]"]
        by (intro that [of s2]) (auto simp: udp_op_step_def udp_send_to_def add_udp_packet_def)
    next
      case Flushed
      obtain x s2 where x: "udp_send_packet net ?p s1 = (x, s2)" by fastforce
      note eff = udp_send_packet_effect [OF x]
      consider "x < 0" | "x = 0" | "0 < x" by linarith
      then show ?thesis
      proof cases
        case 1
        then show ?thesis using f Udp_send Flushed d x eff ok1 udp_send_packet_answer(1) [OF _ x]
          by (intro that [of s2]) (auto simp: udp_op_step_def udp_send_to_def add_udp_packet_def udp_ok_def)
      next
        case 2
        have "watches_read (us_watcher s2)" using rd eff by simp
        then obtain s3 where "queue_packet ?p s2 = Some (int (length (pk_data ?p)), s3)" "us_packets s3 = us_packets s2 @ [?p]"
          "us_sent s3 = us_sent s2" "udp_ok s3" by (rule queue_packet_effect)
        then show ?thesis using f Udp_send Flushed d x eff 2
          by (intro that [of s3]) (auto simp: udp_op_step_def udp_send_to_def add_udp_packet_def)
      next
        case 3
        then show ?thesis using f Udp_send Flushed d x eff ok1
          by (intro that [of s2]) (auto simp: udp_op_step_def udp_send_to_def add_udp_packet_def udp_ok_def)
      qed
    qed
  qed
qed


lemma udp_run_effect:
  "udp_ok s \<Longrightarrow> \<exists>s1. udp_run ops s = Some s1 \<and> udp_ok s1 \<and>
     subseq (us_sent s1 @ us_packets s1) (us_sent s @ us_packets s @ submitted ops) \<and>
     ((\<forall>x \<in> set ops. never_fails (op_net x)) \<longrightarrow> us_sent s1 @ us_packets s1 = us_sent s @ us_packets s @ submitted ops)"
proof (induction ops arbitrary: s)
  case (Cons x ops)
  obtain s1 where s1: "udp_op_step x s = Some s1" "udp_ok s1"
    "subseq (us_sent s1 @ us_packets s1) (us_sent s @ us_packets s @ submitted [x])"
    "never_fails (op_net x) \<Longrightarrow> us_sent s1 @ us_packets s1 = us_sent s @ us_packets s @ submitted [x]"
    using udp_op_effect [OF Cons.prems] by metis
  obtain s2 where s2: "udp_run ops s1 = Some s2" "udp_ok s2"
    "subseq (us_sent s2 @ us_packets s2) (us_sent s1 @ us_packets s1 @ submitted ops)"
    "(\<forall>x \<in> set ops. never_fails (op_net x)) \<longrightarrow> us_sent s2 @ us_packets s2 = us_sent s1 @ us_packets s1 @ submitted ops"
    using Cons.IH [OF s1(2)] by blast
  have sb: "submitted (x # ops) = submitted [x] @ submitted ops" by (cases x) auto
  have "subseq ((us_sent s1 @ us_packets s1) @ submitted ops) ((us_sent s @ us_packets s @ submitted [x]) @ submitted ops)"
    using s1(3) by (simp only: subseq_append_iff) (blast intro: list_emb_append_mono)
  then have "subseq (us_sent s1 @ us_packets s1 @ submitted ops) (us_sent s @ us_packets s @ submitted (x # ops))" by (simp add: sb)
  from s2(3) this have "subseq (us_sent s2 @ us_packets s2) (us_sent s @ us_packets s @ submitted (x # ops))"
    by (rule subseq_order.trans)
  moreover have "us_sent s2 @ us_packets s2 = us_sent s @ us_packets s @ submitted (x # ops)"
    if "\<forall>y \<in> set (x # ops). never_fails (op_net y)"
    using that s1(4) s2(4) by (simp add: sb flip: append_assoc)
  ultimately show ?case using s1(1) s2(1,2) by auto
qed auto

lemma udp_start: "\<exists>s. AsyncUdpSocket fd = Some s \<and> udp_ok s \<and> us_packets s = [] \<and> us_sent s = []"
proof -
  obtain w where w: "start_io_event fd EventLoop_READ create_io_event = Some w"
    by (simp add: start_io_event_def create_io_event_def)
  then show ?thesis using start_io_interests [OF w] by (simp add: AsyncUdpSocket_def udp_ok_def)
qed

definition udp_session :: "int \<Rightarrow> udp_op list \<Rightarrow> async_udp_socket option" where
  "udp_session fd ops = AsyncUdpSocket fd \<bind> udp_run ops"

text \<open>C33: Whatever the kernel answers, the datagrams it has taken and then those that
  wait are, in order, among those submitted; the socket always waits for input and, while
  something is queued, for output.\<close>
theorem udp_order:
  "\<exists>s. udp_session fd ops = Some s \<and> subseq (us_sent s @ us_packets s) (submitted ops) \<and>
     watches_read (us_watcher s) \<and> (us_packets s = [] \<or> watches_write (us_watcher s))"
proof -
  obtain s0 where s0: "AsyncUdpSocket fd = Some s0" "udp_ok s0" "us_packets s0 = []" "us_sent s0 = []" using udp_start by blast
  show ?thesis using udp_run_effect [OF s0(2), of ops] s0 by (auto simp: udp_session_def udp_ok_def)
qed

lemma udp_session_some:
  assumes "udp_session fd ops = Some s"
  shows "udp_ok s" "(\<And>x. x \<in> set ops \<Longrightarrow> never_fails (op_net x)) \<Longrightarrow> us_sent s @ us_packets s = submitted ops"
proof -
  obtain s0 where s0: "AsyncUdpSocket fd = Some s0" "udp_ok s0" "us_packets s0 = []" "us_sent s0 = []" using udp_start by blast
  show "udp_ok s" "(\<And>x. x \<in> set ops \<Longrightarrow> never_fails (op_net x)) \<Longrightarrow> us_sent s @ us_packets s = submitted ops"
    using udp_run_effect [OF s0(2), of ops] s0 assms by (auto simp: udp_session_def)
qed

lemma udp_drain:
  assumes "udp_ok s" "takes_all net"
  shows "\<exists>s1. udp_send_data net s = Some s1 \<and> us_packets s1 = [] \<and> us_sent s1 = us_sent s @ us_packets s \<and>
    \<not> watches_write (us_watcher s1) \<and> watches_read (us_watcher s1)"
proof -
  obtain r s1 where f: "flush_packets net (us_packets s) s = (r, s1)" by fastforce
  have r: "r = Flushed" "us_packets s1 = []" "us_sent s1 = us_sent s @ us_packets s" "us_watcher s1 = us_watcher s"
    using flush_effect [OF f] assms(2) by auto
  have rd: "watches_read (us_watcher s1)" using assms(1) r by (simp add: udp_ok_def)
  obtain w where w: "stop_io_event (us_socket s1) EventLoop_WRITE (us_watcher s1) = Some w" using stop_io_total [OF rd] by blast
  show ?thesis using f r w stop_io_interests [OF w] rd by (simp add: udp_send_data_def watches_read_def)
qed

theorem udp_delivers:
  assumes "\<forall>x \<in> set ops. never_fails (op_net x)" "takes_all net"
  shows "\<exists>s. udp_session fd (ops @ [Udp_writable net]) = Some s \<and> us_sent s = submitted ops \<and> us_packets s = [] \<and>
    watches_read (us_watcher s) \<and> \<not> watches_write (us_watcher s)"
proof -
  obtain s0 where s0: "AsyncUdpSocket fd = Some s0" "udp_ok s0" "us_packets s0 = []" "us_sent s0 = []" using udp_start by blast
  obtain s1 where s1: "udp_run ops s0 = Some s1" "udp_ok s1" "us_sent s1 @ us_packets s1 = submitted ops"
    using udp_run_effect [OF s0(2), of ops] s0 assms(1) by auto
  have app: "udp_run (xs @ ys) s = udp_run xs s \<bind> udp_run ys" for xs ys s
    by (induction xs arbitrary: s) (auto split: bind_split)
  show ?thesis using udp_drain [OF s1(2) assms(2)] s0(1) s1 by (auto simp: udp_session_def app udp_op_step_def)
qed

definition net_const :: "sys_send \<Rightarrow> udp_net" where "net_const r = (\<lambda>_ _ _. r)"

lemma net_const [simp]: "never_fails (net_const Sys_send_again)" "takes_all (net_const (Sys_sent 3))"
  by (simp_all add: never_fails_def takes_all_def net_const_def sock_send_to_def)

lemma udp_delivers_witness:
  "\<exists>s. udp_session 7 ([Udp_send [1, 2, 3] (demo_addr 5000) (net_const Sys_send_again),
       Udp_send [4] (demo_addr 5001) (net_const Sys_send_again)] @ [Udp_writable (net_const (Sys_sent 3))]) = Some s \<and>
     us_sent s = submitted [Udp_send [1, 2, 3] (demo_addr 5000) (net_const Sys_send_again),
       Udp_send [4] (demo_addr 5001) (net_const Sys_send_again)] \<and> us_packets s = [] \<and>
     watches_read (us_watcher s) \<and> \<not> watches_write (us_watcher s)"
  by (rule udp_delivers) simp_all

text \<open>An error for the packet at the head of the queue is reported for the new packet, which is
  neither sent nor queued.\<close>

lemma older_error_drops_new:
  assumes "us_packets s = q # qs" "sock_send_to (net (us_calls s) (pk_data q) (ToSockAddrStorage (pk_addr q))) < 0"
  shows "\<exists>s1. udp_send_to net d a s = Some (-1, s1) \<and> us_packets s1 = qs \<and> us_sent s1 = us_sent s"
  using assms by (simp add: udp_send_to_def add_udp_packet_def udp_send_packet_def Let_def)

subsection \<open>Ports\<close>

lemma bind_loop_find:
  "bind_loop free a m = map_option word_of_int (find (\<lambda>i. free (word_of_int i)) [a..m])"
proof (induction free a m rule: bind_loop.induct)
  case (1 free a m)
  then show ?case by (cases "a \<le> m") (simp_all add: bind_loop.simps [of free a m] upto_rec1)
qed

definition port_range :: "int \<Rightarrow> int \<Rightarrow> u16 list" where
  "port_range mn mx = map word_of_int [mn..mx]"

lemma sock_bind_range: "0 < mn \<Longrightarrow> sock_bind free sp mn mx = find free (port_range mn mx)"
proof -
  have "find free (map word_of_int xs) = map_option word_of_int (find (\<lambda>i. free (word_of_int i)) xs)" for xs :: "int list"
    by (induction xs) auto
  then show "0 < mn \<Longrightarrow> ?thesis" by (simp add: sock_bind_def bind_loop_find port_range_def)
qed

lemma port_range_distinct: "0 < mn \<Longrightarrow> mx < 65536 \<Longrightarrow> distinct (port_range mn mx)"
  by (auto simp: port_range_def distinct_map inj_on_def word_of_int_eq_iff take_bit_int_eq_self)

theorem candidate_port:
  assumes "create_ice_candidate ntop pton (\<lambda>_. prepare_socket k) ip mn mx p = (Some c, p1)" "0 < mn" "mx < 65536"
    "\<And>q. \<exists>a. uc_sockname k q = Some a \<and> of_be (ss_port a) = q"
  shows "mn \<le> cand_port c \<and> cand_port c \<le> mx \<and> uc_free k (word_of_int (cand_port c)) \<and>
    (\<forall>j. mn \<le> j \<and> j < cand_port c \<longrightarrow> \<not> uc_free k (word_of_int j))"
proof -
  obtain q where q: "find (uc_free k) (port_range mn mx) = Some q" "cand_port c = uint q"
    using assms(1,4) by (auto simp: create_ice_candidate_def prepare_socket_def sock_bind_range [OF assms(2)] sock_get_address_def
        Let_def split: option.splits if_splits) (metis assms(4) option.inject)
  obtain i where i: "i < length (port_range mn mx)" "uc_free k q" "q = port_range mn mx ! i"
    "\<And>j. j < i \<Longrightarrow> \<not> uc_free k (port_range mn mx ! j)"
    using q(1) by (auto simp: find_Some_iff)
  have n: "port_range mn mx ! j = word_of_int (mn + int j)" if "j \<le> i" for j
    using that i(1) by (simp add: port_range_def nth_upto)
  have "uint (word_of_int z :: u16) = z" if "0 \<le> z" "z < 65536" for z
    using that by (simp add: uint_word_of_int)
  from this [of "mn + int i"] have u: "uint (word_of_int (mn + int i) :: u16) = mn + int i"
    using i(1) assms(2,3) by (simp add: port_range_def del: of_int_add)
  have "\<not> uc_free k (word_of_int j)" if "mn \<le> j" "j < mn + int i" for j
    using i(4) [of "nat (j - mn)"] n [of "nat (j - mn)"] that by simp
  then show ?thesis using q(2) i(1,2,3) n [of i] u by (auto simp: port_range_def)
qed

definition demo_calls :: udp_calls where
  "demo_calls = \<lparr>uc_socket = Some 9, uc_getfl = Some 2, uc_setfl = True, uc_free = (\<lambda>q. q \<noteq> 4000), uc_sin_port = 0,
     uc_sockname = (\<lambda>q. Some \<lparr>ss_family = AF_INET, ss_port = be16 q, ss_addr = [10, 0, 0, 1], ss_scope = 0\<rparr>)\<rparr>"

lemma candidate_port_witness:
  "\<exists>c p1. create_ice_candidate (\<lambda>_. ''10.0.0.1'') (\<lambda>_. None) (\<lambda>_. prepare_socket demo_calls) (IPAddress_v4 [10, 0, 0, 1])
     4000 4002 demo_port = (Some c, p1) \<and> 4000 \<le> cand_port c \<and> cand_port c \<le> 4002 \<and> uc_free demo_calls (word_of_int (cand_port c))"
proof -
  have b: "sock_bind (uc_free demo_calls) (uc_sin_port demo_calls) 4000 4002 = Some 4001"
    by (simp add: sock_bind_range port_range_def upto_rec1 demo_calls_def)
  have sn: "\<exists>a. uc_sockname demo_calls q = Some a \<and> of_be (ss_port a) = q" for q by (simp add: demo_calls_def)
  have pr: "prepare_socket demo_calls 4000 4002 \<noteq> None"
    using b by (simp add: prepare_socket_def create_udp_socket_def sock_setnonblock_def sock_get_address_def) (simp add: demo_calls_def)
  obtain c p1 where c: "create_ice_candidate (\<lambda>_. ''10.0.0.1'') (\<lambda>_. None) (\<lambda>_. prepare_socket demo_calls)
     (IPAddress_v4 [10, 0, 0, 1]) 4000 4002 demo_port = (Some c, p1)"
    using pr by (auto simp: create_ice_candidate_def Let_def)
  from candidate_port [OF c _ _ sn] c show ?thesis by simp
qed

text \<open>The descriptors of UDP sockets are never closed, so the ports handed out stay bound: the
  \<open>bound\<close> list only grows.\<close>

fun bind_many :: "u16 \<Rightarrow> int \<Rightarrow> int \<Rightarrow> nat \<Rightarrow> u16 list \<Rightarrow> u16 list" where
  "bind_many sp mn mx 0 bound = bound"
| "bind_many sp mn mx (Suc n) bound = (case sock_bind (\<lambda>q. q \<notin> set bound) sp mn mx of
       None \<Rightarrow> bind_many sp mn mx n bound
     | Some q \<Rightarrow> bind_many sp mn mx n (bound @ [q]))"

lemma find_fresh: "distinct xs \<Longrightarrow> find (\<lambda>x. x \<notin> set (take k xs)) xs = (if k < length xs then Some (xs ! k) else None)"
proof (induction xs arbitrary: k)
  case (Cons x xs)
  show ?case
  proof (cases k)
    case (Suc j)
    have "find (\<lambda>y. y \<noteq> x \<and> y \<notin> set (take j xs)) xs = find (\<lambda>y. y \<notin> set (take j xs)) xs"
      by (rule find_cong) (use Cons.prems in auto)
    then show ?thesis using Suc Cons by simp
  qed simp
qed simp



subsection \<open>Networks\<close>

lemma collect_networks_spec:
  "collect_networks ifs = (if \<forall>x \<in> set ifs. snd x \<noteq> None then
     Some (map (\<lambda>(nm, a). (nm, IPAddress_v4 (ss_addr (the a))))
       (filter (\<lambda>(nm, a). ss_family (the a) = AF_INET \<and> \<not> IPIsLoopback (IPAddress_v4 (ss_addr (the a)))) ifs)) else None)"
proof (induction ifs)
  case (Cons x ifs)
  obtain nm a where x: "x = (nm, a)" by fastforce
  show ?case
  proof (cases a)
    case (Some s)
    then show ?thesis using Cons unfolding x by (auto simp: Let_def)
  qed (simp add: x)
qed simp

lemma null_interface_address: "collect_networks (xs @ (nm, None) # ys) = None"
  by (simp add: collect_networks_spec)

subsection \<open>Listening and accepting\<close>

text \<open>The answers of \<open>socket\<close>, \<open>setsockopt\<close>, \<open>inet_aton\<close> (when there is an address), \<open>bind\<close> and
  \<open>listen\<close>; the list has the descriptors that are open.\<close>

record tcp_calls =
  tl_socket :: "int option"
  tl_setsockopt :: bool
  tl_aton :: "string \<Rightarrow> bytes option"
  tl_bind :: "sockaddr_storage \<Rightarrow> bool"
  tl_listen :: bool

definition create_tcp_server :: "tcp_calls \<Rightarrow> string option \<Rightarrow> int \<Rightarrow> int list \<Rightarrow> int \<times> int list" where
  "create_tcp_server k addr prt open_fds = (case tl_socket k of None \<Rightarrow> (-1, open_fds) | Some sock \<Rightarrow>
     let open_fds = sock # open_fds in
     if \<not> tl_setsockopt k then (-1, open_fds)
     else (let sa = \<lparr>ss_family = AF_INET, ss_port = be16 (word_of_int prt), ss_addr = be32 INADDR_ANY, ss_scope = 0\<rparr>;
           parsed = (case addr of None \<Rightarrow> Some sa | Some h \<Rightarrow> map_option (\<lambda>b. sa\<lparr>ss_addr := b\<rparr>) (tl_aton k h)) in
       (case parsed of
          None \<Rightarrow> (-1, remove1 sock open_fds)
        | Some sa \<Rightarrow> if \<not> tl_bind k sa then (-1, open_fds)
            else if \<not> tl_listen k then (-1, open_fds)
            else (sock, open_fds))))"

datatype sys_accept = Accepted int sockaddr_storage | Accept_interrupted | Accept_error

text \<open>No result yet when \<open>accept\<close> has only been interrupted.\<close>

fun generic_accept :: "sys_accept list \<Rightarrow> (int \<times> sockaddr_storage option) option" where
  "generic_accept [] = None"
| "generic_accept (Accept_interrupted # rest) = generic_accept rest"
| "generic_accept (Accept_error # rest) = Some (-1, None)"
| "generic_accept (Accepted fd a # rest) = Some (fd, Some a)"

definition tcp_accept ::
  "(ip_address \<Rightarrow> string) \<Rightarrow> sys_accept list \<Rightarrow> (int \<times> (string \<times> int) option) option" where
  "tcp_accept ntop answers = map_option
     (\<lambda>(fd, sa). (fd, map_option (\<lambda>a. (ntop (IPAddress_v4 (ss_addr a)), uint (of_be (ss_port a) :: u16))) sa))
     (generic_accept answers)"

definition sock_setnodelay :: "bool \<Rightarrow> int" where
  "sock_setnodelay setsockopt = (if \<not> setsockopt then -1 else 0)"

lemma generic_accept_skips:
  "generic_accept (replicate n Accept_interrupted @ rest) = generic_accept rest"
  by (induction n) simp_all

text \<open>Only a bad address closes the socket that was created.\<close>

lemma create_tcp_server_leaks:
  assumes "tl_socket k = Some sock" "sock \<notin> set fds" "create_tcp_server k None prt fds = (-1, fds1)" "sock \<noteq> -1"
  shows "fds1 = sock # fds"
  using assms by (auto simp: create_tcp_server_def Let_def split: if_splits)

end
