(* ===== verification/Sds.thy ===== *)
theory Sds
  imports Xrtc_Prelude
begin

text \<open>
  \<open>rtc_base/sds.*\<close>: strings with a header that holds the used and the free length, as integers of 32
  bits, before a buffer that ends in a null byte.  The query buffer of a signaling connection is one.
  A pointer to a string is the record of the whole allocation.  \<open>None\<close> is an access outside the
  buffer, an overflow of a signed integer, or the end of the process: \<open>zmalloc\<close> aborts when memory is
  exhausted, and \<open>malloc\<close> fails for more than \<open>PTRDIFF_MAX\<close> bytes; smaller allocations
  are taken to succeed.  What new memory holds is the argument \<open>junk\<close>.  The assertions of the code are
  not compiled (\<open>-DNDEBUG\<close> in \<open>rtcbase/CMakeLists.txt\<close>).
\<close>

definition to_size :: "int \<Rightarrow> int" where
  "to_size x = x mod 2 ^ 64"

lemma to_size_id [simp]: "0 \<le> x \<Longrightarrow> x < 2 ^ 64 \<Longrightarrow> to_size x = x"
  by (simp add: to_size_def)

definition SDS_MAX_PREALLOC :: int where "SDS_MAX_PREALLOC = 1024 * 1024"

definition sdshdr_size :: int where "sdshdr_size = 8"

record sds =
  sd_len :: int
  sd_free :: int
  sd_buf :: bytes

definition sdslen :: "sds \<Rightarrow> int" where "sdslen s = to_size (sd_len s)"

definition sdsavail :: "sds \<Rightarrow> int" where "sdsavail s = to_size (sd_free s)"

text \<open>The bytes of a buffer from a position on are replaced, inside the buffer.\<close>

definition put_bytes :: "int \<Rightarrow> bytes \<Rightarrow> sds \<Rightarrow> sds option" where
  "put_bytes i bs s = (if 0 \<le> i \<and> nat i + length bs \<le> length (sd_buf s)
     then Some (s\<lparr>sd_buf := take (nat i) (sd_buf s) @ bs @ drop (nat i + length bs) (sd_buf s)\<rparr>) else None)"

definition alloc_bytes :: "(nat \<Rightarrow> byte) \<Rightarrow> nat \<Rightarrow> bytes" where
  "alloc_bytes junk n = map junk [0..<n]"

definition zrealloc :: "(nat \<Rightarrow> byte) \<Rightarrow> bytes \<Rightarrow> int \<Rightarrow> bytes option" where
  "zrealloc junk b sz = (let n = nat (sz - sdshdr_size) in
     if 2 ^ 63 \<le> sz then None else Some (take n b @ map junk [length b..<n]))"

subsection \<open>Operations\<close>

definition sdsnewlen :: "(nat \<Rightarrow> byte) \<Rightarrow> bytes option \<Rightarrow> int \<Rightarrow> sds option" where
  "sdsnewlen junk init initlen = (
     let n = nat (to_size (sdshdr_size + initlen + 1) - sdshdr_size);
         b = (case init of None \<Rightarrow> replicate n 0 | Some _ \<Rightarrow> alloc_bytes junk n);
         s = \<lparr>sd_len = to_int32 initlen, sd_free = 0, sd_buf = b\<rparr> in
     case init of
       None \<Rightarrow> put_bytes initlen [0] s
     | Some d \<Rightarrow> do {
         d \<leftarrow> mem_read d 0 (nat initlen);
         s1 \<leftarrow> put_bytes 0 d s;
         put_bytes initlen [0] s1
       })"

definition sdsempty :: "(nat \<Rightarrow> byte) \<Rightarrow> sds option" where
  "sdsempty junk = sdsnewlen junk (Some []) 0"

text \<open>\<open>strlen\<close> of a C string given without its terminator.\<close>

definition sdsnew :: "(nat \<Rightarrow> byte) \<Rightarrow> bytes option \<Rightarrow> sds option" where
  "sdsnew junk init = sdsnewlen junk init (case init of None \<Rightarrow> 0 | Some d \<Rightarrow> int (length d))"

definition sdsdup :: "(nat \<Rightarrow> byte) \<Rightarrow> sds \<Rightarrow> sds option" where
  "sdsdup junk s = sdsnewlen junk (Some (sd_buf s)) (sdslen s)"

definition sdsclear :: "sds \<Rightarrow> sds option" where
  "sdsclear s = put_bytes 0 [0] (s\<lparr>sd_free := to_int32 (sd_free s + sd_len s), sd_len := 0\<rparr>)"

definition sdsupdatelen :: "sds \<Rightarrow> sds" where
  "sdsupdatelen s = (let reallen = int (length (takeWhile (\<lambda>b. b \<noteq> 0) (sd_buf s))) in
     s\<lparr>sd_free := to_int32 (sd_free s + (sd_len s - reallen)), sd_len := reallen\<rparr>)"

definition sdsMakeRoomFor :: "(nat \<Rightarrow> byte) \<Rightarrow> int \<Rightarrow> sds \<Rightarrow> sds option" where
  "sdsMakeRoomFor junk addlen s = (if addlen \<le> sdsavail s then Some s
     else let len = sdslen s;
              newlen = to_size (len + addlen);
              newlen = (if newlen < SDS_MAX_PREALLOC then to_size (newlen * 2) else to_size (newlen + SDS_MAX_PREALLOC)) in
       map_option (\<lambda>b. s\<lparr>sd_buf := b, sd_free := to_int32 (newlen - len)\<rparr>)
         (zrealloc junk (sd_buf s) (to_size (sdshdr_size + newlen + 1))))"

definition sdsRemoveFreeSpace :: "(nat \<Rightarrow> byte) \<Rightarrow> sds \<Rightarrow> sds option" where
  "sdsRemoveFreeSpace junk s = map_option (\<lambda>b. s\<lparr>sd_buf := b, sd_free := 0\<rparr>)
     (zrealloc junk (sd_buf s) (to_size (sdshdr_size + sd_len s + 1)))"

definition sdsAllocSize :: "sds \<Rightarrow> int" where
  "sdsAllocSize s = to_size (sdshdr_size + sd_len s + sd_free s + 1)"

definition int_fits :: "int \<Rightarrow> bool" where
  "int_fits x \<longleftrightarrow> - (2 ^ 31) \<le> x \<and> x < 2 ^ 31"

definition sdsIncrLen :: "int \<Rightarrow> sds \<Rightarrow> sds option" where
  "sdsIncrLen incr s = (if \<not> int_fits (sd_len s + incr) \<or> \<not> int_fits (sd_free s - incr) then None
     else put_bytes (sd_len s + incr) [0] (s\<lparr>sd_len := sd_len s + incr, sd_free := sd_free s - incr\<rparr>))"

definition sdsgrowzero :: "(nat \<Rightarrow> byte) \<Rightarrow> int \<Rightarrow> sds \<Rightarrow> sds option" where
  "sdsgrowzero junk len s = (let curlen = to_size (sd_len s) in
     if len \<le> curlen then Some s
     else do {
       s1 \<leftarrow> sdsMakeRoomFor junk (to_size (len - curlen)) s;
       s2 \<leftarrow> put_bytes curlen (replicate (nat (len - curlen + 1)) 0) s1;
       let totlen = to_size (sd_len s2 + sd_free s2);
       Some (s2\<lparr>sd_len := to_int32 len, sd_free := to_int32 (totlen - len)\<rparr>)
     })"

text \<open>The appended bytes are not part of the string itself.\<close>

definition sdscatlen :: "(nat \<Rightarrow> byte) \<Rightarrow> bytes \<Rightarrow> sds \<Rightarrow> sds option" where
  "sdscatlen junk t s = (let curlen = sdslen s; len = int (length t) in do {
     s1 \<leftarrow> sdsMakeRoomFor junk len s;
     s2 \<leftarrow> put_bytes curlen t s1;
     put_bytes (curlen + len) [0]
       (s2\<lparr>sd_len := to_int32 (curlen + len), sd_free := to_int32 (sd_free s1 - len)\<rparr>)
   })"

definition sdscatsds :: "(nat \<Rightarrow> byte) \<Rightarrow> sds \<Rightarrow> sds \<Rightarrow> sds option" where
  "sdscatsds junk t s = do { d \<leftarrow> mem_read (sd_buf t) 0 (nat (sdslen t)); sdscatlen junk d s }"

definition sdscpylen :: "(nat \<Rightarrow> byte) \<Rightarrow> bytes \<Rightarrow> sds \<Rightarrow> sds option" where
  "sdscpylen junk t s = (let len = int (length t) in do {
       s1 \<leftarrow> (if to_size (sd_free s + sd_len s) < len then sdsMakeRoomFor junk (to_size (len - sd_len s)) s else Some s);
       let totlen = to_size (sd_free s1 + sd_len s1);
       s2 \<leftarrow> put_bytes 0 t s1;
       s3 \<leftarrow> put_bytes len [0] s2;
       Some (s3\<lparr>sd_len := to_int32 len, sd_free := to_int32 (totlen - len)\<rparr>)
     })"

text \<open>\<open>strchr\<close> finds the terminator of its set too, so null bytes are trimmed.\<close>

definition in_cset :: "bytes \<Rightarrow> byte \<Rightarrow> bool" where
  "in_cset cset c \<longleftrightarrow> c \<in> set cset \<or> c = 0"

definition sdstrim :: "bytes \<Rightarrow> sds \<Rightarrow> sds option" where
  "sdstrim cset s = (let d = take (nat (sdslen s)) (sd_buf s);
     sp = length (takeWhile (in_cset cset) d);
     ep = length d - length (takeWhile (in_cset cset) (rev (tl d)));
     len = ep - sp in do {
       s1 \<leftarrow> put_bytes 0 (take len (drop sp d)) s;
       s2 \<leftarrow> put_bytes (int len) [0] s1;
       Some (s2\<lparr>sd_len := int len, sd_free := to_int32 (sd_free s + (sd_len s - int len))\<rparr>)
     })"

definition sdsrange :: "int \<Rightarrow> int \<Rightarrow> sds \<Rightarrow> sds option" where
  "sdsrange start end1 s = (let len = sd_len s in
     if sdslen s = 0 then Some s
     else let start = (if start < 0 then (let t = to_int32 (len + start) in if t < 0 then 0 else t) else start);
              end1 = (if end1 < 0 then (let t = to_int32 (len + end1) in if t < 0 then 0 else t) else end1);
              newlen = (if end1 < start then 0 else end1 - start + 1);
              overflow = (2 ^ 31 \<le> newlen);
              (start, newlen) = (if newlen \<noteq> 0 then
                  (if len \<le> start then (start, 0)
                   else if len \<le> end1 then (start, if len - 1 < start then 0 else len - 1 - start + 1)
                   else (start, newlen))
                else (0, newlen)) in
     if overflow then None
     else do {
       s1 \<leftarrow> (if start \<noteq> 0 \<and> newlen \<noteq> 0 then do {
                d \<leftarrow> mem_read (sd_buf s) (nat start) (nat newlen);
                put_bytes 0 d s
              } else Some s);
       s2 \<leftarrow> put_bytes newlen [0] s1;
       Some (s2\<lparr>sd_len := newlen, sd_free := to_int32 (sd_free s + (len - newlen))\<rparr>)
     })"

text \<open>\<open>memcmp\<close> yields the sign of the first difference.\<close>

fun memcmp_sign :: "bytes \<Rightarrow> bytes \<Rightarrow> int" where
  "memcmp_sign (a # as) (b # bs) = (if a < b then -1 else if b < a then 1 else memcmp_sign as bs)"
| "memcmp_sign _ _ = 0"

definition sdscmp :: "sds \<Rightarrow> sds \<Rightarrow> int" where
  "sdscmp s1 s2 = (let l1 = sdslen s1; l2 = sdslen s2; minlen = nat (if l1 < l2 then l1 else l2);
     cmp = memcmp_sign (take minlen (sd_buf s1)) (take minlen (sd_buf s2)) in
     if cmp = 0 then to_int32 (l1 - l2) else cmp)"

subsection \<open>The query buffer\<close>

text \<open>The use of a string in \<open>_read_query\<close>: \<open>avail\<close> are the bytes that wait in the socket, of which
  \<open>read\<close> takes as many as it is asked for; it fails when that is more than \<open>SSIZE_MAX\<close>.\<close>

definition query_read :: "(nat \<Rightarrow> byte) \<Rightarrow> nat \<Rightarrow> bytes \<Rightarrow> sds \<Rightarrow> (int \<times> sds) option" where
  "query_read junk bytes_expected avail s = (
     let read_len = to_int32 (int bytes_expected);
         qb_len = to_int32 (sdslen s);
         d = take (nat (to_size read_len)) avail;
         nread = int (length d) in do {
       s1 \<leftarrow> sdsMakeRoomFor junk (to_size read_len) s;
       if 2 ^ 63 \<le> to_size read_len then Some (-1, s1)
       else do {
         s2 \<leftarrow> put_bytes qb_len d s1;
         s3 \<leftarrow> (if 0 < nread then sdsIncrLen nread s2 else Some s2);
         Some (nread, s3)
       }})"

subsection \<open>What a string stands for\<close>

definition sds_ok :: "sds \<Rightarrow> bool" where
  "sds_ok s \<longleftrightarrow> 0 \<le> sd_len s \<and> 0 \<le> sd_free s \<and> sd_len s + sd_free s < 2 ^ 31 \<and>
     length (sd_buf s) = nat (sd_len s + sd_free s + 1) \<and> sd_buf s ! nat (sd_len s) = 0"

definition sds_val :: "sds \<Rightarrow> bytes" where
  "sds_val s = take (nat (sd_len s)) (sd_buf s)"

lemma sds_val_length: "sds_ok s \<Longrightarrow> int (length (sds_val s)) = sd_len s"
  by (auto simp: sds_ok_def sds_val_def)

lemma sds_ok_sizes [simp]:
  assumes "sds_ok s"
  shows "sdslen s = sd_len s" "sdsavail s = sd_free s"
  using assms by (simp_all add: sds_ok_def sdslen_def sdsavail_def)

text \<open>A string with its parts: the value, the terminator and the free bytes.\<close>

definition mk_sds :: "bytes \<Rightarrow> bytes \<Rightarrow> sds" where
  "mk_sds v r = \<lparr>sd_len = int (length v), sd_free = int (length r), sd_buf = v @ 0 # r\<rparr>"

lemma mk_sds_sel [simp]:
  "sd_len (mk_sds v r) = int (length v)" "sd_free (mk_sds v r) = int (length r)" "sd_buf (mk_sds v r) = v @ 0 # r"
  "sds_val (mk_sds v r) = v"
  by (simp_all add: mk_sds_def sds_val_def)

lemma mk_sds_ok [simp]: "sds_ok (mk_sds v r) \<longleftrightarrow> length v + length r < 2 ^ 31"
  by (auto simp: sds_ok_def nth_append)

lemma sds_okE:
  assumes "sds_ok s"
  obtains r where "s = mk_sds (sds_val s) r" "length (sds_val s) + length r < 2 ^ 31"
proof -
  let ?n = "nat (sd_len s)"
  from assms have n: "?n < length (sd_buf s)" "sd_buf s ! ?n = 0" by (auto simp: sds_ok_def)
  have b: "sd_buf s = sds_val s @ 0 # drop (Suc ?n) (sd_buf s)"
    using id_take_nth_drop [OF n(1)] n(2) by (simp add: sds_val_def)
  have "0 \<le> sd_len s" "0 \<le> sd_free s" "length (sd_buf s) = nat (sd_len s + sd_free s + 1)" using assms by (simp_all add: sds_ok_def)
  then have f: "sd_free s = int (length (drop (Suc ?n) (sd_buf s)))" unfolding length_drop by linarith
  have "s = mk_sds (sds_val s) (drop (Suc ?n) (sd_buf s))"
    unfolding mk_sds_def sds_val_length [OF assms] f [symmetric] b [symmetric] by simp
  moreover have "length (sds_val s) + length (drop (Suc ?n) (sd_buf s)) < 2 ^ 31"
    using assms by (auto simp: sds_ok_def sds_val_def)
  ultimately show thesis by (rule that)
qed

lemma put_bytes_middle:
  "sd_buf s = x @ y @ z \<Longrightarrow> i = int (length x) \<Longrightarrow> length bs = length y \<Longrightarrow> put_bytes i bs s = Some (s\<lparr>sd_buf := x @ bs @ z\<rparr>)"
  by (simp add: put_bytes_def)

subsection \<open>Making room\<close>

definition room :: "int \<Rightarrow> int" where
  "room n = (if n < SDS_MAX_PREALLOC then n * 2 else n + SDS_MAX_PREALLOC)"

lemma MakeRoom_enough: "sds_ok s \<Longrightarrow> n \<le> sd_free s \<Longrightarrow> sdsMakeRoomFor junk n s = Some s"
  by (simp add: sdsMakeRoomFor_def)

lemma MakeRoom_mk:
  assumes "int (length r) < n" "int (length v) + n + SDS_MAX_PREALLOC < 2 ^ 31"
  shows "\<exists>r1. sdsMakeRoomFor junk n (mk_sds v r) = Some (mk_sds v (r @ r1)) \<and> int (length v) + int (length (r @ r1)) = room (int (length v) + n)"
proof -
  let ?l = "int (length v)"
  have lt: "?l + n < 2 ^ 31" "0 \<le> ?l + n" using assms by (simp_all add: SDS_MAX_PREALLOC_def)
  have rm: "?l + n \<le> room (?l + n)" "room (?l + n) < 2 ^ 31" "0 \<le> room (?l + n)"
    using assms lt by (auto simp: room_def SDS_MAX_PREALLOC_def)
  have w: "(if to_size (?l + n) < SDS_MAX_PREALLOC then to_size (to_size (?l + n) * 2) else to_size (to_size (?l + n) + SDS_MAX_PREALLOC)) = room (?l + n)"
    using lt assms by (auto simp: room_def SDS_MAX_PREALLOC_def)
  let ?k = "nat (room (?l + n) + 1)"
  let ?r1 = "map junk [length v + 1 + length r..<?k]"
  have k: "length v + 1 + length r \<le> ?k" using assms(1) rm by linarith
  have av: "sdsavail (mk_sds v r) = int (length r)" "sdslen (mk_sds v r) = ?l"
    using assms by (simp_all add: sdsavail_def sdslen_def SDS_MAX_PREALLOC_def)
  have "to_size (sdshdr_size + room (?l + n) + 1) - sdshdr_size = room (?l + n) + 1" "to_size (sdshdr_size + room (?l + n) + 1) < 2 ^ 63"
    using rm by (simp_all add: sdshdr_size_def)
  then have "zrealloc junk (v @ 0 # r) (to_size (sdshdr_size + room (?l + n) + 1)) = Some (v @ 0 # r @ ?r1)"
    using k by (simp add: zrealloc_def Let_def take_all)
  then have "sdsMakeRoomFor junk n (mk_sds v r) = Some ((mk_sds v r)\<lparr>sd_buf := v @ 0 # r @ ?r1, sd_free := to_int32 (room (?l + n) - ?l)\<rparr>)"
    unfolding sdsMakeRoomFor_def av Let_def w using assms(1) by simp
  moreover have "to_int32 (room (?l + n) - ?l) = int (length (r @ ?r1))" using rm k assms by (simp add: of_nat_diff)
  ultimately have "sdsMakeRoomFor junk n (mk_sds v r) = Some (mk_sds v (r @ ?r1))" by (simp add: mk_sds_def)
  moreover have "?l + int (length (r @ ?r1)) = room (?l + n)" using k rm by (simp add: of_nat_diff)
  ultimately show ?thesis by blast
qed

text \<open>The amortised growth: at least the room asked for, at most twice or a mebibyte more.\<close>

lemma MakeRoomFor_ok:
  assumes "sds_ok s" "0 \<le> n" "sd_len s + n + SDS_MAX_PREALLOC < 2 ^ 31"
  obtains r where "sdsMakeRoomFor junk n s = Some (mk_sds (sds_val s) r)" "n \<le> int (length r)" "length (sds_val s) + length r < 2 ^ 31"
proof -
  obtain r where r: "s = mk_sds (sds_val s) r" "length (sds_val s) + length r < 2 ^ 31" by (rule sds_okE [OF assms(1)])
  have l: "sd_len s = int (length (sds_val s))" using sds_val_length [OF assms(1)] by simp
  show thesis
  proof (cases "n \<le> int (length r)")
    case True
    have "sd_free s = int (length r)" by (subst r(1)) simp
    then have "sdsMakeRoomFor junk n s = Some s" using MakeRoom_enough [OF assms(1)] True by simp
    then show ?thesis using that r True by simp
  next
    case False
    then obtain r1 where "sdsMakeRoomFor junk n (mk_sds (sds_val s) r) = Some (mk_sds (sds_val s) (r @ r1))"
      "int (length (sds_val s)) + int (length (r @ r1)) = room (int (length (sds_val s)) + n)"
      using MakeRoom_mk [of r n "sds_val s" junk] assms(3) l by auto
    moreover have "room (int (length (sds_val s)) + n) < 2 ^ 31" "int (length (sds_val s)) + n \<le> room (int (length (sds_val s)) + n)"
      using assms(2,3) l by (auto simp: room_def SDS_MAX_PREALLOC_def)
    ultimately show ?thesis using that [of "r @ r1"] r(1) by (metis add_le_cancel_left of_nat_add of_nat_less_numeral_power_cancel_iff)
  qed
qed

subsection \<open>The operations on the value\<close>

lemma put_append:
  assumes "length t \<le> length r"
  shows "put_bytes (int (length v)) t (s\<lparr>sd_buf := v @ 0 # r\<rparr>) = Some (s\<lparr>sd_buf := v @ t @ drop (length t) (0 # r)\<rparr>)"
  using assms by (simp add: put_bytes_def)

lemma put_terminator:
  assumes "length t \<le> length r"
  shows "put_bytes (int (length v + length t)) [0] (s\<lparr>sd_buf := v @ t @ drop (length t) (0 # r)\<rparr>) =
     Some (s\<lparr>sd_buf := (v @ t) @ 0 # drop (length t) r\<rparr>)"
  using assms by (simp add: put_bytes_def Suc_diff_le)

lemma sds_record: "s\<lparr>sd_len := l, sd_free := f, sd_buf := b\<rparr> = \<lparr>sd_len = l, sd_free = f, sd_buf = b\<rparr>"
  by (cases s) simp

lemma sdsnewlen_ok:
  assumes "n \<le> length d" "n < 2 ^ 31"
  shows "sdsnewlen junk (Some d) (int n) = Some (mk_sds (take n d) [])"
proof -
  have n: "nat (to_size (sdshdr_size + int n + 1) - sdshdr_size) = n + 1" using assms(2) by (simp add: sdshdr_size_def)
  have "to_int32 (int n) = int n" using assms(2) by simp
  then show ?thesis using assms(1) n
    by (simp add: sdsnewlen_def alloc_bytes_def mem_read_def put_bytes_def Let_def mk_sds_def min_absorb2)
qed

lemma sdsempty_ok: "sdsempty junk = Some (mk_sds [] [])"
  using sdsnewlen_ok [of 0 "[]" junk] by (simp add: sdsempty_def)

lemma sdsdup_ok: "sds_ok s \<Longrightarrow> sdsdup junk s = Some (mk_sds (sds_val s) [])"
  using sdsnewlen_ok [of "nat (sd_len s)" "sd_buf s" junk]
  by (simp add: sdsdup_def sds_val_def) (simp add: sds_ok_def nat_less_iff nat_mono)

lemma sdsclear_ok:
  assumes "sds_ok s"
  obtains r where "sdsclear s = Some (mk_sds [] r)" "int (length r) = sd_len s + sd_free s"
proof -
  obtain r where r: "s = mk_sds (sds_val s) r" "length (sds_val s) + length r < 2 ^ 31" by (rule sds_okE [OF assms])
  have "sdsclear (mk_sds (sds_val s) r) = Some (mk_sds [] (drop 1 (sds_val s @ 0 # r)))"
    using r(2) by (simp add: sdsclear_def put_bytes_def mk_sds_def)
  moreover have "int (length (drop 1 (sds_val s @ 0 # r))) = sd_len s + sd_free s"
    unfolding sds_val_length [OF assms, symmetric] by (subst (2) r(1)) simp
  ultimately show thesis using that r(1) by metis
qed

lemma sdsRemoveFreeSpace_ok:
  assumes "sds_ok s"
  shows "sdsRemoveFreeSpace junk s = Some (mk_sds (sds_val s) [])"
proof -
  obtain r where r: "s = mk_sds (sds_val s) r" "length (sds_val s) + length r < 2 ^ 31" by (rule sds_okE [OF assms])
  have "nat (to_size (sdshdr_size + int (length (sds_val s)) + 1) - sdshdr_size) = length (sds_val s) + 1"
    using r(2) by (simp add: sdshdr_size_def)
  moreover have "to_size (sdshdr_size + int (length (sds_val s)) + 1) < 2 ^ 63" using r(2) by (simp add: sdshdr_size_def)
  ultimately have "sdsRemoveFreeSpace junk (mk_sds (sds_val s) r) = Some (mk_sds (sds_val s) [])"
    by (simp add: sdsRemoveFreeSpace_def zrealloc_def Let_def mk_sds_def)
  then show ?thesis using r(1) by simp
qed

lemma sdscatlen_ok:
  assumes "sds_ok s" "sd_len s + int (length t) + SDS_MAX_PREALLOC < 2 ^ 31"
  obtains s1 where "sdscatlen junk t s = Some s1" "sds_ok s1" "sds_val s1 = sds_val s @ t"
proof -
  obtain r where r: "sdsMakeRoomFor junk (int (length t)) s = Some (mk_sds (sds_val s) r)" "length t \<le> length r"
    "length (sds_val s) + length r < 2 ^ 31"
    using MakeRoomFor_ok [OF assms(1) _ assms(2), of junk thesis] by auto
  let ?v = "sds_val s"
  have l: "sdslen s = int (length ?v)" using assms(1) sds_val_length [OF assms(1)] by simp
  have i: "to_int32 (int (length ?v) + int (length t)) = int (length ?v + length t)"
    "to_int32 (int (length r) - int (length t)) = int (length r) - int (length t)" using r(2,3) by simp_all
  have a: "put_bytes (int (length ?v)) t (mk_sds ?v r) = Some ((mk_sds ?v r)\<lparr>sd_buf := ?v @ t @ drop (length t) (0 # r)\<rparr>)"
    using put_append [OF r(2), of ?v "mk_sds ?v r"] by (simp add: mk_sds_def)
  have "sdscatlen junk t s = put_bytes (int (length ?v + length t)) [0]
      (\<lparr>sd_len = int (length ?v + length t), sd_free = int (length r) - int (length t), sd_buf = []\<rparr>
        \<lparr>sd_buf := ?v @ t @ drop (length t) (0 # r)\<rparr>)"
    using i by (simp add: sdscatlen_def Let_def l r(1) a) (simp add: mk_sds_def)
  also have "\<dots> = Some (mk_sds (?v @ t) (drop (length t) r))"
    unfolding put_terminator [OF r(2)] using r(2) by (simp add: mk_sds_def of_nat_diff)
  finally show thesis by (rule that) (use r(2,3) in simp_all)
qed

lemma sdsIncrLen_ok:
  assumes "length t \<le> length r" "length v + length r < 2 ^ 31"
  shows "sdsIncrLen (int (length t)) ((mk_sds v r)\<lparr>sd_buf := v @ t @ drop (length t) (0 # r)\<rparr>) = Some (mk_sds (v @ t) (drop (length t) r))"
proof -
  have i: "int_fits (int (length v) + int (length t))" "int_fits (int (length r) - int (length t))"
    using assms by (simp_all add: int_fits_def)
  have "sdsIncrLen (int (length t)) ((mk_sds v r)\<lparr>sd_buf := v @ t @ drop (length t) (0 # r)\<rparr>) =
      put_bytes (int (length v + length t)) [0]
      (\<lparr>sd_len = int (length v + length t), sd_free = int (length r) - int (length t), sd_buf = []\<rparr>
        \<lparr>sd_buf := v @ t @ drop (length t) (0 # r)\<rparr>)"
    using i assms(1) by (simp add: sdsIncrLen_def Let_def) (simp add: mk_sds_def)
  also have "\<dots> = Some (mk_sds (v @ t) (drop (length t) r))"
    unfolding put_terminator [OF assms(1)] using assms(1) by (simp add: mk_sds_def of_nat_diff)
  finally show ?thesis .
qed

text \<open>\<open>_read_query\<close> appends what it has read, as long as the expected length is one an \<open>int\<close> holds.\<close>

lemma query_read_appends:
  assumes "sds_ok s" "sd_len s + int n + SDS_MAX_PREALLOC < 2 ^ 31"
  obtains s1 where "query_read junk n avail s = Some (int (min n (length avail)), s1)" "sds_ok s1" "sds_val s1 = sds_val s @ take n avail"
proof -
  let ?v = "sds_val s" and ?d = "take n avail"
  have "0 \<le> sd_len s" using assms(1) by (simp add: sds_ok_def)
  then have n: "int n < 2 ^ 31" "to_int32 (int n) = int n" "to_size (int n) = int n" using assms(2) by (simp_all add: SDS_MAX_PREALLOC_def)
  obtain r where r: "sdsMakeRoomFor junk (int n) s = Some (mk_sds ?v r)" "n \<le> length r" "length ?v + length r < 2 ^ 31"
    using MakeRoomFor_ok [OF assms(1) _ assms(2), of junk thesis] by auto
  have l: "sdslen s = int (length ?v)" "to_int32 (int (length ?v)) = int (length ?v)"
    using assms(1) sds_val_length [OF assms(1)] r(3) by simp_all
  have dl: "length ?d \<le> length r" using r(2) by simp
  have p: "put_bytes (int (length ?v)) ?d (mk_sds ?v r) = Some ((mk_sds ?v r)\<lparr>sd_buf := ?v @ ?d @ drop (length ?d) (0 # r)\<rparr>)"
    using put_append [OF dl, of ?v "mk_sds ?v r"] by (simp add: mk_sds_def)
  show thesis
  proof (cases "?d = []")
    case True
    then have "query_read junk n avail s = Some (0, mk_sds ?v r)"
      using n r(1) l p by (auto simp: query_read_def Let_def mk_sds_def)
    then show ?thesis using that [of "mk_sds ?v r"] True r(3) by (auto simp: min_def)
  next
    case False
    then have "query_read junk n avail s = Some (int (length ?d), mk_sds (?v @ ?d) (drop (length ?d) r))"
      using n r(1) l p sdsIncrLen_ok [OF dl r(3)] by (simp add: query_read_def Let_def)
    then show ?thesis using that [of "mk_sds (?v @ ?d) (drop (length ?d) r)"] r(3) dl by (simp add: min.commute)
  qed
qed

text \<open>A length that is negative as an \<open>int\<close> is almost \<open>2 ^ 64\<close> as a size.  Unless the sum with the prealloc
  wraps, the allocation fails.\<close>

lemma query_read_aborts:
  assumes "sds_ok s" "sd_len s < 2 ^ 16" "2 ^ 21 \<le> k" "k \<le> 2 ^ 31" "n = nat (2 ^ 32 - k)"
  shows "query_read junk n avail s = None"
proof -
  have len: "0 \<le> sd_len s" "0 \<le> sd_free s" "sd_free s < 2 ^ 31" using assms(1) by (auto simp: sds_ok_def)
  have k: "2 ^ 20 < k" using assms(3) by simp
  have "(6442450944 - k) mod 4294967296 = (2147483648 - k) mod (4294967296 :: int)"
    using mod_add_self2 [of "2147483648 - k" 4294967296] by (simp add: algebra_simps)
  then have n: "to_int32 (int n) = - k" using assms(4,5) k by (simp add: to_int32_def)
  have sz: "to_size (- k) = 2 ^ 64 - k"
  proof -
    have "(- k) mod 2 ^ 64 = (- k + 2 ^ 64) mod (2 ^ 64 :: int)" by simp
    also have "\<dots> = 2 ^ 64 - k" using assms(4) k by (subst mod_pos_pos_trivial) simp_all
    finally show ?thesis by (simp add: to_size_def)
  qed
  let ?nl = "sd_len s + (2 ^ 64 - k)"
  have nl: "to_size ?nl = ?nl" "\<not> ?nl < SDS_MAX_PREALLOC" "to_size (?nl + SDS_MAX_PREALLOC) = ?nl + SDS_MAX_PREALLOC"
    using assms(2-4) len by (simp_all add: SDS_MAX_PREALLOC_def)
  have "to_size (sdshdr_size + (?nl + SDS_MAX_PREALLOC) + 1) = sdshdr_size + (?nl + SDS_MAX_PREALLOC) + 1"
    "2 ^ 63 \<le> sdshdr_size + (?nl + SDS_MAX_PREALLOC) + 1"
    using assms(2-4) len by (simp_all add: SDS_MAX_PREALLOC_def sdshdr_size_def)
  then have "zrealloc junk (sd_buf s) (to_size (sdshdr_size + (?nl + SDS_MAX_PREALLOC) + 1)) = None"
    by (simp add: zrealloc_def)
  moreover have "\<not> 2 ^ 64 - k \<le> sd_free s" using len assms(4) by simp
  ultimately have "sdsMakeRoomFor junk (2 ^ 64 - k) s = None"
    unfolding sdsMakeRoomFor_def sds_ok_sizes [OF assms(1)] Let_def nl(1,3) using nl(2) by simp
  then show ?thesis using n sz by (simp add: query_read_def Let_def)
qed

subsection \<open>Shortening and overwriting\<close>

lemma put_bytes_front:
  assumes "length d < length (sd_buf s)"
  shows "put_bytes 0 d s = Some (s\<lparr>sd_buf := d @ drop (length d) (sd_buf s)\<rparr>)"
    "put_bytes (int (length d)) [0] (s\<lparr>sd_buf := d @ drop (length d) (sd_buf s)\<rparr>) =
      Some (s\<lparr>sd_buf := d @ 0 # drop (Suc (length d)) (sd_buf s)\<rparr>)"
  using assms by (simp_all add: put_bytes_def)

lemma put_prefix:
  assumes "length d \<le> length v + length r"
  shows "\<exists>s1 s2. put_bytes 0 d (mk_sds v r) = Some s1 \<and> put_bytes (int (length d)) [0] s1 = Some s2 \<and>
    s2\<lparr>sd_len := int (length d), sd_free := int (length v + length r) - int (length d)\<rparr> = mk_sds d (drop (Suc (length d)) (v @ 0 # r))"
proof -
  have f: "length d < length (sd_buf (mk_sds v r))" using assms by simp
  have "((mk_sds v r)\<lparr>sd_buf := d @ 0 # drop (Suc (length d)) (sd_buf (mk_sds v r))\<rparr>)\<lparr>sd_len := int (length d),
      sd_free := int (length v + length r) - int (length d)\<rparr> = mk_sds d (drop (Suc (length d)) (v @ 0 # r))"
    using assms unfolding mk_sds_def by (simp del: drop_append drop_Suc drop_Suc_Cons add: of_nat_diff)
  then show ?thesis using put_bytes_front [OF f] by blast
qed

lemma shorten_ok:
  assumes "length d \<le> length v" "length v + length r < 2 ^ 31"
  shows "length d + length (drop (Suc (length d)) (v @ 0 # r)) < 2 ^ 31"
  using assms by (auto simp: Suc_diff_le)

text \<open>The range from \<open>start\<close> to \<open>stop\<close>, both included, negative ones counted from the end.\<close>

definition range_index :: "int \<Rightarrow> int \<Rightarrow> nat" where
  "range_index n i = nat (if i < 0 then n + i else i)"

definition range_spec :: "int \<Rightarrow> int \<Rightarrow> bytes \<Rightarrow> bytes" where
  "range_spec start stop v = (let n = int (length v) in
     take (Suc (range_index n stop) - range_index n start) (drop (range_index n start) v))"

lemma sdsrange_ok:
  assumes "sds_ok s" "- (2 ^ 31) \<le> start" "start < 2 ^ 31" "- (2 ^ 31) \<le> stop" "stop < 2 ^ 31 - 1" "sds_val s \<noteq> []"
  obtains s1 where "sdsrange start stop s = Some s1" "sds_ok s1" "sds_val s1 = range_spec start stop (sds_val s)"
proof -
  obtain r where r: "s = mk_sds (sds_val s) r" "length (sds_val s) + length r < 2 ^ 31" by (rule sds_okE [OF assms(1)])
  let ?v = "sds_val s" and ?n = "int (length (sds_val s))"
  define a where "a = range_index ?n start"
  define b where "b = range_index ?n stop"
  have n: "0 < ?n" "?n < 2 ^ 31" using assms(6) r(2) by simp_all
  have wrap: "to_int32 (?n + i) = ?n + i" if "i < 0" "- (2 ^ 31) \<le> i" for i using that n by simp
  have ab: "(if start < 0 then (let t = to_int32 (?n + start) in if t < 0 then 0 else t) else start) = int a"
    "(if stop < 0 then (let t = to_int32 (?n + stop) in if t < 0 then 0 else t) else stop) = int b"
    using assms(2-5) wrap by (auto simp: a_def b_def range_index_def Let_def)
  have bb: "int b + 1 < 2 ^ 31" using assms(4,5) n by (auto simp: b_def range_index_def)
  define d where "d = range_spec start stop ?v"
  have d: "d = take (Suc b - a) (drop a ?v)" by (simp add: d_def range_spec_def a_def b_def Let_def)
  have dl: "length d = (if a \<le> b \<and> a < length ?v then min (Suc b) (length ?v) - a else 0)"
    unfolding d by (auto simp: min_def)
  have dle: "length d \<le> length ?v" unfolding dl by auto
  obtain s1 s2 where p: "put_bytes 0 d (mk_sds ?v r) = Some s1" "put_bytes (int (length d)) [0] s1 = Some s2"
    "s2\<lparr>sd_len := int (length d), sd_free := int (length ?v + length r) - int (length d)\<rparr> = mk_sds d (drop (Suc (length d)) (?v @ 0 # r))"
    using put_prefix [of d ?v r] dle by auto
  have same: "s1 = mk_sds ?v r" if "a = 0 \<or> d = []"
  proof -
    have "take (length d) (?v @ 0 # r) = d" using that d dl dle by (auto simp: min_def split: if_splits)
    then have "d @ drop (length d) (?v @ 0 # r) = ?v @ 0 # r" by (metis append_take_drop_id)
    then have "put_bytes 0 d (mk_sds ?v r) = Some (mk_sds ?v r)"
      using put_bytes_front(1) [of d "mk_sds ?v r"] dle by (simp add: mk_sds_def)
    then show ?thesis using p(1) by simp
  qed
  have rd: "mem_read (?v @ 0 # r) a (length d) = Some d" if "d \<noteq> []"
    using that dl d by (auto simp: mem_read_def min_def split: if_splits)
  let ?m = "(if int b < int a then 0 else int b - int a + 1)"
  have nl: "(if ?m \<noteq> 0 then (if ?n \<le> int a then (int a, 0) else if ?n \<le> int b then (int a, if ?n - 1 < int a then 0 else ?n - 1 - int a + 1)
      else (int a, ?m)) else (0, ?m)) = (if a \<le> b then int a else 0, int (length d))"
    unfolding dl by (auto simp: min_def of_nat_diff)
  have ls: "sdslen (mk_sds ?v r) = ?n" using n by (simp add: sdslen_def)
  have fr: "to_int32 (int (length r) + (?n - int (length d))) = int (length ?v + length r) - int (length d)"
    using dle r(2) by simp
  have "sdsrange start stop (mk_sds ?v r) = Some (mk_sds d (drop (Suc (length d)) (?v @ 0 # r)))"
  proof (cases "a \<noteq> 0 \<and> d \<noteq> []")
    case True
    then have "a \<le> b" using dl by (auto split: if_splits)
    then show ?thesis using True n bb p rd fr
      unfolding sdsrange_def Let_def ls mk_sds_sel ab [unfolded Let_def] nl prod.case
      by (simp add: sds_record)
  next
    case False
    then show ?thesis using n bb p same fr
      unfolding sdsrange_def Let_def ls mk_sds_sel ab [unfolded Let_def] nl prod.case
      by (auto simp: sds_record)
  qed
  then show thesis using that [of "mk_sds d (drop (Suc (length d)) (?v @ 0 # r))"] r(1) shorten_ok [OF dle r(2)]
    by (simp add: d_def)
qed

text \<open>What trimming leaves: null bytes are trimmed with the set.\<close>

lemma sdstrim_ok:
  assumes "sds_ok s"
  obtains s1 where "sdstrim cset s = Some s1" "sds_ok s1"
    "sds_val s1 = rev (dropWhile (in_cset cset) (rev (dropWhile (in_cset cset) (sds_val s))))"
proof -
  obtain r where r: "s = mk_sds (sds_val s) r" "length (sds_val s) + length r < 2 ^ 31" by (rule sds_okE [OF assms])
  let ?v = "sds_val s" and ?p = "in_cset cset"
  define sp where "sp = length (takeWhile ?p ?v)"
  define ep where "ep = length ?v - length (takeWhile ?p (rev (tl ?v)))"
  define d where "d = take (ep - sp) (drop sp ?v)"
  have left: "d = rev (dropWhile ?p (rev (dropWhile ?p ?v)))"
  proof (cases "\<forall>x \<in> set ?v. ?p x")
    case True
    then have "takeWhile ?p ?v = ?v" "dropWhile ?p ?v = []" by (auto simp: takeWhile_eq_all_conv)
    then have "sp = length ?v" "dropWhile ?p ?v = []" unfolding sp_def by (simp_all only:)
    then show ?thesis unfolding d_def by (simp only: drop_all le_refl take_Nil rev.simps dropWhile.simps)
  next
    case False
    let ?w = "dropWhile ?p ?v"
    from False have w: "?w \<noteq> []" "\<not> ?p (hd ?w)" by (simp_all add: dropWhile_eq_Nil_conv hd_dropWhile)
    have v: "?v = takeWhile ?p ?v @ ?w" by simp
    have tw: "takeWhile ?p (rev (tl ?v)) = takeWhile ?p (rev ?w)"
    proof (cases "takeWhile ?p ?v")
      case Nil
      then have vw: "?v = ?w" using v by simp
      have "rev ?w = rev (tl ?w) @ [hd ?w]" using w(1) by (cases ?w) auto
      then have "takeWhile ?p (rev ?w) = takeWhile ?p (rev (tl ?w))"
        using takeWhile_tail [of ?p "hd ?w" "rev (tl ?w)" "[]"] w(2) by (simp only: simp_thms)
      then show ?thesis using vw by simp
    next
      case (Cons a b)
      then have "?v = (a # b) @ ?w" using v by simp
      then have "tl ?v = b @ ?w" by (metis append_Cons list.sel(3))
      moreover have "takeWhile ?p (rev ?w @ rev b) = takeWhile ?p (rev ?w)"
        by (rule takeWhile_append1 [of "hd ?w"]) (use w hd_in_set [OF w(1)] in \<open>simp_all only: set_rev not_False_eq_True\<close>)
      ultimately show ?thesis by simp
    qed
    have dw: "drop sp ?v = ?w" by (simp add: sp_def dropWhile_eq_drop)
    have "length ?v = sp + length ?w" by (metis dw length_drop sp_def le_add_diff_inverse length_takeWhile_le)
    then have "ep - sp = length ?w - length (takeWhile ?p (rev ?w))" by (simp add: ep_def tw)
    moreover have "rev (dropWhile ?p (rev w)) = take (length w - length (takeWhile ?p (rev w))) w" for w
      by (subst dropWhile_eq_drop) (simp add: rev_drop)
    ultimately show ?thesis unfolding d_def dw by (simp only:)
  qed
  have dl: "length d \<le> length ?v" by (simp add: d_def)
  obtain s1 s2 where p: "put_bytes 0 d (mk_sds ?v r) = Some s1" "put_bytes (int (length d)) [0] s1 = Some s2"
    "s2\<lparr>sd_len := int (length d), sd_free := int (length ?v + length r) - int (length d)\<rparr> = mk_sds d (drop (Suc (length d)) (?v @ 0 # r))"
    using put_prefix [of d ?v r] dl by auto
  have "ep \<le> length ?v" by (simp add: ep_def)
  then have el: "ep - sp = length d" by (simp add: d_def min_absorb2 diff_le_mono)
  have ls: "take (nat (sdslen (mk_sds ?v r))) (sd_buf (mk_sds ?v r)) = ?v" using r(2) by (simp add: sdslen_def)
  have fr: "to_int32 (int (length r) + (int (length ?v) - int (length d))) = int (length ?v + length r) - int (length d)"
    using dl r(2) by simp
  have "sdstrim cset (mk_sds ?v r) = Some (mk_sds d (drop (Suc (length d)) (?v @ 0 # r)))"
    unfolding sdstrim_def Let_def ls sp_def [symmetric] ep_def [symmetric] el
    using p fr by (simp add: d_def [unfolded el, symmetric])
  then show thesis using that [of "mk_sds d (drop (Suc (length d)) (?v @ 0 # r))"] r(1) shorten_ok [OF dl r(2)] left by simp
qed

lemma sdscpylen_ok:
  assumes "sds_ok s" "int (length t) + SDS_MAX_PREALLOC < 2 ^ 31"
  obtains s1 where "sdscpylen junk t s = Some s1" "sds_ok s1" "sds_val s1 = t"
proof -
  obtain r where r: "s = mk_sds (sds_val s) r" "length (sds_val s) + length r < 2 ^ 31" by (rule sds_okE [OF assms(1)])
  let ?v = "sds_val s" and ?n = "int (length t)"
  let ?s1 = "if to_size (sd_free s + sd_len s) < ?n then sdsMakeRoomFor junk (to_size (?n - sd_len s)) s else Some s"
  have vl: "sd_len s = int (length ?v)" "sd_free s = int (length r)" by (subst r(1), simp)+
  have tot: "to_size (sd_free s + sd_len s) = int (length r) + int (length ?v)" using r(2) vl by simp
  obtain q where q: "?s1 = Some (mk_sds ?v q)" "length t \<le> length ?v + length q" "length ?v + length q < 2 ^ 31"
  proof (cases "int (length r) + int (length ?v) < ?n")
    case True
    then have "0 \<le> ?n - sd_len s" "sd_len s + (?n - sd_len s) + SDS_MAX_PREALLOC < 2 ^ 31" using assms(2) vl by simp_all
    moreover have "to_size (?n - sd_len s) = ?n - sd_len s" using True assms(2) vl by (simp add: SDS_MAX_PREALLOC_def)
    ultimately show ?thesis using that True tot MakeRoomFor_ok [OF assms(1), of "?n - sd_len s" junk thesis] vl by auto
  next
    case False
    then show ?thesis using that [of r] r tot by simp
  qed
  obtain s1 s2 where p: "put_bytes 0 t (mk_sds ?v q) = Some s1" "put_bytes ?n [0] s1 = Some s2"
    "s2\<lparr>sd_len := ?n, sd_free := int (length ?v + length q) - ?n\<rparr> = mk_sds t (drop (Suc (length t)) (?v @ 0 # q))"
    using put_prefix [OF q(2)] by auto
  have i: "to_int32 ?n = ?n" "to_int32 (to_size (sd_free (mk_sds ?v q) + sd_len (mk_sds ?v q)) - ?n) = int (length ?v + length q) - ?n"
    using q(2,3) by simp_all
  have "sdscpylen junk t s = Some (mk_sds t (drop (Suc (length t)) (?v @ 0 # q)))"
    unfolding sdscpylen_def Let_def q(1) using p i by simp
  moreover have "length t + length (drop (Suc (length t)) (?v @ 0 # q)) < 2 ^ 31" using q(2,3) by (simp add: Suc_diff_le)
  ultimately show thesis using that by simp
qed

lemma sdsgrowzero_ok:
  assumes "sds_ok s" "0 \<le> n" "n + SDS_MAX_PREALLOC < 2 ^ 31"
  obtains s1 where "sdsgrowzero junk n s = Some s1" "sds_ok s1"
    "sds_val s1 = sds_val s @ replicate (nat n - length (sds_val s)) 0"
proof -
  obtain r where r: "s = mk_sds (sds_val s) r" "length (sds_val s) + length r < 2 ^ 31" by (rule sds_okE [OF assms(1)])
  let ?v = "sds_val s"
  have vl: "sd_len s = int (length ?v)" "to_size (sd_len s) = int (length ?v)" using sds_val_length [OF assms(1)] r(2) by simp_all
  show thesis
  proof (cases "n \<le> int (length ?v)")
    case True
    then show ?thesis using that [OF _ assms(1)] vl by (simp add: sdsgrowzero_def nat_le_iff)
  next
    case False
    let ?k = "n - int (length ?v)" let ?z = "replicate (nat ?k) (0 :: byte)"
    have k: "to_size ?k = ?k" "0 \<le> ?k" "sd_len s + ?k + SDS_MAX_PREALLOC < 2 ^ 31"
      using False assms(3) vl by (simp_all add: SDS_MAX_PREALLOC_def)
    obtain q where q: "sdsMakeRoomFor junk ?k s = Some (mk_sds ?v q)" "?k \<le> int (length q)" "length ?v + length q < 2 ^ 31"
      using MakeRoomFor_ok [OF assms(1) k(2,3), of junk thesis] by auto
    have lz: "length ?z \<le> length q" using q(2) k(2) by simp
    have rep: "replicate (nat (?k + 1)) 0 = ?z @ [0]" using k(2) by (simp add: nat_add_distrib replicate_append_same)
    have p: "put_bytes (int (length ?v)) (?z @ [0]) (mk_sds ?v q) = Some ((mk_sds ?v q)\<lparr>sd_buf := ?v @ ?z @ 0 # drop (length ?z) q\<rparr>)"
      using lz k(2) by (simp add: put_bytes_def)
    have n: "to_int32 n = int (length ?v) + int (length ?z)" "to_int32 (to_size (int (length ?v) + int (length q)) - n) = int (length q) - int (length ?z)"
      using False assms(2,3) q(2,3) k(2) by (simp_all add: SDS_MAX_PREALLOC_def)
    have "sdsgrowzero junk n s = Some (mk_sds (?v @ ?z) (drop (length ?z) q))"
      using False vl(2) k(1) q(1) p n rep lz by (simp add: sdsgrowzero_def Let_def mk_sds_def of_nat_diff)
    moreover have "nat ?k = nat n - length ?v" by simp
    ultimately show ?thesis using that [of "mk_sds (?v @ ?z) (drop (length ?z) q)"] q(3) lz by simp
  qed
qed

end
