(* ===== verification/Query_Buffer.thy ===== *)
theory Query_Buffer
  imports Sds Signaling_Conn
begin

text \<open>
  The query buffer of a signaling connection as it is in memory: a string of \<open>Sds\<close> that represents the
  list of bytes with which \<open>Signaling_Conn\<close> models it.
\<close>

definition buffer_of :: "sds \<Rightarrow> tcp_connection \<Rightarrow> bool" where
  "buffer_of s c \<longleftrightarrow> sds_ok s \<and> sds_val s = querybuf c"

text \<open>C21: As long as the bytes buffered and expected stay below 2^31 - 2^20, reading into
  the query buffer keeps its invariant (length, free space, terminator) and appends exactly the
  bytes read, as the list model of the connection says.\<close>
theorem query_buffer_refines:
  assumes "buffer_of s c" "length (querybuf c) + bytes_expected c < 2 ^ 31 - 2 ^ 20"
  shows "\<exists>s1. query_read junk (bytes_expected c) avail s = Some (int (length (take (bytes_expected c) avail)), s1) \<and>
    buffer_of s1 (c\<lparr>querybuf := querybuf c @ take (bytes_expected c) avail\<rparr>) \<and>
    process_query_buffer lib nt wid (c\<lparr>querybuf := sds_val s1\<rparr>) = receive lib nt wid (take (bytes_expected c) avail) c"
proof -
  have ok: "sds_ok s" "sds_val s = querybuf c" using assms(1) by (simp_all add: buffer_of_def)
  then have "sd_len s + int (bytes_expected c) + SDS_MAX_PREALLOC < 2 ^ 31"
    using assms(2) sds_val_length [OF ok(1)] by (simp add: SDS_MAX_PREALLOC_def)
  from query_read_appends [OF ok(1) this] obtain s1 where
    "query_read junk (bytes_expected c) avail s = Some (int (min (bytes_expected c) (length avail)), s1)"
    "sds_ok s1" "sds_val s1 = querybuf c @ take (bytes_expected c) avail" using ok(2) by metis
  then show ?thesis by (simp add: buffer_of_def receive_def min.commute)
qed

lemma query_buffer_refines_witness:
  "\<exists>s1. query_read (\<lambda>_. 9) 36 (demo_header @ demo_body) (mk_sds [] []) = Some (36, s1) \<and> sds_ok s1 \<and> sds_val s1 = demo_header"
  using query_buffer_refines [of "mk_sds [] []" "TCPConnection 2 5" "\<lambda>_. 9" "demo_header @ demo_body" demo_lib True 0]
  by (auto simp: buffer_of_def TCPConnection_def XHEAD_SIZE_def demo_header_def)

text \<open>The header announces a body of \<open>2 ^ 31\<close> bytes or more.\<close>

text \<open>C10: A request header that announces a body of 2^31 to 2^32 - 2^21 bytes ends the
  process at the next read from its connection, whatever arrives: the length is negative as an
  int, and the allocation it is converted to cannot succeed.\<close>
theorem body_length_aborts:
  assumes "length header = XHEAD_SIZE" "xh_magic_num header = Some XHEAD_MAGIC_NUM" "xh_body_len header = Some len"
    and "2 ^ 31 \<le> uint len" "uint len \<le> 2 ^ 32 - 2 ^ 21" and "fresh_conn c"
  shows "\<exists>s0 s c1. sdsempty junk = Some s0 \<and> query_read junk (bytes_expected c) header s0 = Some (36, s) \<and>
    process_query_buffer lib nt wid (c\<lparr>querybuf := sds_val s\<rparr>) = Some (0, c1, []) \<and>
    query_read junk (bytes_expected c1) avail s = None"
proof -
  have c: "querybuf c = []" "current_state c = STATE_HEAD" "bytes_processed c = 0" "bytes_expected c = XHEAD_SIZE"
    using assms(6) by (simp_all add: fresh_conn_def)
  have l: "length header = 36" using assms(1) by (simp add: XHEAD_SIZE_def)
  obtain s where s: "query_read junk 36 header (mk_sds [] []) = Some (36, s)" "sds_ok s" "sds_val s = header"
    using query_read_appends [of "mk_sds [] []" 36 junk header] l by (auto simp: SDS_MAX_PREALLOC_def)
  let ?c1 = "c\<lparr>querybuf := header, current_state := STATE_BODY, bytes_processed := XHEAD_SIZE, bytes_expected := unat len\<rparr>"
  have r: "query_round lib nt wid (c\<lparr>querybuf := header\<rparr>) = Some (None, ?c1, [])"
    using assms(2,3) c by (simp add: query_round_def)
  have len: "int (unat len) = uint len" "2147483648 \<le> uint len" using assms(4) by (simp_all only: uint_nat) simp
  then have big: "36 < unat len" by linarith
  have p: "process_query_buffer lib nt wid (c\<lparr>querybuf := sds_val s\<rparr>) = Some (0, ?c1, [])"
    unfolding s(3) by (subst query_next [OF _ r])
      (use c l big query_stop [of ?c1 lib nt wid] in \<open>simp_all add: XHEAD_SIZE_def\<close>)
  have sl: "sd_len s = 36" using sds_val_length [OF s(2)] s(3) l by simp
  have n: "unat len = nat (2 ^ 32 - (2 ^ 32 - uint len))" using len(1) by simp
  have "query_read junk (unat len) avail s = None"
    by (rule query_read_aborts [OF s(2) _ _ _ n]) (use sl assms(4,5) in simp_all)
  then have "query_read junk (bytes_expected ?c1) avail s = None" by simp
  then show ?thesis using sdsempty_ok s(1) p c(4) by (auto simp: XHEAD_SIZE_def)
qed

definition demo_huge_header :: bytes where
  "demo_huge_header = replicate 24 0 @ [0x07, 0x25, 0x20, 0xfb] @ replicate 4 0 @ [0, 0, 0, 0x80]"

lemma body_length_aborts_witness:
  "\<exists>s0 s c1. sdsempty (\<lambda>_. 0) = Some s0 \<and> query_read (\<lambda>_. 0) 36 demo_huge_header s0 = Some (36, s) \<and>
    process_query_buffer demo_lib True 0 ((TCPConnection 2 5)\<lparr>querybuf := sds_val s\<rparr>) = Some (0, c1, []) \<and>
    query_read (\<lambda>_. 0) (bytes_expected c1) [] s = None"
proof -
  have h: "length demo_huge_header = XHEAD_SIZE" "xh_magic_num demo_huge_header = Some XHEAD_MAGIC_NUM"
    "xh_body_len demo_huge_header = Some 0x80000000" by code_simp+
  have "bytes_expected (TCPConnection 2 5) = 36" by (simp add: TCPConnection_def XHEAD_SIZE_def)
  with body_length_aborts [OF h _ _ demo_fresh, of "\<lambda>_. 0" demo_lib True 0 "[]"] show ?thesis by simp
qed

end
