(* ===== verification/Sds_Text.thy ===== *)
theory Sds_Text
  imports Sds
begin

text \<open>
  The functions of \<open>rtc_base/sds.cc\<close> on text: splitting, quoting and the parser of quoted
  arguments.  The strings they build are represented by their values (\<open>sdscatlen_ok\<close>).
\<close>

subsection \<open>Splitting\<close>

text \<open>The loop of \<open>sdssplitlen\<close>: \<open>cur\<close> is the field that has begun and \<open>rest\<close> what comes from \<open>j\<close> on.\<close>

function sdssplit_loop :: "bytes \<Rightarrow> bytes \<Rightarrow> bytes \<Rightarrow> bytes list" where
  "sdssplit_loop sep cur rest = (if sep = [] \<or> length rest < length sep then [cur @ rest]
     else if take (length sep) rest = sep then cur # sdssplit_loop sep [] (drop (length sep) rest)
     else sdssplit_loop sep (cur @ [hd rest]) (tl rest))"
  by pat_completeness auto
termination
proof (relation "measure (\<lambda>(_, _, r). length r)")
  fix sep cur rest :: bytes
  assume "\<not> (sep = [] \<or> length rest < length sep)"
  then have "0 < length sep" "0 < length rest" by auto
  then show "((sep, [], drop (length sep) rest), sep, cur, rest) \<in> measure (\<lambda>(_, _, r). length r)"
    "((sep, cur @ [hd rest], tl rest), sep, cur, rest) \<in> measure (\<lambda>(_, _, r). length r)" by auto
qed simp

declare sdssplit_loop.simps [simp del]

definition sdssplitlen :: "bytes \<Rightarrow> bytes \<Rightarrow> bytes list option" where
  "sdssplitlen s sep = (if length sep < 1 then None
     else if s = [] then Some [] else Some (sdssplit_loop sep [] s))"

fun join_with :: "bytes \<Rightarrow> bytes list \<Rightarrow> bytes" where
  "join_with sep [] = []"
| "join_with sep [x] = x"
| "join_with sep (x # xs) = x @ sep @ join_with sep xs"

lemma join_with_Cons: "xs \<noteq> [] \<Longrightarrow> join_with sep (x # xs) = x @ sep @ join_with sep xs"
  by (cases xs) simp_all

lemma sdssplit_loop_not_Nil: "sdssplit_loop sep cur rest \<noteq> []"
  by (induction sep cur rest rule: sdssplit_loop.induct) (subst sdssplit_loop.simps, simp)

lemma sdssplit_loop_join: "join_with sep (sdssplit_loop sep cur rest) = cur @ rest"
proof (induction sep cur rest rule: sdssplit_loop.induct)
  case (1 sep cur rest)
  consider "sep = [] \<or> length rest < length sep" | "sep \<noteq> []" "length sep \<le> length rest" "take (length sep) rest = sep"
    | "sep \<noteq> []" "length sep \<le> length rest" "take (length sep) rest \<noteq> sep" by linarith
  then show ?case
  proof cases
    case 2
    then have "sep @ drop (length sep) rest = rest" by (metis append_take_drop_id)
    then show ?thesis using 2 1(1)
      by (subst sdssplit_loop.simps) (simp add: join_with_Cons sdssplit_loop_not_Nil not_less)
  next
    case 3
    then have "rest \<noteq> []" by auto
    then show ?thesis using 3 1(2) by (subst sdssplit_loop.simps) (simp add: not_less)
  qed (subst sdssplit_loop.simps, simp)
qed

text \<open>No field holds the separator.\<close>

definition free_of :: "bytes \<Rightarrow> bytes \<Rightarrow> bool" where
  "free_of sep x \<longleftrightarrow> (\<forall>i. i + length sep \<le> length x \<longrightarrow> take (length sep) (drop i x) \<noteq> sep)"

text \<open>What the loop has passed has no separator that would begin in the field.\<close>

lemma sdssplit_loop_free:
  assumes "sep \<noteq> []" "\<forall>i < length cur. take (length sep) (drop i (cur @ rest)) \<noteq> sep"
  shows "\<forall>x \<in> set (sdssplit_loop sep cur rest). free_of sep x"
  using assms
proof (induction sep cur rest rule: sdssplit_loop.induct)
  case (1 sep cur rest)
  let ?n = "length sep"
  have pre: "free_of sep cur"
  proof -
    have "take ?n (drop i cur) \<noteq> sep" if "i + ?n \<le> length cur" for i
    proof -
      have "i < length cur" using that 1(3) by (cases sep) auto
      moreover have "take ?n (drop i (cur @ rest)) = take ?n (drop i cur)" using that by simp
      ultimately show ?thesis using 1(4) by metis
    qed
    then show ?thesis by (simp add: free_of_def)
  qed
  consider "length rest < ?n" | "?n \<le> length rest" "take ?n rest = sep" | "?n \<le> length rest" "take ?n rest \<noteq> sep" by linarith
  then show ?case
  proof cases
    case 1
    have "take ?n (drop i (cur @ rest)) \<noteq> sep" if "i + ?n \<le> length (cur @ rest)" for i
      using that 1 "1.prems"(2) by auto
    then show ?thesis using 1 by (subst sdssplit_loop.simps) (simp add: free_of_def)
  next
    case 2
    then show ?thesis using "1.IH"(1) "1.prems"(1) pre by (subst sdssplit_loop.simps) (simp add: not_less)
  next
    case 3
    then obtain h t where h: "rest = h # t" using "1.prems"(1) by (cases rest) auto
    have "take ?n (drop i ((cur @ [h]) @ t)) \<noteq> sep" if "i < length (cur @ [h])" for i
      using that "1.prems"(2) 3(2) h by (cases "i = length cur") auto
    then have "\<forall>x \<in> set (sdssplit_loop sep (cur @ [h]) t). free_of sep x" using "1.IH"(2) 3 h "1.prems"(1) by simp
    then show ?thesis using 3 h "1.prems"(1) by (subst sdssplit_loop.simps) (simp add: not_less)
  qed
qed

subsection \<open>Quoting\<close>

definition isprint :: "byte \<Rightarrow> bool" where "isprint c \<longleftrightarrow> 32 \<le> c \<and> c \<le> 126"

definition isspace_byte :: "byte \<Rightarrow> bool" where "isspace_byte c \<longleftrightarrow> c = 32 \<or> 9 \<le> c \<and> c \<le> 13"

text \<open>\<open>%x\<close> of a digit.\<close>

definition hex_lower :: "nat \<Rightarrow> byte" where
  "hex_lower n = word_of_nat (if n < 10 then 48 + n else 87 + n)"

definition repr_char :: "byte \<Rightarrow> bytes" where
  "repr_char c = (
     if c = 92 \<or> c = 34 then [92, c]
     else if c = 10 then [92, 110]
     else if c = 13 then [92, 114]
     else if c = 9 then [92, 116]
     else if c = 7 then [92, 97]
     else if c = 8 then [92, 98]
     else if isprint c then [c]
     else [92, 120, hex_lower (unat c div 16), hex_lower (unat c mod 16)])"

definition sdscatrepr :: "bytes \<Rightarrow> bytes \<Rightarrow> bytes" where
  "sdscatrepr s p = s @ [34] @ concat (map repr_char p) @ [34]"

subsection \<open>Arguments\<close>

definition is_hex_digit :: "byte \<Rightarrow> bool" where
  "is_hex_digit c \<longleftrightarrow> 48 \<le> c \<and> c \<le> 57 \<or> 97 \<le> c \<and> c \<le> 102 \<or> 65 \<le> c \<and> c \<le> 70"

definition hex_digit_to_int :: "byte \<Rightarrow> nat" where
  "hex_digit_to_int c = (if 48 \<le> c \<and> c \<le> 57 then unat c - 48
     else if 97 \<le> c \<and> c \<le> 102 then unat c - 87
     else if 65 \<le> c \<and> c \<le> 70 then unat c - 55 else 0)"

definition escaped :: "byte \<Rightarrow> byte" where
  "escaped c = (if c = 110 then 10 else if c = 114 then 13 else if c = 116 then 9
     else if c = 98 then 8 else if c = 97 then 7 else c)"

datatype quoting = Unquoted | In_quotes | In_single_quotes

text \<open>The characters from \<open>*p\<close> on, up to the terminator of the line; the result is the token and
  what follows, or nothing for the error label.\<close>

fun split_token :: "quoting \<Rightarrow> bytes \<Rightarrow> bytes \<Rightarrow> (bytes \<times> bytes) option" where
  "split_token In_quotes cur p = (case p of [] \<Rightarrow> None
     | c # r \<Rightarrow>
         if c = 92 \<and> 3 \<le> length r \<and> r ! 0 = 120 \<and> is_hex_digit (r ! 1) \<and> is_hex_digit (r ! 2)
           then split_token In_quotes (cur @ [word_of_nat (hex_digit_to_int (r ! 1) * 16 + hex_digit_to_int (r ! 2))]) (drop 3 r)
         else if c = 92 \<and> r \<noteq> [] then split_token In_quotes (cur @ [escaped (hd r)]) (tl r)
         else if c = 34 then (if r \<noteq> [] \<and> \<not> isspace_byte (hd r) then None else Some (cur, r))
         else split_token In_quotes (cur @ [c]) r)"
| "split_token In_single_quotes cur p = (case p of [] \<Rightarrow> None
     | c # r \<Rightarrow>
         if c = 92 \<and> r \<noteq> [] \<and> hd r = 39 then split_token In_single_quotes (cur @ [39]) (tl r)
         else if c = 39 then (if r \<noteq> [] \<and> \<not> isspace_byte (hd r) then None else Some (cur, r))
         else split_token In_single_quotes (cur @ [c]) r)"
| "split_token Unquoted cur p = (case p of [] \<Rightarrow> Some (cur, [])
     | c # r \<Rightarrow>
         if c \<in> {32, 10, 13, 9} then Some (cur, r)
         else if c = 34 then split_token In_quotes cur r
         else if c = 39 then split_token In_single_quotes cur r
         else split_token Unquoted (cur @ [c]) r)"

declare split_token.simps [simp del]

text \<open>One character of a token: the state to go on with, or the end of the token.\<close>

lemma split_token_quotes:
  "split_token In_quotes cur [] = None"
  "c \<noteq> 92 \<Longrightarrow> c \<noteq> 34 \<Longrightarrow> split_token In_quotes cur (c # r) = split_token In_quotes (cur @ [c]) r"
  "split_token In_quotes cur (34 # r) = (if r \<noteq> [] \<and> \<not> isspace_byte (hd r) then None else Some (cur, r))"
  "e \<noteq> 120 \<Longrightarrow> split_token In_quotes cur (92 # e # r) = split_token In_quotes (cur @ [escaped e]) r"
  "is_hex_digit a \<Longrightarrow> is_hex_digit b \<Longrightarrow> split_token In_quotes cur (92 # 120 # a # b # r) =
     split_token In_quotes (cur @ [word_of_nat (hex_digit_to_int a * 16 + hex_digit_to_int b)]) r"
  by (subst split_token.simps, simp)+

lemma split_token_length: "split_token q cur p = Some (t, r) \<Longrightarrow> length r \<le> length p \<and> (p \<noteq> [] \<longrightarrow> length r < length p)"
proof (induction q cur p rule: split_token.induct)
  case (1 cur p)
  show ?case
  proof (cases p)
    case Nil
    then show ?thesis using "1.prems" by (simp add: split_token.simps)
  next
    case (Cons c u)
    let ?hex = "c = 92 \<and> 3 \<le> length u \<and> u ! 0 = 120 \<and> is_hex_digit (u ! 1) \<and> is_hex_digit (u ! 2)"
    consider ?hex | "\<not> ?hex" "c = 92 \<and> u \<noteq> []" | "\<not> ?hex" "\<not> (c = 92 \<and> u \<noteq> [])" "c = 34"
      | "\<not> ?hex" "\<not> (c = 92 \<and> u \<noteq> [])" "c \<noteq> 34" by blast
    then show ?thesis
    proof cases
      case 1
      then have "split_token In_quotes (cur @ [word_of_nat (hex_digit_to_int (u ! 1) * 16 + hex_digit_to_int (u ! 2))]) (drop 3 u) = Some (t, r)"
        using "1.prems" Cons by (subst (asm) split_token.simps) simp
      from "1.IH"(1) [OF Cons 1 this] show ?thesis using Cons by auto
    next
      case 2
      then have "split_token In_quotes (cur @ [escaped (hd u)]) (tl u) = Some (t, r)"
        using "1.prems" Cons by (subst (asm) split_token.simps) (simp only: list.case if_False if_True simp_thms)
      from "1.IH"(2) [OF Cons 2 this] show ?thesis using Cons by auto
    next
      case 3
      then show ?thesis using "1.prems" Cons by (subst (asm) split_token.simps) (auto split: if_splits)
    next
      case 4
      then have "split_token In_quotes (cur @ [c]) u = Some (t, r)"
        using "1.prems" Cons by (subst (asm) split_token.simps) (simp only: list.case if_False simp_thms)
      from "1.IH"(3) [OF Cons 4 this] show ?thesis using Cons by auto
    qed
  qed
next
  case (2 cur p)
  show ?case
  proof (cases p)
    case Nil
    then show ?thesis using "2.prems" by (simp add: split_token.simps)
  next
    case (Cons c u)
    consider "c = 92 \<and> u \<noteq> [] \<and> hd u = 39" | "\<not> (c = 92 \<and> u \<noteq> [] \<and> hd u = 39)" "c = 39"
      | "\<not> (c = 92 \<and> u \<noteq> [] \<and> hd u = 39)" "c \<noteq> 39" by blast
    then show ?thesis
    proof cases
      case 1
      then have "split_token In_single_quotes (cur @ [39]) (tl u) = Some (t, r)"
        using "2.prems" Cons by (subst (asm) split_token.simps) simp
      from "2.IH"(1) [OF Cons 1 this] show ?thesis using Cons by auto
    next
      case 2
      then show ?thesis using "2.prems" Cons by (subst (asm) split_token.simps) (auto split: if_splits)
    next
      case 3
      then have "split_token In_single_quotes (cur @ [c]) u = Some (t, r)"
        using "2.prems" Cons by (subst (asm) split_token.simps) (simp only: list.case if_False simp_thms)
      from "2.IH"(2) [OF Cons 3 this] show ?thesis using Cons by auto
    qed
  qed
next
  case (3 cur p)
  show ?case
  proof (cases p)
    case Nil
    then show ?thesis using "3.prems" by (simp add: split_token.simps)
  next
    case (Cons c u)
    consider "c \<in> {32, 10, 13, 9}" | "c \<notin> {32, 10, 13, 9}" "c = 34" | "c \<notin> {32, 10, 13, 9}" "c \<noteq> 34" "c = 39"
      | "c \<notin> {32, 10, 13, 9}" "c \<noteq> 34" "c \<noteq> 39" by blast
    then show ?thesis
    proof cases
      case 1
      then have "r = u" using "3.prems" Cons by (subst (asm) split_token.simps) auto
      then show ?thesis using Cons by simp
    next
      case 2
      then have "split_token In_quotes cur u = Some (t, r)" using "3.prems" Cons by (subst (asm) split_token.simps) simp
      from "3.IH"(1) [OF Cons 2 this] show ?thesis using Cons by auto
    next
      case 3
      then have "split_token In_single_quotes cur u = Some (t, r)" using "3.prems" Cons by (subst (asm) split_token.simps) simp
      from "3.IH"(2) [OF Cons 3 this] show ?thesis using Cons by auto
    next
      case 4
      then have "split_token Unquoted (cur @ [c]) u = Some (t, r)"
        using "3.prems" Cons by (subst (asm) split_token.simps) (simp only: list.case if_False simp_thms)
      from "3.IH"(3) [OF Cons 4 this] show ?thesis using Cons by auto
    qed
  qed
qed

text \<open>Blanks are skipped, then a token is taken, until the end of the line.  The result is the vector, or
  nothing for an error.\<close>

function split_args :: "bytes \<Rightarrow> bytes list option" where
  "split_args p = (let q = dropWhile isspace_byte p in
     if q = [] then Some []
     else (case split_token Unquoted [] q of
         None \<Rightarrow> None
       | Some (t, r) \<Rightarrow> map_option ((#) t) (split_args r)))"
  by pat_completeness auto
termination
proof (relation "measure length")
  fix p q t r and x :: "bytes \<times> bytes"
  assume "q = dropWhile isspace_byte p" "q \<noteq> []" "split_token Unquoted [] q = Some x" "(t, r) = x"
  then have "length r < length q" "length q \<le> length p" using split_token_length [of Unquoted "[]" q t r] length_dropWhile_le by auto
  then show "(r, p) \<in> measure length" by simp
qed simp

declare split_args.simps [simp del]

text \<open>\<open>sdssplitargs\<close> on a C string: the vector and \<open>*argc\<close>.  The pointer is null after an error, and
  also when there are no tokens; counting down in the error branch leaves \<open>*argc\<close> at -1.\<close>

definition sdssplitargs :: "bytes \<Rightarrow> bytes list option \<times> int" where
  "sdssplitargs line = (case split_args (takeWhile (\<lambda>b. b \<noteq> 0) line) of
       None \<Rightarrow> (None, -1)
     | Some v \<Rightarrow> (if v = [] then None else Some v, int (length v)))"

subsection \<open>What is quoted is read back\<close>

lemma hex_lower_digit:
  assumes "n < 16"
  shows "is_hex_digit (hex_lower n)" "hex_digit_to_int (hex_lower n) = n" "hex_lower n \<noteq> 0"
proof -
  have "\<forall>n \<in> set [0..<16]. is_hex_digit (hex_lower n) \<and> hex_digit_to_int (hex_lower n) = n \<and> hex_lower n \<noteq> 0" by code_simp
  then show "is_hex_digit (hex_lower n)" "hex_digit_to_int (hex_lower n) = n" "hex_lower n \<noteq> 0" using assms by auto
qed

lemma byte_from_digits: "word_of_nat (unat c div 16 * 16 + unat c mod 16) = (c :: byte)"
  by simp

lemma repr_char_read: "split_token In_quotes cur (repr_char c @ r) = split_token In_quotes (cur @ [c]) r"
proof -
  have u: "unat c div 16 < 16" "unat c mod 16 < 16" using unsigned_less [of c, where ?'a = nat] by simp_all
  consider "c = 92" | "c = 34" | "c = 10" | "c = 13" | "c = 9" | "c = 7" | "c = 8"
    | "c \<notin> {92, 34, 10, 13, 9, 7, 8}" "isprint c" | "c \<notin> {92, 34, 10, 13, 9, 7, 8}" "\<not> isprint c" by auto
  then show ?thesis
  proof cases
    case 9
    then show ?thesis using split_token_quotes(5) [OF hex_lower_digit(1) [OF u(1)] hex_lower_digit(1) [OF u(2)], of cur r]
      by (simp add: repr_char_def hex_lower_digit(2) [OF u(1)] hex_lower_digit(2) [OF u(2)])
  qed (simp_all add: repr_char_def split_token_quotes escaped_def)
qed

lemma repr_chars_read: "split_token In_quotes cur (concat (map repr_char s) @ r) = split_token In_quotes (cur @ s) r"
  by (induction s arbitrary: cur) (simp_all add: repr_char_read)

lemma repr_char_no_null: "0 \<notin> set (repr_char c)"
proof -
  have u: "unat c div 16 < 16" "unat c mod 16 < 16" using unsigned_less [of c, where ?'a = nat] by simp_all
  show ?thesis using hex_lower_digit(3) [OF u(1)] hex_lower_digit(3) [OF u(2)] by (auto simp: repr_char_def isprint_def)
qed

theorem repr_read_back: "sdssplitargs (sdscatrepr [] s) = (Some [s], 1)"
proof -
  let ?l = "sdscatrepr [] s"
  have l: "?l = 34 # concat (map repr_char s) @ [34]" by (simp add: sdscatrepr_def)
  have "0 \<notin> set ?l" using repr_char_no_null by (auto simp: l)
  then have nz: "takeWhile (\<lambda>b. b \<noteq> 0) ?l = ?l" by (auto simp: takeWhile_eq_all_conv)
  have "split_token Unquoted [] ?l = split_token In_quotes [] (concat (map repr_char s) @ [34])"
    by (subst split_token.simps) (simp add: l)
  also have "\<dots> = Some (s, [])" unfolding repr_chars_read by (simp add: split_token_quotes)
  finally have t: "split_token Unquoted [] ?l = Some (s, [])" .
  have "dropWhile isspace_byte ?l = ?l" "?l \<noteq> []" by (simp_all add: l isspace_byte_def)
  then have "split_args ?l = Some [s]"
    by (subst split_args.simps) (simp add: t Let_def split_args.simps [of "[]"])
  then show ?thesis by (simp add: sdssplitargs_def nz)
qed

theorem split_spec:
  assumes "sep \<noteq> []" "s \<noteq> []"
  shows "\<exists>fs. sdssplitlen s sep = Some fs \<and> join_with sep fs = s \<and> (\<forall>f \<in> set fs. free_of sep f)"
  using assms sdssplit_loop_join [of sep "[]" s] sdssplit_loop_free [of sep "[]" s]
  by (simp add: sdssplitlen_def Suc_le_eq)

lemma split_spec_witness: "\<exists>fs. sdssplitlen [102, 95, 45, 95, 98] [95, 45, 95] = Some fs \<and> join_with [95, 45, 95] fs = [102, 95, 45, 95, 98]"
  using split_spec [of "[95, 45, 95]" "[102, 95, 45, 95, 98]"] by auto

text \<open>No tokens and an error are the same null pointer.\<close>

lemma splitargs_null: "sdssplitargs [32] = (None, 0)" "sdssplitargs [34] = (None, -1)"
proof -
  show "sdssplitargs [32] = (None, 0)"
    by (simp add: sdssplitargs_def split_args.simps [of "[32]"] isspace_byte_def)
  have "split_token Unquoted [] [34] = None" by (subst split_token.simps) (simp add: split_token_quotes)
  then show "sdssplitargs [34] = (None, -1)"
    by (simp add: sdssplitargs_def split_args.simps [of "[34]"] isspace_byte_def)
qed

subsection \<open>Changes in place and comparison\<close>

text \<open>\<open>tolower\<close> and \<open>toupper\<close> of the C locale.\<close>

definition c_tolower :: "byte \<Rightarrow> byte" where "c_tolower c = (if 65 \<le> c \<and> c \<le> 90 then c + 32 else c)"
definition c_toupper :: "byte \<Rightarrow> byte" where "c_toupper c = (if 97 \<le> c \<and> c \<le> 122 then c - 32 else c)"

definition map_chars :: "(byte \<Rightarrow> byte) \<Rightarrow> sds \<Rightarrow> sds" where
  "map_chars f s = (let l = nat (sdslen s) in s\<lparr>sd_buf := map f (take l (sd_buf s)) @ drop l (sd_buf s)\<rparr>)"

definition sdstolower :: "sds \<Rightarrow> sds" where "sdstolower s = map_chars c_tolower s"
definition sdstoupper :: "sds \<Rightarrow> sds" where "sdstoupper s = map_chars c_toupper s"

fun map_char_of :: "(byte \<times> byte) list \<Rightarrow> byte \<Rightarrow> byte" where
  "map_char_of [] c = c"
| "map_char_of ((f, t) # m) c = (if c = f then t else map_char_of m c)"

definition sdsmapchars :: "bytes \<Rightarrow> bytes \<Rightarrow> sds \<Rightarrow> sds" where
  "sdsmapchars from1 to1 s = map_chars (map_char_of (zip from1 to1)) s"

lemma map_chars_ok: "sds_ok s \<Longrightarrow> sds_ok (map_chars f s) \<and> sds_val (map_chars f s) = map f (sds_val s)"
proof -
  assume ok: "sds_ok s"
  obtain r where r: "s = mk_sds (sds_val s) r" "length (sds_val s) + length r < 2 ^ 31" by (rule sds_okE [OF ok])
  have "map_chars f (mk_sds (sds_val s) r) = mk_sds (map f (sds_val s)) r"
    using r(2) by (simp add: map_chars_def Let_def sdslen_def mk_sds_def)
  then show ?thesis using r by (metis length_map mk_sds_ok mk_sds_sel(4))
qed

lemma memcmp_sign_0: "length a = length b \<Longrightarrow> memcmp_sign a b = 0 \<longleftrightarrow> a = b"
  by (induction a b rule: list_induct2) auto

lemma memcmp_sign_range: "memcmp_sign a b \<in> {-1, 0, 1}"
  by (induction a b rule: memcmp_sign.induct) auto

lemma sdscmp_0:
  assumes "sds_ok a" "sds_ok b"
  shows "sdscmp a b = 0 \<longleftrightarrow> sds_val a = sds_val b"
proof -
  let ?m = "nat (if sd_len a < sd_len b then sd_len a else sd_len b)"
  have l: "0 \<le> sd_len a" "0 \<le> sd_len b" "sd_len a < 2 ^ 31" "sd_len b < 2 ^ 31" using assms by (auto simp: sds_ok_def)
  have m: "?m \<le> length (sds_val a)" "?m \<le> length (sds_val b)" using assms sds_val_length [of a] sds_val_length [of b] by auto
  have t: "take ?m (sd_buf a) = take ?m (sds_val a)" "take ?m (sd_buf b) = take ?m (sds_val b)"
    by (auto simp: sds_val_def min_def nat_le_eq_zle)
  have "memcmp_sign (take ?m (sd_buf a)) (take ?m (sd_buf b)) = 0 \<longleftrightarrow> take ?m (sds_val a) = take ?m (sds_val b)"
    unfolding t by (rule memcmp_sign_0) (use m in simp)
  moreover have "sd_len a = sd_len b" if "sds_val a = sds_val b" using that assms sds_val_length by metis
  moreover have "take ?m (sds_val a) = sds_val a \<and> take ?m (sds_val b) = sds_val b" if "sd_len a = sd_len b"
    using that assms sds_val_length [of a] sds_val_length [of b] by auto
  moreover have "to_int32 (sd_len a - sd_len b) = sd_len a - sd_len b" using l by simp
  ultimately show ?thesis using assms unfolding sdscmp_def Let_def by (auto simp: sds_ok_sizes)
qed

end
