(* ===== verification/Cow_Buffer.thy ===== *)
theory Cow_Buffer
  imports Xrtc_Prelude
begin

text \<open>
  \<open>rtc_base/buffer.h\<close> for bytes and \<open>rtc_base/copy_on_write_buffer.*\<close>: packets between the SRTP
  transports and the streams are buffers of the second kind.  A store has the reference-counted
  objects and the handles that point to them; \<open>junk\<close> is what new memory holds.  The variant of
  \<open>Buffer\<close> that clears its memory is not used.
\<close>

subsection \<open>Buffers\<close>

text \<open>The capacity is the length of the allocation.\<close>

record buffer =
  bf_size :: nat
  bf_data :: bytes

definition bf_capacity :: "buffer \<Rightarrow> nat" where "bf_capacity b = length (bf_data b)"

definition bf_value :: "buffer \<Rightarrow> bytes" where "bf_value b = take (bf_size b) (bf_data b)"

definition new_bytes :: "(nat \<Rightarrow> byte) \<Rightarrow> nat \<Rightarrow> bytes" where "new_bytes junk n = map junk [0..<n]"

definition BufferT :: "(nat \<Rightarrow> byte) \<Rightarrow> nat \<Rightarrow> nat \<Rightarrow> buffer" where
  "BufferT junk sz capacity = \<lparr>bf_size = sz, bf_data = new_bytes junk (max sz capacity)\<rparr>"

definition BufferT_data :: "(nat \<Rightarrow> byte) \<Rightarrow> bytes \<Rightarrow> nat \<Rightarrow> buffer" where
  "BufferT_data junk d capacity = (let b = BufferT junk (length d) capacity in
     b\<lparr>bf_data := d @ drop (length d) (bf_data b)\<rparr>)"

definition EnsureCapacityWithHeadroom :: "(nat \<Rightarrow> byte) \<Rightarrow> nat \<Rightarrow> bool \<Rightarrow> buffer \<Rightarrow> buffer" where
  "EnsureCapacityWithHeadroom junk capacity extra_headroom b = (if capacity \<le> bf_capacity b then b
     else let new_capacity = (if extra_headroom then max capacity (bf_capacity b + bf_capacity b div 2) else capacity) in
       b\<lparr>bf_data := bf_value b @ drop (bf_size b) (new_bytes junk new_capacity)\<rparr>)"

definition bf_AppendData :: "(nat \<Rightarrow> byte) \<Rightarrow> bytes \<Rightarrow> buffer \<Rightarrow> buffer" where
  "bf_AppendData junk d b = (let new_size = bf_size b + length d; b1 = EnsureCapacityWithHeadroom junk new_size True b in
     \<lparr>bf_size = new_size, bf_data = take (bf_size b) (bf_data b1) @ d @ drop new_size (bf_data b1)\<rparr>)"

definition bf_SetData :: "(nat \<Rightarrow> byte) \<Rightarrow> bytes \<Rightarrow> buffer \<Rightarrow> buffer" where
  "bf_SetData junk d b = bf_AppendData junk d (b\<lparr>bf_size := 0\<rparr>)"

definition bf_SetSize :: "(nat \<Rightarrow> byte) \<Rightarrow> nat \<Rightarrow> buffer \<Rightarrow> buffer" where
  "bf_SetSize junk n b = (EnsureCapacityWithHeadroom junk n True b)\<lparr>bf_size := n\<rparr>"

definition bf_EnsureCapacity :: "(nat \<Rightarrow> byte) \<Rightarrow> nat \<Rightarrow> buffer \<Rightarrow> buffer" where
  "bf_EnsureCapacity junk n b = EnsureCapacityWithHeadroom junk n False b"

definition bf_Clear :: "buffer \<Rightarrow> buffer" where "bf_Clear b = b\<lparr>bf_size := 0\<rparr>"

definition bf_eq :: "buffer \<Rightarrow> buffer \<Rightarrow> bool" where
  "bf_eq a b \<longleftrightarrow> bf_size a = bf_size b \<and> take (bf_size a) (bf_data a) = take (bf_size a) (bf_data b)"

definition IsConsistent :: "buffer \<Rightarrow> bool" where "IsConsistent b \<longleftrightarrow> bf_size b \<le> bf_capacity b"

lemma bf_new [simp]:
  "IsConsistent (BufferT junk n c)" "bf_value (BufferT junk n c) = new_bytes junk n" "bf_capacity (BufferT junk n c) = max n c"
  "IsConsistent (BufferT_data junk d c)" "bf_value (BufferT_data junk d c) = d" "bf_capacity (BufferT_data junk d c) = max (length d) c"
  by (simp_all add: IsConsistent_def BufferT_def BufferT_data_def bf_capacity_def bf_value_def new_bytes_def Let_def take_map)

lemma bf_headroom:
  assumes "IsConsistent b"
  shows "IsConsistent (EnsureCapacityWithHeadroom junk n e b)" "bf_value (EnsureCapacityWithHeadroom junk n e b) = bf_value b"
    "bf_size (EnsureCapacityWithHeadroom junk n e b) = bf_size b" "n \<le> bf_capacity (EnsureCapacityWithHeadroom junk n e b)"
    "bf_capacity b \<le> bf_capacity (EnsureCapacityWithHeadroom junk n e b)"
  using assms
  by (auto simp: EnsureCapacityWithHeadroom_def IsConsistent_def bf_value_def bf_capacity_def new_bytes_def Let_def min_def)

lemma bf_AppendData_ok:
  assumes "IsConsistent b"
  shows "IsConsistent (bf_AppendData junk d b)" "bf_value (bf_AppendData junk d b) = bf_value b @ d"
proof -
  let ?b = "EnsureCapacityWithHeadroom junk (bf_size b + length d) True b"
  note h = bf_headroom [OF assms, where junk = junk and n = "bf_size b + length d" and e = True]
  have v: "take (bf_size b) (bf_data ?b) = bf_value b" using h(2,3) by (simp add: bf_value_def)
  have l: "length (bf_value b) = bf_size b" using assms by (simp add: bf_value_def IsConsistent_def bf_capacity_def)
  show "IsConsistent (bf_AppendData junk d b)" "bf_value (bf_AppendData junk d b) = bf_value b @ d"
    using h(4) l by (simp_all add: bf_AppendData_def Let_def v IsConsistent_def bf_capacity_def bf_value_def)
qed

lemma bf_SetData_ok: "IsConsistent (bf_SetData junk d b)" "bf_value (bf_SetData junk d b) = d"
  using bf_AppendData_ok [of "b\<lparr>bf_size := 0\<rparr>" junk d] by (simp_all add: bf_SetData_def IsConsistent_def bf_value_def)

lemma bf_SetSize_ok:
  assumes "IsConsistent b"
  shows "IsConsistent (bf_SetSize junk n b)" "length (bf_value (bf_SetSize junk n b)) = n"
    "take (min n (bf_size b)) (bf_value (bf_SetSize junk n b)) = take n (bf_value b)"
proof -
  note h = bf_headroom [OF assms, where junk = junk and n = n and e = True]
  have "take (bf_size b) (bf_data (EnsureCapacityWithHeadroom junk n True b)) = bf_value b" using h(2,3) by (simp add: bf_value_def)
  then have "take n (take (bf_size b) (bf_data (EnsureCapacityWithHeadroom junk n True b))) = take n (bf_value b)" by simp
  then show "take (min n (bf_size b)) (bf_value (bf_SetSize junk n b)) = take n (bf_value b)"
    by (simp add: bf_SetSize_def bf_value_def min.commute)
  show "IsConsistent (bf_SetSize junk n b)" "length (bf_value (bf_SetSize junk n b)) = n"
    using h(4) by (simp_all add: bf_SetSize_def IsConsistent_def bf_capacity_def bf_value_def)
qed

subsection \<open>Handles\<close>

record cow_store =
  cs_heap :: "nat \<Rightarrow> (buffer \<times> nat) option"
  cs_handles :: "nat option list"
  cs_next :: nat

definition add_ref :: "nat \<Rightarrow> cow_store \<Rightarrow> cow_store" where
  "add_ref b s = (case cs_heap s b of None \<Rightarrow> s | Some (bf, n) \<Rightarrow> s\<lparr>cs_heap := (cs_heap s)(b := Some (bf, n + 1))\<rparr>)"

definition release :: "nat \<Rightarrow> cow_store \<Rightarrow> cow_store" where
  "release b s = (case cs_heap s b of None \<Rightarrow> s
     | Some (bf, n) \<Rightarrow> s\<lparr>cs_heap := (cs_heap s)(b := if n \<le> 1 then None else Some (bf, n - 1))\<rparr>)"

text \<open>Assignment of a \<open>scoped_refptr\<close>.\<close>

definition set_ptr :: "nat \<Rightarrow> nat option \<Rightarrow> cow_store \<Rightarrow> cow_store" where
  "set_ptr h p s = (let s1 = (case p of None \<Rightarrow> s | Some b \<Rightarrow> add_ref b s);
     old = cs_handles s1 ! h;
     s2 = s1\<lparr>cs_handles := (cs_handles s1)[h := p]\<rparr> in
     case old of None \<Rightarrow> s2 | Some b \<Rightarrow> release b s2)"

definition set_new :: "nat \<Rightarrow> buffer \<Rightarrow> cow_store \<Rightarrow> cow_store" where
  "set_new h bf s = set_ptr h (Some (cs_next s))
     (s\<lparr>cs_heap := (cs_heap s)(cs_next s := Some (bf, 0)), cs_next := cs_next s + 1\<rparr>)"

definition put_object :: "nat \<Rightarrow> buffer \<Rightarrow> cow_store \<Rightarrow> cow_store" where
  "put_object b bf s = s\<lparr>cs_heap := (cs_heap s)(b := map_option (\<lambda>(_, n). (bf, n)) (cs_heap s b))\<rparr>"

text \<open>The object of a handle; \<open>None\<close> when it is null or dangles.\<close>

definition object_of :: "nat \<Rightarrow> cow_store \<Rightarrow> (nat \<times> buffer \<times> nat) option" where
  "object_of h s = do { b \<leftarrow> cs_handles s ! h; (bf, n) \<leftarrow> cs_heap s b; Some (b, bf, n) }"

definition CloneDataIfReferenced :: "(nat \<Rightarrow> byte) \<Rightarrow> nat \<Rightarrow> nat \<Rightarrow> cow_store \<Rightarrow> cow_store option" where
  "CloneDataIfReferenced junk h new_capacity s = do {
     (b, bf, n) \<leftarrow> object_of h s;
     if n = 1 then Some s else Some (set_new h (BufferT_data junk (bf_value bf) new_capacity) s)
   }"

definition cow_copy :: "nat \<Rightarrow> nat \<Rightarrow> cow_store \<Rightarrow> cow_store" where
  "cow_copy h g s = (if h = g then s else set_ptr h (cs_handles s ! g) s)"

definition cow_new :: "(nat \<Rightarrow> byte) \<Rightarrow> nat \<Rightarrow> bytes \<Rightarrow> nat \<Rightarrow> cow_store \<Rightarrow> cow_store" where
  "cow_new junk h d capacity s = (if 0 < length d \<or> 0 < capacity then set_new h (BufferT_data junk d capacity) s
     else set_ptr h None s)"

definition cow_SetData :: "(nat \<Rightarrow> byte) \<Rightarrow> nat \<Rightarrow> bytes \<Rightarrow> cow_store \<Rightarrow> cow_store option" where
  "cow_SetData junk h d s = (if cs_handles s ! h = None
     then Some (if 0 < length d then set_new h (BufferT_data junk d (length d)) s else set_ptr h None s)
     else do {
       (b, bf, n) \<leftarrow> object_of h s;
       if n \<noteq> 1 then Some (set_new h (BufferT_data junk d (bf_capacity bf)) s)
       else Some (put_object b (bf_SetData junk d bf) s)
     })"

definition cow_AppendData :: "(nat \<Rightarrow> byte) \<Rightarrow> nat \<Rightarrow> bytes \<Rightarrow> cow_store \<Rightarrow> cow_store option" where
  "cow_AppendData junk h d s = (if cs_handles s ! h = None then Some (set_new h (BufferT_data junk d (length d)) s)
     else do {
       (_, bf, _) \<leftarrow> object_of h s;
       s1 \<leftarrow> CloneDataIfReferenced junk h (max (bf_capacity bf) (bf_size bf + length d)) s;
       (b, bf1, _) \<leftarrow> object_of h s1;
       Some (put_object b (bf_AppendData junk d bf1) s1)
     })"

text \<open>Appending another buffer passes a pointer to its bytes.  When the two are one handle that nothing
  shares and its buffer is too small, the bytes are freed before they are copied.\<close>

definition cow_AppendBuffer :: "(nat \<Rightarrow> byte) \<Rightarrow> nat \<Rightarrow> nat \<Rightarrow> cow_store \<Rightarrow> cow_store option" where
  "cow_AppendBuffer junk h g s = (if cs_handles s ! g = None then cow_AppendData junk h [] s
     else do {
       (_, bf, n) \<leftarrow> object_of g s;
       if h = g \<and> n = 1 \<and> bf_capacity bf < bf_size bf + bf_size bf then None
       else cow_AppendData junk h (bf_value bf) s
     })"

definition cow_SetSize :: "(nat \<Rightarrow> byte) \<Rightarrow> nat \<Rightarrow> nat \<Rightarrow> cow_store \<Rightarrow> cow_store option" where
  "cow_SetSize junk h n s = (if cs_handles s ! h = None then Some (if 0 < n then set_new h (BufferT junk n n) s else s)
     else do {
       (_, bf, r) \<leftarrow> object_of h s;
       let s1 = (if r \<noteq> 1 then set_new h (BufferT_data junk (take (min (bf_size bf) n) (bf_data bf)) (max (bf_capacity bf) n)) s else s);
       (b, bf1, _) \<leftarrow> object_of h s1;
       Some (put_object b (bf_SetSize junk n bf1) s1)
     })"

definition cow_EnsureCapacity :: "(nat \<Rightarrow> byte) \<Rightarrow> nat \<Rightarrow> nat \<Rightarrow> cow_store \<Rightarrow> cow_store option" where
  "cow_EnsureCapacity junk h n s = (if cs_handles s ! h = None then Some (if 0 < n then set_new h (BufferT junk 0 n) s else s)
     else do {
       (_, bf, _) \<leftarrow> object_of h s;
       if n \<le> bf_capacity bf then Some s
       else do {
         s1 \<leftarrow> CloneDataIfReferenced junk h (max (bf_capacity bf) n) s;
         (b, bf1, _) \<leftarrow> object_of h s1;
         Some (put_object b (bf_EnsureCapacity junk n bf1) s1)
       }})"

definition cow_Clear :: "(nat \<Rightarrow> byte) \<Rightarrow> nat \<Rightarrow> cow_store \<Rightarrow> cow_store option" where
  "cow_Clear junk h s = (if cs_handles s ! h = None then Some s
     else do {
       (b, bf, n) \<leftarrow> object_of h s;
       if n = 1 then Some (put_object b (bf_Clear bf) s) else Some (set_new h (BufferT junk 0 (bf_capacity bf)) s)
     })"

text \<open>A byte written through \<open>data()\<close>.\<close>

definition cow_write :: "(nat \<Rightarrow> byte) \<Rightarrow> nat \<Rightarrow> nat \<Rightarrow> byte \<Rightarrow> cow_store \<Rightarrow> cow_store option" where
  "cow_write junk h i v s = do {
     (_, bf, _) \<leftarrow> object_of h s;
     s1 \<leftarrow> CloneDataIfReferenced junk h (bf_capacity bf) s;
     (b, bf1, _) \<leftarrow> object_of h s1;
     if i < bf_size bf1 then Some (put_object b (bf1\<lparr>bf_data := (bf_data bf1)[i := v]\<rparr>) s1) else None
   }"

subsection \<open>The values of the handles\<close>

definition ptr_value :: "cow_store \<Rightarrow> nat option \<Rightarrow> bytes" where
  "ptr_value s p = (case p of None \<Rightarrow> [] | Some b \<Rightarrow> (case cs_heap s b of None \<Rightarrow> [] | Some (bf, _) \<Rightarrow> bf_value bf))"

definition cow_values :: "cow_store \<Rightarrow> bytes list" where
  "cow_values s = map (ptr_value s) (cs_handles s)"

text \<open>Every object is counted once for each handle that points to it, and lives as long as there is one.\<close>

definition refs :: "cow_store \<Rightarrow> nat \<Rightarrow> nat" where
  "refs s b = count_list (cs_handles s) (Some b)"

definition cow_inv :: "cow_store \<Rightarrow> bool" where
  "cow_inv s \<longleftrightarrow> (\<forall>b. (case cs_heap s b of None \<Rightarrow> refs s b = 0 | Some (bf, n) \<Rightarrow> n = refs s b \<and> 0 < n \<and> IsConsistent bf)) \<and>
     (\<forall>b \<ge> cs_next s. cs_heap s b = None)"

lemma cow_invD:
  assumes "cow_inv s"
  shows "cs_heap s b = Some (bf, n) \<Longrightarrow> n = refs s b \<and> 0 < n \<and> IsConsistent bf" "cs_heap s b = None \<Longrightarrow> refs s b = 0"
    "cs_next s \<le> b \<Longrightarrow> cs_heap s b = None"
  using assms by (auto simp: cow_inv_def split: option.splits dest: spec [of _ b])

lemma count_list_update:
  "h < length xs \<Longrightarrow> count_list (xs[h := y]) x + of_bool (xs ! h = x) = count_list xs x + of_bool (y = x)"
proof (induction xs arbitrary: h)
  case (Cons a xs)
  then show ?case by (cases h) auto
qed simp

lemma refs_pos: "h < length (cs_handles s) \<Longrightarrow> cs_handles s ! h = Some b \<Longrightarrow> 0 < refs s b"
  using count_list_0_iff [of "cs_handles s" "Some b"] nth_mem [of h "cs_handles s"] by (auto simp: refs_def)

lemma object_of_inv:
  assumes "cow_inv s" "h < length (cs_handles s)" "cs_handles s ! h = Some b"
  obtains bf n where "cs_heap s b = Some (bf, n)" "object_of h s = Some (b, bf, n)" "n = refs s b" "IsConsistent bf"
    "ptr_value s (Some b) = bf_value bf" "cow_values s ! h = bf_value bf"
proof (cases "cs_heap s b")
  case None
  then show ?thesis using cow_invD(2) [OF assms(1) None] refs_pos [OF assms(2,3)] by simp
next
  case (Some p)
  obtain bf n where p: "p = (bf, n)" by fastforce
  show ?thesis by (rule that [of bf n])
    (use Some p assms cow_invD(1) [OF assms(1), of b bf n] in \<open>simp_all add: object_of_def ptr_value_def cow_values_def\<close>)
qed

text \<open>Assigning a pointer to a live object, or to one with no handle yet, or null.\<close>

lemma set_ptr_handles [simp]: "cs_handles (set_ptr h p s) = (cs_handles s)[h := p]"
  by (auto simp: set_ptr_def add_ref_def release_def Let_def split: option.splits prod.splits)

lemma set_ptr_next [simp]: "cs_next (set_ptr h p s) = cs_next s"
  by (auto simp: set_ptr_def add_ref_def release_def Let_def split: option.splits prod.splits)

lemma set_ptr_heap:
  "cs_heap (set_ptr h p s) b = (case cs_heap s b of None \<Rightarrow> None
     | Some (bf, n) \<Rightarrow> let k = n + of_bool (p = Some b) in
         if cs_handles s ! h = Some b then (if k \<le> 1 then None else Some (bf, k - 1)) else Some (bf, k))"
proof -
  define s1 where "s1 = (case p of None \<Rightarrow> s | Some c \<Rightarrow> add_ref c s)"
  have a: "cs_heap s1 x = map_option (\<lambda>(bf, n). (bf, n + of_bool (p = Some x))) (cs_heap s x)" "cs_handles s1 = cs_handles s" for x
    unfolding s1_def by (auto simp: add_ref_def split: option.splits prod.splits)
  have u: "set_ptr h p s = (let s2 = s1\<lparr>cs_handles := (cs_handles s)[h := p]\<rparr> in
      case cs_handles s ! h of None \<Rightarrow> s2 | Some b \<Rightarrow> release b s2)"
    unfolding set_ptr_def s1_def [symmetric] Let_def a(2) ..
  show ?thesis
  proof (cases "cs_handles s ! h")
    case None
    then show ?thesis by (auto simp: u Let_def a split: option.splits prod.splits)
  next
    case (Some c)
    then show ?thesis
      by (cases "c = b") (auto simp: u Let_def a release_def split: option.splits prod.splits)
  qed
qed

lemma refs_set_ptr:
  "h < length (cs_handles s) \<Longrightarrow> refs (set_ptr h p s) b + of_bool (cs_handles s ! h = Some b) = refs s b + of_bool (p = Some b)"
  using count_list_update [of h "cs_handles s" p "Some b"] by (simp add: refs_def)

text \<open>\<open>almost\<close>: the invariant but for an object \<open>c\<close> that no handle points to.\<close>

lemma set_ptr_inv:
  assumes "\<And>b bf n. cs_heap s b = Some (bf, n) \<Longrightarrow> n = refs s b \<and> IsConsistent bf \<and> (0 < n \<or> p = Some b)"
    and "\<And>b. cs_heap s b = None \<Longrightarrow> refs s b = 0 \<and> p \<noteq> Some b" "\<And>b. cs_next s \<le> b \<Longrightarrow> cs_heap s b = None"
    and "h < length (cs_handles s)"
  shows "cow_inv (set_ptr h p s)" "ptr_value (set_ptr h p s) q =
     (if q = cs_handles s ! h \<and> q \<noteq> p \<and> (\<forall>b. q = Some b \<longrightarrow> refs s b = 1) then [] else ptr_value s q)"
proof -
  have r: "refs (set_ptr h p s) b + of_bool (cs_handles s ! h = Some b) = refs s b + of_bool (p = Some b)" for b
    by (rule refs_set_ptr [OF assms(4)])
  have one: "case cs_heap (set_ptr h p s) b of None \<Rightarrow> refs (set_ptr h p s) b = 0
      | Some (bf, n) \<Rightarrow> n = refs (set_ptr h p s) b \<and> 0 < n \<and> IsConsistent bf" for b
  proof (cases "cs_heap s b")
    case None
    then show ?thesis using assms(2) [OF None] r [of b] by (simp add: set_ptr_heap)
  next
    case (Some x)
    obtain bf n where x: "x = (bf, n)" by fastforce
    have n: "n = refs s b" "IsConsistent bf" "0 < n \<or> p = Some b" using assms(1) Some x by auto
    have pos: "cs_handles s ! h = Some b \<Longrightarrow> 0 < n" using refs_pos [OF assms(4)] n(1) by simp
    show ?thesis using r [of b] n pos Some x by (cases "cs_handles s ! h = Some b"; cases "p = Some b") (auto simp: set_ptr_heap Let_def)
  qed
  show "cow_inv (set_ptr h p s)" unfolding cow_inv_def using one assms(3) by (auto simp: set_ptr_heap)
  show "ptr_value (set_ptr h p s) q =
     (if q = cs_handles s ! h \<and> q \<noteq> p \<and> (\<forall>b. q = Some b \<longrightarrow> refs s b = 1) then [] else ptr_value s q)"
  proof (cases q)
    case None
    then show ?thesis by (simp add: ptr_value_def)
  next
    case (Some b)
    show ?thesis
    proof (cases "cs_heap s b")
      case None
      then show ?thesis using Some by (simp add: ptr_value_def set_ptr_heap)
    next
      case y: (Some x)
      obtain bf n where x: "x = (bf, n)" by fastforce
      have n: "n = refs s b" using assms(1) y x by auto
      have pos: "cs_handles s ! h = Some b \<Longrightarrow> 0 < n" using refs_pos [OF assms(4)] n(1) by simp
      show ?thesis using Some y x n pos by (auto simp: ptr_value_def set_ptr_heap Let_def)
    qed
  qed
qed

lemma set_ptr_values:
  assumes "\<And>b bf n. cs_heap s b = Some (bf, n) \<Longrightarrow> n = refs s b \<and> IsConsistent bf \<and> (0 < n \<or> p = Some b)"
    and "\<And>b. cs_heap s b = None \<Longrightarrow> refs s b = 0 \<and> p \<noteq> Some b" "\<And>b. cs_next s \<le> b \<Longrightarrow> cs_heap s b = None"
    and "h < length (cs_handles s)"
  shows "cow_values (set_ptr h p s) = (cow_values s)[h := ptr_value s p]"
proof (rule nth_equalityI)
  have pv: "ptr_value (set_ptr h p s) q =
     (if q = cs_handles s ! h \<and> q \<noteq> p \<and> (\<forall>b. q = Some b \<longrightarrow> refs s b = 1) then [] else ptr_value s q)" for q
    by (rule set_ptr_inv(2)) (use assms in blast)+
  fix i
  assume "i < length (cow_values (set_ptr h p s))"
  then have i: "i < length (cs_handles s)" by (simp add: cow_values_def)
  let ?q = "(cs_handles s)[h := p] ! i"
  have kept: "ptr_value (set_ptr h p s) ?q = ptr_value s ?q"
  proof (cases "i = h \<or> ?q \<noteq> cs_handles s ! h")
    case True
    then show ?thesis using assms(4) unfolding pv by auto
  next
    case False
    then have q: "?q = cs_handles s ! i" "cs_handles s ! i = cs_handles s ! h" "i \<noteq> h" by auto
    show ?thesis
    proof (cases ?q)
      case None
      then show ?thesis by (simp add: ptr_value_def)
    next
      case (Some b)
      have "1 < refs s b"
      proof -
        have "count_list ((cs_handles s)[h := None]) (Some b) + 1 = refs s b"
          using count_list_update [OF assms(4), of None "Some b"] q Some by (simp add: refs_def)
        moreover have "0 < count_list ((cs_handles s)[h := None]) (Some b)"
          using nth_mem [of i "(cs_handles s)[h := None]"] i q Some count_list_0_iff [of "(cs_handles s)[h := None]" "Some b"] by auto
        ultimately show ?thesis by linarith
      qed
      then show ?thesis unfolding pv using Some by auto
    qed
  qed
  show "cow_values (set_ptr h p s) ! i = (cow_values s)[h := ptr_value s p] ! i"
    using i kept assms(4) by (cases "i = h") (simp_all add: cow_values_def)
qed (simp add: cow_values_def)

subsection \<open>Steps\<close>

lemma cow_inv_premises:
  assumes "cow_inv s"
  shows "cs_heap s b = Some (bf, n) \<Longrightarrow> n = refs s b \<and> IsConsistent bf \<and> (0 < n \<or> p = Some b)"
  using cow_invD(1) [OF assms] by blast

lemma set_pointer_ok:
  assumes "cow_inv s" "h < length (cs_handles s)" "p = None \<or> (\<exists>g < length (cs_handles s). p = cs_handles s ! g)"
  shows "cow_inv (set_ptr h p s)" "cow_values (set_ptr h p s) = (cow_values s)[h := ptr_value s p]"
proof -
  have live: "cs_heap s b = None \<Longrightarrow> refs s b = 0 \<and> p \<noteq> Some b" for b
    using cow_invD(2) [OF assms(1)] assms(3) refs_pos [of _ s b] by force
  show "cow_inv (set_ptr h p s)" by (rule set_ptr_inv(1)) (use cow_inv_premises [OF assms(1)] live cow_invD(3) [OF assms(1)] assms(2) in blast)+
  show "cow_values (set_ptr h p s) = (cow_values s)[h := ptr_value s p]"
    by (rule set_ptr_values) (use cow_inv_premises [OF assms(1)] live cow_invD(3) [OF assms(1)] assms(2) in blast)+
qed

lemma set_new_ok:
  assumes "cow_inv s" "h < length (cs_handles s)" "IsConsistent bf"
  shows "cow_inv (set_new h bf s)" "cow_values (set_new h bf s) = (cow_values s)[h := bf_value bf]"
    "object_of h (set_new h bf s) = Some (cs_next s, bf, 1)" "length (cs_handles (set_new h bf s)) = length (cs_handles s)"
    "cs_handles (set_new h bf s) ! h = Some (cs_next s)"
proof -
  let ?c = "cs_next s"
  let ?t = "s\<lparr>cs_heap := (cs_heap s)(?c := Some (bf, 0)), cs_next := ?c + 1\<rparr>"
  have free: "cs_heap s ?c = None" "refs s ?c = 0" using cow_invD(3) [OF assms(1), of ?c] cow_invD(2) [OF assms(1)] by auto
  have rt: "refs ?t b = refs s b" for b by (simp add: refs_def)
  have 1: "cs_heap ?t b = Some (bf', n) \<Longrightarrow> n = refs ?t b \<and> IsConsistent bf' \<and> (0 < n \<or> Some ?c = Some b)" for b bf' n
    using cow_invD(1) [OF assms(1), of b bf' n] free assms(3) unfolding rt by (auto split: if_splits)
  have 2: "cs_heap ?t b = None \<Longrightarrow> refs ?t b = 0 \<and> Some ?c \<noteq> Some b" for b
    using cow_invD(2) [OF assms(1), of b] unfolding rt by (auto split: if_splits)
  have 3: "cs_next ?t \<le> b \<Longrightarrow> cs_heap ?t b = None" for b using cow_invD(3) [OF assms(1), of b] by auto
  have 4: "h < length (cs_handles ?t)" using assms(2) by simp
  show "cow_inv (set_new h bf s)" unfolding set_new_def by (rule set_ptr_inv(1) [OF 1 2 3 4])
  have no: "Some ?c \<notin> set (cs_handles s)" using free(2) by (simp add: refs_def count_list_0_iff)
  have "cow_values ?t = cow_values s" unfolding cow_values_def using no by (auto simp: ptr_value_def split: option.splits)
  moreover have "ptr_value ?t (Some ?c) = bf_value bf" by (simp add: ptr_value_def)
  ultimately show "cow_values (set_new h bf s) = (cow_values s)[h := bf_value bf]"
    unfolding set_new_def using set_ptr_values [OF 1 2 3 4] by metis
  show hd: "cs_handles (set_new h bf s) ! h = Some ?c" "length (cs_handles (set_new h bf s)) = length (cs_handles s)"
    using assms(2) by (simp_all add: set_new_def)
  have "cs_handles s ! h \<noteq> Some ?c" using no assms(2) nth_mem [of h "cs_handles s"] by metis
  then have "cs_heap (set_new h bf s) ?c = Some (bf, 1)" by (simp add: set_new_def set_ptr_heap Let_def)
  then show "object_of h (set_new h bf s) = Some (?c, bf, 1)" using hd by (simp add: object_of_def)
qed

lemma object_of_SomeD:
  assumes "object_of h s = Some (b, bf, n)"
  shows "cs_handles s ! h = Some b" "cs_heap s b = Some (bf, n)"
  using assms by (auto simp: object_of_def bind_eq_Some_conv)

lemma put_object_ok:
  assumes "cow_inv s" "h < length (cs_handles s)" "object_of h s = Some (b, bf0, 1)" "IsConsistent bf"
  shows "cow_inv (put_object b bf s)" "cow_values (put_object b bf s) = (cow_values s)[h := bf_value bf]"
    "length (cs_handles (put_object b bf s)) = length (cs_handles s)"
proof -
  note o = object_of_SomeD [OF assms(3)]
  have n: "refs s b = 1" using cow_invD(1) [OF assms(1) o(2)] by simp
  have r: "refs (put_object b bf s) c = refs s c" for c by (simp add: refs_def put_object_def)
  have h: "cs_heap (put_object b bf s) c = (if c = b then Some (bf, 1) else cs_heap s c)" for c
    using o(2) by (simp add: put_object_def)
  show "cow_inv (put_object b bf s)"
    unfolding cow_inv_def h r
  proof (intro conjI allI impI)
    fix c
    show "case if c = b then Some (bf, 1) else cs_heap s c of None \<Rightarrow> refs s c = 0
        | Some (bf, n) \<Rightarrow> n = refs s c \<and> 0 < n \<and> IsConsistent bf"
      using assms(1,4) n by (cases "c = b") (simp_all add: cow_inv_def)
    assume "cs_next (put_object b bf s) \<le> c"
    then show "(if c = b then Some (bf, 1) else cs_heap s c) = None"
      using cow_invD(3) [OF assms(1), of c] o(2) by (auto simp: put_object_def)
  qed
  show "length (cs_handles (put_object b bf s)) = length (cs_handles s)" by (simp add: put_object_def)
  have only: "i = h" if "i < length (cs_handles s)" "cs_handles s ! i = Some b" for i
  proof (rule ccontr)
    assume "i \<noteq> h"
    then have "0 < count_list ((cs_handles s)[h := None]) (Some b)"
      using nth_mem [of i "(cs_handles s)[h := None]"] that count_list_0_iff [of "(cs_handles s)[h := None]" "Some b"] by auto
    then show False using count_list_update [OF assms(2), of None "Some b"] o(1) n by (simp add: refs_def)
  qed
  show "cow_values (put_object b bf s) = (cow_values s)[h := bf_value bf]"
  proof (rule nth_equalityI)
    fix i
    assume "i < length (cow_values (put_object b bf s))"
    then have i: "i < length (cs_handles s)" by (simp add: cow_values_def put_object_def)
    have p: "cow_values (put_object b bf s) ! i = ptr_value (put_object b bf s) (cs_handles s ! i)"
      using i by (simp add: cow_values_def put_object_def)
    show "cow_values (put_object b bf s) ! i = (cow_values s)[h := bf_value bf] ! i"
    proof (cases "i = h")
      case True
      then show ?thesis using p o(1) assms(2) by (simp add: ptr_value_def h cow_values_def)
    next
      case False
      then have "cs_handles s ! i \<noteq> Some b" using only i by blast
      then have "ptr_value (put_object b bf s) (cs_handles s ! i) = ptr_value s (cs_handles s ! i)"
        by (cases "cs_handles s ! i") (simp_all add: ptr_value_def h)
      then show ?thesis using p False i by (simp add: cow_values_def)
    qed
  qed (simp add: cow_values_def put_object_def)
qed

lemma Clone_ok:
  assumes "cow_inv s" "h < length (cs_handles s)" "object_of h s = Some (b, bf, n)"
  obtains s1 b1 bf1 where "CloneDataIfReferenced junk h cap s = Some s1" "cow_inv s1" "cow_values s1 = cow_values s"
    "object_of h s1 = Some (b1, bf1, 1)" "IsConsistent bf1" "bf_value bf1 = bf_value bf" "length (cs_handles s1) = length (cs_handles s)"
proof (cases "n = 1")
  case True
  show ?thesis by (rule that [of s b bf])
    (use assms True cow_invD(1) [OF assms(1) object_of_SomeD(2) [OF assms(3)]] in \<open>simp_all add: CloneDataIfReferenced_def\<close>)
next
  case False
  let ?b = "BufferT_data junk (bf_value bf) cap"
  have "cow_values s ! h = bf_value bf"
    using assms(2) object_of_SomeD [OF assms(3)] by (simp add: cow_values_def ptr_value_def)
  then have "(cow_values s)[h := bf_value bf] = cow_values s" by (metis list_update_id)
  then show ?thesis using set_new_ok [OF assms(1,2), of ?b] assms(3) False
    by (intro that [of "set_new h ?b s" "cs_next s" ?b]) (simp_all add: CloneDataIfReferenced_def)
qed

subsection \<open>Handles behave as values\<close>

datatype cow_op = Cow_copy nat nat | Cow_new nat bytes nat | Cow_set nat bytes | Cow_append nat bytes | Cow_append_from nat nat
  | Cow_size nat nat | Cow_reserve nat nat | Cow_clear nat | Cow_write nat nat byte

definition cow_step :: "(nat \<Rightarrow> byte) \<Rightarrow> cow_op \<Rightarrow> cow_store \<Rightarrow> cow_store option" where
  "cow_step junk oper s = (case oper of
       Cow_copy h g \<Rightarrow> Some (cow_copy h g s)
     | Cow_new h d cap \<Rightarrow> Some (cow_new junk h d cap s)
     | Cow_set h d \<Rightarrow> cow_SetData junk h d s
     | Cow_append h d \<Rightarrow> cow_AppendData junk h d s
     | Cow_append_from h g \<Rightarrow> cow_AppendBuffer junk h g s
     | Cow_size h n \<Rightarrow> cow_SetSize junk h n s
     | Cow_reserve h n \<Rightarrow> cow_EnsureCapacity junk h n s
     | Cow_clear h \<Rightarrow> cow_Clear junk h s
     | Cow_write h i v \<Rightarrow> cow_write junk h i v s)"

fun op_handles :: "cow_op \<Rightarrow> nat set" where
  "op_handles (Cow_copy h g) = {h, g}"
| "op_handles (Cow_new h d cap) = {h}"
| "op_handles (Cow_set h d) = {h}"
| "op_handles (Cow_append h d) = {h}"
| "op_handles (Cow_append_from h g) = {h, g}"
| "op_handles (Cow_size h n) = {h}"
| "op_handles (Cow_reserve h n) = {h}"
| "op_handles (Cow_clear h) = {h}"
| "op_handles (Cow_write h i v) = {h}"

text \<open>What an operation does to a list of independent values.\<close>

fun cow_spec :: "cow_op \<Rightarrow> bytes list \<Rightarrow> bytes list \<Rightarrow> bool" where
  "cow_spec (Cow_copy h g) vs vs' \<longleftrightarrow> vs' = vs[h := vs ! g]"
| "cow_spec (Cow_new h d cap) vs vs' \<longleftrightarrow> vs' = vs[h := d]"
| "cow_spec (Cow_set h d) vs vs' \<longleftrightarrow> vs' = vs[h := d]"
| "cow_spec (Cow_append h d) vs vs' \<longleftrightarrow> vs' = vs[h := vs ! h @ d]"
| "cow_spec (Cow_append_from h g) vs vs' \<longleftrightarrow> vs' = vs[h := vs ! h @ vs ! g]"
| "cow_spec (Cow_size h n) vs vs' \<longleftrightarrow> (\<exists>v. length v = n \<and> take (min n (length (vs ! h))) v = take n (vs ! h) \<and> vs' = vs[h := v])"
| "cow_spec (Cow_reserve h n) vs vs' \<longleftrightarrow> vs' = vs"
| "cow_spec (Cow_clear h) vs vs' \<longleftrightarrow> vs' = vs[h := []]"
| "cow_spec (Cow_write h i v) vs vs' \<longleftrightarrow> vs' = vs[h := (vs ! h)[i := v]]"

fun cow_undefined :: "cow_op \<Rightarrow> bytes list \<Rightarrow> bool" where
  "cow_undefined (Cow_write h i v) vs \<longleftrightarrow> length (vs ! h) \<le> i"
| "cow_undefined (Cow_append_from h g) vs \<longleftrightarrow> h = g \<and> vs ! h \<noteq> []"
| "cow_undefined _ vs \<longleftrightarrow> False"

definition cow_good :: "cow_op \<Rightarrow> cow_store \<Rightarrow> cow_store option \<Rightarrow> bool" where
  "cow_good oper s r \<longleftrightarrow> (case r of None \<Rightarrow> cow_undefined oper (cow_values s)
     | Some s' \<Rightarrow> cow_inv s' \<and> length (cs_handles s') = length (cs_handles s) \<and> cow_spec oper (cow_values s) (cow_values s'))"

lemma bf_size_value: "IsConsistent b \<Longrightarrow> length (bf_value b) = bf_size b"
  by (simp add: IsConsistent_def bf_capacity_def bf_value_def)

lemma value_at:
  assumes "cow_inv s" "h < length (cs_handles s)"
  shows "cs_handles s ! h = None \<Longrightarrow> cow_values s ! h = []"
    "object_of h s = Some (b, bf, n) \<Longrightarrow> cow_values s ! h = bf_value bf \<and> IsConsistent bf"
  using assms object_of_SomeD [of h s b bf n] cow_invD(1) [OF assms(1), of b bf n] by (auto simp: cow_values_def ptr_value_def)

lemma null_or_object:
  assumes "cow_inv s" "h < length (cs_handles s)"
  obtains (null) "cs_handles s ! h = None" | (object) b bf n where "cs_handles s ! h = Some b" "object_of h s = Some (b, bf, n)" "IsConsistent bf"
  using assms object_of_inv [OF assms] by (cases "cs_handles s ! h") blast+

lemma values_self: "(cow_values s)[h := cow_values s ! h] = cow_values s" by simp

lemma append_good:
  assumes "cow_inv s" "h < length (cs_handles s)"
  shows "\<exists>s1. cow_AppendData junk h d s = Some s1 \<and> cow_inv s1 \<and> length (cs_handles s1) = length (cs_handles s) \<and>
    cow_values s1 = (cow_values s)[h := cow_values s ! h @ d]"
  using assms
proof (cases rule: null_or_object)
  case null
  then show ?thesis using set_new_ok [OF assms, of "BufferT_data junk d (length d)"] value_at(1) [OF assms null]
    by (simp add: cow_AppendData_def)
next
  case (object b bf n)
  obtain s1 b1 bf1 where c: "CloneDataIfReferenced junk h (max (bf_capacity bf) (bf_size bf + length d)) s = Some s1" "cow_inv s1"
    "cow_values s1 = cow_values s" "object_of h s1 = Some (b1, bf1, 1)" "IsConsistent bf1" "bf_value bf1 = bf_value bf"
    "length (cs_handles s1) = length (cs_handles s)"
    by (rule Clone_ok [OF assms object(2)])
  show ?thesis using object c put_object_ok [OF c(2) _ c(4), of "bf_AppendData junk d bf1"] bf_AppendData_ok [OF c(5)]
      value_at(2) [OF assms object(2)] assms(2)
    by (simp add: cow_AppendData_def)
qed

lemma good_copy:
  assumes "cow_inv s" "\<forall>h \<in> op_handles oper. h < length (cs_handles s)" "oper = Cow_copy h g"
  shows "cow_good oper s (cow_step junk oper s)"
proof -
  note Cow_copy = assms(3)
  from assms(3) have "h < length (cs_handles s)" "g < length (cs_handles s)" using assms(2) by simp_all
  moreover from this have "cow_values s ! g = ptr_value s (cs_handles s ! g)" by (simp add: cow_values_def)
  moreover have "h = g \<Longrightarrow> (cow_values s)[h := cow_values s ! g] = cow_values s" by simp
  ultimately show ?thesis using set_pointer_ok [OF assms(1), of h "cs_handles s ! g"] assms(1) Cow_copy
    by (cases "h = g") (auto simp: cow_good_def cow_step_def cow_copy_def)
qed

lemma good_new:
  assumes "cow_inv s" "\<forall>h \<in> op_handles oper. h < length (cs_handles s)" "oper = Cow_new h d cap"
  shows "cow_good oper s (cow_step junk oper s)"
proof -
  note Cow_new = assms(3)
  from assms(3) have h: "h < length (cs_handles s)" using assms(2) by simp
  show ?thesis using set_new_ok [OF assms(1) h, of "BufferT_data junk d cap"] set_pointer_ok [OF assms(1) h, of None] Cow_new
    by (auto simp: cow_good_def cow_step_def cow_new_def ptr_value_def)
qed

lemma good_set:
  assumes "cow_inv s" "\<forall>h \<in> op_handles oper. h < length (cs_handles s)" "oper = Cow_set h d"
  shows "cow_good oper s (cow_step junk oper s)"
proof -
  note Cow_set = assms(3)
  from assms(3) have h: "h < length (cs_handles s)" using assms(2) by simp
  show ?thesis
  proof (cases rule: null_or_object [OF assms(1) h])
    case 1
    then show ?thesis using set_new_ok [OF assms(1) h, of "BufferT_data junk d (length d)"] set_pointer_ok [OF assms(1) h, of None] Cow_set
      by (auto simp: cow_good_def cow_step_def cow_SetData_def ptr_value_def)
  next
    case (2 b bf n)
    then show ?thesis using Cow_set set_new_ok [OF assms(1) h, of "BufferT_data junk d (bf_capacity bf)"] bf_SetData_ok [of junk d bf]
        put_object_ok [OF assms(1) h, of b bf "bf_SetData junk d bf"]
      by (cases "n = 1") (simp_all add: cow_good_def cow_step_def cow_SetData_def)
  qed
qed

lemma good_append:
  assumes "cow_inv s" "\<forall>h \<in> op_handles oper. h < length (cs_handles s)" "oper = Cow_append h d"
  shows "cow_good oper s (cow_step junk oper s)"
proof -
  note Cow_append = assms(3)
  from assms(3) have h: "h < length (cs_handles s)" using assms(2) by simp
  show ?thesis using append_good [OF assms(1) h, of junk d] Cow_append by (auto simp: cow_good_def cow_step_def)
qed

lemma good_append_from:
  assumes "cow_inv s" "\<forall>h \<in> op_handles oper. h < length (cs_handles s)" "oper = Cow_append_from h g"
  shows "cow_good oper s (cow_step junk oper s)"
proof -
  note Cow_append_from = assms(3)
  from assms(3) have hg: "h < length (cs_handles s)" "g < length (cs_handles s)" using assms(2) by simp_all
  show ?thesis
  proof (cases rule: null_or_object [OF assms(1) hg(2)])
    case 1
    then show ?thesis using append_good [OF assms(1) hg(1), of junk "[]"] value_at(1) [OF assms(1) hg(2)] Cow_append_from
      by (auto simp: cow_good_def cow_step_def cow_AppendBuffer_def)
  next
    case (2 b bf n)
    note v = value_at(2) [OF assms(1) hg(2) 2(2)]
    show ?thesis
    proof (cases "h = g \<and> n = 1 \<and> bf_capacity bf < bf_size bf + bf_size bf")
      case True
      then have "bf_size bf \<noteq> 0" by auto
      then have "cow_values s ! h \<noteq> []" using v True bf_size_value [OF 2(3)] by auto
      then show ?thesis using True 2 Cow_append_from by (auto simp: cow_good_def cow_step_def cow_AppendBuffer_def)
    next
      case False
      then show ?thesis using append_good [OF assms(1) hg(1), of junk "bf_value bf"] v 2 Cow_append_from
        by (auto simp: cow_good_def cow_step_def cow_AppendBuffer_def)
    qed
  qed
qed

lemma good_size:
  assumes "cow_inv s" "\<forall>h \<in> op_handles oper. h < length (cs_handles s)" "oper = Cow_size h n"
  shows "cow_good oper s (cow_step junk oper s)"
proof -
  note Cow_size = assms(3)
  from assms(3) have h: "h < length (cs_handles s)" using assms(2) by simp
  show ?thesis
  proof (cases rule: null_or_object [OF assms(1) h])
    case 1
    note v = value_at(1) [OF assms(1) h 1]
    show ?thesis
    proof (cases "0 < n")
      case True
      then show ?thesis using 1 v Cow_size set_new_ok [OF assms(1) h, of "BufferT junk n n"]
        by (simp add: cow_good_def cow_step_def cow_SetSize_def) (intro exI [of _ "new_bytes junk n"], simp add: new_bytes_def)
    next
      case False
      then show ?thesis using 1 v Cow_size assms(1) values_self [of s h] by (simp add: cow_good_def cow_step_def cow_SetSize_def)
    qed
  next
    case (2 b bf r)
    note v = value_at(2) [OF assms(1) h 2(2)]
    let ?nb = "BufferT_data junk (take (min (bf_size bf) n) (bf_data bf)) (max (bf_capacity bf) n)"
    define s1 where "s1 = (if r \<noteq> 1 then set_new h ?nb s else s)"
    obtain b1 bf1 where s1: "cow_inv s1" "object_of h s1 = Some (b1, bf1, 1)" "length (cs_handles s1) = length (cs_handles s)"
      "IsConsistent bf1" "take n (bf_value bf1) = take n (bf_value bf)" "(cow_values s1)[h := x] = (cow_values s)[h := x]"
      "min n (bf_size bf1) = min n (bf_size bf)" for x
    proof (cases "r = 1")
      case True
      then show ?thesis using that [of b bf] assms(1) 2 by (simp add: s1_def)
    next
      case False
      have "bf_value ?nb = take n (bf_value bf)" by (simp add: bf_value_def [of bf] min.commute)
      moreover have "bf_size ?nb = min (bf_size bf) n" using 2(3) by (simp add: BufferT_data_def BufferT_def Let_def IsConsistent_def bf_capacity_def)
      ultimately show ?thesis using that [of "cs_next s" ?nb] set_new_ok [OF assms(1) h, of ?nb] False by (simp add: s1_def)
    qed
    have sz: "length (cow_values s ! h) = bf_size bf" using v bf_size_value by simp
    have "cow_SetSize junk h n s = (do { (b, bf1, _) \<leftarrow> object_of h s1; Some (put_object b (bf_SetSize junk n bf1) s1) })"
      using 2(1,2) by (simp add: cow_SetSize_def s1_def Let_def)
    then have "cow_step junk oper s = Some (put_object b1 (bf_SetSize junk n bf1) s1)"
      using s1(2) Cow_size by (simp add: cow_step_def)
    then show ?thesis using put_object_ok [OF s1(1) _ s1(2), of "bf_SetSize junk n bf1"] bf_SetSize_ok [OF s1(4), where junk = junk and n = n] s1(3,5,6,7) h v sz Cow_size
      by (auto simp: cow_good_def intro!: exI [of _ "bf_value (bf_SetSize junk n bf1)"])
  qed
qed

lemma good_reserve:
  assumes "cow_inv s" "\<forall>h \<in> op_handles oper. h < length (cs_handles s)" "oper = Cow_reserve h n"
  shows "cow_good oper s (cow_step junk oper s)"
proof -
  note Cow_reserve = assms(3)
  from assms(3) have h: "h < length (cs_handles s)" using assms(2) by simp
  show ?thesis
  proof (cases rule: null_or_object [OF assms(1) h])
    case 1
    note v = value_at(1) [OF assms(1) h 1]
    show ?thesis using 1 v Cow_reserve set_new_ok [OF assms(1) h, of "BufferT junk 0 n"] assms(1) values_self [of s h]
      by (auto simp: cow_good_def cow_step_def cow_EnsureCapacity_def new_bytes_def)
  next
    case (2 b bf r)
    note v = value_at(2) [OF assms(1) h 2(2)]
    obtain s1 b1 bf1 where c: "CloneDataIfReferenced junk h (max (bf_capacity bf) n) s = Some s1" "cow_inv s1"
      "cow_values s1 = cow_values s" "object_of h s1 = Some (b1, bf1, 1)" "IsConsistent bf1" "bf_value bf1 = bf_value bf"
      "length (cs_handles s1) = length (cs_handles s)"
      by (rule Clone_ok [OF assms(1) h 2(2)])
    have "(cow_values s)[h := bf_value bf] = cow_values s" using v values_self [of s h] by simp
    then show ?thesis using 2 c Cow_reserve assms(1) h put_object_ok [OF c(2) _ c(4), of "bf_EnsureCapacity junk n bf1"]
        bf_headroom(1,2) [OF c(5), where junk = junk and n = n and e = False]
      by (auto simp: cow_good_def cow_step_def cow_EnsureCapacity_def bf_EnsureCapacity_def)
  qed
qed

lemma good_clear:
  assumes "cow_inv s" "\<forall>h \<in> op_handles oper. h < length (cs_handles s)" "oper = Cow_clear h"
  shows "cow_good oper s (cow_step junk oper s)"
proof -
  note Cow_clear = assms(3)
  from assms(3) have h: "h < length (cs_handles s)" using assms(2) by simp
  show ?thesis
  proof (cases rule: null_or_object [OF assms(1) h])
    case 1
    note v = value_at(1) [OF assms(1) h 1]
    then show ?thesis using 1 Cow_clear assms(1) values_self [of s h] by (simp add: cow_good_def cow_step_def cow_Clear_def)
  next
    case (2 b bf n)
    have "IsConsistent (bf_Clear bf)" "bf_value (bf_Clear bf) = []" by (simp_all add: IsConsistent_def bf_Clear_def bf_value_def)
    then show ?thesis using 2 Cow_clear put_object_ok [OF assms(1) h, of b bf "bf_Clear bf"] set_new_ok [OF assms(1) h, of "BufferT junk 0 (bf_capacity bf)"]
      by (cases "n = 1") (simp_all add: cow_good_def cow_step_def cow_Clear_def new_bytes_def)
  qed
qed

lemma good_write:
  assumes "cow_inv s" "\<forall>h \<in> op_handles oper. h < length (cs_handles s)" "oper = Cow_write h i v"
  shows "cow_good oper s (cow_step junk oper s)"
proof -
  note Cow_write = assms(3)
  from assms(3) have h: "h < length (cs_handles s)" using assms(2) by simp
  show ?thesis
  proof (cases rule: null_or_object [OF assms(1) h])
    case 1
    then show ?thesis using value_at(1) [OF assms(1) h 1] Cow_write by (simp add: cow_good_def cow_step_def cow_write_def object_of_def)
  next
    case (2 b bf n)
    note val = value_at(2) [OF assms(1) h 2(2)]
    obtain s1 b1 bf1 where c: "CloneDataIfReferenced junk h (bf_capacity bf) s = Some s1" "cow_inv s1"
      "cow_values s1 = cow_values s" "object_of h s1 = Some (b1, bf1, 1)" "IsConsistent bf1" "bf_value bf1 = bf_value bf"
      "length (cs_handles s1) = length (cs_handles s)"
      by (rule Clone_ok [OF assms(1) h 2(2)])
    have sz: "bf_size bf1 = length (cow_values s ! h)" using c(5,6) val bf_size_value by metis
    have w: "IsConsistent (bf1\<lparr>bf_data := (bf_data bf1)[i := v]\<rparr>)" "bf_value (bf1\<lparr>bf_data := (bf_data bf1)[i := v]\<rparr>) = (bf_value bf1)[i := v]"
      using c(5) by (simp_all add: IsConsistent_def bf_capacity_def bf_value_def take_update_swap)
    show ?thesis using 2 c Cow_write h val sz put_object_ok [OF c(2) _ c(4) w(1)] w(2)
      by (auto simp: cow_good_def cow_step_def cow_write_def)
  qed
qed

lemma step_good:
  assumes "cow_inv s" "\<forall>h \<in> op_handles oper. h < length (cs_handles s)"
  shows "cow_good oper s (cow_step junk oper s)"
  using good_copy [OF assms] good_new [OF assms] good_set [OF assms] good_append [OF assms] good_append_from [OF assms] good_size [OF assms] good_reserve [OF assms] good_clear [OF assms] good_write [OF assms]
  by (cases oper) blast+

text \<open>Any number of handles, null to begin with.\<close>

inductive cow_reach :: "(nat \<Rightarrow> byte) \<Rightarrow> nat \<Rightarrow> cow_store \<Rightarrow> bool" for junk k where
  cow_start: "cow_reach junk k \<lparr>cs_heap = \<lambda>_. None, cs_handles = replicate k None, cs_next = 0\<rparr>"
| cow_op: "cow_reach junk k s \<Longrightarrow> op_handles oper \<subseteq> {..<k} \<Longrightarrow> cow_step junk oper s = Some s1 \<Longrightarrow> cow_reach junk k s1"

lemma cow_reach_inv: "cow_reach junk k s \<Longrightarrow> cow_inv s \<and> length (cs_handles s) = k"
proof (induction rule: cow_reach.induct)
  case cow_start
  then show ?case by (auto simp: cow_inv_def refs_def count_list_0_iff)
next
  case (cow_op s oper s1)
  then show ?case using step_good [of s oper junk] by (auto simp: cow_good_def)
qed

text \<open>C22: Copy-on-write buffers behave as independent values: in every reachable store of
  handles and shared, counted objects an operation on one handle changes the value of that handle
  as its specification says and of no other, and fails only for a write out of bounds or a buffer
  appended to itself.\<close>
theorem cow_isolation:
  assumes "cow_reach junk k s" "op_handles oper \<subseteq> {..<k}"
  shows "case cow_step junk oper s of None \<Rightarrow> cow_undefined oper (cow_values s)
     | Some s' \<Rightarrow> cow_spec oper (cow_values s) (cow_values s')"
proof -
  have "cow_good oper s (cow_step junk oper s)"
    by (rule step_good) (use cow_reach_inv [OF assms(1)] assms(2) in auto)
  then show ?thesis by (auto simp: cow_good_def split: option.splits)
qed

fun cow_run :: "(nat \<Rightarrow> byte) \<Rightarrow> cow_op list \<Rightarrow> cow_store \<Rightarrow> cow_store option" where
  "cow_run junk [] s = Some s"
| "cow_run junk (x # xs) s = cow_step junk x s \<bind> cow_run junk xs"

lemma cow_run_reach:
  "cow_reach junk k s \<Longrightarrow> \<forall>x \<in> set xs. op_handles x \<subseteq> {..<k} \<Longrightarrow> cow_run junk xs s = Some t \<Longrightarrow> cow_reach junk k t"
proof (induction xs arbitrary: s)
  case (Cons x xs)
  then obtain s1 where "cow_step junk x s = Some s1" "cow_run junk xs s1 = Some t" by (auto simp: bind_eq_Some_conv)
  then show ?case using Cons.IH [of s1] Cons.prems(1,2) cow_op [of junk k s x s1] by auto
qed simp

definition demo_store :: cow_store where
  "demo_store = the (cow_run (\<lambda>_. 7) [Cow_new 0 [1, 2, 3] 8, Cow_copy 1 0] \<lparr>cs_heap = \<lambda>_. None, cs_handles = replicate 2 None, cs_next = 0\<rparr>)"

lemma demo_store_reach: "cow_reach (\<lambda>_. 7) 2 demo_store"
proof -
  let ?r = "cow_run (\<lambda>_. 7) [Cow_new 0 [1, 2, 3] 8, Cow_copy 1 0] \<lparr>cs_heap = \<lambda>_. None, cs_handles = replicate 2 None, cs_next = 0\<rparr>"
  have "?r = Some demo_store" by (simp add: demo_store_def cow_step_def)
  then show ?thesis by (rule cow_run_reach [OF cow_start, rotated]) auto
qed

lemma cow_isolation_witness:
  "\<exists>s'. cow_step (\<lambda>_. 7) (Cow_write 1 0 9) demo_store = Some s' \<and> cow_values s' = [[1, 2, 3], [9, 2, 3]]"
proof -
  have v: "cow_values demo_store = [[1, 2, 3], [1, 2, 3]]" by code_simp
  have "cow_step (\<lambda>_. 7) (Cow_write 1 0 9) demo_store \<noteq> None"
  proof
    assume "cow_step (\<lambda>_. 7) (Cow_write 1 0 9) demo_store = None"
    with cow_isolation [OF demo_store_reach, of "Cow_write 1 0 9"] v show False by simp
  qed
  then obtain s' where s': "cow_step (\<lambda>_. 7) (Cow_write 1 0 9) demo_store = Some s'" by blast
  with cow_isolation [OF demo_store_reach, of "Cow_write 1 0 9"] v show ?thesis by simp
qed

text \<open>A buffer appended to itself, with nothing else pointing to it and no room left.\<close>

lemma self_append_dangles:
  assumes "object_of h s = Some (b, bf, 1)" "bf_capacity bf < 2 * bf_size bf"
  shows "cow_AppendBuffer junk h h s = None"
  using assms object_of_SomeD [OF assms(1)] by (simp add: cow_AppendBuffer_def)

end
