(* ===== verification/Rtc_Logging.thy ===== *)
theory Rtc_Logging
  imports Udp_Port
begin

text \<open>
  \<open>rtc_base/logging.*\<close>, built with \<open>NDEBUG\<close> as the library is: the severities, the options, the
  text of a message, the intrusive list of sinks and the destructor that hands a message to them.
  A sink is its address; its two members that \<open>LogMessage\<close> owns, the next sink and the threshold,
  are maps.  Clocks, thread identifiers and \<open>strerror\<close> are arguments.
\<close>

datatype logging_severity = LS_VERBOSE | LS_INFO | LS_WARNING | LS_ERROR | LS_NONE

primrec sev_num :: "logging_severity \<Rightarrow> nat" where
  "sev_num LS_VERBOSE = 0"
| "sev_num LS_INFO = 1"
| "sev_num LS_WARNING = 2"
| "sev_num LS_ERROR = 3"
| "sev_num LS_NONE = 4"

lemma sev_num_inject: "sev_num a = sev_num b \<Longrightarrow> a = b"
  by (cases a; cases b) simp_all

instantiation logging_severity :: linorder
begin

definition less_eq_logging_severity :: "logging_severity \<Rightarrow> logging_severity \<Rightarrow> bool" where
  "less_eq_logging_severity a b \<longleftrightarrow> sev_num a \<le> sev_num b"

definition less_logging_severity :: "logging_severity \<Rightarrow> logging_severity \<Rightarrow> bool" where
  "less_logging_severity a b \<longleftrightarrow> sev_num a < sev_num b"

instance
  by standard (auto simp: less_eq_logging_severity_def less_logging_severity_def intro: sev_num_inject)

end

record rtc_log =
  lg_streams :: "nat option"
  lg_next :: "nat \<Rightarrow> nat option"
  lg_min_severity :: "nat \<Rightarrow> logging_severity"
  lg_streams_empty :: bool
  g_min_sev :: logging_severity
  g_dbg_sev :: logging_severity
  lg_thread :: bool
  lg_timestamp :: bool
  lg_path_prefix :: string
  lg_to_stderr :: bool
  log_start :: "int option"

definition log_initial :: rtc_log where
  "log_initial = \<lparr>lg_streams = None, lg_next = (\<lambda>_. None), lg_min_severity = (\<lambda>_. LS_VERBOSE), lg_streams_empty = True,
     g_min_sev = LS_VERBOSE, g_dbg_sev = LS_VERBOSE, lg_thread = False, lg_timestamp = False,
     lg_path_prefix = [], lg_to_stderr = True, log_start = None\<rparr>"

subsection \<open>The text of a message\<close>

text \<open>Positions of the last \<open>/\<close> or \<open>\\<close> and of the first occurrence of a string, as \<open>strrchr\<close> and
  \<open>strstr\<close> find them.\<close>

fun str_rchr :: "string \<Rightarrow> char \<Rightarrow> nat option" where
  "str_rchr [] d = None"
| "str_rchr (c # cs) d = (case str_rchr cs d of Some i \<Rightarrow> Some (Suc i) | None \<Rightarrow> if c = d then Some 0 else None)"

fun str_str :: "string \<Rightarrow> string \<Rightarrow> nat option" where
  "str_str [] p = (if p = [] then Some 0 else None)"
| "str_str (c # cs) p = (if take (length p) (c # cs) = p then Some 0 else map_option Suc (str_str cs p))"

definition FilenameFromPath :: "string \<Rightarrow> string \<Rightarrow> string" where
  "FilenameFromPath prefix file = (let
     end1 = (if prefix \<noteq> [] then str_str file prefix else str_rchr file (CHR ''/''));
     end2 = str_rchr file (CHR 92) in
     (case (end1, end2) of (None, None) \<Rightarrow> file
      | (Some i, None) \<Rightarrow> drop (Suc i) file
      | (None, Some j) \<Rightarrow> drop (Suc j) file
      | (Some i, Some j) \<Rightarrow> drop (Suc (if j < i then i else j)) file))"

primrec GetSeverityStr :: "logging_severity \<Rightarrow> string" where
  "GetSeverityStr LS_VERBOSE = ''VERBOSE''"
| "GetSeverityStr LS_INFO = ''INFO''"
| "GetSeverityStr LS_WARNING = ''WARNING''"
| "GetSeverityStr LS_ERROR = ''ERROR''"
| "GetSeverityStr LS_NONE = ''NONE''"

text \<open>\<open>%03\<close> pads with zeros to three characters, the sign included.\<close>

definition pad3 :: "int \<Rightarrow> string" where
  "pad3 x = (let d = nat_to_string (nat \<bar>x\<bar>) in
     if x < 0 then CHR ''-'' # replicate (2 - length d) (CHR ''0'') @ d
     else replicate (3 - length d) (CHR ''0'') @ d)"

text \<open>C++ divides towards zero.\<close>

definition c_div1000 :: "int \<Rightarrow> int" where "c_div1000 t = (if t < 0 then - (- t div 1000) else t div 1000)"
definition c_mod1000 :: "int \<Rightarrow> int" where "c_mod1000 t = t - 1000 * c_div1000 t"

definition LogStartTime :: "int \<Rightarrow> rtc_log \<Rightarrow> int \<times> rtc_log" where
  "LogStartTime now g = (case log_start g of Some t \<Rightarrow> (t, g) | None \<Rightarrow> (now, g\<lparr>log_start := Some now\<rparr>))"

text \<open>An error context is the number and, for \<open>ERRCTX_ERRNO\<close>, its text from \<open>strerror\<close>; \<open>simple_cut\<close> is the bound of
  the \<open>SimpleStringBuilder\<close> over 1024 bytes, of which it keeps one for the terminator.\<close>

definition hex8 :: "u32 \<Rightarrow> string" where
  "hex8 x = map (\<lambda>i. let n = unat (drop_bit (4 * i) x AND 15) in
     if n < 10 then char_of (48 + n) else char_of (55 + n)) (rev [0..<8])"

definition log_extra :: "(u32 \<times> string option) option \<Rightarrow> string" where
  "log_extra err = (case err of None \<Rightarrow> []
     | Some (e, t) \<Rightarrow> take 1023 (''[0x'' @ hex8 e @ '']'' @ (case t of None \<Rightarrow> [] | Some m \<Rightarrow> '' '' @ m)))"

text \<open>The constructor; \<open>now1\<close> and \<open>now2\<close> are what the clock gives for \<open>SystemTimeMillis\<close> and for the
  start time: which of the two calls comes first is left to the compiler.\<close>

definition log_header ::
  "(string \<times> nat) option \<Rightarrow> logging_severity \<Rightarrow> int \<Rightarrow> int \<Rightarrow> nat \<Rightarrow> rtc_log \<Rightarrow> string \<times> rtc_log" where
  "log_header file sev now1 now2 tid g = (let
     (start, g1) = (if lg_timestamp g then LogStartTime now2 g else (0, g));
     t = now1 - start in
     (GetSeverityStr sev @ '': '' @
      (if lg_timestamp g then ''['' @ pad3 (c_div1000 t) @ '':'' @ pad3 (c_mod1000 t) @ '']'' else []) @
      (if lg_thread g then ''['' @ nat_to_string tid @ ''] '' else []) @
      (case file of None \<Rightarrow> []
       | Some (f, line) \<Rightarrow> ''('' @ FilenameFromPath (lg_path_prefix g) f @ '':'' @ nat_to_string line @ ''): ''),
      g1))"

text \<open>\<open>FinishPrintStream\<close>.\<close>

definition finish_print_stream :: "string \<Rightarrow> string \<Rightarrow> string" where
  "finish_print_stream extra s = s @ (if extra \<noteq> [] then '' : '' @ extra else []) @ [CHR 10]"

text \<open>The arguments of \<open>webrtc_logging_impl::Log\<close>; floating point values are given as the text the
  builder makes of them.  A pointer passes through the \<open>int\<close> of \<open>ToHex\<close> and loses its upper half.\<close>

datatype log_arg =
    KInt int | KUInt nat | KDouble string | KCharP "string option" | KStdString string
  | KStringView string | KVoidP nat

definition log_int :: "int \<Rightarrow> string" where
  "log_int x = (if x < 0 then CHR ''-'' # nat_to_string (nat (- x)) else nat_to_string (nat x))"

fun to_hex :: "nat \<Rightarrow> string" where
  "to_hex n = (if n < 16 then [] else to_hex (n div 16)) @
     [if n mod 16 < 10 then char_of (48 + n mod 16) else char_of (87 + n mod 16)]"

declare to_hex.simps [simp del]

primrec log_arg_text :: "log_arg \<Rightarrow> string" where
  "log_arg_text (KInt x) = log_int x"
| "log_arg_text (KUInt n) = nat_to_string n"
| "log_arg_text (KDouble t) = t"
| "log_arg_text (KCharP p) = (case p of Some s \<Rightarrow> s | None \<Rightarrow> ''(null)'')"
| "log_arg_text (KStdString s) = s"
| "log_arg_text (KStringView s) = s"
| "log_arg_text (KVoidP a) = to_hex (a mod 2 ^ 32)"

definition log_text ::
  "(string \<times> nat) option \<Rightarrow> logging_severity \<Rightarrow> (u32 \<times> string option) option \<Rightarrow> int \<Rightarrow> int \<Rightarrow> nat \<Rightarrow> log_arg list \<Rightarrow> rtc_log
   \<Rightarrow> string \<times> rtc_log" where
  "log_text file sev err now1 now2 tid args g = (let
     (h, g1) = log_header file sev now1 now2 tid g in
     (finish_print_stream (log_extra err) (h @ concat (map log_arg_text args)), g1))"

subsection \<open>The list of sinks\<close>

text \<open>A loop over the list ends only if the list does.\<close>

partial_function (option) sinks_from :: "(nat \<Rightarrow> nat option) \<Rightarrow> nat option \<Rightarrow> nat list option" where
  "sinks_from nxt p = (case p of None \<Rightarrow> Some []
     | Some a \<Rightarrow> do { xs \<leftarrow> sinks_from nxt (nxt a); Some (a # xs) })"

definition UpdateMinLogSeverity :: "rtc_log \<Rightarrow> rtc_log option" where
  "UpdateMinLogSeverity g = do {
     xs \<leftarrow> sinks_from (lg_next g) (lg_streams g);
     Some (g\<lparr>g_min_sev := foldl (\<lambda>m a. min m (lg_min_severity g a)) (g_dbg_sev g) xs\<rparr>) }"

definition AddLogToStream :: "nat \<Rightarrow> logging_severity \<Rightarrow> rtc_log \<Rightarrow> rtc_log option" where
  "AddLogToStream s sev g = UpdateMinLogSeverity
     (g\<lparr>lg_min_severity := (lg_min_severity g)(s := sev), lg_next := (lg_next g)(s := lg_streams g),
        lg_streams := Some s, lg_streams_empty := False\<rparr>)"

text \<open>The loop of \<open>RemoveLogToStream\<close> holds the address of the pointer to the entry: the head of the
  list or the member of the sink before it.\<close>

definition entry_at :: "nat option \<Rightarrow> rtc_log \<Rightarrow> nat option" where
  "entry_at slot g = (case slot of None \<Rightarrow> lg_streams g | Some a \<Rightarrow> lg_next g a)"

definition set_entry :: "nat option \<Rightarrow> nat option \<Rightarrow> rtc_log \<Rightarrow> rtc_log" where
  "set_entry slot v g = (case slot of None \<Rightarrow> g\<lparr>lg_streams := v\<rparr> | Some a \<Rightarrow> g\<lparr>lg_next := (lg_next g)(a := v)\<rparr>)"

partial_function (option) remove_loop :: "nat \<Rightarrow> nat option \<Rightarrow> rtc_log \<Rightarrow> rtc_log option" where
  "remove_loop s slot g = (case entry_at slot g of None \<Rightarrow> Some g
     | Some a \<Rightarrow> if a = s then Some (set_entry slot (lg_next g a) g) else remove_loop s (Some a) g)"

definition RemoveLogToStream :: "nat \<Rightarrow> rtc_log \<Rightarrow> rtc_log option" where
  "RemoveLogToStream s g = do {
     g1 \<leftarrow> remove_loop s None g;
     UpdateMinLogSeverity (g1\<lparr>lg_streams_empty := (lg_streams g1 = None)\<rparr>) }"

definition GetLogToStream :: "nat option \<Rightarrow> rtc_log \<Rightarrow> logging_severity option" where
  "GetLogToStream s g = do {
     xs \<leftarrow> sinks_from (lg_next g) (lg_streams g);
     Some (foldl (\<lambda>m a. if s = None \<or> s = Some a then min m (lg_min_severity g a) else m) LS_NONE xs) }"

definition LogToDebug :: "logging_severity \<Rightarrow> rtc_log \<Rightarrow> rtc_log option" where
  "LogToDebug sev g = UpdateMinLogSeverity (g\<lparr>g_dbg_sev := sev\<rparr>)"

definition LogThreads :: "rtc_log \<Rightarrow> rtc_log" where "LogThreads g = g\<lparr>lg_thread := True\<rparr>"
definition LogTimestamps :: "rtc_log \<Rightarrow> rtc_log" where "LogTimestamps g = g\<lparr>lg_timestamp := True\<rparr>"
definition SetLogPathPrefix :: "string \<Rightarrow> rtc_log \<Rightarrow> rtc_log" where "SetLogPathPrefix p g = g\<lparr>lg_path_prefix := p\<rparr>"
definition SetLogToStderr :: "bool \<Rightarrow> rtc_log \<Rightarrow> rtc_log" where "SetLogToStderr b g = g\<lparr>lg_to_stderr := b\<rparr>"

text \<open>One word of the argument of \<open>ConfigureLogging\<close>, on the options, the current level and the
  debug level.\<close>

definition configure_token ::
  "string \<Rightarrow> rtc_log \<times> logging_severity \<times> logging_severity \<Rightarrow> rtc_log \<times> logging_severity \<times> logging_severity" where
  "configure_token t st = (case st of (g, current, debug) \<Rightarrow>
     if t = [] then st
     else if t = ''tstamp'' then (LogTimestamps g, current, debug)
     else if t = ''thread'' then (LogThreads g, current, debug)
     else if t = ''verbose'' then (g, LS_VERBOSE, debug)
     else if t = ''info'' then (g, LS_INFO, debug)
     else if t = ''warning'' then (g, LS_WARNING, debug)
     else if t = ''error'' then (g, LS_ERROR, debug)
     else if t = ''none'' then (g, LS_NONE, debug)
     else if t = ''debug'' then (g, current, current)
     else st)"

definition ConfigureLogging :: "string \<Rightarrow> rtc_log \<Rightarrow> rtc_log option" where
  "ConfigureLogging params g = (let
     st = foldl (\<lambda>st t. configure_token t st) (g, LS_VERBOSE, g_dbg_sev g) (tokenize params (CHR '' '')) in
     LogToDebug (snd (snd st)) (fst st))"

definition IsNoop :: "logging_severity \<Rightarrow> rtc_log \<Rightarrow> bool" where
  "IsNoop sev g = (if g_dbg_sev g \<le> sev \<or> g_min_sev g \<le> sev then False else lg_streams_empty g)"

text \<open>The destructor: whether the text goes to \<open>stderr\<close>, and the sinks it is given to in turn.\<close>

definition log_deliver :: "logging_severity \<Rightarrow> rtc_log \<Rightarrow> (bool \<times> nat list) option" where
  "log_deliver sev g = do {
     xs \<leftarrow> sinks_from (lg_next g) (lg_streams g);
     Some (g_dbg_sev g \<le> sev \<and> lg_to_stderr g, filter (\<lambda>a. lg_min_severity g a \<le> sev) xs) }"

text \<open>The macro \<open>RTC_LOG\<close>; \<open>None\<close> when it never returns.\<close>

definition rtc_log_call :: "logging_severity \<Rightarrow> rtc_log \<Rightarrow> (bool \<times> nat list) option" where
  "rtc_log_call sev g = (if IsNoop sev g then Some (False, []) else log_deliver sev g)"

subsection \<open>What the list holds\<close>

primrec sink_chain :: "(nat \<Rightarrow> nat option) \<Rightarrow> nat option \<Rightarrow> nat list \<Rightarrow> bool" where
  "sink_chain nxt p [] \<longleftrightarrow> p = None"
| "sink_chain nxt p (x # xs) \<longleftrightarrow> p = Some x \<and> sink_chain nxt (nxt x) xs"

lemma chain_unique: "sink_chain nxt p xs \<Longrightarrow> sink_chain nxt p ys \<Longrightarrow> xs = ys"
proof (induction xs arbitrary: p ys)
  case Nil then show ?case by (cases ys) auto
next
  case (Cons x xs) then show ?case by (cases ys) auto
qed

lemma sinks_from_chain: "sinks_from nxt p = Some xs \<longleftrightarrow> sink_chain nxt p xs"
proof
  assume "sinks_from nxt p = Some xs"
  then show "sink_chain nxt p xs"
    by (rule sinks_from.raw_induct [rotated]) (auto split: option.splits simp: bind_eq_Some_conv)
next
  show "sink_chain nxt p xs \<Longrightarrow> sinks_from nxt p = Some xs"
    by (induction xs arbitrary: p) (simp_all add: sinks_from.simps)
qed

lemma chain_append:
  "sink_chain nxt p (us @ s # ws) \<Longrightarrow> sink_chain nxt (Some s) (s # ws)"
  by (induction us arbitrary: p) auto

lemma chain_distinct: "sink_chain nxt p xs \<Longrightarrow> distinct xs"
proof (rule ccontr)
  assume c: "sink_chain nxt p xs" and "\<not> distinct xs"
  then obtain us ys vs y where xs: "xs = us @ [y] @ ys @ [y] @ vs" using not_distinct_decomp by blast
  have "sink_chain nxt (Some y) (y # ys @ y # vs)" using chain_append [of nxt p us y] c xs by simp
  moreover have "sink_chain nxt (Some y) (y # vs)" using chain_append [of nxt p "us @ y # ys" y] c xs by simp
  ultimately show False using chain_unique by fastforce
qed

lemma chain_upd [simp]: "a \<notin> set xs \<Longrightarrow> sink_chain (nxt(a := v)) p xs = sink_chain nxt p xs"
  by (induction xs arbitrary: p) auto

text \<open>The state of the list as a list of sinks, the latest first.\<close>

definition log_inv :: "nat list \<Rightarrow> rtc_log \<Rightarrow> bool" where
  "log_inv xs g \<longleftrightarrow> sink_chain (lg_next g) (lg_streams g) xs \<and> lg_streams_empty g = (xs = []) \<and>
     g_min_sev g = Min (insert (g_dbg_sev g) (lg_min_severity g ` set xs))"

lemma foldl_min: "foldl (\<lambda>m a. min m (f a)) d xs = Min (insert d (f ` set xs))" for f :: "'a \<Rightarrow> 'b::linorder"
proof (induction xs arbitrary: d)
  case (Cons x xs)
  have "Min (insert (min d (f x)) (f ` set xs)) = Min (insert d (insert (f x) (f ` set xs)))"
    by (cases "xs = []") (simp_all add: min.assoc)
  then show ?case using Cons by simp
qed simp

lemma update_min:
  assumes "sink_chain (lg_next g) (lg_streams g) xs" "lg_streams_empty g = (xs = [])"
  shows "\<exists>g1. UpdateMinLogSeverity g = Some g1 \<and> log_inv xs g1 \<and> lg_min_severity g1 = lg_min_severity g \<and>
    g_dbg_sev g1 = g_dbg_sev g \<and> lg_to_stderr g1 = lg_to_stderr g"
  using assms sinks_from_chain [of "lg_next g" "lg_streams g" xs]
  by (simp add: UpdateMinLogSeverity_def log_inv_def foldl_min)

lemma add_inv:
  assumes "log_inv xs g" "s \<notin> set xs"
  shows "\<exists>g1. AddLogToStream s sev g = Some g1 \<and> log_inv (s # xs) g1 \<and>
    lg_min_severity g1 = (lg_min_severity g)(s := sev) \<and> g_dbg_sev g1 = g_dbg_sev g \<and> lg_to_stderr g1 = lg_to_stderr g"
proof -
  let ?g = "g\<lparr>lg_min_severity := (lg_min_severity g)(s := sev), lg_next := (lg_next g)(s := lg_streams g),
    lg_streams := Some s, lg_streams_empty := False\<rparr>"
  show ?thesis using update_min [of ?g "s # xs"] assms by (simp add: AddLogToStream_def log_inv_def)
qed

lemma remove_loop_chain:
  assumes "sink_chain (lg_next g) (entry_at slot g) xs" "\<And>a. slot = Some a \<Longrightarrow> a \<notin> set xs"
  shows "\<exists>g1. remove_loop s slot g = Some g1 \<and> sink_chain (lg_next g1) (entry_at slot g1) (remove1 s xs) \<and>
    (slot \<noteq> None \<longrightarrow> lg_streams g1 = lg_streams g) \<and> (\<forall>a. a \<notin> set xs \<and> slot \<noteq> Some a \<longrightarrow> lg_next g1 a = lg_next g a) \<and>
    lg_min_severity g1 = lg_min_severity g \<and> g_dbg_sev g1 = g_dbg_sev g \<and> lg_to_stderr g1 = lg_to_stderr g"
  using assms
proof (induction xs arbitrary: slot)
  case Nil then show ?case by (simp add: remove_loop.simps)
next
  case (Cons x xs)
  show ?case
  proof (cases "x = s")
    case True
    then show ?thesis using Cons.prems
      by (cases slot) (auto simp: remove_loop.simps set_entry_def entry_at_def)
  next
    case False
    have d: "x \<notin> set xs" using chain_distinct [OF Cons.prems(1)] by simp
    from Cons.IH [of "Some x"] d Cons.prems(1) obtain g1 where g1: "remove_loop s (Some x) g = Some g1"
      "sink_chain (lg_next g1) (lg_next g1 x) (remove1 s xs)" "lg_streams g1 = lg_streams g"
      "\<forall>a. a \<notin> set xs \<and> x \<noteq> a \<longrightarrow> lg_next g1 a = lg_next g a"
      "lg_min_severity g1 = lg_min_severity g" "g_dbg_sev g1 = g_dbg_sev g" "lg_to_stderr g1 = lg_to_stderr g"
      by (auto simp: entry_at_def)
    have "entry_at slot g1 = entry_at slot g" using g1(3,4) Cons.prems(2) by (cases slot) (auto simp: entry_at_def)
    then show ?thesis using g1 False Cons.prems(1) by (simp add: remove_loop.simps)
  qed
qed

lemma remove_inv:
  assumes "log_inv xs g"
  shows "\<exists>g1. RemoveLogToStream s g = Some g1 \<and> log_inv (remove1 s xs) g1 \<and>
    lg_min_severity g1 = lg_min_severity g \<and> g_dbg_sev g1 = g_dbg_sev g \<and> lg_to_stderr g1 = lg_to_stderr g"
proof -
  obtain g1 where g1: "remove_loop s None g = Some g1" "sink_chain (lg_next g1) (lg_streams g1) (remove1 s xs)"
    "lg_min_severity g1 = lg_min_severity g" "g_dbg_sev g1 = g_dbg_sev g" "lg_to_stderr g1 = lg_to_stderr g"
    using remove_loop_chain [of g None xs s] assms by (auto simp: log_inv_def entry_at_def)
  have "(lg_streams g1 = None) = (remove1 s xs = [])" using g1(2) by (cases "remove1 s xs") auto
  then show ?thesis using update_min [of "g1\<lparr>lg_streams_empty := (lg_streams g1 = None)\<rparr>" "remove1 s xs"] g1
    by (simp add: RemoveLogToStream_def)
qed

lemma deliver_inv:
  assumes "log_inv xs g"
  shows "rtc_log_call sev g = Some (g_dbg_sev g \<le> sev \<and> lg_to_stderr g, filter (\<lambda>a. lg_min_severity g a \<le> sev) xs)"
proof -
  have "sinks_from (lg_next g) (lg_streams g) = Some xs" using assms sinks_from_chain by (auto simp: log_inv_def)
  moreover have "IsNoop sev g \<Longrightarrow> xs = [] \<and> \<not> g_dbg_sev g \<le> sev" using assms by (auto simp: IsNoop_def log_inv_def split: if_splits)
  ultimately show ?thesis by (auto simp: rtc_log_call_def log_deliver_def)
qed

lemma initial_inv: "log_inv [] log_initial"
  by (simp add: log_inv_def log_initial_def)

subsection \<open>Who gets a message\<close>

datatype sink_op = Sink_add nat logging_severity | Sink_remove nat

fun run_sinks :: "sink_op list \<Rightarrow> rtc_log \<Rightarrow> rtc_log option" where
  "run_sinks [] g = Some g"
| "run_sinks (Sink_add s sev # ops) g = Option.bind (AddLogToStream s sev g) (run_sinks ops)"
| "run_sinks (Sink_remove s # ops) g = Option.bind (RemoveLogToStream s g) (run_sinks ops)"

text \<open>The sinks registered after a sequence of calls, with their thresholds, the latest first;
  \<open>None\<close> if one is added that is registered.\<close>

fun registered :: "sink_op list \<Rightarrow> (nat \<times> logging_severity) list \<Rightarrow> (nat \<times> logging_severity) list option" where
  "registered [] r = Some r"
| "registered (Sink_add s sev # ops) r = (if s \<in> fst ` set r then None else registered ops ((s, sev) # r))"
| "registered (Sink_remove s # ops) r = registered ops (filter (\<lambda>p. fst p \<noteq> s) r)"

lemma run_sinks_registered:
  assumes "registered ops r = Some r1" "log_inv (map fst r) g" "\<forall>(s, sev) \<in> set r. lg_min_severity g s = sev"
  shows "\<exists>g1. run_sinks ops g = Some g1 \<and> log_inv (map fst r1) g1 \<and> (\<forall>(s, sev) \<in> set r1. lg_min_severity g1 s = sev) \<and>
    g_dbg_sev g1 = g_dbg_sev g \<and> lg_to_stderr g1 = lg_to_stderr g"
  using assms
proof (induction ops r arbitrary: g rule: registered.induct)
  case (2 s sev ops r)
  have s: "s \<notin> fst ` set r" using 2(2) by (auto split: if_splits)
  obtain g1 where g1: "AddLogToStream s sev g = Some g1" "log_inv (s # map fst r) g1"
    "lg_min_severity g1 = (lg_min_severity g)(s := sev)" "g_dbg_sev g1 = g_dbg_sev g" "lg_to_stderr g1 = lg_to_stderr g"
    using add_inv [OF 2(3), of s sev] s by auto
  have m: "\<forall>(s, sev) \<in> set ((s, sev) # r). lg_min_severity g1 s = sev" using 2(4) s g1(3) by force
  have "registered ops ((s, sev) # r) = Some r1" "log_inv (map fst ((s, sev) # r)) g1" using 2(2) s g1(2) by simp_all
  from 2(1) [OF s this m] show ?case using g1 by auto
next
  case (3 s ops r)
  have m: "map fst (filter (\<lambda>p. fst p \<noteq> s) r) = remove1 s (map fst r)"
  proof -
    have "distinct (map fst r)" using chain_distinct [of "lg_next g" "lg_streams g" "map fst r"] 3(3) by (simp add: log_inv_def)
    then have "remove1 s (map fst r) = filter (\<lambda>x. x \<noteq> s) (map fst r)"
      by (simp add: distinct_remove1_removeAll removeAll_filter_not_eq) (metis (mono_tags, lifting) filter_cong)
    then show ?thesis by (simp add: filter_map comp_def)
  qed
  obtain g1 where g1: "RemoveLogToStream s g = Some g1" "log_inv (remove1 s (map fst r)) g1"
    "lg_min_severity g1 = lg_min_severity g" "g_dbg_sev g1 = g_dbg_sev g" "lg_to_stderr g1 = lg_to_stderr g"
    using remove_inv [OF 3(3)] by blast
  have n: "\<forall>(s, sev) \<in> set (filter (\<lambda>p. fst p \<noteq> s) r). lg_min_severity g1 s = sev" using 3(4) g1(3) by auto
  have "registered ops (filter (\<lambda>p. fst p \<noteq> s) r) = Some r1" using 3(2) by simp
  from 3(1) [OF this _ n] show ?case using g1 m by auto
qed auto

text \<open>However sinks come and go, a message goes to those registered whose threshold it reaches, the
  latest first.\<close>

theorem log_dispatch:
  assumes "registered ops [] = Some r"
  shows "\<exists>g. run_sinks ops log_initial = Some g \<and>
    rtc_log_call sev g = Some (True, map fst (filter (\<lambda>(s, m). m \<le> sev) r))"
proof -
  obtain g where g: "run_sinks ops log_initial = Some g" "log_inv (map fst r) g"
    "\<forall>(s, m) \<in> set r. lg_min_severity g s = m" "g_dbg_sev g = LS_VERBOSE" "lg_to_stderr g"
    using run_sinks_registered [OF assms, of log_initial] initial_inv by (auto simp: log_initial_def)
  have "filter (\<lambda>a. lg_min_severity g a \<le> sev) (map fst r) = map fst (filter (\<lambda>(s, m). m \<le> sev) r)"
    using g(3) by (induction r) auto
  moreover have "LS_VERBOSE \<le> sev" by (simp add: less_eq_logging_severity_def)
  ultimately show ?thesis using deliver_inv [OF g(2), of sev] g by auto
qed

theorem log_dispatch_witness:
  "\<exists>g. run_sinks [Sink_add 1 LS_INFO, Sink_add 2 LS_ERROR, Sink_add 3 LS_VERBOSE, Sink_remove 3] log_initial = Some g \<and>
    rtc_log_call LS_WARNING g = Some (True, [1])"
  using log_dispatch [of "[Sink_add 1 LS_INFO, Sink_add 2 LS_ERROR, Sink_add 3 LS_VERBOSE, Sink_remove 3]"
      "[(2, LS_ERROR), (1, LS_INFO)]" LS_WARNING]
  by (simp add: less_eq_logging_severity_def)

text \<open>A sink that is added while it is registered closes the list into a ring: no message that
  reaches the list is finished any more, and the lock of the list stays taken.\<close>

theorem added_twice_hangs:
  assumes "log_inv xs g" "s \<in> set xs"
  shows "AddLogToStream s sev g = None"
proof (rule ccontr)
  let ?n = "(lg_next g)(s := lg_streams g)"
  assume "AddLogToStream s sev g \<noteq> None"
  then obtain zs where "sinks_from ?n (Some s) = Some zs"
    by (auto simp: AddLogToStream_def UpdateMinLogSeverity_def bind_eq_Some_conv)
  then have z: "sink_chain ?n (Some s) zs" using sinks_from_chain by blast
  then obtain ys where ys: "zs = s # ys" "sink_chain ?n (lg_streams g) ys" by (cases zs) auto
  obtain us vs where xs: "xs = us @ s # vs" "s \<notin> set us" using assms(2) by (meson split_list_first)
  have "sink_chain (lg_next g) p (us @ s # vs) \<Longrightarrow> sink_chain ?n p ys1 \<Longrightarrow> s \<notin> set us \<Longrightarrow>
      \<exists>ws. ys1 = us @ s # ws \<and> sink_chain ?n (Some s) (s # ws)" for p ys1
  proof (induction us arbitrary: p ys1)
    case Nil then show ?case by (cases ys1) auto
  next
    case (Cons u us) then show ?case by (cases ys1) auto
  qed
  then obtain ws where "ys = us @ s # ws" "sink_chain ?n (Some s) (s # ws)"
    using ys(2) assms(1) xs by (auto simp: log_inv_def)
  then have "s # us @ s # ws = s # ws" using chain_unique [OF z, of "s # ws"] ys(1) by simp
  then show False using arg_cong [of _ _ length] by fastforce
qed

text \<open>The thresholds of the debug output are those of the build: every message of the program is
  formatted and, unless that is switched off, printed, whatever level the sinks have.\<close>

lemma never_noop: "g_dbg_sev g = LS_VERBOSE \<Longrightarrow> \<not> IsNoop sev g"
  by (simp add: IsNoop_def less_eq_logging_severity_def)

end
