(* ===== verification/Log_Thread.thy ===== *)
theory Log_Thread
  imports Rtc_Logging
begin

text \<open>
  \<open>base/log.*\<close>: the sink of the server and the thread that writes its two files, as steps that
  interleave with messages, with \<open>stop\<close> and with whoever moves the files away.  A file name is
  modelled with all files that have had it, in order; what the kernel answers to an \<open>open\<close> comes
  with the step, writes to an open file succeed.
\<close>

subsection \<open>A file name and a stream\<close>

record log_file =
  lf_files :: "string list"
  lf_named :: bool
  lf_stream :: "nat option"

definition lf_text :: "log_file \<Rightarrow> string" where "lf_text f = concat (lf_files f)"

definition stat_ok :: "log_file \<Rightarrow> bool" where "stat_ok f = lf_named f"

definition ofs_close :: "log_file \<Rightarrow> log_file" where "ofs_close f = f\<lparr>lf_stream := None\<rparr>"

definition lf_create :: "log_file \<Rightarrow> log_file" where
  "lf_create f = (if lf_named f then f else f\<lparr>lf_files := lf_files f @ [[]], lf_named := True\<rparr>)"

definition lf_remove :: "log_file \<Rightarrow> log_file" where "lf_remove f = f\<lparr>lf_named := False\<rparr>"

definition ofs_open :: "bool \<Rightarrow> log_file \<Rightarrow> log_file" where
  "ofs_open ok f = (if \<not> ok then f
     else (lf_create f)\<lparr>lf_stream := Some (length (lf_files (lf_create f)) - 1)\<rparr>)"

definition ofs_write :: "string \<Rightarrow> log_file \<Rightarrow> log_file" where
  "ofs_write s f = (case lf_stream f of None \<Rightarrow> f
     | Some i \<Rightarrow> f\<lparr>lf_files := (lf_files f)[i := lf_files f ! i @ s]\<rparr>)"

subsection \<open>The log\<close>

datatype log_pc =
    L_while | L_stat | L_reopen | L_stat_wf | L_reopen_wf
  | L_drain | L_write bool | L_drain_wf | L_write_wf bool | L_done

record xrtc_log =
  xl_dir :: string
  xl_name :: string
  xl_level :: string
  xl_log_file :: string
  xl_log_file_wf :: string
  xl_out_file :: log_file
  xl_out_file_wf :: log_file
  xl_queue :: "string list"
  xl_queue_wf :: "string list"
  xl_thread :: "log_pc option"
  xl_ss :: string
  xl_running :: bool

text \<open>\<open>f\<close> and \<open>f_wf\<close> are the file names as the program finds them.\<close>

definition XrtcLog :: "string \<Rightarrow> string \<Rightarrow> string \<Rightarrow> log_file \<Rightarrow> log_file \<Rightarrow> xrtc_log" where
  "XrtcLog log_dir log_name log_level f f_wf = \<lparr>xl_dir = log_dir, xl_name = log_name, xl_level = log_level,
     xl_log_file = log_dir @ ''/'' @ log_name @ ''.log'', xl_log_file_wf = log_dir @ ''/'' @ log_name @ ''.log.wf'',
     xl_out_file = ofs_close f, xl_out_file_wf = ofs_close f_wf, xl_queue = [], xl_queue_wf = [],
     xl_thread = None, xl_ss = [], xl_running = False\<rparr>"

definition get_log_level :: "string \<Rightarrow> logging_severity" where
  "get_log_level level = (if level = ''verbose'' then LS_VERBOSE else if level = ''info'' then LS_INFO
     else if level = ''warning'' then LS_WARNING else if level = ''error'' then LS_ERROR
     else LS_NONE)"

datatype sys_mkdir = Mk_made | Mk_exists | Mk_failed

text \<open>\<open>self\<close> is the address of the log, under which it is registered as a sink.\<close>

definition xl_init :: "nat \<Rightarrow> sys_mkdir \<Rightarrow> bool \<Rightarrow> bool \<Rightarrow> xrtc_log \<Rightarrow> rtc_log \<Rightarrow> (int \<times> xrtc_log \<times> rtc_log) option" where
  "xl_init self mk open_ok open_wf_ok l g = do {
     g1 \<leftarrow> ConfigureLogging ''thread tstamp'' g;
     g2 \<leftarrow> AddLogToStream self (get_log_level (xl_level l)) (SetLogPathPrefix ''/src'' g1);
     if mk = Mk_failed then Some (-1, l, g2)
     else let l1 = l\<lparr>xl_out_file := ofs_open open_ok (xl_out_file l)\<rparr> in
       if lf_stream (xl_out_file l1) = None then Some (-1, l1, g2)
       else let l2 = l1\<lparr>xl_out_file_wf := ofs_open open_wf_ok (xl_out_file_wf l1)\<rparr> in
         if lf_stream (xl_out_file_wf l2) = None then Some (-1, l2, g2) else Some (0, l2, g2) }"

definition xl_start :: "xrtc_log \<Rightarrow> bool \<times> xrtc_log" where
  "xl_start l = (if xl_running l then (False, l)
     else (True, l\<lparr>xl_running := True, xl_thread := Some L_while, xl_ss := []\<rparr>))"

definition OnLogMessage :: "string \<Rightarrow> logging_severity \<Rightarrow> xrtc_log \<Rightarrow> xrtc_log" where
  "OnLogMessage m sev l = (if LS_WARNING \<le> sev then l\<lparr>xl_queue_wf := xl_queue_wf l @ [m]\<rparr>
     else l\<lparr>xl_queue := xl_queue l @ [m]\<rparr>)"

text \<open>One step of the thread; \<open>ok\<close> is whether an \<open>open\<close> in it succeeds.  The queues are emptied
  under their mutex.\<close>

definition log_thread_step :: "bool \<Rightarrow> log_pc \<Rightarrow> xrtc_log \<Rightarrow> xrtc_log" where
  "log_thread_step ok p l = (case p of
     L_while \<Rightarrow> l\<lparr>xl_thread := Some (if xl_running l then L_stat else L_done)\<rparr>
   | L_stat \<Rightarrow> l\<lparr>xl_thread := Some (if stat_ok (xl_out_file l) then L_stat_wf else L_reopen)\<rparr>
   | L_reopen \<Rightarrow> l\<lparr>xl_out_file := ofs_open ok (ofs_close (xl_out_file l)), xl_thread := Some L_stat_wf\<rparr>
   | L_stat_wf \<Rightarrow> l\<lparr>xl_thread := Some (if stat_ok (xl_out_file_wf l) then L_drain else L_reopen_wf)\<rparr>
   | L_reopen_wf \<Rightarrow> l\<lparr>xl_out_file_wf := ofs_open ok (ofs_close (xl_out_file_wf l)), xl_thread := Some L_drain\<rparr>
   | L_drain \<Rightarrow> l\<lparr>xl_ss := xl_ss l @ concat (xl_queue l), xl_queue := [], xl_thread := Some (L_write (xl_queue l \<noteq> []))\<rparr>
   | L_write w \<Rightarrow> l\<lparr>xl_out_file := (if w then ofs_write (xl_ss l) (xl_out_file l) else xl_out_file l),
       xl_ss := [], xl_thread := Some L_drain_wf\<rparr>
   | L_drain_wf \<Rightarrow> l\<lparr>xl_ss := xl_ss l @ concat (xl_queue_wf l), xl_queue_wf := [],
       xl_thread := Some (L_write_wf (xl_queue_wf l \<noteq> []))\<rparr>
   | L_write_wf w \<Rightarrow> l\<lparr>xl_out_file_wf := (if w then ofs_write (xl_ss l) (xl_out_file_wf l) else xl_out_file_wf l),
       xl_ss := [], xl_thread := Some L_while\<rparr>
   | L_done \<Rightarrow> l)"

text \<open>What can happen: a message of any thread, a step of the log thread, \<open>stop\<close> in its two parts
  (the flag; the end of \<open>join\<close>, possible only when the thread is done), and a file name taken away
  or made by another program.\<close>

datatype log_event =
    Ev_log string logging_severity | Ev_thread bool | Ev_stop | Ev_join
  | Ev_remove | Ev_remove_wf | Ev_create | Ev_create_wf

primrec log_step :: "log_event \<Rightarrow> xrtc_log \<Rightarrow> xrtc_log" where
  "log_step (Ev_log m sev) l = OnLogMessage m sev l"
| "log_step (Ev_thread ok) l = (case xl_thread l of None \<Rightarrow> l | Some p \<Rightarrow> log_thread_step ok p l)"
| "log_step Ev_stop l = l\<lparr>xl_running := False\<rparr>"
| "log_step Ev_join l = (if xl_thread l = Some L_done then l\<lparr>xl_thread := None\<rparr> else l)"
| "log_step Ev_remove l = l\<lparr>xl_out_file := lf_remove (xl_out_file l)\<rparr>"
| "log_step Ev_remove_wf l = l\<lparr>xl_out_file_wf := lf_remove (xl_out_file_wf l)\<rparr>"
| "log_step Ev_create l = l\<lparr>xl_out_file := lf_create (xl_out_file l)\<rparr>"
| "log_step Ev_create_wf l = l\<lparr>xl_out_file_wf := lf_create (xl_out_file_wf l)\<rparr>"

definition log_run :: "log_event list \<Rightarrow> xrtc_log \<Rightarrow> xrtc_log" where
  "log_run evs l = foldl (\<lambda>l e. log_step e l) l evs"

lemma log_run_simps [simp]:
  "log_run [] l = l" "log_run (e # evs) l = log_run evs (log_step e l)"
  "log_run (evs @ evs1) l = log_run evs1 (log_run evs l)"
  by (simp_all add: log_run_def)

subsection \<open>Nothing is lost, doubled or reordered\<close>

text \<open>The stream is open on a file after which nothing has been written.\<close>

definition lf_ok :: "log_file \<Rightarrow> bool" where
  "lf_ok f \<longleftrightarrow> (\<exists>i. lf_stream f = Some i \<and> i < length (lf_files f) \<and> concat (drop (Suc i) (lf_files f)) = []) \<and>
     (lf_named f \<longrightarrow> lf_files f \<noteq> [])"

lemma create_ok [simp]: "lf_ok f \<Longrightarrow> lf_ok (lf_create f)" "lf_text (lf_create f) = lf_text f"
  by (auto simp: lf_ok_def lf_create_def lf_text_def)

lemma remove_ok [simp]: "lf_ok f \<Longrightarrow> lf_ok (lf_remove f)" "lf_text (lf_remove f) = lf_text f"
  by (auto simp: lf_ok_def lf_remove_def lf_text_def)

lemma open_ok [simp]: "lf_named f \<longrightarrow> lf_files f \<noteq> [] \<Longrightarrow> lf_ok (ofs_open True f)"
  by (auto simp: lf_ok_def ofs_open_def lf_create_def)

lemma open_text [simp]: "lf_text (ofs_open ok f) = lf_text f" "lf_text (ofs_close f) = lf_text f"
  by (auto simp: lf_text_def ofs_open_def lf_create_def ofs_close_def)

lemma reopen_ok [simp]: "lf_ok f \<Longrightarrow> lf_ok (ofs_open True (ofs_close f))"
  by (simp add: ofs_close_def lf_ok_def) (auto simp: lf_ok_def ofs_open_def lf_create_def)

lemma write_ok [simp]: "lf_ok f \<Longrightarrow> lf_ok (ofs_write s f)"
  by (auto simp: lf_ok_def ofs_write_def)

lemma write_text [simp]: "lf_ok f \<Longrightarrow> lf_text (ofs_write s f) = lf_text f @ s"
proof -
  assume "lf_ok f"
  then obtain i where i: "lf_stream f = Some i" "i < length (lf_files f)" "concat (drop (Suc i) (lf_files f)) = []"
    by (auto simp: lf_ok_def)
  have "lf_text (ofs_write s f) = concat (take i (lf_files f)) @ lf_files f ! i @ s @ concat (drop (Suc i) (lf_files f))"
    using i by (simp add: lf_text_def ofs_write_def upd_conv_take_nth_drop)
  moreover have "lf_text f = concat (take i (lf_files f)) @ lf_files f ! i @ concat (drop (Suc i) (lf_files f))"
    using id_take_nth_drop [OF i(2)] by (metis append.assoc concat.simps(2) concat_append lf_text_def)
  ultimately show ?thesis using i(3) by simp
qed

text \<open>What the thread holds for a file between emptying the queue and writing.\<close>

definition held :: "xrtc_log \<Rightarrow> string" where
  "held l = (case xl_thread l of Some (L_write w) \<Rightarrow> xl_ss l | _ \<Rightarrow> [])"

definition held_wf :: "xrtc_log \<Rightarrow> string" where
  "held_wf l = (case xl_thread l of Some (L_write_wf w) \<Rightarrow> xl_ss l | _ \<Rightarrow> [])"

definition accepted :: "xrtc_log \<Rightarrow> string" where
  "accepted l = lf_text (xl_out_file l) @ held l @ concat (xl_queue l)"

definition accepted_wf :: "xrtc_log \<Rightarrow> string" where
  "accepted_wf l = lf_text (xl_out_file_wf l) @ held_wf l @ concat (xl_queue_wf l)"

definition xl_ok :: "xrtc_log \<Rightarrow> bool" where
  "xl_ok l \<longleftrightarrow> lf_ok (xl_out_file l) \<and> lf_ok (xl_out_file_wf l) \<and>
     (case xl_thread l of Some (L_write w) \<Rightarrow> w \<or> xl_ss l = [] | Some (L_write_wf w) \<Rightarrow> w \<or> xl_ss l = [] | _ \<Rightarrow> xl_ss l = [])"

fun logged :: "bool \<Rightarrow> log_event list \<Rightarrow> string" where
  "logged high [] = []"
| "logged high (Ev_log m sev # evs) = (if (LS_WARNING \<le> sev) = high then m else []) @ logged high evs"
| "logged high (_ # evs) = logged high evs"

lemma step_accepted:
  assumes "xl_ok l" "e \<noteq> Ev_thread False"
  shows "xl_ok (log_step e l) \<and> accepted (log_step e l) = accepted l @ logged False [e] \<and>
    accepted_wf (log_step e l) = accepted_wf l @ logged True [e]"
proof (cases e)
  case (Ev_thread ok)
  show ?thesis
  proof (cases "xl_thread l")
    case None then show ?thesis using assms Ev_thread by simp
  next
    case (Some p)
    show ?thesis
      using assms Ev_thread Some
      by (cases p) (auto simp: xl_ok_def accepted_def accepted_wf_def held_def held_wf_def log_thread_step_def)
  qed
qed (use assms in \<open>auto simp: xl_ok_def accepted_def accepted_wf_def held_def held_wf_def OnLogMessage_def
      split: option.splits log_pc.splits\<close>)

lemma log_conserves1:
  assumes "xl_ok l" "Ev_thread False \<notin> set evs"
  shows "accepted (log_run evs l) = accepted l @ logged False evs \<and>
    accepted_wf (log_run evs l) = accepted_wf l @ logged True evs"
  using assms
proof (induction evs arbitrary: l)
  case (Cons e evs)
  have "xl_ok (log_step e l)" "accepted (log_step e l) = accepted l @ logged False [e]"
    "accepted_wf (log_step e l) = accepted_wf l @ logged True [e]"
    using step_accepted [OF Cons.prems(1), of e] Cons.prems(2) by auto
  moreover have "logged high (e # evs) = logged high [e] @ logged high evs" for high by (cases e) simp_all
  ultimately show ?case using Cons by simp
qed simp

text \<open>C28: However messages of any threads, the steps of the log thread, stop and the
  removal or creation of the log files by others interleave: as long as reopening succeeds, each
  of the two logs consists of exactly the accepted messages of its severities in the order they
  came; in the files, in the hands of the thread, or still queued.\<close>

theorem log_conserves:
  assumes "xl_ok l" "Ev_thread False \<notin> set evs"
  shows "accepted (log_run evs l) = accepted l @ logged False evs \<and>
    accepted_wf (log_run evs l) = accepted_wf l @ logged True evs"
  by (rule log_conserves1 [OF assms])

text \<open>A log whose \<open>init\<close> succeeded, started.\<close>

definition fresh_name :: log_file where "fresh_name = \<lparr>lf_files = [], lf_named = False, lf_stream = None\<rparr>"

definition demo_log :: xrtc_log where
  "demo_log = snd (xl_start (fst (snd (the (xl_init 7 Mk_made True True
     (XrtcLog ''./log'' ''xrtcserver'' ''info'' fresh_name fresh_name) log_initial)))))"

lemma init_ok:
  assumes "xl_init self mk o1 o2 (XrtcLog d n v f f_wf) g = Some (0, l, g1)"
    "lf_named f \<longrightarrow> lf_files f \<noteq> []" "lf_named f_wf \<longrightarrow> lf_files f_wf \<noteq> []"
  shows "xl_ok (snd (xl_start l)) \<and> xl_thread (snd (xl_start l)) = Some L_while \<and> xl_running (snd (xl_start l)) \<and>
    xl_queue (snd (xl_start l)) = [] \<and> xl_queue_wf (snd (xl_start l)) = []"
proof -
  have "o1" "o2" using assms(1)
    by (auto simp: xl_init_def XrtcLog_def ofs_open_def ofs_close_def bind_eq_Some_conv Let_def split: if_splits)
  then have "l = (XrtcLog d n v f f_wf)\<lparr>xl_out_file := ofs_open True (ofs_close f), xl_out_file_wf := ofs_open True (ofs_close f_wf)\<rparr>"
    using assms(1) by (auto simp: xl_init_def XrtcLog_def bind_eq_Some_conv Let_def split: if_splits)
  moreover have "lf_ok (ofs_open True (ofs_close f))" "lf_ok (ofs_open True (ofs_close f_wf))"
    using assms(2,3) by (auto intro!: open_ok simp: ofs_close_def)
  ultimately show ?thesis by (simp add: xl_ok_def xl_start_def XrtcLog_def)
qed

lemma configure_inv:
  assumes "log_inv xs g"
  shows "\<exists>g1. ConfigureLogging ''thread tstamp'' g = Some g1 \<and> log_inv xs g1 \<and> lg_min_severity g1 = lg_min_severity g \<and>
    g_dbg_sev g1 = g_dbg_sev g \<and> lg_to_stderr g1 = lg_to_stderr g"
proof -
  have "ConfigureLogging ''thread tstamp'' g = UpdateMinLogSeverity (g\<lparr>lg_thread := True, lg_timestamp := True, g_dbg_sev := g_dbg_sev g\<rparr>)"
    by (simp add: ConfigureLogging_def tokenize_def configure_token_def LogThreads_def LogTimestamps_def LogToDebug_def)
  then show ?thesis
    using update_min [of "g\<lparr>lg_thread := True, lg_timestamp := True, g_dbg_sev := g_dbg_sev g\<rparr>" xs] assms
    by (simp add: log_inv_def)
qed

text \<open>\<open>init\<close> registers the log with its level, even when it then fails.\<close>

lemma init_registers:
  assumes "log_inv xs g" "self \<notin> set xs"
  shows "\<exists>r l g1. xl_init self mk o1 o2 (XrtcLog d n v f f_wf) g = Some (r, l, g1) \<and> log_inv (self # xs) g1 \<and>
    lg_min_severity g1 self = get_log_level v \<and> g_dbg_sev g1 = g_dbg_sev g \<and> lg_to_stderr g1 = lg_to_stderr g \<and>
    r = (if mk \<noteq> Mk_failed \<and> o1 \<and> o2 then 0 else -1)"
proof -
  obtain g1 where g1: "ConfigureLogging ''thread tstamp'' g = Some g1" "log_inv xs g1" "g_dbg_sev g1 = g_dbg_sev g"
    "lg_to_stderr g1 = lg_to_stderr g" using configure_inv [OF assms(1)] by blast
  then have "log_inv xs (SetLogPathPrefix ''/src'' g1)" by (simp add: log_inv_def SetLogPathPrefix_def)
  from add_inv [OF this assms(2), of "get_log_level v"] obtain g2 where g2:
    "AddLogToStream self (get_log_level v) (SetLogPathPrefix ''/src'' g1) = Some g2" "log_inv (self # xs) g2"
    "lg_min_severity g2 self = get_log_level v" "g_dbg_sev g2 = g_dbg_sev g" "lg_to_stderr g2 = lg_to_stderr g"
    using g1 by (auto simp: SetLogPathPrefix_def)
  then show ?thesis using g1(1) by (auto simp: xl_init_def XrtcLog_def Let_def ofs_open_def ofs_close_def)
qed

lemma demo_init:
  obtains l g1 where "xl_init 7 Mk_made True True (XrtcLog ''./log'' ''xrtcserver'' ''info'' fresh_name fresh_name) log_initial
    = Some (0, l, g1)"
  using init_registers [OF initial_inv, of 7 Mk_made True True "''./log''" "''xrtcserver''" "''info''" fresh_name fresh_name] by auto

lemma demo_log_ok: "xl_ok demo_log" "xl_thread demo_log = Some L_while" "xl_running demo_log" "xl_queue demo_log = []"
proof -
  obtain l g1 where i: "xl_init 7 Mk_made True True (XrtcLog ''./log'' ''xrtcserver'' ''info'' fresh_name fresh_name) log_initial
      = Some (0, l, g1)" by (rule demo_init)
  show "xl_ok demo_log" "xl_thread demo_log = Some L_while" "xl_running demo_log" "xl_queue demo_log = []"
    using init_ok [OF i] i by (simp_all add: demo_log_def fresh_name_def)
qed

theorem log_conserves_witness:
  "accepted (log_run ([Ev_log ''a'' LS_INFO] @ replicate 5 (Ev_thread True) @ [Ev_remove, Ev_log ''b'' LS_ERROR, Ev_log ''c'' LS_VERBOSE]
     @ replicate 4 (Ev_thread True)) demo_log) = accepted demo_log @ ''ac''"
  using log_conserves [OF demo_log_ok(1), of "[Ev_log ''a'' LS_INFO] @ replicate 5 (Ev_thread True) @
      [Ev_remove, Ev_log ''b'' LS_ERROR, Ev_log ''c'' LS_VERBOSE] @ replicate 4 (Ev_thread True)"]
  by (simp add: numeral_eq_Suc less_eq_logging_severity_def del: log_step.simps)

text \<open>After \<open>init\<close>, even one that failed, the log gets the messages from its level on.\<close>

theorem log_routed:
  assumes "xl_init self mk o1 o2 (XrtcLog d n v f f_wf) log_initial = Some (r, l, g)"
  shows "\<exists>sinks. rtc_log_call sev g = Some (True, sinks) \<and> sinks = (if get_log_level v \<le> sev then [self] else [])"
proof -
  from init_registers [OF initial_inv, of self mk o1 o2 d n v f f_wf] assms
  have "log_inv [self] g" "lg_min_severity g self = get_log_level v" "g_dbg_sev g = LS_VERBOSE" "lg_to_stderr g"
    by (auto simp: log_initial_def)
  then show ?thesis using deliver_inv [of "[self]" g sev] by (simp add: less_eq_logging_severity_def)
qed

text \<open>The level \<open>debug\<close>, which the comment of the configuration file offers, is no level: such a log
  gets no message below \<open>LS_NONE\<close>, that is none.\<close>

lemma level_debug: "get_log_level ''debug'' = LS_NONE"
  by (simp add: get_log_level_def)

subsection \<open>A round of the thread empties the queues\<close>

definition thread_steps :: "nat \<Rightarrow> xrtc_log \<Rightarrow> xrtc_log" where
  "thread_steps n l = log_run (replicate n (Ev_thread True)) l"

lemma thread_steps_simps [simp]:
  "thread_steps 0 l = l" "thread_steps (Suc n) l = thread_steps n (log_step (Ev_thread True) l)"
  by (simp_all add: thread_steps_def)

lemma logged_steps [simp]: "logged high (replicate n (Ev_thread ok)) = []"
  by (induction n) simp_all

text \<open>At most nine steps of the thread write everything that waits.\<close>

theorem log_flushed:
  assumes "xl_ok l" "xl_running l" "xl_thread l = Some L_while"
  shows "\<exists>n \<le> 9. lf_text (xl_out_file (thread_steps n l)) = lf_text (xl_out_file l) @ concat (xl_queue l) \<and>
    lf_text (xl_out_file_wf (thread_steps n l)) = lf_text (xl_out_file_wf l) @ concat (xl_queue_wf l) \<and>
    xl_queue (thread_steps n l) = [] \<and> xl_queue_wf (thread_steps n l) = [] \<and> xl_thread (thread_steps n l) = Some L_while"
proof -
  let ?n = "7 + (if stat_ok (xl_out_file l) then 0 else 1) + (if stat_ok (xl_out_file_wf l) then 0 else 1)"
  have "log_run (replicate ?n (Ev_thread True)) l = thread_steps ?n l" by (simp add: thread_steps_def)
  then have a: "accepted (thread_steps ?n l) = accepted l" "accepted_wf (thread_steps ?n l) = accepted_wf l"
    using log_conserves1 [OF assms(1), of "replicate ?n (Ev_thread True)"] by simp_all
  have q: "xl_queue (thread_steps ?n l) = []" "xl_queue_wf (thread_steps ?n l) = []" "xl_thread (thread_steps ?n l) = Some L_while"
    using assms(2,3) by (simp_all add: eval_nat_numeral log_thread_step_def)
  have "held l = []" "held_wf l = []" using assms(3) by (simp_all add: held_def held_wf_def)
  then have "lf_text (xl_out_file (thread_steps ?n l)) = lf_text (xl_out_file l) @ concat (xl_queue l) \<and>
    lf_text (xl_out_file_wf (thread_steps ?n l)) = lf_text (xl_out_file_wf l) @ concat (xl_queue_wf l)"
    using a q by (simp add: accepted_def accepted_wf_def held_def held_wf_def)
  moreover have "?n \<le> (9::nat)" by simp
  ultimately show ?thesis using q by blast
qed

theorem log_flushed_witness:
  "\<exists>n \<le> 9. lf_text (xl_out_file (thread_steps n (OnLogMessage ''x'' LS_INFO demo_log))) = lf_text (xl_out_file demo_log) @ ''x''"
proof -
  let ?l = "OnLogMessage ''x'' LS_INFO demo_log"
  have "xl_ok ?l" "xl_running ?l" "xl_thread ?l = Some L_while" "xl_queue ?l = [''x'']" "xl_out_file ?l = xl_out_file demo_log"
    using demo_log_ok by (simp_all add: OnLogMessage_def less_eq_logging_severity_def xl_ok_def)
  then show ?thesis using log_flushed [of ?l] by auto
qed

subsection \<open>What stopping loses\<close>

lemma stopped_step:
  assumes "\<not> xl_running l" "xl_thread l \<in> {Some L_while, Some L_done, None}"
  shows "\<not> xl_running (log_step e l) \<and> xl_thread (log_step e l) \<in> {Some L_while, Some L_done, None} \<and>
    lf_text (xl_out_file (log_step e l)) = lf_text (xl_out_file l) \<and>
    lf_text (xl_out_file_wf (log_step e l)) = lf_text (xl_out_file_wf l) \<and>
    set (xl_queue l) \<subseteq> set (xl_queue (log_step e l)) \<and> set (xl_queue_wf l) \<subseteq> set (xl_queue_wf (log_step e l))"
  using assms by (cases e) (auto simp: OnLogMessage_def log_thread_step_def lf_create_def lf_remove_def lf_text_def)

lemma stopped_run:
  assumes "\<not> xl_running l" "xl_thread l \<in> {Some L_while, Some L_done, None}"
  shows "lf_text (xl_out_file (log_run evs l)) = lf_text (xl_out_file l) \<and>
    lf_text (xl_out_file_wf (log_run evs l)) = lf_text (xl_out_file_wf l) \<and>
    set (xl_queue l) \<subseteq> set (xl_queue (log_run evs l)) \<and> set (xl_queue_wf l) \<subseteq> set (xl_queue_wf (log_run evs l))"
  using assms
proof (induction evs arbitrary: l)
  case (Cons e evs)
  from stopped_step [OF Cons.prems, of e] Cons.IH [of "log_step e l"] show ?case by auto
qed simp

text \<open>C30: A message logged while the log thread sleeps, before stop is called, is never
  written, whatever happens afterwards: the thread ends without emptying the queues.\<close>

theorem stop_loses_messages:
  assumes "xl_thread l = Some L_while"
  shows "let l1 = log_run (Ev_log m sev # Ev_stop # evs) l in
    lf_text (xl_out_file l1) = lf_text (xl_out_file l) \<and> lf_text (xl_out_file_wf l1) = lf_text (xl_out_file_wf l) \<and>
    m \<in> set (if LS_WARNING \<le> sev then xl_queue_wf l1 else xl_queue l1)"
proof -
  let ?l = "log_step Ev_stop (log_step (Ev_log m sev) l)"
  have "\<not> xl_running ?l" "xl_thread ?l \<in> {Some L_while, Some L_done, None}"
    using assms by (auto simp: OnLogMessage_def)
  from stopped_run [OF this, of evs] show ?thesis by (auto simp: Let_def OnLogMessage_def split: if_splits)
qed

theorem stop_loses_messages_witness:
  "''bye'' \<in> set (xl_queue (log_run [Ev_log ''bye'' LS_INFO, Ev_stop, Ev_thread True, Ev_thread True, Ev_join] demo_log))"
  using stop_loses_messages [OF demo_log_ok(2), of "''bye''" LS_INFO "[Ev_thread True, Ev_thread True, Ev_join]"]
  by (simp add: Let_def less_eq_logging_severity_def del: log_run_simps)

text \<open>The thread asks only whether the name exists.  When a file is moved away and another made under
  its name before the thread looks, the thread goes on writing to the file that was moved.\<close>

lemma moved_and_replaced:
  assumes "lf_ok f" "lf_named f"
  shows "stat_ok (lf_create (lf_remove f)) \<and> lf_stream (lf_create (lf_remove f)) = lf_stream f \<and>
    last (lf_files (ofs_write s (lf_create (lf_remove f)))) = []"
proof -
  obtain i where i: "lf_stream f = Some i" "i < length (lf_files f)" using assms by (auto simp: lf_ok_def)
  have "(lf_files f @ [[]])[i := t] \<noteq> [] \<and> last ((lf_files f @ [[]])[i := t]) = []" for t
    using i by (simp add: list_update_append)
  then show ?thesis using assms i by (simp add: lf_create_def lf_remove_def stat_ok_def ofs_write_def nth_append)
qed

subsection \<open>The lock of the list of sinks and the signal handler\<close>

text \<open>The destructor of a message takes the lock of the list, hands the message to the sinks and
  returns the lock; the lock is a plain pthread mutex, taken again by its holder it blocks.
  \<open>process_signal\<close> of \<open>main.cpp\<close> logs a message and then stops the servers.  A signal interrupts its
  thread anywhere: what the handler has to do comes before what the thread was doing.\<close>

datatype log_act = Act_lock | Act_deliver | Act_unlock | Act_stop_servers

record log_threads =
  lt_mutex :: "nat option"
  lt_todo :: "nat \<Rightarrow> log_act list"
  lt_delivered :: nat
  lt_stopped :: bool

definition message_acts :: "log_act list" where "message_acts = [Act_lock, Act_deliver, Act_unlock]"
definition process_signal :: "log_act list" where "process_signal = message_acts @ [Act_stop_servers]"

datatype lock_event = Lk_message nat | Lk_signal nat | Lk_step nat

definition act_step :: "nat \<Rightarrow> log_threads \<Rightarrow> log_threads" where
  "act_step t s = (case lt_todo s t of [] \<Rightarrow> s
     | a # as \<Rightarrow> let s1 = s\<lparr>lt_todo := (lt_todo s)(t := as)\<rparr> in
       (case a of Act_lock \<Rightarrow> if lt_mutex s = None then s1\<lparr>lt_mutex := Some t\<rparr> else s
        | Act_deliver \<Rightarrow> s1\<lparr>lt_delivered := Suc (lt_delivered s)\<rparr>
        | Act_unlock \<Rightarrow> s1\<lparr>lt_mutex := None\<rparr>
        | Act_stop_servers \<Rightarrow> s1\<lparr>lt_stopped := True\<rparr>))"

primrec lock_step :: "lock_event \<Rightarrow> log_threads \<Rightarrow> log_threads" where
  "lock_step (Lk_message t) s = (if lt_todo s t = [] then s\<lparr>lt_todo := (lt_todo s)(t := message_acts)\<rparr> else s)"
| "lock_step (Lk_signal t) s = s\<lparr>lt_todo := (lt_todo s)(t := process_signal @ lt_todo s t)\<rparr>"
| "lock_step (Lk_step t) s = act_step t s"

inductive lock_reach :: "log_threads \<Rightarrow> bool" where
  lr_init: "lock_reach \<lparr>lt_mutex = None, lt_todo = (\<lambda>_. []), lt_delivered = 0, lt_stopped = False\<rparr>"
| lr_step: "lock_reach s \<Longrightarrow> lock_reach (lock_step e s)"

definition lock_run :: "lock_event list \<Rightarrow> log_threads \<Rightarrow> log_threads" where
  "lock_run evs s = foldl (\<lambda>s e. lock_step e s) s evs"

lemma lock_reach_run: "lock_reach s \<Longrightarrow> lock_reach (lock_run evs s)"
  by (induction evs arbitrary: s) (auto simp: lock_run_def intro: lr_step)

text \<open>Who has not the lock takes it before delivering.\<close>

fun waits :: "log_act list \<Rightarrow> bool" where
  "waits [] \<longleftrightarrow> True"
| "waits (Act_lock # Act_deliver # Act_unlock # as) \<longleftrightarrow> waits as"
| "waits (Act_stop_servers # as) \<longleftrightarrow> waits as"
| "waits _ \<longleftrightarrow> False"

fun holds :: "log_act list \<Rightarrow> bool" where
  "holds (Act_deliver # Act_unlock # as) \<longleftrightarrow> waits as"
| "holds (Act_unlock # as) \<longleftrightarrow> waits as"
| "holds (Act_lock # Act_deliver # Act_unlock # as) \<longleftrightarrow> holds as"
| "holds (Act_stop_servers # as) \<longleftrightarrow> holds as"
| "holds _ \<longleftrightarrow> False"

definition lock_inv :: "log_threads \<Rightarrow> bool" where
  "lock_inv s \<longleftrightarrow> (\<forall>t. if lt_mutex s = Some t then holds (lt_todo s t) else waits (lt_todo s t))"

lemma signal_waits [simp]: "waits (process_signal @ as) = waits as" "holds (process_signal @ as) = holds as" "waits message_acts"
  by (simp_all add: process_signal_def message_acts_def)

lemma waits_ConsE:
  assumes "waits (a # as)"
  obtains bs where "a = Act_lock" "as = Act_deliver # Act_unlock # bs" "waits bs" | "a = Act_stop_servers" "waits as"
  using assms by (cases "a # as" rule: waits.cases) auto

lemma holds_ConsE:
  assumes "holds (a # as)"
  obtains bs where "a = Act_deliver" "as = Act_unlock # bs" "waits bs" | "a = Act_unlock" "waits as"
    | bs where "a = Act_lock" "as = Act_deliver # Act_unlock # bs" "holds bs" | "a = Act_stop_servers" "holds as"
  using assms by (cases "a # as" rule: holds.cases) auto

lemma act_step_inv:
  assumes "lock_inv s"
  shows "lock_inv (act_step t s)"
proof (cases "lt_todo s t")
  case Nil then show ?thesis using assms by (simp add: act_step_def)
next
  case (Cons a as)
  have w: "if lt_mutex s = Some t then holds (a # as) else waits (a # as)" using assms Cons by (metis lock_inv_def)
  show ?thesis
  proof (cases "lt_mutex s = Some t")
    case True
    then have "holds (a # as)" using w by simp
    then show ?thesis
      by (rule holds_ConsE) (use assms True Cons in \<open>auto simp: lock_inv_def act_step_def split: if_splits\<close>)
  next
    case False
    then have "waits (a # as)" using w by simp
    then show ?thesis
      by (rule waits_ConsE) (use assms False Cons in \<open>auto simp: lock_inv_def act_step_def split: if_splits\<close>)
  qed
qed

lemma lock_reach_inv: "lock_reach s \<Longrightarrow> lock_inv s"
proof (induction rule: lock_reach.induct)
  case lr_init then show ?case by (simp add: lock_inv_def)
next
  case (lr_step s e)
  have "lt_mutex s \<noteq> Some t" if "lt_todo s t = []" for t
    using lr_step.IH that by (metis holds.simps(5) lock_inv_def)
  then show ?case using lr_step.IH by (cases e) (auto simp: act_step_inv, auto simp: lock_inv_def)
qed

text \<open>The state that a signal on the holder of the lock leaves behind.\<close>

definition stuck :: "nat \<Rightarrow> log_threads \<Rightarrow> bool" where
  "stuck t s \<longleftrightarrow> lt_mutex s = Some t \<and> (\<exists>as. lt_todo s t = Act_lock # as) \<and>
     (\<forall>u. u \<noteq> t \<longrightarrow> lt_todo s u = [] \<or> hd (lt_todo s u) \<in> {Act_lock, Act_stop_servers})"

lemma stuck_step:
  assumes "stuck t s" "lock_inv s"
  shows "stuck t (lock_step e s) \<and> lt_delivered (lock_step e s) = lt_delivered s"
proof (cases e)
  case (Lk_step u)
  show ?thesis
  proof (cases "u = t")
    case True then show ?thesis using assms Lk_step by (auto simp: stuck_def act_step_def)
  next
    case False
    then have m: "lt_mutex s = Some t" "waits (lt_todo s u)" using assms by (auto simp: stuck_def lock_inv_def)
    show ?thesis
    proof (cases "lt_todo s u")
      case Nil then show ?thesis using assms Lk_step by (simp add: act_step_def)
    next
      case (Cons a as)
      from m(2) [unfolded Cons] show ?thesis
      proof (rule waits_ConsE)
        fix bs assume "a = Act_lock" then show ?thesis using assms m Lk_step Cons by (simp add: act_step_def)
      next
        assume a: "a = Act_stop_servers" "waits as"
        have "as = [] \<or> hd as \<in> {Act_lock, Act_stop_servers}" using a(2) by (cases as) (auto elim: waits_ConsE)
        then show ?thesis using assms(1) a Lk_step Cons False by (auto simp: act_step_def stuck_def)
      qed
    qed
  qed
qed (use assms in \<open>auto simp: stuck_def message_acts_def process_signal_def\<close>)

lemma stuck_run:
  assumes "stuck t s" "lock_reach s"
  shows "stuck t (lock_run evs s) \<and> lt_delivered (lock_run evs s) = lt_delivered s"
  using assms
proof (induction evs arbitrary: s)
  case (Cons e evs)
  from stuck_step [OF Cons.prems(1) lock_reach_inv [OF Cons.prems(2)], of e] Cons.IH [of "lock_step e s"] lr_step [OF Cons.prems(2)]
  show ?case by (auto simp: lock_run_def)
qed (simp add: lock_run_def)

text \<open>C29: A signal that interrupts a thread while it holds the lock of the log sinks ends
  all logging of the process: the handler logs, waits for the lock its own thread holds, and no
  run delivers another message.\<close>

theorem signal_deadlock:
  assumes "lock_reach s" "lt_mutex s = Some t"
  shows "lt_delivered (lock_run (Lk_signal t # evs) s) = lt_delivered s \<and>
    lt_mutex (lock_run (Lk_signal t # evs) s) = Some t \<and>
    (\<exists>as. lt_todo (lock_run (Lk_signal t # evs) s) t = Act_lock # as)"
proof -
  have "waits (lt_todo s u) \<Longrightarrow> lt_todo s u = [] \<or> hd (lt_todo s u) \<in> {Act_lock, Act_stop_servers}" for u
    by (cases "lt_todo s u") (auto elim: waits_ConsE)
  then have "stuck t (lock_step (Lk_signal t) s)"
    using lock_reach_inv [OF assms(1)] assms(2) by (auto simp: stuck_def lock_inv_def process_signal_def message_acts_def)
  from stuck_run [OF this lr_step [OF assms(1)], of evs] show ?thesis by (auto simp: lock_run_def stuck_def)
qed

theorem signal_deadlock_witness:
  "lt_delivered (lock_run [Lk_signal 3, Lk_message 4, Lk_step 4, Lk_step 3, Lk_step 3]
     (lock_run [Lk_message 3, Lk_step 3] \<lparr>lt_mutex = None, lt_todo = (\<lambda>_. []), lt_delivered = 0, lt_stopped = False\<rparr>)) = 0"
proof -
  let ?s = "lock_run [Lk_message 3, Lk_step 3] \<lparr>lt_mutex = None, lt_todo = (\<lambda>_. []), lt_delivered = 0, lt_stopped = False\<rparr>"
  have s: "lt_mutex ?s = Some 3" "lt_delivered ?s = 0" by (simp_all add: lock_run_def act_step_def message_acts_def)
  from signal_deadlock [OF lock_reach_run [OF lr_init] s(1)] s(2) show ?thesis by simp
qed

end
