(* ===== verification/Startup.thy ===== *)
theory Startup
  imports Log_Thread Signaling_Server Rtc_Server
begin

text \<open>
  \<open>base/conf.*\<close> and \<open>main.cpp\<close>: reading the configuration and starting the servers.  yaml-cpp is a
  parameter: what \<open>LoadFile\<close> gives for a name and what the conversion of an entry gives, each
  \<open>None\<close> when it throws.
\<close>

record general_conf =
  gc_log_dir :: string
  gc_log_name :: string
  gc_log_level :: string
  gc_log_to_stderr :: bool
  gc_ice_min_port :: int
  gc_ice_max_port :: int

record 'y yaml =
  ya_load :: "string \<Rightarrow> 'y option"
  ya_string :: "'y \<Rightarrow> string \<Rightarrow> string \<Rightarrow> string option"
  ya_bool :: "'y \<Rightarrow> string \<Rightarrow> string \<Rightarrow> bool option"
  ya_int :: "'y \<Rightarrow> string \<Rightarrow> string \<Rightarrow> int option"

text \<open>One assignment of the \<open>try\<close> block: it is skipped once an entry has thrown.\<close>

definition conf_set :: "('v \<Rightarrow> general_conf \<Rightarrow> general_conf) \<Rightarrow> 'v option \<Rightarrow> bool \<times> general_conf \<Rightarrow> bool \<times> general_conf" where
  "conf_set upd v r = (case (r, v) of ((True, c), Some x) \<Rightarrow> (True, upd x c) | ((_, c), _) \<Rightarrow> (False, c))"

definition conf_defaults :: "general_conf \<Rightarrow> general_conf" where
  "conf_defaults c = c\<lparr>gc_log_dir := ''./log'', gc_log_name := ''undefined'', gc_log_level := ''info'', gc_log_to_stderr := False\<rparr>"

definition conf_entries :: "'y yaml \<Rightarrow> 'y \<Rightarrow> general_conf \<Rightarrow> bool \<times> general_conf" where
  "conf_entries Y y c =
     conf_set (\<lambda>v. gc_ice_max_port_update (\<lambda>_. v)) (ya_int Y y ''ice'' ''max_port'')
    (conf_set (\<lambda>v. gc_ice_min_port_update (\<lambda>_. v)) (ya_int Y y ''ice'' ''min_port'')
    (conf_set (\<lambda>v. gc_log_to_stderr_update (\<lambda>_. v)) (ya_bool Y y ''log'' ''log_to_stderr'')
    (conf_set (\<lambda>v. gc_log_level_update (\<lambda>_. v)) (ya_string Y y ''log'' ''log_level'')
    (conf_set (\<lambda>v. gc_log_name_update (\<lambda>_. v)) (ya_string Y y ''log'' ''log_name'')
    (conf_set (\<lambda>v. gc_log_dir_update (\<lambda>_. v)) (ya_string Y y ''log'' ''log_dir'') (True, c))))))"

text \<open>The result and the configuration afterwards; \<open>None\<close> is the exception of \<open>LoadFile\<close>, which
  nothing catches.\<close>

definition load_general_conf ::
  "'y yaml \<Rightarrow> string option \<Rightarrow> general_conf option \<Rightarrow> (int \<times> general_conf option) option" where
  "load_general_conf Y filename conf = (case (filename, conf) of
       (Some f, Some c) \<Rightarrow> do {
         y \<leftarrow> ya_load Y f;
         let r = conf_entries Y y (conf_defaults c) in Some (if fst r then 0 else -1, Some (snd r)) }
     | _ \<Rightarrow> Some (-1, conf))"

definition init_general_conf :: "'y yaml \<Rightarrow> string option \<Rightarrow> general_conf \<Rightarrow> (int \<times> general_conf option) option" where
  "init_general_conf Y filename fresh = (case filename of None \<Rightarrow> Some (-1, None)
     | Some f \<Rightarrow> do {
         (ret, c) \<leftarrow> load_general_conf Y (Some f) (Some fresh);
         Some (if ret \<noteq> 0 then -1 else 0, c) })"

text \<open>What the system and the files answer during a start.\<close>

record start_world =
  w_fresh :: general_conf
  w_mkdir :: sys_mkdir
  w_open :: bool
  w_open_wf :: bool
  w_log_names :: "log_file \<times> log_file"
  w_signaling :: "signaling_options option"
  w_pipe :: bool
  w_listen :: bool
  w_worker_started :: "nat \<Rightarrow> bool"
  w_rtc :: "int option"
  w_expired :: "nat \<Rightarrow> bool"
  w_generated :: "nat option"
  w_rtc_pipe :: bool
  w_rtc_started :: "nat \<Rightarrow> bool"

record program =
  p_log :: xrtc_log
  p_rtc_log :: rtc_log
  p_signaling :: signaling_server
  p_rtc :: rtc_server

text \<open>A start: \<open>main\<close> returns with a code, or the two servers run and \<open>main\<close> waits for them.\<close>

datatype main_result = Main_returns int | Main_waits program

definition init_log ::
  "nat \<Rightarrow> start_world \<Rightarrow> general_conf \<Rightarrow> rtc_log \<Rightarrow> (int \<times> xrtc_log \<times> rtc_log) option" where
  "init_log self w c g = do {
     (ret, l, g1) \<leftarrow> xl_init self (w_mkdir w) (w_open w) (w_open_wf w)
       (XrtcLog (gc_log_dir c) (gc_log_name c) (gc_log_level c) (fst (w_log_names w)) (snd (w_log_names w))) g;
     Some (if ret \<noteq> 0 then (-1, l, g1) else (0, snd (xl_start l), g1)) }"

definition init_signaling_server :: "start_world \<Rightarrow> int \<times> signaling_server" where
  "init_signaling_server w = (let r = ss_init (w_signaling w) (w_pipe w) (w_listen w) (w_worker_started w) SignalingServer in
     (if fst r \<noteq> 0 then -1 else 0, snd r))"

definition init_rtc_server :: "start_world \<Rightarrow> int \<times> rtc_server" where
  "init_rtc_server w = (let r = rsv_init (w_rtc w) (w_expired w) (w_generated w) (w_rtc_pipe w) (w_rtc_started w) RtcServer in
     (if fst r \<noteq> 0 then -1 else 0, snd r))"

definition main_start :: "'y yaml \<Rightarrow> nat \<Rightarrow> start_world \<Rightarrow> main_result option" where
  "main_start Y self w = do {
     (ret, conf) \<leftarrow> init_general_conf Y (Some ''./conf/general.yaml'') (w_fresh w);
     if ret \<noteq> 0 then Some (Main_returns (-1)) else do {
       c \<leftarrow> conf;
       (ret2, l, g) \<leftarrow> init_log self w c log_initial;
       if ret2 \<noteq> 0 then Some (Main_returns (-1)) else
         let g1 = SetLogToStderr (gc_log_to_stderr c) g; s = init_signaling_server w; r = init_rtc_server w in
         if fst s \<noteq> 0 then Some (Main_returns (-1))
         else if fst r \<noteq> 0 then Some (Main_returns (-1))
         else Some (Main_waits \<lparr>p_log = l, p_rtc_log = g1, p_signaling = snd (ss_start (snd s)), p_rtc = snd (rsv_start (snd r))\<rparr>) } }"

text \<open>The handler of \<open>SIGINT\<close> (2) and \<open>SIGTERM\<close> (15): it asks the servers to stop, over their pipes.\<close>

definition signal_servers :: "bool \<Rightarrow> bool \<Rightarrow> int \<Rightarrow> program \<Rightarrow> program" where
  "signal_servers ok rtc_ok sig p = (if sig = 2 \<or> sig = 15
     then p\<lparr>p_signaling := snd (ss_notify ok 0 (p_signaling p)), p_rtc := snd (rsv_notify rtc_ok RTC_SERVER_QUIT (p_rtc p))\<rparr>
     else p)"

subsection \<open>What a start gives\<close>

lemma conf_set_ok [simp]: "fst (conf_set upd v r) \<longleftrightarrow> fst r \<and> v \<noteq> None"
  by (cases r; cases v) (auto simp: conf_set_def split: bool.splits)

definition conf_complete :: "'y yaml \<Rightarrow> 'y \<Rightarrow> bool" where
  "conf_complete Y y \<longleftrightarrow> (\<forall>k \<in> {''log_dir'', ''log_name'', ''log_level''}. ya_string Y y ''log'' k \<noteq> None) \<and>
     ya_bool Y y ''log'' ''log_to_stderr'' \<noteq> None \<and> (\<forall>k \<in> {''min_port'', ''max_port''}. ya_int Y y ''ice'' k \<noteq> None)"

lemma load_conf_result:
  "load_general_conf Y (Some f) (Some c) = None \<longleftrightarrow> ya_load Y f = None"
  "ya_load Y f = Some y \<Longrightarrow> \<exists>c1. load_general_conf Y (Some f) (Some c) = Some (if conf_complete Y y then 0 else -1, Some c1)"
  by (auto simp: load_general_conf_def conf_entries_def conf_complete_def Let_def bind_eq_None_conv)

lemma log_started:
  "\<exists>r l g. init_log self w c log_initial = Some (r, l, g) \<and> (r = 0 \<longleftrightarrow> w_mkdir w \<noteq> Mk_failed \<and> w_open w \<and> w_open_wf w)"
proof -
  obtain r l g where "xl_init self (w_mkdir w) (w_open w) (w_open_wf w)
      (XrtcLog (gc_log_dir c) (gc_log_name c) (gc_log_level c) (fst (w_log_names w)) (snd (w_log_names w))) log_initial = Some (r, l, g)"
    "r = (if w_mkdir w \<noteq> Mk_failed \<and> w_open w \<and> w_open_wf w then 0 else -1)"
    using init_registers [OF initial_inv, of self] by fastforce
  then show ?thesis by (simp add: init_log_def)
qed

text \<open>Without the general configuration the process ends by an exception; otherwise \<open>main\<close> waits
  exactly if everything it needs is there, and returns -1 if not.\<close>

theorem main_outcome:
  "case ya_load Y ''./conf/general.yaml'' of
     None \<Rightarrow> main_start Y self w = None
   | Some y \<Rightarrow> (\<exists>r. main_start Y self w = Some r \<and>
       ((\<exists>p. r = Main_waits p) =
         (conf_complete Y y \<and> w_mkdir w \<noteq> Mk_failed \<and> w_open w \<and> w_open_wf w \<and>
          fst (init_signaling_server w) = 0 \<and> fst (init_rtc_server w) = 0)))"
proof (cases "ya_load Y ''./conf/general.yaml''")
  case None
  then have "load_general_conf Y (Some ''./conf/general.yaml'') (Some (w_fresh w)) = None" using load_conf_result(1) by blast
  then show ?thesis using None by (simp add: main_start_def init_general_conf_def)
next
  case (Some y)
  obtain c1 where c: "load_general_conf Y (Some ''./conf/general.yaml'') (Some (w_fresh w)) = Some (if conf_complete Y y then 0 else -1, Some c1)"
    using load_conf_result(2) [OF Some] by blast
  obtain r l g where r: "init_log self w c1 log_initial = Some (r, l, g)"
    "r = 0 \<longleftrightarrow> w_mkdir w \<noteq> Mk_failed \<and> w_open w \<and> w_open_wf w" using log_started by blast
  show ?thesis using Some c r by (auto simp: main_start_def init_general_conf_def Let_def)
qed

end
