(* ===== verification/Spec2Isabelle.thy ===== *)
theory Spec2Isabelle
  imports Ice_Channel Signaling_Server Sdp_Roundtrip Rtc_Server Dtls_Safety Dtls_Signals Media_Transport Controller_State Udp_Sockets Query_Buffer Sds_Text Cow_Buffer Startup
begin

text \<open>
  This development models the XRTC media server (\<open>src/cpp/xrtcserver\<close>) and the parts of its base
  library (\<open>src/cpp/rtcbase\<close>, a trimmed copy of \<open>rtc_base\<close> of WebRTC) that the server relies on.

  \<^bold>\<open>The program.\<close>  A signaling front end sends requests over TCP.  The signaling server accepts a
  connection and hands it to one of its workers; the worker frames the bytes into requests, and
  gives a request for a stream to the RTC server, which selects an RTC worker by a checksum of the
  stream's name.  An RTC worker keeps the push and pull streams; a stream has a peer connection, which
  writes the offer, parses the answer and drives a transport controller.  The controller has
  for each media line an ICE channel, a DTLS transport and an SRTP transport.  The ICE channel owns
  UDP ports, filters and authenticates STUN packets, pings its peers and selects a connection; DTLS runs a
  handshake over it and verifies the peer's certificate against the answer; SRTP takes its keys from
  the handshake and protects the media, which the stream manager forwards from a pusher to its puller.
  Threads talk through lock-free queues and pipes; each has an event loop over libev.

  \<^bold>\<open>The theories.\<close>
  \<^item> \<open>Xrtc_Prelude\<close>: names of the machine types, big-endian encoding, reads of raw memory,
    shared lemmas.
  \<^item> Base library: \<open>Byte_Buffer\<close> (\<open>byte_buffer.*\<close>; the contract \<open>byte_codec\<close> is interpreted for
    8, 16, 32 and 64 bits), \<open>Crc32\<close> (\<open>crc32.*\<close>), \<open>Ip_Address\<close> and \<open>Socket_Address\<close> (\<open>ip_address.*\<close>,
    \<open>socket_address.*\<close>; the contract \<open>map_order\<close> of a \<open>std::map\<close> key is interpreted for
    addresses), \<open>String_Encode\<close>, \<open>Message_Digest\<close>, \<open>Buffer_Queue\<close> (\<open>buffer_queue.*\<close>), \<open>Cow_Buffer\<close> (\<open>buffer.h\<close>, \<open>copy_on_write_buffer.*\<close>), \<open>Sds\<close> and
    \<open>Sds_Text\<close> (\<open>sds.*\<close>, the strings of the query buffers), \<open>Ssl_Adapter\<close>
    and \<open>Ssl_Safety\<close> (\<open>openssl_stream_adapter.cc\<close> over OpenSSL as a parameter).
  \<^item> STUN and ICE: \<open>Stun\<close>, \<open>Stun_Auth\<close> (\<open>ice/stun.*\<close>), \<open>Candidate\<close> (\<open>ice/candidate.*\<close>,
    \<open>ice_def.*\<close>, \<open>ice_credentials.*\<close>), \<open>Udp_Port\<close> (\<open>ice/udp_port.*\<close>), \<open>Ice_Connection\<close>
    (\<open>ice/ice_connection.*\<close>, \<open>stun_request.*\<close>), \<open>Ice_Controller\<close> (\<open>ice/ice_controller.*\<close>) with the
    contract \<open>strict_weak_order\<close> of a comparator handed to a stable sort, \<open>Ice_Channel\<close>
    (\<open>ice/ice_transport_channel.*\<close>), \<open>Ice_Signals\<close> (what the channel's signals tell), \<open>Ice_Agent\<close>
    (\<open>ice/ice_agent.*\<close>).
  \<^item> DTLS and SRTP: \<open>Dtls_Transport\<close>, \<open>Dtls_Signals\<close>, \<open>Dtls_Safety\<close> (\<open>pc/dtls_transport.*\<close>),
    \<open>Rtp_Utils\<close> (\<open>module/rtp_rtcp/rtp_utils.*\<close>), \<open>Srtp\<close> and \<open>Srtp_Safety\<close> (\<open>pc/srtp_session.*\<close>,
    \<open>srtp_transport.*\<close>), \<open>Dtls_Srtp\<close> (\<open>pc/dtls_srtp_transport.*\<close>), \<open>Media_Transport\<close> (the two
    together as one step relation).
  \<^item> Descriptions and peers: \<open>Session_Description\<close> (\<open>pc/session_description.*\<close>), \<open>Sdp_Text\<close>, \<open>Sdp_Answer\<close>,
    \<open>Sdp_Roundtrip\<close> and \<open>Peer_Connection\<close> (\<open>pc/peer_connection.*\<close>), \<open>Transport_Controller\<close> and
    \<open>Controller_State\<close> (\<open>pc/transport_controller.*\<close>, as a step relation).
  \<^item> Server: \<open>Lock_Free_Queue\<close> (\<open>base/lock_free_queue.h\<close>, with every interleaving of a producer and
    a consumer), \<open>Signaling_Conn\<close>, \<open>Query_Buffer\<close> (its buffer in memory), \<open>Signaling_Worker\<close>, \<open>Signaling_Server\<close> (\<open>server/*\<close>),
    \<open>Stream_Manager\<close> (\<open>stream/*\<close>), \<open>Rtc_Worker\<close>, \<open>Rtc_Server\<close>, \<open>Event_Loop\<close>
    (\<open>base/event_loop.*\<close>), \<open>Udp_Sockets\<close> (\<open>base/socket.cpp\<close>, \<open>async_udp_socket.*\<close>, \<open>network.*\<close>,
    \<open>ice/port_allocator.*\<close>).
  \<^item> Log and start: \<open>Rtc_Logging\<close> (\<open>rtc_base/logging.*\<close>), \<open>Log_Thread\<close> (\<open>base/log.*\<close>, with every
    interleaving of messages, the writing thread, stopping and log rotation, and the lock of the sinks with
    the signal handler), \<open>Startup\<close> (\<open>base/conf.*\<close>, \<open>main.cpp\<close>).  This theory composes the server's threads for one request.

  \<^bold>\<open>How code becomes definitions.\<close>  A class is a record and a method is a function from the record
  to the record it leaves; names are those of the code, with a prefix where two classes share one.
  Objects that are deleted live in a store from identifiers to records.  \<open>None\<close> as a
  result of an operation is undefined behaviour in the code: a read outside a buffer, a use of a
  deleted object, a null dereference, an exception nothing catches.  Signals within a component
  are calls of the slots connected to them, in the order of the code; where a component is
  modelled on its own its signals are appended to a log, with the state at that moment,
  and the component above runs its slots over the log: \<open>Media_Transport\<close> and \<open>Transport_Controller\<close> do.
  Values keep their width where the code stores them in fixed-width integers that can overflow;
  clocks are integers.

  \<^bold>\<open>Parameters.\<close>  Code outside the repository is an argument with its documented behaviour as a
  hypothesis: the hash function (\<open>sha1_like\<close>), OpenSSL (record \<open>openssl\<close>, hypothesis \<open>openssl_ok\<close>),
  libsrtp (record \<open>libsrtp\<close>, \<open>libsrtp_ok\<close>), the JSON library, the certificate generator,
  \<open>inet_pton\<close> and \<open>inet_ntop\<close>, random bytes, and the answers of system calls.  Each hypothesis is
  satisfied by a concrete instance (\<open>sum_digest\<close>, \<open>demo_ssl\<close>, \<open>demo_srtp\<close>, \<open>demo_lib\<close>).

  \<^bold>\<open>What is shown.\<close>  STUN: messages round trip, what one side builds the other accepts, a changed
  byte is detected, the memory accesses of the validators are characterised.  ICE channel: handlers
  keep an invariant and use no deleted object, except the two shown to; the connection switched to is
  the best one.  DTLS and SRTP: no sequence of inputs reads out of bounds; media passed upwards comes
  from a verified peer; SRTP is active only over such a peer and with the keys RFC 5764 prescribes.
  Controller: the reported connection state is the one of the present states below.  Descriptions:
  an offer is read back as it was made.  Server: framing does not depend on how bytes
  arrive, queues neither lose nor reorder, requests of one stream meet in one worker and a push is
  answered to its connection.  Sockets: datagrams keep their order and are lost only to errors.  Log: nothing is
  lost, doubled or reordered between a message and its file, except by stopping, which is shown.
  Defects found on the way are stated as theorems about the inputs that show them.

  \<^bold>\<open>Termination.\<close>  No fuel is used.  Loops over packets are recursive functions with a measure on
  the bytes that remain.  The loops of the queue (\<open>q_cleanup\<close>, \<open>q_delete_from\<close>), the processing of
  a query buffer, flushing and reading in the adapter are \<open>partial_function\<close>s, shown to return where they
  do; \<open>pipelined_loop\<close> shows an input for which one does not.

  \<^bold>\<open>Not modelled.\<close>  The log calls of the components and strings made for them; the SSL context and cipher tables of
  OpenSSL's adapter; the unused parts of the base library (socket server, threads' message
  loops, tracing, clocks); yaml-cpp; the Go front end.  \<open>PROJECT.json\<close> lists them.
\<close>

subsection \<open>A push from end to end\<close>

text \<open>C2: A push request of a connection travels the whole server: the RTC server gives it
  to the worker its stream name selects, that worker creates the push stream of the requesting
  user and hands back exactly one message without error, and the signaling worker appends the
  reply built from it to the connection that asked.\<close>
theorem push_answered:
  assumes conn: "get_conn fd sw = Some c" "0 < fd" "tc_fd c = fd" "XHEAD_SIZE \<le> length (querybuf c)" "sw_q_msg sw = []"
    and req: "stream_request lib (sw_id sw) CMDNO_PUSH c root lid = Some m"
    and srv: "rsv_ready n cert (\<lambda>_. []) s" "0 < n" "n < 2 ^ 31" "\<not> expired cert"
    and mgr: "manager_reach (rw_mgr (rsv_workers s ! worker_of n m))"
  shows "\<exists>s1 w1 m1 sw1 i st.
     rsv_process_rtc_msg expired generated True (snd (rsv_send_rtc_msg True m s)) = Some s1 \<and>
     rw_process_rtc_msg env (rsv_workers s1 ! worker_of n m) = Some w1 \<and>
     rw_replies w1 = rw_replies (rsv_workers s1 ! worker_of n m) @ [(sw_id sw, m1)] \<and> err_no m1 = 0 \<and>
     find_push_stream (stream_name m) (rw_mgr w1) = Some i \<and> get_stream i (rw_mgr w1) = Some st \<and> rs_uid st = uid m \<and>
     sw_process_rtc_msg lib (snd (sw_send_rtc_msg True m1 sw)) = Some sw1 \<and>
     get_conn fd sw1 = Some (add_reply (make_reply (take XHEAD_SIZE (querybuf c)) (offer_text lib m1)) c)"
proof -
  let ?i = "worker_of n m" and ?m = "m\<lparr>certificate := Some cert\<rparr>"
  have m: "cmdno m = CMDNO_PUSH" "msg_worker m = Some (sw_id sw)" "msg_conn m = Some (tc_addr c)" "msg_fd m = fd" "err_no m = 0"
    using req conn(3) by (auto simp: stream_request_def RtcMsg_def bind_eq_Some_conv)
  have i: "?i < n" using srv(2) by (simp add: worker_of_def)
  from serve_one [of n cert "\<lambda>_. []" s expired generated m, OF srv] obtain s1 where
    s1: "rsv_process_rtc_msg expired generated True (snd (rsv_send_rtc_msg True m s)) = Some s1"
      "rsv_ready n cert ((\<lambda>_. [])(?i := [?m])) s1" "rw_mgr (rsv_workers s1 ! ?i) = rw_mgr (rsv_workers s ! ?i)" by auto
  have q1: "lfq_rel (rw_q (rsv_workers s1 ! ?i)) [?m]" using s1(2) i by (simp add: rsv_ready_def split: if_splits)
  let ?w = "rsv_workers s1 ! ?i"
  from consume_rel [OF q1] obtain q where q: "consume (rw_q ?w) = Some (Some ?m, q)" by auto
  let ?taken = "?w\<lparr>rw_q := q\<rparr>"
  from rw_push_reply [of ?taken ?m "sw_id sw" env] m(1,2) manager_reach_inv [OF mgr] s1(3) obtain offer mgr' j st where
    d: "rw_dispatch env ?m ?taken = Some (?taken\<lparr>rw_mgr := mgr', rw_replies := rw_replies ?w @ [(sw_id sw, ?m\<lparr>sdp := bytes_of_string offer\<rparr>)]\<rparr>)"
      "find_push_stream (stream_name m) mgr' = Some j" "get_stream j mgr' = Some st" "rs_uid st = uid m" by auto
  let ?m1 = "?m\<lparr>sdp := bytes_of_string offer\<rparr>"
  have w1: "rw_process_rtc_msg env ?w = Some (?taken\<lparr>rw_mgr := mgr', rw_replies := rw_replies ?w @ [(sw_id sw, ?m1)]\<rparr>)"
    using q d(1) by (simp add: rw_process_rtc_msg_def rw_pop_msg_def)
  have ci: "conn_index sw fd" using conn(1) by (simp add: get_conn_def split: if_splits)
  have "sw_process_rtc_msg lib (snd (sw_send_rtc_msg True ?m1 sw)) =
      Some (set_conn fd (Some (add_reply (make_reply (take XHEAD_SIZE (querybuf c)) (offer_text lib ?m1)) c))
        (sw\<lparr>sw_pipe := sw_pipe sw @ [RTC_MSG], sw_q_msg := []\<rparr>))"
    using conn ci m
    by (simp add: sw_process_rtc_msg_def sw_send_rtc_msg_def sw_notify_def sw_push_msg_def sw_pop_msg_def response_server_offer_def
        get_conn_def conn_index_def mem_read_def set_conn_def)
  with s1(1) w1 d(2-4) m(5) ci show ?thesis
    by (auto simp: get_conn_def conn_index_def set_conn_def nth_list_update)
qed

definition demo_conn5 :: tcp_connection where
  "demo_conn5 = (TCPConnection 2 5)\<lparr>querybuf := demo_header @ demo_body\<rparr>"

definition demo_sw :: signaling_worker where
  "demo_sw = (SignalingWorker 0 30)\<lparr>sw_conns := replicate 5 None @ [Some demo_conn5]\<rparr>"

theorem push_answered_witness:
  "\<exists>m1 sw1. sw_process_rtc_msg demo_lib (snd (sw_send_rtc_msg True m1 demo_sw)) = Some sw1 \<and> err_no m1 = 0 \<and>
     get_conn 5 sw1 = Some (add_reply (make_reply (take XHEAD_SIZE (querybuf demo_conn5)) (offer_text demo_lib m1)) demo_conn5)"
proof -
  have c: "get_conn 5 demo_sw = Some demo_conn5" "tc_fd demo_conn5 = 5" "XHEAD_SIZE \<le> length (querybuf demo_conn5)" "sw_q_msg demo_sw = []"
    by (simp_all add: demo_sw_def demo_conn5_def get_conn_def conn_index_def SignalingWorker_def nth_append TCPConnection_def
        XHEAD_SIZE_def demo_header_def)
  obtain m where m: "stream_request demo_lib (sw_id demo_sw) CMDNO_PUSH demo_conn5 () 0 = Some m"
    by (simp add: stream_request_def demo_lib_def)
  have i: "worker_of 1 m = 0" by (simp add: worker_of_def)
  have "rw_mgr (rsv_workers (rsv_started 1 5) ! worker_of 1 m) = RtcStreamManager" unfolding i
    by (simp add: rsv_started_def rsv_init_def generate_and_check_certificate_def RtcServer_def rsv_create_worker_def rw_start_def
        RtcWorker_def Let_def numeral_nat)
  then have "manager_reach (rw_mgr (rsv_workers (rsv_started 1 5) ! worker_of 1 m))" using manager_start by simp
  from push_answered [where expired = "\<lambda>_. False" and generated = None and env = demo_env, OF c(1) _ c(2-4) m rsv_started_ready _ _ _ this]
  show ?thesis by auto
qed

end
